(* ===== verification/Zhive_Prelude.thy ===== *)
theory Zhive_Prelude
  imports Main "HOL-Library.Word" "HOL-Library.Sublist"
begin

text \<open>
  Shared vocabulary of the development: the result type of fallible code, the pieces of the Rust
  standard library the sources use on strings and integers (decimal printing, \<open>str::parse\<close> on
  unsigned integers, \<open>contains\<close>, \<open>strip_prefix\<close>, \<open>trim\<close>, saturating arithmetic), the JSON value
  type the wire structures carry, and the collections of facts the component theories extend.
  Rust strings are UTF-8 byte sequences: a \<open>string\<close> here is the list of those bytes.
\<close>

section \<open>Collections of facts\<close>

named_theorems frame_simps "an operation leaves a field it does not write unchanged"
named_theorems inv_intros "an operation keeps its component's invariant"

section \<open>Results, results of a loop body\<close>

text \<open>Rust's \<open>Result<T, E>\<close> is \<open>'e + 'a\<close>: \<open>Inl\<close> is \<open>Err\<close>, \<open>Inr\<close> is \<open>Ok\<close>.\<close>

type_synonym ('a, 'e) rust_result = "'e + 'a"

abbreviation is_ok :: "('a, 'e) rust_result \<Rightarrow> bool" where
  "is_ok r \<equiv> \<not> isl r"

section \<open>Machine integers\<close>

type_synonym u8 = "8 word"
type_synonym u32 = "32 word"
type_synonym u64 = "64 word"

text \<open>
  \<open>usize\<close> is 64 bits wide on the supported targets. Counters that only ever count elements of a
  list in memory are \<open>nat\<close>; counters the program carries as state are words.
\<close>

definition u32_max :: nat where
  "u32_max = 2 ^ 32 - 1"

definition u64_max :: nat where
  "u64_max = 2 ^ 64 - 1"

definition i64_max :: int where
  "i64_max = 2 ^ 63 - 1"

definition i64_min :: int where
  "i64_min = - (2 ^ 63)"

text \<open>\<open>i64::saturating_mul\<close>: the product, clamped to the range of the type.\<close>

definition i64_saturating_mul :: "int \<Rightarrow> int \<Rightarrow> int" where
  "i64_saturating_mul a b = max i64_min (min i64_max (a * b))"

text \<open>\<open>u64::saturating_add\<close> and \<open>u32::try_from(usize).unwrap_or(u32::MAX)\<close>.\<close>

definition u64_saturating_add :: "u64 \<Rightarrow> u64 \<Rightarrow> u64" where
  "u64_saturating_add a b = (if unat a + unat b \<le> u64_max then a + b else of_nat u64_max)"

definition u32_of_len :: "nat \<Rightarrow> u32" where
  "u32_of_len n = (if n \<le> u32_max then of_nat n else of_nat u32_max)"

lemma u32_max_eq: "u32_max = 4294967295"
  by (simp add: u32_max_def)

lemma u64_max_eq: "u64_max = 18446744073709551615"
  by (simp add: u64_max_def)

lemma unat_u32_of_len: "unat (u32_of_len n) = min n u32_max"
  by (auto simp: u32_of_len_def u32_max_eq unat_of_nat min_def)

lemma unat_u64_le: "unat (w :: u64) \<le> u64_max"
  using unsigned_less [where 'a = nat, of w] by (simp add: u64_max_eq)

lemma unat_u64_saturating_add:
  "unat (u64_saturating_add a b) = min (unat a + unat b) u64_max"
  by (auto simp: u64_saturating_add_def u64_max_eq unat_word_ariths min_def)

lemma i64_saturating_mul_bounds:
  "i64_min \<le> i64_saturating_mul a b" "i64_saturating_mul a b \<le> i64_max"
  by (auto simp: i64_saturating_mul_def i64_min_def i64_max_def)

section \<open>Decimal numbers\<close>

definition digit_char :: "nat \<Rightarrow> char" where
  "digit_char d = char_of (48 + d)"

definition digit_val :: "char \<Rightarrow> nat option" where
  "digit_val c = (if 48 \<le> (of_char c :: nat) \<and> (of_char c :: nat) \<le> 57
                  then Some (of_char c - 48) else None)"

text \<open>\<open>format!("{}", n)\<close>.\<close>

fun show_nat :: "nat \<Rightarrow> string" where
  "show_nat n = (if n < 10 then [digit_char n] else show_nat (n div 10) @ [digit_char (n mod 10)])"

declare show_nat.simps [simp del]

text \<open>
  \<open>str::parse\<close> at an unsigned type whose largest value is \<open>m\<close>: an optional leading plus sign, then
  one or more decimal digits, each step checked against overflow.
\<close>

fun parse_digits :: "nat \<Rightarrow> nat \<Rightarrow> string \<Rightarrow> nat option" where
  "parse_digits m acc [] = Some acc"
| "parse_digits m acc (c # cs) =
     (case digit_val c of
        None \<Rightarrow> None
      | Some d \<Rightarrow> (if acc * 10 + d \<le> m then parse_digits m (acc * 10 + d) cs else None))"

definition parse_uint :: "nat \<Rightarrow> string \<Rightarrow> nat option" where
  "parse_uint m s =
     (case s of
        [] \<Rightarrow> None
      | c # cs \<Rightarrow> (if c = CHR ''+'' then (if cs = [] then None else parse_digits m 0 cs)
                   else parse_digits m 0 s))"

lemma digit_val_digit_char [simp]: "d < 10 \<Longrightarrow> digit_val (digit_char d) = Some d"
  by (simp add: digit_val_def digit_char_def)

lemma digit_char_not_plus: "d < 10 \<Longrightarrow> digit_char d \<noteq> CHR ''+''"
proof
  assume d: "d < 10" and "digit_char d = CHR ''+''"
  then have "digit_val (CHR ''+'') = Some d"
    using digit_val_digit_char [OF d] by simp
  then show False by (simp add: digit_val_def)
qed

lemma show_nat_nonempty [simp]: "show_nat n \<noteq> []"
  by (subst show_nat.simps) simp

lemma show_nat_digits: "c \<in> set (show_nat n) \<Longrightarrow> \<exists>d<10. c = digit_char d"
proof (induction n rule: show_nat.induct)
  case (1 n)
  show ?case
  proof (cases "n < 10")
    case True
    with "1.prems" show ?thesis by (subst (asm) show_nat.simps) auto
  next
    case False
    with "1.prems" have "c \<in> set (show_nat (n div 10)) \<or> c = digit_char (n mod 10)"
      by (subst (asm) show_nat.simps) auto
    with "1.IH" [OF False] show ?thesis
      by (metis mod_less_divisor zero_less_numeral)
  qed
qed

lemma parse_digits_snoc:
  "parse_digits m acc (cs @ [c]) =
     (case parse_digits m acc cs of
        None \<Rightarrow> None
      | Some v \<Rightarrow> (case digit_val c of
                    None \<Rightarrow> None
                  | Some d \<Rightarrow> (if v * 10 + d \<le> m then Some (v * 10 + d) else None)))"
  by (induction m acc cs rule: parse_digits.induct) (auto split: option.splits)

lemma parse_digits_show_nat: "n \<le> m \<Longrightarrow> parse_digits m 0 (show_nat n) = Some n"
proof (induction n rule: show_nat.induct)
  case (1 n)
  show ?case
  proof (cases "n < 10")
    case True
    with "1.prems" show ?thesis by (subst show_nat.simps) simp
  next
    case False
    have "n div 10 \<le> m" using "1.prems" by (meson div_le_dividend le_trans)
    then have "parse_digits m 0 (show_nat (n div 10)) = Some (n div 10)"
      by (rule "1.IH" [OF False])
    with False "1.prems" show ?thesis
      by (subst show_nat.simps) (simp add: parse_digits_snoc)
  qed
qed

lemma parse_uint_show_nat: "n \<le> m \<Longrightarrow> parse_uint m (show_nat n) = Some n"
proof -
  assume "n \<le> m"
  then have p: "parse_digits m 0 (show_nat n) = Some n" by (rule parse_digits_show_nat)
  obtain c cs where s: "show_nat n = c # cs" by (cases "show_nat n") auto
  then have "c \<noteq> CHR ''+''"
    using show_nat_digits [of c n] digit_char_not_plus by auto
  with p s show ?thesis by (simp add: parse_uint_def)
qed

lemma show_nat_length: "n < 10 ^ Suc k \<Longrightarrow> length (show_nat n) \<le> Suc k"
proof (induction k arbitrary: n)
  case 0
  then show ?case by (subst show_nat.simps) simp
next
  case (Suc k)
  then have "n div 10 < 10 ^ Suc k" by simp
  then have "length (show_nat (n div 10)) \<le> Suc k" by (rule Suc.IH)
  then show ?case by (subst show_nat.simps) simp
qed

lemma show_nat_inj: "show_nat m = show_nat n \<longleftrightarrow> m = n"
proof
  assume "show_nat m = show_nat n"
  then have "parse_uint (max m n) (show_nat m) = parse_uint (max m n) (show_nat n)" by simp
  then show "m = n" by (simp add: parse_uint_show_nat)
qed simp

lemma parse_digits_le: "parse_digits m acc cs = Some v \<Longrightarrow> acc \<le> m \<Longrightarrow> v \<le> m"
  by (induction m acc cs rule: parse_digits.induct) (auto split: option.splits if_splits)

lemma parse_uint_le: "parse_uint m s = Some v \<Longrightarrow> v \<le> m"
  using parse_digits_le [of m 0]
  by (auto simp: parse_uint_def simp del: parse_digits.simps split: list.splits if_splits)

section \<open>Strings\<close>

text \<open>\<open>str::contains\<close> on a literal pattern, \<open>str::strip_prefix\<close> and \<open>str::starts_with\<close>.\<close>

fun str_contains :: "string \<Rightarrow> string \<Rightarrow> bool" where
  "str_contains [] pat = (pat = [])"
| "str_contains (c # cs) pat = (prefix pat (c # cs) \<or> str_contains cs pat)"

definition starts_with :: "string \<Rightarrow> string \<Rightarrow> bool" where
  "starts_with s pat = prefix pat s"

definition strip_prefix :: "string \<Rightarrow> string \<Rightarrow> string option" where
  "strip_prefix pat s = (if prefix pat s then Some (drop (length pat) s) else None)"

lemma strip_prefix_append [simp]: "strip_prefix pat (pat @ s) = Some s"
  by (simp add: strip_prefix_def)

lemma strip_prefix_Some: "strip_prefix pat s = Some r \<longleftrightarrow> s = pat @ r"
  by (auto simp: strip_prefix_def prefix_def)

lemma str_contains_iff: "str_contains s pat \<longleftrightarrow> sublist pat s"
  by (induction s) (auto simp: sublist_Cons_right)

text \<open>\<open>str::cmp\<close> compares bytes.\<close>

definition byte_order :: "string \<Rightarrow> nat list" where
  "byte_order s = map of_char s"

lemma byte_order_inj: "byte_order a = byte_order b \<longleftrightarrow> a = b"
proof
  assume "byte_order a = byte_order b"
  then show "a = b" unfolding byte_order_def by (rule map_injective) (simp add: inj_def)
qed simp

text \<open>A property of both branches is a property of the conditional, whatever its test.\<close>

lemma if_both: "P a \<Longrightarrow> P b \<Longrightarrow> P (if c then a else b)"
  by simp

section \<open>JSON values\<close>

text \<open>
  The public constructors of \<open>serde_json::Value\<close>, the ones the sources match on and build. A number
  is its decimal text; an object keeps its entries in a list. Parsing and printing of JSON text is
  third-party code: where a component uses it, it is a parameter.
\<close>

datatype json =
    Null
  | Bool bool
  | Number string
  | String string
  | Array "json list"
  | Object "(string \<times> json) list"

section \<open>Lists\<close>

text \<open>\<open>Iterator::position\<close>.\<close>

fun position :: "('a \<Rightarrow> bool) \<Rightarrow> 'a list \<Rightarrow> nat option" where
  "position P [] = None"
| "position P (x # xs) = (if P x then Some 0 else map_option Suc (position P xs))"

lemma position_Some:
  "position P xs = Some i \<Longrightarrow> i < length xs \<and> P (xs ! i) \<and> (\<forall>j<i. \<not> P (xs ! j))"
  by (induction xs arbitrary: i)
     (auto split: if_splits simp: less_Suc_eq_0_disj nth_Cons split: nat.splits)

lemma position_None: "position P xs = None \<longleftrightarrow> (\<forall>x\<in>set xs. \<not> P x)"
  by (induction xs) auto

lemma position_nth_distinct:
  assumes "distinct xs" "i < length xs"
  shows "position (\<lambda>x. x = xs ! i) xs = Some i"
  using assms
proof (induction xs arbitrary: i)
  case (Cons x xs)
  then show ?case by (cases i) auto
qed simp

text \<open>The last element a predicate holds of: a scan that overwrites its candidate.\<close>

definition last_such :: "('a \<Rightarrow> bool) \<Rightarrow> 'a list \<Rightarrow> 'a option" where
  "last_such P xs = (if filter P xs = [] then None else Some (last (filter P xs)))"

lemma last_such_Nil [simp]: "last_such P [] = None"
  by (simp add: last_such_def)

lemma last_such_snoc [simp]:
  "last_such P (xs @ [x]) = (if P x then Some x else last_such P xs)"
  by (simp add: last_such_def)

lemma last_such_None: "last_such P xs = None \<longleftrightarrow> (\<forall>x\<in>set xs. \<not> P x)"
  by (simp add: last_such_def filter_empty_conv)

lemma last_such_Some: "last_such P xs = Some x \<Longrightarrow> P x \<and> x \<in> set xs"
proof (induction xs rule: rev_induct)
  case (snoc y ys)
  then show ?case by (auto split: if_splits)
qed simp

lemma map_le_upd: "m k = None \<Longrightarrow> m \<subseteq>\<^sub>m m(k \<mapsto> v)"
  by (auto simp: map_le_def)

end
