(* ===== verification/Domain.thy ===== *)
theory Domain
  imports Zhive_Prelude
begin

text \<open>
  The wire data model of \<open>zhive-proto/src/domain.rs\<close>: identifiers, the Thread, Turn and Item
  primitives and the reasoning-effort levels with their cycling rule. Enum variants keep their names
  and are written qualified (\<open>turn_status.Completed\<close>), as in the source. Timestamps are \<open>int\<close> (the
  source's \<open>i64\<close> seconds), paths and text are byte strings.
\<close>

section \<open>Identifiers\<close>

datatype thread_id = ThreadId string
datatype turn_id = TurnId string
datatype item_id = ItemId string
datatype acp_session_id = AcpSessionId string

primrec thread_id_str :: "thread_id \<Rightarrow> string" where
  "thread_id_str (ThreadId s) = s"

primrec turn_id_str :: "turn_id \<Rightarrow> string" where
  "turn_id_str (TurnId s) = s"

primrec item_id_str :: "item_id \<Rightarrow> string" where
  "item_id_str (ItemId s) = s"

text \<open>A restore point of the file tree, taken at the start of a turn.\<close>

record checkpoint =
  cp_turn_id :: turn_id
  cp_tree :: string
  cp_preview :: string
  cp_created_at :: int
  cp_files_changed :: u32

section \<open>Items\<close>

datatype resource_contents =
    Text string string "string option"
  | Blob string string "string option"

datatype item_content =
    Text string "json option"
  | Image string string "string option"
  | Audio string string
  | ResourceLink string "string option" "string option" "string option"
  | Resource resource_contents

datatype item_tool_call_content =
    Content item_content
  | Diff string "string option" string
  | Terminal string

datatype tool_kind =
  Read | Edit | Delete | Move | Search | Execute | Think | Fetch | SwitchMode | Other

datatype tool_call_status = Pending | InProgress | Completed | Failed

record tool_call_location =
  tcl_path :: string
  tcl_line :: "u32 option"

datatype command_execution_status = InProgress | Completed | Failed

datatype patch_apply_status = Pending | Applied | Failed

datatype patch_change_kind = Create | Update | Delete | Rename

record file_update_change =
  fuc_path :: string
  fuc_kind :: patch_change_kind
  fuc_old_text :: "string option"
  fuc_new_text :: "string option"

datatype plan_step_status = Pending | InProgress | Completed

record plan_step =
  ps_step :: string
  ps_status :: plan_step_status

record available_command =
  ac_name :: string
  ac_description :: "string option"

datatype notice_level = Info | Warn | Error

text \<open>
  The fields of an \<open>Item::ToolCall\<close>, apart from its id, in the order of the source: name, title,
  kind, status, content, locations, raw input, raw output, the provider's own call id.
\<close>

datatype item =
    UserMessage item_id "item_content list"
  | AgentMessage item_id string
  | AgentThought item_id string
  | Reasoning item_id "string list"
  | ToolCall item_id string "string option" tool_kind tool_call_status
      "item_tool_call_content list" "tool_call_location list"
      "json option" "json option" "string option"
  | CommandExecution item_id string string command_execution_status
      "32 word option" "string option" "int option"
  | FileEdit item_id "file_update_change list" patch_apply_status
  | Diff item_id string "string option" string
  | Terminal item_id string
  | Plan item_id "plan_step list"
  | AvailableCommands item_id "available_command list"
  | ModeChange item_id string
  | ContextCompaction item_id
  | SystemNotice item_id notice_level string

text \<open>\<open>Item::id\<close>.\<close>

fun item_id_of :: "item \<Rightarrow> item_id" where
  "item_id_of (UserMessage i _) = i"
| "item_id_of (AgentMessage i _) = i"
| "item_id_of (AgentThought i _) = i"
| "item_id_of (Reasoning i _) = i"
| "item_id_of (ToolCall i _ _ _ _ _ _ _ _ _) = i"
| "item_id_of (CommandExecution i _ _ _ _ _ _) = i"
| "item_id_of (FileEdit i _ _) = i"
| "item_id_of (item.Diff i _ _ _) = i"
| "item_id_of (item.Terminal i _) = i"
| "item_id_of (Plan i _) = i"
| "item_id_of (AvailableCommands i _) = i"
| "item_id_of (ModeChange i _) = i"
| "item_id_of (ContextCompaction i) = i"
| "item_id_of (SystemNotice i _ _) = i"

text \<open>\<open>Item::set_id\<close>.\<close>

fun set_id :: "item_id \<Rightarrow> item \<Rightarrow> item" where
  "set_id n (UserMessage _ c) = UserMessage n c"
| "set_id n (AgentMessage _ t) = AgentMessage n t"
| "set_id n (AgentThought _ t) = AgentThought n t"
| "set_id n (Reasoning _ s) = Reasoning n s"
| "set_id n (ToolCall _ nm ti k st c l ri ro p) = ToolCall n nm ti k st c l ri ro p"
| "set_id n (CommandExecution _ c d st e a m) = CommandExecution n c d st e a m"
| "set_id n (FileEdit _ c st) = FileEdit n c st"
| "set_id n (item.Diff _ p old new) = item.Diff n p old new"
| "set_id n (item.Terminal _ t) = item.Terminal n t"
| "set_id n (Plan _ s) = Plan n s"
| "set_id n (AvailableCommands _ c) = AvailableCommands n c"
| "set_id n (ModeChange _ m) = ModeChange n m"
| "set_id n (ContextCompaction _) = ContextCompaction n"
| "set_id n (SystemNotice _ l m) = SystemNotice n l m"

lemma item_id_of_set_id [simp]: "item_id_of (set_id n it) = n"
  by (cases it) auto

lemma set_id_item_id_of [simp]: "set_id (item_id_of it) it = it"
  by (cases it) auto

lemma set_id_set_id [simp]: "set_id m (set_id n it) = set_id m it"
  by (cases it) auto

section \<open>Turns\<close>

datatype turn_items_view = NotLoaded | Summary | Full

datatype turn_status = InProgress | Completed | Interrupted | Failed

record turn_error =
  te_message :: string
  te_additional_details :: "string option"

record turn =
  t_id :: turn_id
  t_items :: "item list"
  t_items_view :: turn_items_view
  t_status :: turn_status
  t_error :: "turn_error option"
  t_started_at :: "int option"
  t_completed_at :: "int option"
  t_duration_ms :: "int option"

section \<open>Threads\<close>

datatype thread_active_flag =
  WaitingOnApproval | WaitingOnUserInput | TurnInProgress | SubagentInProgress

datatype thread_status =
  NotLoaded | Idle | Active "thread_active_flag list" | SystemError

datatype thread_source = User | Subagent | MemoryConsolidation

record thread =
  th_id :: thread_id
  th_session_id :: "acp_session_id option"
  th_forked_from :: "thread_id option"
  th_subagent_parent :: "thread_id option"
  th_preview :: string
  th_ephemeral :: bool
  th_model_provider :: string
  th_created_at :: int
  th_updated_at :: int
  th_status :: thread_status
  th_cwd :: string
  th_source :: thread_source
  th_name :: "string option"
  th_turns :: "turn list"

section \<open>Reasoning effort\<close>

datatype thinking_effort = Off | Minimal | Low | Medium | High | Xhigh | MaxEffort

definition is_enabled :: "thinking_effort \<Rightarrow> bool" where
  "is_enabled e = (e \<noteq> Off)"

fun label :: "thinking_effort \<Rightarrow> string" where
  "label Off = ''off''"
| "label Minimal = ''minimal''"
| "label Low = ''low''"
| "label Medium = ''medium''"
| "label High = ''high''"
| "label Xhigh = ''xhigh''"
| "label MaxEffort = ''max''"

definition from_label :: "string \<Rightarrow> thinking_effort option" where
  "from_label s =
     (if s = ''off'' then Some Off
      else if s = ''minimal'' then Some Minimal
      else if s = ''low'' then Some Low
      else if s = ''medium'' then Some Medium
      else if s = ''high'' then Some High
      else if s = ''xhigh'' then Some Xhigh
      else if s = ''max'' then Some MaxEffort
      else None)"

text \<open>\<open>ThinkingEffort::cycle_for\<close>: the levels a provider's model offers.\<close>

definition cycle_for :: "string \<Rightarrow> string \<Rightarrow> thinking_effort list" where
  "cycle_for provider model_id =
     (if provider = ''anthropic'' then
        (if str_contains model_id ''claude-opus-4-7'' \<or> str_contains model_id ''claude-opus-4-8''
         then [Off, Low, Medium, High, Xhigh, MaxEffort]
         else if str_contains model_id ''claude-opus-4-6'' then [Off, Low, Medium, High, MaxEffort]
         else if str_contains model_id ''claude-opus-4-5''
                 \<or> str_contains model_id ''claude-sonnet-4-6''
         then [Off, Low, Medium, High]
         else [Off])
      else if provider = ''openai'' then
        (if str_contains model_id ''-chat'' then [Off, Medium]
         else if str_contains model_id ''-pro'' then [Off, High]
         else if str_contains model_id ''codex-max'' then [Off, Low, Medium, High, Xhigh]
         else if str_contains model_id ''codex'' \<or> str_contains model_id ''gpt-5.1''
         then [Off, Low, Medium, High]
         else if str_contains model_id ''gpt-5.2'' \<or> str_contains model_id ''gpt-5.3''
                 \<or> str_contains model_id ''gpt-5.4'' \<or> str_contains model_id ''gpt-5.5''
         then [Off, Low, Medium, High, Xhigh]
         else if str_contains model_id ''gpt-5'' then [Off, Minimal, Low, Medium, High]
         else if starts_with model_id ''o1'' \<or> starts_with model_id ''o3''
                 \<or> starts_with model_id ''o4''
         then [Off, Low, Medium, High]
         else [Off])
      else [Off, Low, Medium, High])"

text \<open>\<open>ThinkingEffort::cycle_next\<close>.\<close>

definition cycle_next :: "thinking_effort \<Rightarrow> thinking_effort list \<Rightarrow> thinking_effort" where
  "cycle_next e levels =
     (case position (\<lambda>l. l = e) levels of
        Some i \<Rightarrow> levels ! ((i + 1) mod length levels)
      | None \<Rightarrow> (case levels of [] \<Rightarrow> Off | l # _ \<Rightarrow> l))"

text \<open>The lists \<open>cycle_for\<close> offers: no repetition, and they start at \<open>Off\<close>.\<close>

definition cycle_shape :: "thinking_effort list \<Rightarrow> bool" where
  "cycle_shape ls = (distinct ls \<and> ls \<noteq> [] \<and> hd ls = Off)"

lemma cycle_for_shape: "cycle_shape (cycle_for p m)"
  unfolding cycle_for_def by (intro if_both [where P = cycle_shape]) (simp_all add: cycle_shape_def)

lemma cycle_next_nth:
  "distinct ls \<Longrightarrow> i < length ls \<Longrightarrow> cycle_next (ls ! i) ls = ls ! (Suc i mod length ls)"
  by (simp add: cycle_next_def position_nth_distinct)

lemma cycle_next_pow:
  assumes "distinct ls" "i < length ls"
  shows "((\<lambda>e. cycle_next e ls) ^^ n) (ls ! i) = ls ! ((i + n) mod length ls)"
proof (induction n)
  case 0
  then show ?case using assms(2) by simp
next
  case (Suc n)
  have "0 < length ls" using assms(2) by auto
  with assms(1) show ?case by (simp add: Suc cycle_next_nth mod_Suc_eq)
qed

section \<open>Properties\<close>

text \<open>
  for every provider and model the effort key cycles through the offered levels: starting at
  \<open>Off\<close> it visits each exactly once, in order, and comes back.
\<close>

theorem effort_cycle_closes:
  "map (\<lambda>n. ((\<lambda>e. cycle_next e (cycle_for p m)) ^^ n) Off) [0..<length (cycle_for p m)] = cycle_for p m \<and>
   distinct (cycle_for p m) \<and>
   ((\<lambda>e. cycle_next e (cycle_for p m)) ^^ length (cycle_for p m)) Off = Off"
proof -
  let ?ls = "cycle_for p m"
  have s: "distinct ?ls" "0 < length ?ls" "?ls ! 0 = Off"
    using cycle_for_shape [of p m] by (auto simp: cycle_shape_def hd_conv_nth)
  have pow: "((\<lambda>e. cycle_next e ?ls) ^^ n) Off = ?ls ! (n mod length ?ls)" for n
    using cycle_next_pow [OF s(1,2), of n] s(3) by simp
  have "map (\<lambda>n. ?ls ! (n mod length ?ls)) [0..<length ?ls] = ?ls"
    by (rule nth_equalityI) auto
  with s pow show ?thesis by simp
qed

end
