(* ===== verification/Permission.thy ===== *)
theory Permission
  imports Domain
begin

text \<open>
  Permission negotiation: the wire types and the pure folding of \<open>zhive-proto/src/permission.rs\<close>
  together with the mode-aware \<open>evaluate\<close> of \<open>zhive-core/src/permission.rs\<close>. The two enumerations
  are instances of \<open>linorder\<close> (more restrictive is larger for a decision, more permissive is
  larger for a mode), so that the loop of \<open>reduce\<close> and the rank comparison of \<open>narrowed_into\<close> can
  be related to \<open>Max\<close> and \<open>\<le>\<close>.
\<close>

section \<open>Decisions\<close>

datatype permission_decision = Deny | Defer | Ask | Allow

text \<open>One iteration of the loop of \<open>reduce\<close>: the match on the pair, arm by arm.\<close>

fun reduce_step :: "permission_decision \<Rightarrow> permission_decision \<Rightarrow> permission_decision" where
  "reduce_step best d =
     (if best = Deny \<or> d = Deny then Deny
      else if best = Defer \<or> d = Defer then Defer
      else if best = Ask \<or> d = Ask then Ask
      else Allow)"

definition reduce :: "permission_decision list \<Rightarrow> permission_decision" where
  "reduce decisions = foldl reduce_step Allow decisions"

text \<open>The documented priority \<open>Deny > Defer > Ask > Allow\<close>, as an order on decisions.\<close>

fun severity :: "permission_decision \<Rightarrow> nat" where
  "severity Deny = 3"
| "severity Defer = 2"
| "severity Ask = 1"
| "severity Allow = 0"

instantiation permission_decision :: linorder
begin
definition less_eq_permission_decision :: "permission_decision \<Rightarrow> permission_decision \<Rightarrow> bool" where
  "d \<le> e \<longleftrightarrow> severity d \<le> severity e"
definition less_permission_decision :: "permission_decision \<Rightarrow> permission_decision \<Rightarrow> bool" where
  "d < e \<longleftrightarrow> severity d < severity (e :: permission_decision)"
instance
proof
  fix x y z :: permission_decision
  show "x < y \<longleftrightarrow> x \<le> y \<and> \<not> y \<le> x" "x \<le> x" "x \<le> y \<or> y \<le> x"
    by (auto simp: less_eq_permission_decision_def less_permission_decision_def)
  show "x \<le> y \<Longrightarrow> y \<le> z \<Longrightarrow> x \<le> z"
    by (simp add: less_eq_permission_decision_def)
  show "x \<le> y \<Longrightarrow> y \<le> x \<Longrightarrow> x = y"
    by (cases x; cases y) (auto simp: less_eq_permission_decision_def)
qed
end

lemma reduce_step_max: "reduce_step a b = max a b"
  by (cases a; cases b) (auto simp: max_def less_eq_permission_decision_def)

lemma Allow_least [simp]: "Allow \<le> d"
  by (simp add: less_eq_permission_decision_def)

lemma Deny_greatest [simp]: "d \<le> Deny"
  by (cases d) (auto simp: less_eq_permission_decision_def)

lemma foldl_reduce_step: "foldl reduce_step a ds = Max (insert a (set ds))"
proof (induction ds arbitrary: a)
  case (Cons d ds)
  have "foldl reduce_step a (d # ds) = foldl reduce_step (reduce_step a d) ds"
    by (simp del: reduce_step.simps)
  also have "\<dots> = Max (insert (max a d) (set ds))"
    by (simp only: Cons reduce_step_max)
  also have "\<dots> = Max (insert a (set (d # ds)))"
    by (cases "set ds = {}") (simp_all add: Max_insert max.assoc max.commute max.left_commute)
  finally show ?case .
qed simp

lemma reduce_eq_Max: "reduce ds = Max (insert Allow (set ds))"
  by (simp add: reduce_def foldl_reduce_step)

lemma reduce_ge: "d \<in> set ds \<Longrightarrow> d \<le> reduce ds"
  by (simp add: reduce_eq_Max)

lemma reduce_in: "reduce ds = Allow \<or> reduce ds \<in> set ds"
proof -
  have "Max (insert Allow (set ds)) \<in> insert Allow (set ds)" by (intro Max_in) auto
  then show ?thesis by (simp add: reduce_eq_Max)
qed

lemma reduce_Deny_iff: "reduce ds = Deny \<longleftrightarrow> Deny \<in> set ds"
  using reduce_in [of ds] reduce_ge [of Deny ds] Deny_greatest [of "reduce ds"]
  by (auto dest: antisym)

lemma reduce_Allow_iff: "reduce ds = Allow \<longleftrightarrow> set ds \<subseteq> {Allow}"
proof
  assume r: "reduce ds = Allow"
  show "set ds \<subseteq> {Allow}"
  proof
    fix d assume "d \<in> set ds"
    then have "d \<le> Allow" using reduce_ge r by metis
    then show "d \<in> {Allow}" by (simp add: antisym)
  qed
next
  assume "set ds \<subseteq> {Allow}"
  then show "reduce ds = Allow" using reduce_in [of ds] by auto
qed

lemma reduce_append: "reduce (ds @ es) = max (reduce ds) (reduce es)"
proof -
  have "reduce (ds @ es) = Max (insert Allow (set ds) \<union> insert Allow (set es))"
    by (simp add: reduce_eq_Max insert_commute Un_commute)
  also have "\<dots> = max (reduce ds) (reduce es)"
    by (subst Max_Un) (auto simp: reduce_eq_Max)
  finally show ?thesis .
qed

section \<open>Modes and scopes\<close>

datatype permission_mode = Default | AcceptEdits | BypassPermissions | Plan

definition rank :: "permission_mode \<Rightarrow> u8" where
  "rank m = (case m of BypassPermissions \<Rightarrow> 3 | AcceptEdits \<Rightarrow> 2 | Default \<Rightarrow> 1 | Plan \<Rightarrow> 0)"

definition mode_narrows :: "permission_mode \<Rightarrow> permission_mode \<Rightarrow> bool" where
  "mode_narrows parent child = (rank child \<le> rank parent)"

instantiation permission_mode :: linorder
begin
definition less_eq_permission_mode :: "permission_mode \<Rightarrow> permission_mode \<Rightarrow> bool" where
  "m \<le> n \<longleftrightarrow> rank m \<le> rank n"
definition less_permission_mode :: "permission_mode \<Rightarrow> permission_mode \<Rightarrow> bool" where
  "m < n \<longleftrightarrow> rank m < rank n"
instance
proof
  fix x y z :: permission_mode
  show "x < y \<longleftrightarrow> x \<le> y \<and> \<not> y \<le> x" "x \<le> x" "x \<le> y \<or> y \<le> x"
    by (auto simp: less_eq_permission_mode_def less_permission_mode_def)
  show "x \<le> y \<Longrightarrow> y \<le> z \<Longrightarrow> x \<le> z"
    by (simp add: less_eq_permission_mode_def)
  show "x \<le> y \<Longrightarrow> y \<le> x \<Longrightarrow> x = y"
    by (cases x; cases y) (auto simp: less_eq_permission_mode_def rank_def word_le_nat_alt)
qed
end

lemma mode_narrows_iff: "mode_narrows parent child \<longleftrightarrow> child \<le> parent"
  by (simp add: mode_narrows_def less_eq_permission_mode_def)

lemma Bypass_greatest [simp]: "m \<le> BypassPermissions"
  by (cases m) (simp_all add: less_eq_permission_mode_def rank_def)

datatype tool_name = ToolName string

primrec tool_name_str :: "tool_name \<Rightarrow> string" where
  "tool_name_str (ToolName s) = s"

record permission_scope =
  allowed_tools :: "tool_name list option"
  disallowed_tools :: "tool_name list"
  permission_mode :: "permission_mode option"
  allow_subagent_spawn :: bool

datatype scope_error =
    ToolNotInherited tool_name
  | ChildMustExplicitlyNarrow
  | DisallowedToolDropped tool_name
  | ModeWidened permission_mode permission_mode
  | RecursionForbidden

definition default_turn_scope :: permission_scope where
  "default_turn_scope =
     \<lparr>allowed_tools = None, disallowed_tools = [], permission_mode = None,
      allow_subagent_spawn = False\<rparr>"

definition permits :: "permission_scope \<Rightarrow> string \<Rightarrow> bool" where
  "permits scope name =
     (if list_ex (\<lambda>t. tool_name_str t = name) (disallowed_tools scope) then False
      else (case allowed_tools scope of
              Some allow \<Rightarrow> list_ex (\<lambda>t. tool_name_str t = name) allow
            | None \<Rightarrow> True))"

text \<open>
  \<open>PermissionScope::narrowed_into\<close>: the allowlist check, the denylist loop, the mode check and
  the spawn flag, each returning at its first failure.
\<close>

definition check_allowed :: "permission_scope \<Rightarrow> permission_scope \<Rightarrow> (unit, scope_error) rust_result" where
  "check_allowed parent child =
     (case (allowed_tools parent, allowed_tools child) of
        (Some parent_set, Some child_set) \<Rightarrow>
          (case find (\<lambda>t. t \<notin> set parent_set) child_set of
             Some t \<Rightarrow> Inl (ToolNotInherited t)
           | None \<Rightarrow> Inr ())
      | (Some _, None) \<Rightarrow> Inl ChildMustExplicitlyNarrow
      | _ \<Rightarrow> Inr ())"

definition narrowed_into :: "permission_scope \<Rightarrow> permission_scope \<Rightarrow> (unit, scope_error) rust_result" where
  "narrowed_into parent child =
     (case check_allowed parent child of
        Inl e \<Rightarrow> Inl e
      | Inr _ \<Rightarrow>
          (case find (\<lambda>t. t \<notin> set (disallowed_tools child)) (disallowed_tools parent) of
             Some t \<Rightarrow> Inl (DisallowedToolDropped t)
           | None \<Rightarrow>
               (case (permission_mode parent, permission_mode child) of
                  (Some p, Some c) \<Rightarrow>
                    (if \<not> mode_narrows p c then Inl (ModeWidened p c)
                     else if allow_subagent_spawn child then Inl RecursionForbidden else Inr ())
                | _ \<Rightarrow> if allow_subagent_spawn child then Inl RecursionForbidden else Inr ())))"

lemma find_None_subset: "find (\<lambda>t. t \<notin> A) xs = None \<longleftrightarrow> set xs \<subseteq> A"
  by (auto simp: find_None_iff)

lemma find_Some_not_subset: "find (\<lambda>t. t \<notin> A) xs = Some t \<Longrightarrow> t \<in> set xs \<and> t \<notin> A"
  by (auto simp: find_Some_iff)

text \<open>What acceptance means, field by field.\<close>

definition narrows :: "permission_scope \<Rightarrow> permission_scope \<Rightarrow> bool" where
  "narrows parent child \<longleftrightarrow>
     (case allowed_tools parent of
        None \<Rightarrow> True
      | Some ps \<Rightarrow> (case allowed_tools child of None \<Rightarrow> False | Some cs \<Rightarrow> set cs \<subseteq> set ps)) \<and>
     set (disallowed_tools parent) \<subseteq> set (disallowed_tools child) \<and>
     (case (permission_mode parent, permission_mode child) of
        (Some p, Some c) \<Rightarrow> c \<le> p | _ \<Rightarrow> True) \<and>
     \<not> allow_subagent_spawn child"

lemma check_allowed_ok:
  "check_allowed p c = Inr () \<longleftrightarrow>
     (case allowed_tools p of
        None \<Rightarrow> True
      | Some ps \<Rightarrow> (case allowed_tools c of None \<Rightarrow> False | Some cs \<Rightarrow> set cs \<subseteq> set ps))"
  by (auto simp: check_allowed_def find_None_subset split: option.splits dest: find_Some_not_subset)

lemma narrowed_into_ok: "narrowed_into p c = Inr () \<longleftrightarrow> narrows p c"
proof (cases "check_allowed p c")
  case (Inl e)
  then have "\<not> narrows p c" using check_allowed_ok [of p c] by (auto simp: narrows_def)
  with Inl show ?thesis by (simp add: narrowed_into_def)
next
  case (Inr u)
  then have "check_allowed p c = Inr ()" by simp
  then show ?thesis
    using check_allowed_ok [of p c]
    by (auto simp: narrowed_into_def narrows_def mode_narrows_iff find_None_subset
             split: option.splits dest: find_Some_not_subset)
qed

lemma permits_iff:
  "permits s name \<longleftrightarrow>
     ToolName name \<notin> set (disallowed_tools s) \<and>
     (case allowed_tools s of None \<Rightarrow> True | Some allow \<Rightarrow> ToolName name \<in> set allow)"
proof -
  have "list_ex (\<lambda>t. tool_name_str t = name) ts \<longleftrightarrow> ToolName name \<in> set ts" for ts
    by (induction ts) (auto simp: split_beta' elim: tool_name.exhaust, metis tool_name.exhaust tool_name_str.simps)
  then show ?thesis by (auto simp: permits_def split: option.splits)
qed

lemma narrows_permits: "narrows p c \<Longrightarrow> permits c name \<Longrightarrow> permits p name"
  by (auto simp: narrows_def permits_iff split: option.splits)

lemma narrows_trans_tools:
  "narrows p c \<Longrightarrow> narrows c g \<Longrightarrow> permits g name \<Longrightarrow> permits p name"
  by (blast intro: narrows_permits)

section \<open>Evaluating a call\<close>

text \<open>\<open>fold\<close> and \<open>evaluate\<close> of the engine's reducer.\<close>

definition fold_decisions :: "permission_decision list \<Rightarrow> permission_decision" where
  "fold_decisions decisions = reduce decisions"

definition evaluate :: "permission_scope \<Rightarrow> permission_decision list \<Rightarrow> permission_decision" where
  "evaluate scope hook_decisions =
     (if permission_mode scope = Some BypassPermissions then Allow else fold_decisions hook_decisions)"

lemma evaluate_Deny_iff:
  "evaluate s ds = Deny \<longleftrightarrow> permission_mode s \<noteq> Some BypassPermissions \<and> Deny \<in> set ds"
  by (simp add: evaluate_def fold_decisions_def reduce_Deny_iff)

lemma evaluate_Allow_iff:
  "evaluate s ds = Allow \<longleftrightarrow> permission_mode s = Some BypassPermissions \<or> set ds \<subseteq> {Allow}"
  by (simp add: evaluate_def fold_decisions_def reduce_Allow_iff)

section \<open>Streaming behaviour, subagents, the reverse request\<close>

datatype streaming_behavior = Steer | FollowUp

record subagent_definition =
  sd_name :: string
  sd_description :: string
  sd_prompt :: string
  sd_tools :: "tool_name list option"
  sd_disallowed_tools :: "tool_name list"
  sd_permission_mode :: "permission_mode option"
  sd_allow_subagent_spawn :: bool

datatype permission_option_kind = AllowOnce | AllowAlways | RejectOnce | RejectAlways

record permission_option =
  po_id :: string
  po_kind :: permission_option_kind
  po_description :: string

record request_permission_request =
  rp_thread_id :: thread_id
  rp_resource_type :: string
  rp_name :: string
  rp_reason :: string
  rp_options :: "permission_option list"
  rp_tool_call_id :: "string option"

datatype permission_outcome =
    Selected string
  | Cancelled
  | Defer "string option"

datatype resume_outcome =
    Selected string
  | Cancelled

fun permission_outcome_from :: "resume_outcome \<Rightarrow> permission_outcome" where
  "permission_outcome_from (resume_outcome.Selected option_id) = permission_outcome.Selected option_id"
| "permission_outcome_from resume_outcome.Cancelled = permission_outcome.Cancelled"

record session_aborted_notification =
  sa_thread_id :: thread_id
  sa_turn_id :: "turn_id option"
  sa_cleared_steer :: "item list"
  sa_cleared_follow_up :: "item list"
  sa_next_turn_retained_count :: u32

definition session_aborted_notification_new ::
    "thread_id \<Rightarrow> turn_id option \<Rightarrow> session_aborted_notification" where
  "session_aborted_notification_new tid turn =
     \<lparr>sa_thread_id = tid, sa_turn_id = turn, sa_cleared_steer = [], sa_cleared_follow_up = [],
      sa_next_turn_retained_count = 0\<rparr>"

section \<open>Hook output\<close>

datatype hook_specific_output =
    PreToolUse permission_decision "string option" "json option"
  | PostToolUse "string option" "json option"

record hook_output =
  ho_system_message :: "string option"
  ho_continue_loop :: "bool option"
  ho_async_mode :: "bool option"
  ho_async_timeout :: "u64 option"
  ho_hook_specific_output :: "hook_specific_output option"

section \<open>Properties\<close>

text \<open>
  folding hook decisions takes the most restrictive one, \<open>Deny\<close> before \<open>Defer\<close> before \<open>Ask\<close>
  before \<open>Allow\<close>, whatever their order; no decision at all allows.
\<close>

theorem reduce_priority:
  "reduce ds =
     (if permission_decision.Deny \<in> set ds then permission_decision.Deny
      else if permission_decision.Defer \<in> set ds then permission_decision.Defer
      else if Ask \<in> set ds then Ask else permission_decision.Allow)"
proof -
  let ?r = "reduce ds"
  have in_r: "?r = permission_decision.Allow \<or> ?r \<in> set ds" by (rule reduce_in)
  have ge: "d \<in> set ds \<Longrightarrow> severity d \<le> severity ?r" for d
    using reduce_ge [of d ds] by (simp add: less_eq_permission_decision_def)
  show ?thesis
    using in_r ge [of permission_decision.Deny] ge [of permission_decision.Defer] ge [of Ask]
    by (cases ?r) auto
qed

text \<open>
  the scopes \<open>narrowed_into\<close> accepts are exactly those that stay inside the parent's allow list
  when it has one, keep every denial, do not raise a stated mode and may not spawn.
\<close>

theorem narrowed_into_exact:
  "(narrowed_into p c = Inr ()) \<longleftrightarrow>
     (case (allowed_tools p, allowed_tools c) of
        (Some ps, Some cs) \<Rightarrow> set cs \<subseteq> set ps
      | (Some ps, None) \<Rightarrow> False
      | (None, _) \<Rightarrow> True) \<and>
     set (disallowed_tools p) \<subseteq> set (disallowed_tools c) \<and>
     (case (permission_mode p, permission_mode c) of (Some m, Some n) \<Rightarrow> n \<le> m | _ \<Rightarrow> True) \<and>
     \<not> allow_subagent_spawn c"
  by (auto simp: narrowed_into_ok narrows_def split: option.splits)

text \<open>
  a child scope accepted by \<open>narrowed_into\<close> permits no tool that its parent does not permit.
\<close>

theorem narrowed_into_sound:
  assumes "narrowed_into p c = Inr ()"
  shows "{t. permits c t} \<subseteq> {t. permits p t}"
  using assms narrows_permits by (auto simp: narrowed_into_ok)

definition sample_scope :: permission_scope where
  "sample_scope =
     \<lparr>allowed_tools = Some [ToolName ''read'', ToolName ''bash''], disallowed_tools = [ToolName ''web''],
      permission_mode = Some AcceptEdits, allow_subagent_spawn = False\<rparr>"

definition sample_narrow :: permission_scope where
  "sample_narrow =
     \<lparr>allowed_tools = Some [ToolName ''read''], disallowed_tools = [ToolName ''rm'', ToolName ''web''],
      permission_mode = Some Plan, allow_subagent_spawn = False\<rparr>"

theorem narrowed_into_sound_witness:
  "permits sample_narrow ''read'' \<and> {t. permits sample_narrow t} \<subseteq> {t. permits sample_scope t}"
  using narrowed_into_sound [of sample_scope sample_narrow]
  by (simp add: narrowed_into_ok narrows_def sample_scope_def sample_narrow_def permits_def
                less_eq_permission_mode_def rank_def)

text \<open>
  a parent that states no mode accepts a child in bypass mode, in which every call is allowed
  although the parent's own hooks deny it.
\<close>

theorem unstated_mode_can_widen:
  assumes "permission_mode p = None" "permission_decision.Deny \<in> set ds"
  defines "c \<equiv> p\<lparr>permission_mode := Some BypassPermissions, allow_subagent_spawn := False\<rparr>"
  shows "narrowed_into p c = Inr () \<and> evaluate p ds = permission_decision.Deny \<and>
         evaluate c ds = permission_decision.Allow"
  using assms(1,2)
  by (auto simp: c_def narrowed_into_ok narrows_def evaluate_Deny_iff evaluate_Allow_iff split: option.split)

theorem unstated_mode_can_widen_witness:
  "evaluate (default_turn_scope\<lparr>permission_mode := Some BypassPermissions, allow_subagent_spawn := False\<rparr>)
     [permission_decision.Deny] = permission_decision.Allow"
  using unstated_mode_can_widen [of default_turn_scope "[permission_decision.Deny]"]
  by (simp add: default_turn_scope_def)

end
