(* ===== verification/Id_Allocator.thy ===== *)
theory Id_Allocator
  imports Zhive_Prelude
begin

text \<open>
  Several components hand out identifiers from a counter they own: permission requests, turns,
  the items of a provider stream. This theory states their shared contract as a locale: a step
  issues identifiers from the interval between the counter before it and the counter after it, in
  increasing order. Then no identifier is ever issued twice along any run.
\<close>

text \<open>A run of a stepping function that returns the next state and the identifiers it issued.\<close>

fun run_ids :: "('op \<Rightarrow> 's \<Rightarrow> 's \<times> nat list) \<Rightarrow> 'op list \<Rightarrow> 's \<Rightarrow> 's \<times> nat list" where
  "run_ids step [] s = (s, [])"
| "run_ids step (x # xs) s =
     (let (s', ids) = step x s; (s'', ids') = run_ids step xs s' in (s'', ids @ ids'))"

text \<open>A condition on every operation of a run, at the state it meets.\<close>

fun all_ok :: "('op \<Rightarrow> 's \<Rightarrow> 's \<times> nat list) \<Rightarrow> ('op \<Rightarrow> 's \<Rightarrow> bool) \<Rightarrow> 'op list \<Rightarrow> 's \<Rightarrow> bool" where
  "all_ok step ok [] s = True"
| "all_ok step ok (x # xs) s = (ok x s \<and> all_ok step ok xs (fst (step x s)))"

locale id_allocator =
  fixes step :: "'op \<Rightarrow> 's \<Rightarrow> 's \<times> nat list"
    and counter :: "'s \<Rightarrow> nat"
    and ok :: "'op \<Rightarrow> 's \<Rightarrow> bool"
  assumes counter_mono: "ok x s \<Longrightarrow> counter s \<le> counter (fst (step x s))"
    and ids_sorted: "ok x s \<Longrightarrow> sorted_wrt (<) (snd (step x s))"
    and ids_range: "ok x s \<Longrightarrow> i \<in> set (snd (step x s)) \<Longrightarrow>
                    counter s \<le> i \<and> i < counter (fst (step x s))"
begin

lemma run_counter: "all_ok step ok xs s \<Longrightarrow> counter s \<le> counter (fst (run_ids step xs s))"
proof (induction xs arbitrary: s)
  case (Cons x xs)
  then have "counter s \<le> counter (fst (step x s))"
    and "counter (fst (step x s)) \<le> counter (fst (run_ids step xs (fst (step x s))))"
    by (auto intro: counter_mono)
  then show ?case by (simp add: case_prod_beta Let_def)
qed simp

lemma run_ids_range:
  "all_ok step ok xs s \<Longrightarrow> i \<in> set (snd (run_ids step xs s)) \<Longrightarrow>
   counter s \<le> i \<and> i < counter (fst (run_ids step xs s))"
proof (induction xs arbitrary: s)
  case (Cons x xs)
  let ?s' = "fst (step x s)"
  have ok: "ok x s" "all_ok step ok xs ?s'" using Cons.prems(1) by auto
  consider "i \<in> set (snd (step x s))" | "i \<in> set (snd (run_ids step xs ?s'))"
    using Cons.prems(2) by (auto simp: case_prod_beta Let_def)
  then show ?case
  proof cases
    case 1
    then have "counter s \<le> i \<and> i < counter ?s'" by (rule ids_range [OF ok(1)])
    moreover have "counter ?s' \<le> counter (fst (run_ids step xs ?s'))" by (rule run_counter [OF ok(2)])
    ultimately show ?thesis by (simp add: case_prod_beta Let_def)
  next
    case 2
    then have "counter ?s' \<le> i \<and> i < counter (fst (run_ids step xs ?s'))"
      using Cons.IH [OF ok(2)] by blast
    moreover have "counter s \<le> counter ?s'" by (rule counter_mono [OF ok(1)])
    ultimately show ?thesis by (simp add: case_prod_beta Let_def)
  qed
qed simp

lemma run_ids_increasing: "all_ok step ok xs s \<Longrightarrow> sorted_wrt (<) (snd (run_ids step xs s))"
proof (induction xs arbitrary: s)
  case (Cons x xs)
  let ?s' = "fst (step x s)"
  have ok: "ok x s" "all_ok step ok xs ?s'" using Cons.prems by auto
  have "a < b" if "a \<in> set (snd (step x s))" "b \<in> set (snd (run_ids step xs ?s'))" for a b
    using ids_range [OF ok(1) that(1)] run_ids_range [OF ok(2) that(2)] by linarith
  then show ?case
    using ids_sorted [OF ok(1)] Cons.IH [OF ok(2)]
    by (simp add: case_prod_beta Let_def sorted_wrt_append)
qed simp

lemma run_ids_distinct: "all_ok step ok xs s \<Longrightarrow> distinct (snd (run_ids step xs s))"
  using run_ids_increasing strict_sorted_iff by blast

end

end
