(* ===== verification/Pending.thy ===== *)
theory Pending
  imports Permission Id_Allocator "HOL-Library.AList"
begin

text \<open>
  The in-flight permission requests of \<open>zhive-core/src/permission/pending.rs\<close> and the reducer that
  owns them (\<open>zhive-core/src/permission.rs\<close>). The waiters are tokio oneshot senders, third-party
  objects: they are values of a type variable, and whether the receiving half still exists is the
  parameter \<open>alive\<close>; a send is returned as the pair of the sender and the outcome it delivers. The
  hash map is an association list with distinct keys: no lemma depends on its order.
\<close>

section \<open>Keys and their wire form\<close>

datatype permission_request_id = PermissionRequestId string

datatype request_key = RequestKey u64

primrec key_num :: "request_key \<Rightarrow> u64" where
  "key_num (RequestKey n) = n"

datatype invalid_request_id = InvalidRequestId string

definition WIRE_PREFIX :: string where
  "WIRE_PREFIX = ''perm:''"

definition to_wire :: "request_key \<Rightarrow> permission_request_id" where
  "to_wire key = PermissionRequestId (WIRE_PREFIX @ show_nat (unat (key_num key)))"

definition from_wire :: "permission_request_id \<Rightarrow> (request_key, invalid_request_id) rust_result" where
  "from_wire pid =
     (case pid of PermissionRequestId raw \<Rightarrow>
        (case strip_prefix WIRE_PREFIX raw of
           None \<Rightarrow> Inl (InvalidRequestId raw)
         | Some rest \<Rightarrow>
             (case parse_uint u64_max rest of
                None \<Rightarrow> Inl (InvalidRequestId raw)
              | Some n \<Rightarrow> Inr (RequestKey (of_nat n)))))"

lemma from_wire_to_wire: "from_wire (to_wire k) = Inr k"
  by (cases k) (simp add: from_wire_def to_wire_def parse_uint_show_nat unat_u64_le)

lemma to_wire_inj: "to_wire j = to_wire k \<longleftrightarrow> j = k"
  by (cases j; cases k) (auto simp: to_wire_def show_nat_inj dest: unsigned_word_eqI)

section \<open>The store\<close>

record request_context =
  rc_thread_id :: thread_id
  rc_turn_id :: turn_id

record 'tx pending_entry =
  pe_tx :: 'tx
  pe_context :: "request_context option"

record 'tx pending_permissions =
  pp_next :: u64
  pp_map :: "(request_key \<times> 'tx pending_entry) list"

definition pending_new :: "'tx pending_permissions" where
  "pending_new = \<lparr>pp_next = 0, pp_map = []\<rparr>"

definition pp_lookup :: "'tx pending_permissions \<Rightarrow> request_key \<Rightarrow> 'tx pending_entry option" where
  "pp_lookup p = map_of (pp_map p)"

definition insert_with_context ::
    "'tx \<Rightarrow> request_context option \<Rightarrow> 'tx pending_permissions \<Rightarrow> request_key \<times> 'tx pending_permissions" where
  "insert_with_context tx context p =
     (let n = pp_next p;
          key = RequestKey n
      in (key, p\<lparr>pp_next := n + 1,
                 pp_map := AList.update key \<lparr>pe_tx = tx, pe_context = context\<rparr> (pp_map p)\<rparr>))"

definition pp_insert :: "'tx \<Rightarrow> 'tx pending_permissions \<Rightarrow> request_key \<times> 'tx pending_permissions" where
  "pp_insert tx p = insert_with_context tx None p"

definition pp_remove ::
    "request_key \<Rightarrow> 'tx pending_permissions \<Rightarrow>
     ('tx \<times> request_context option) option \<times> 'tx pending_permissions" where
  "pp_remove key p =
     (map_option (\<lambda>entry. (pe_tx entry, pe_context entry)) (pp_lookup p key),
      p\<lparr>pp_map := AList.delete key (pp_map p)\<rparr>)"

definition reinstate ::
    "request_key \<Rightarrow> 'tx \<Rightarrow> request_context option \<Rightarrow> 'tx pending_permissions \<Rightarrow> 'tx pending_permissions" where
  "reinstate key tx context p =
     p\<lparr>pp_next := max (pp_next p) (u64_saturating_add (key_num key) 1),
       pp_map := AList.update key \<lparr>pe_tx = tx, pe_context = context\<rparr> (pp_map p)\<rparr>"

definition pp_drain :: "'tx pending_permissions \<Rightarrow> 'tx list \<times> 'tx pending_permissions" where
  "pp_drain p = (map (\<lambda>(k, entry). pe_tx entry) (pp_map p), p\<lparr>pp_map := []\<rparr>)"

definition pp_len :: "'tx pending_permissions \<Rightarrow> nat" where
  "pp_len p = length (pp_map p)"

definition pp_is_empty :: "'tx pending_permissions \<Rightarrow> bool" where
  "pp_is_empty p = (pp_len p = 0)"

text \<open>Well-formed: the keys are distinct and all were issued before the counter's value.\<close>

definition pp_wf :: "'tx pending_permissions \<Rightarrow> bool" where
  "pp_wf p \<longleftrightarrow> distinct (map fst (pp_map p)) \<and>
     (\<forall>k \<in> set (map fst (pp_map p)). unat (key_num k) < unat (pp_next p))"

lemma pp_wf_new: "pp_wf pending_new"
  by (simp add: pp_wf_def pending_new_def)

lemma unat_Suc_room: "unat w < u64_max \<Longrightarrow> unat ((w :: u64) + 1) = Suc (unat w)"
  by (simp add: u64_max_eq unat_word_ariths)

lemma insert_wf [inv_intros]:
  assumes "pp_wf p" "unat (pp_next p) < u64_max"
  shows "pp_wf (snd (insert_with_context tx c p))"
  using assms
  by (auto simp: pp_wf_def insert_with_context_def Let_def unat_Suc_room dom_update
           intro: distinct_update less_SucI)

lemma remove_wf [inv_intros]: "pp_wf p \<Longrightarrow> pp_wf (snd (pp_remove k p))"
  by (auto simp: pp_wf_def pp_remove_def delete_keys intro: distinct_removeAll)

lemma unat_max_u64: "unat (max a b :: u64) = max (unat a) (unat b)"
  by (simp add: max_def word_le_nat_alt)

lemma reinstate_wf [inv_intros]:
  assumes "pp_wf p" "unat (key_num k) < u64_max"
  shows "pp_wf (reinstate k tx c p)"
  using assms
  by (auto simp: pp_wf_def reinstate_def unat_max_u64 unat_u64_saturating_add dom_update
           intro: distinct_update)

lemma drain_wf [inv_intros]: "pp_wf (snd (pp_drain p))"
  by (simp add: pp_wf_def pp_drain_def)

lemma insert_fresh:
  assumes "pp_wf p"
  shows "pp_lookup p (fst (insert_with_context tx c p)) = None"
proof (rule ccontr)
  assume "pp_lookup p (fst (insert_with_context tx c p)) \<noteq> None"
  then have "RequestKey (pp_next p) \<in> set (map fst (pp_map p))"
    by (auto simp: pp_lookup_def insert_with_context_def Let_def map_of_eq_None_iff)
  with assms show False by (force simp: pp_wf_def)
qed

lemma insert_lookup:
  "pp_lookup (snd (insert_with_context tx c p)) =
     (pp_lookup p)(fst (insert_with_context tx c p) \<mapsto> \<lparr>pe_tx = tx, pe_context = c\<rparr>)"
  by (simp add: pp_lookup_def insert_with_context_def Let_def update_conv')

lemma remove_lookup: "pp_lookup (snd (pp_remove k p)) = (pp_lookup p)(k := None)"
  by (simp add: pp_lookup_def pp_remove_def delete_conv')

lemma remove_result:
  "fst (pp_remove k p) = map_option (\<lambda>e. (pe_tx e, pe_context e)) (pp_lookup p k)"
  by (simp add: pp_remove_def)

lemma reinstate_lookup:
  "pp_lookup (reinstate k tx c p) = (pp_lookup p)(k \<mapsto> \<lparr>pe_tx = tx, pe_context = c\<rparr>)"
  by (simp add: pp_lookup_def reinstate_def update_conv')


text \<open>
  The store as a stepping machine over its four operations: the identifiers it issues are those of
  the insertions. A step is admissible when the counter has room and a reinstated key is not the
  last one of the type.
\<close>

datatype 'tx pending_op =
    OpInsert 'tx "request_context option"
  | OpRemove request_key
  | OpReinstate request_key 'tx "request_context option"
  | OpDrain

fun pending_step :: "'tx pending_op \<Rightarrow> 'tx pending_permissions \<Rightarrow> 'tx pending_permissions \<times> nat list" where
  "pending_step (OpInsert tx c) p =
     (let (k, p') = insert_with_context tx c p in (p', [unat (key_num k)]))"
| "pending_step (OpRemove k) p = (snd (pp_remove k p), [])"
| "pending_step (OpReinstate k tx c) p = (reinstate k tx c p, [])"
| "pending_step OpDrain p = (snd (pp_drain p), [])"

fun pending_ok :: "'tx pending_op \<Rightarrow> 'tx pending_permissions \<Rightarrow> bool" where
  "pending_ok (OpInsert tx c) p = (unat (pp_next p) < u64_max)"
| "pending_ok (OpReinstate k tx c) p = (unat (key_num k) < u64_max)"
| "pending_ok _ p = True"

lemma pending_step_wf: "pending_ok x p \<Longrightarrow> pp_wf p \<Longrightarrow> pp_wf (fst (pending_step x p))"
  by (cases x) (auto simp: case_prod_beta Let_def intro: inv_intros)

interpretation pending_ids: id_allocator pending_step "\<lambda>p. unat (pp_next p)" pending_ok
proof unfold_locales
  fix x :: "'a pending_op" and p :: "'a pending_permissions"
  assume "pending_ok x p"
  then show "unat (pp_next p) \<le> unat (pp_next (fst (pending_step x p)))"
    by (cases x) (auto simp: insert_with_context_def pp_remove_def pp_drain_def reinstate_def
                             Let_def unat_Suc_room unat_max_u64)
next
  fix x :: "'a pending_op" and p :: "'a pending_permissions"
  show "sorted_wrt (<) (snd (pending_step x p))"
    by (cases x) (auto simp: case_prod_beta Let_def)
next
  fix x :: "'a pending_op" and p :: "'a pending_permissions" and i
  assume "pending_ok x p" "i \<in> set (snd (pending_step x p))"
  then show "unat (pp_next p) \<le> i \<and> i < unat (pp_next (fst (pending_step x p)))"
    by (cases x) (auto simp: insert_with_context_def Let_def unat_Suc_room)
qed

section \<open>The reducer\<close>

datatype reducer_error =
    UnknownRequest request_key
  | ReducerInvalidRequestId invalid_request_id
  | Abandoned
  | TimedOut nat

record 'tx permission_reducer =
  pr_pending :: "'tx pending_permissions"
  pr_allow_always :: "string set"
  pr_timeout :: nat

text \<open>\<open>DEFAULT_PERMISSION_TIMEOUT\<close>, in seconds.\<close>

definition DEFAULT_PERMISSION_TIMEOUT :: nat where
  "DEFAULT_PERMISSION_TIMEOUT = 30"

definition reducer_new :: "'tx permission_reducer" where
  "reducer_new = \<lparr>pr_pending = pending_new, pr_allow_always = {}, pr_timeout = DEFAULT_PERMISSION_TIMEOUT\<rparr>"

definition is_tool_allow_always :: "'tx permission_reducer \<Rightarrow> string \<Rightarrow> bool" where
  "is_tool_allow_always r name = (name \<in> pr_allow_always r)"

definition record_allow_always :: "string \<Rightarrow> 'tx permission_reducer \<Rightarrow> 'tx permission_reducer" where
  "record_allow_always name r = r\<lparr>pr_allow_always := insert name (pr_allow_always r)\<rparr>"

text \<open>
  \<open>enroll\<close> and \<open>enroll_with_context\<close>: the fresh channel's sender is an argument, the request is
  returned untouched.
\<close>

definition enroll ::
    "'tx \<Rightarrow> request_permission_request \<Rightarrow> 'tx permission_reducer \<Rightarrow>
     request_key \<times> request_permission_request \<times> 'tx permission_reducer" where
  "enroll tx request r =
     (let (key, p) = pp_insert tx (pr_pending r) in (key, request, r\<lparr>pr_pending := p\<rparr>))"

definition enroll_with_context ::
    "'tx \<Rightarrow> request_permission_request \<Rightarrow> request_context \<Rightarrow> 'tx permission_reducer \<Rightarrow>
     request_key \<times> request_permission_request \<times> 'tx permission_reducer" where
  "enroll_with_context tx request context r =
     (let (key, p) = insert_with_context tx (Some context) (pr_pending r)
      in (key, request, r\<lparr>pr_pending := p\<rparr>))"

text \<open>What a waiting receiver can observe: an outcome, the sender gone, or the deadline.\<close>

datatype wait_event = Received permission_outcome | SenderDropped | Elapsed

fun wait :: "'tx permission_reducer \<Rightarrow> wait_event \<Rightarrow> (permission_outcome, reducer_error) rust_result" where
  "wait r (Received outcome) = Inr outcome"
| "wait r SenderDropped = Inl Abandoned"
| "wait r Elapsed = Inl (TimedOut (pr_timeout r))"

text \<open>\<open>wait_unbounded\<close> has no deadline: it never returns at \<open>Elapsed\<close>.\<close>

fun wait_unbounded :: "wait_event \<Rightarrow> (permission_outcome, reducer_error) rust_result option" where
  "wait_unbounded (Received outcome) = Some (Inr outcome)"
| "wait_unbounded SenderDropped = Some (Inl Abandoned)"
| "wait_unbounded Elapsed = None"

text \<open>
  \<open>resolve_with_context\<close>: the entry leaves the store before the send, so a failed send still
  consumes it. The third component lists the deliveries that reached a receiver.
\<close>

definition resolve_with_context ::
    "('tx \<Rightarrow> bool) \<Rightarrow> request_key \<Rightarrow> permission_outcome \<Rightarrow> 'tx permission_reducer \<Rightarrow>
     (request_context option, reducer_error) rust_result \<times> 'tx permission_reducer \<times>
     ('tx \<times> permission_outcome) list" where
  "resolve_with_context alive key outcome r =
     (let (entry, p) = pp_remove key (pr_pending r); r' = r\<lparr>pr_pending := p\<rparr>
      in case entry of
           None \<Rightarrow> (Inl (UnknownRequest key), r', [])
         | Some (tx, context) \<Rightarrow>
             (if alive tx then (Inr context, r', [(tx, outcome)])
              else (Inl Abandoned, r', [])))"

definition resolve_by_wire_id_with_context ::
    "('tx \<Rightarrow> bool) \<Rightarrow> permission_request_id \<Rightarrow> permission_outcome \<Rightarrow> 'tx permission_reducer \<Rightarrow>
     (request_context option, reducer_error) rust_result \<times> 'tx permission_reducer \<times>
     ('tx \<times> permission_outcome) list" where
  "resolve_by_wire_id_with_context alive pid outcome r =
     (case from_wire pid of
        Inl e \<Rightarrow> (Inl (ReducerInvalidRequestId e), r, [])
      | Inr key \<Rightarrow> resolve_with_context alive key outcome r)"

definition reinstate_for_resume ::
    "request_key \<Rightarrow> 'tx \<Rightarrow> request_context \<Rightarrow> 'tx permission_reducer \<Rightarrow> 'tx permission_reducer" where
  "reinstate_for_resume key tx context r =
     r\<lparr>pr_pending := reinstate key tx (Some context) (pr_pending r)\<rparr>"

definition reducer_cancel_all ::
    "('tx \<Rightarrow> bool) \<Rightarrow> 'tx permission_reducer \<Rightarrow> 'tx permission_reducer \<times> ('tx \<times> permission_outcome) list" where
  "reducer_cancel_all alive r =
     (let (txs, p) = pp_drain (pr_pending r)
      in (r\<lparr>pr_pending := p\<rparr>,
          map (\<lambda>tx. (tx, permission_outcome.Cancelled)) (filter alive txs)))"

lemma resolve_unknown:
  "pp_lookup (pr_pending r) key = None \<Longrightarrow>
   fst (resolve_with_context alive key outcome r) = Inl (UnknownRequest key) \<and>
   snd (snd (resolve_with_context alive key outcome r)) = []"
  by (simp add: resolve_with_context_def pp_remove_def Let_def)

lemma resolve_known:
  "pp_lookup (pr_pending r) key = Some e \<Longrightarrow> alive (pe_tx e) \<Longrightarrow>
   fst (resolve_with_context alive key outcome r) = Inr (pe_context e) \<and>
   snd (snd (resolve_with_context alive key outcome r)) = [(pe_tx e, outcome)]"
  by (simp add: resolve_with_context_def pp_remove_def Let_def)

lemma resolve_pending:
  "pp_lookup (pr_pending (fst (snd (resolve_with_context alive key outcome r)))) =
     (pp_lookup (pr_pending r))(key := None)"
  using remove_lookup [of key "pr_pending r"]
  by (auto simp: resolve_with_context_def pp_remove_def Let_def split: option.splits)

lemma resolve_allow_always [frame_simps]:
  "pr_allow_always (fst (snd (resolve_with_context alive key outcome r))) = pr_allow_always r"
  by (auto simp: resolve_with_context_def pp_remove_def Let_def split: option.splits)

lemma resolve_deliveries_at_most_one:
  "length (snd (snd (resolve_with_context alive key outcome r))) \<le> 1"
  by (auto simp: resolve_with_context_def pp_remove_def Let_def split: option.splits)

lemma cancel_all_lookup: "pp_lookup (pr_pending (fst (reducer_cancel_all alive r))) = Map.empty"
  by (simp add: reducer_cancel_all_def pp_drain_def pp_lookup_def Let_def)

section \<open>Properties\<close>

text \<open>
  a request key survives its wire form, and different keys have different wire forms.
\<close>

theorem wire_roundtrip: "from_wire (to_wire k) = Inr k \<and> (to_wire j = to_wire k \<longleftrightarrow> j = k)"
  by (simp add: from_wire_to_wire to_wire_inj)

text \<open>
  along any run of insertions, removals, reinstatements and drains that does not exhaust the
  counter, no request number is issued twice, and a fresh key was not pending.
\<close>

theorem pending_keys_unique:
  assumes "all_ok pending_step pending_ok ops pending_new"
  shows "distinct (snd (run_ids pending_step ops pending_new))"
  using pending_ids.run_ids_distinct [OF assms] .

theorem pending_keys_unique_witness:
  "snd (run_ids pending_step [OpInsert () None, OpReinstate (RequestKey 7) () None, OpInsert () None] pending_new)
     = [0, 8] \<and>
   distinct (snd (run_ids pending_step [OpInsert () None, OpReinstate (RequestKey 7) () None, OpInsert () None] pending_new))"
proof
  let ?ops = "[OpInsert () None, OpReinstate (RequestKey 7) () None, OpInsert () None]"
  note defs = pending_new_def insert_with_context_def reinstate_def u64_saturating_add_def u64_max_eq Let_def
  show "snd (run_ids pending_step ?ops pending_new) = [0, 8]" by (simp add: defs)
  have "all_ok pending_step pending_ok ?ops pending_new" by (simp add: defs)
  then show "distinct (snd (run_ids pending_step ?ops pending_new))" by (rule pending_keys_unique)
qed

text \<open>
  reinstating the last key of the type does not reserve it: the next insertion issues the same
  key and replaces the reinstated waiter.
\<close>

theorem reinstate_last_key_collides:
  "fst (insert_with_context tx c (reinstate (RequestKey (of_nat u64_max)) tx' c' p)) = RequestKey (of_nat u64_max)"
proof -
  have max: "unat (of_nat u64_max :: u64) = u64_max" by (simp add: u64_max_eq)
  have "u64_saturating_add (of_nat u64_max) 1 = of_nat u64_max"
    by (simp add: u64_saturating_add_def u64_max_eq)
  moreover have "max (pp_next p) (of_nat u64_max) = of_nat u64_max"
    by (simp add: max_def word_le_nat_alt max not_le) (metis max_def not_le unat_u64_le word_le_nat_alt max order.antisym order.strict_implies_order)
  ultimately show ?thesis by (simp add: insert_with_context_def reinstate_def Let_def)
qed

text \<open>
  a resolved request is delivered at most once: after any resolution of a key the key is gone, so
  a second resolution is refused as unknown and delivers nothing; a pending request with a live
  waiter receives exactly the outcome given.
\<close>

theorem resolve_exactly_once:
  "snd (snd (resolve_with_context alive key outcome r)) =
     (case pp_lookup (pr_pending r) key of
        Some e \<Rightarrow> (if alive (pe_tx e) then [(pe_tx e, outcome)] else [])
      | None \<Rightarrow> []) \<and>
   fst (resolve_with_context alive key outcome' (fst (snd (resolve_with_context alive key outcome r)))) =
     Inl (reducer_error.UnknownRequest key) \<and>
   snd (snd (resolve_with_context alive key outcome' (fst (snd (resolve_with_context alive key outcome r))))) = []"
proof -
  have "pp_lookup (pr_pending (fst (snd (resolve_with_context alive key outcome r)))) key = None"
    by (simp add: resolve_pending)
  from resolve_unknown [OF this, of alive outcome'] show ?thesis
    by (auto simp: resolve_with_context_def pp_remove_def Let_def split: option.split)
qed

text \<open>
  cancelling all requests tells every live waiter that it was cancelled and leaves nothing
  pending; the request counter keeps its value, so old keys stay unknown.
\<close>

theorem cancel_all_settles:
  "pr_pending (fst (reducer_cancel_all alive r)) = (pr_pending r)\<lparr>pp_map := []\<rparr> \<and>
   snd (reducer_cancel_all alive r) =
     map (\<lambda>tx. (tx, permission_outcome.Cancelled)) (filter alive (map (\<lambda>(k, e). pe_tx e) (pp_map (pr_pending r))))"
  by (simp add: reducer_cancel_all_def pp_drain_def Let_def)

end
