(* ===== verification/Drain_Buffer.thy ===== *)
theory Drain_Buffer
  imports Zhive_Prelude
begin

text \<open>
  The contract of a buffer a producer appends to and a consumer drains in batches, putting a batch
  back at the front when it could not be applied. Whatever the batch policy, items come out in the
  order they went in, and none is lost or duplicated by any interleaving of the three operations.
\<close>

datatype 'a buffer_op =
    Push "'a list"   \<comment> \<open>the producer appends\<close>
  | Take             \<comment> \<open>the consumer drains a batch and applies it\<close>
  | TakeAndRestore   \<comment> \<open>the consumer drains a batch, fails to apply it and restores it\<close>

text \<open>A run returns the buffer and the items applied so far, in order.\<close>

fun run_buffer ::
    "('a list \<Rightarrow> 'q \<Rightarrow> 'q) \<Rightarrow> ('q \<Rightarrow> 'a list \<times> 'q) \<Rightarrow> ('a list \<Rightarrow> 'q \<Rightarrow> 'q) \<Rightarrow>
     'a buffer_op list \<Rightarrow> 'q \<Rightarrow> 'q \<times> 'a list" where
  "run_buffer push drain restore [] q = (q, [])"
| "run_buffer push drain restore (Push xs # ops) q = run_buffer push drain restore ops (push xs q)"
| "run_buffer push drain restore (Take # ops) q =
     (let (ys, q') = drain q; (q'', zs) = run_buffer push drain restore ops q' in (q'', ys @ zs))"
| "run_buffer push drain restore (TakeAndRestore # ops) q =
     (let (ys, q') = drain q in run_buffer push drain restore ops (restore ys q'))"

fun pushed :: "'a buffer_op list \<Rightarrow> 'a list" where
  "pushed [] = []"
| "pushed (Push xs # ops) = xs @ pushed ops"
| "pushed (_ # ops) = pushed ops"

locale drain_buffer =
  fixes push :: "'a list \<Rightarrow> 'q \<Rightarrow> 'q"
    and drain :: "'q \<Rightarrow> 'a list \<times> 'q"
    and restore :: "'a list \<Rightarrow> 'q \<Rightarrow> 'q"
    and contents :: "'q \<Rightarrow> 'a list"
  assumes contents_push: "contents (push xs q) = contents q @ xs"
    and contents_drain: "fst (drain q) @ contents (snd (drain q)) = contents q"
    and contents_restore: "contents (restore ys q) = ys @ contents q"
begin

lemma drain_restore: "contents (restore (fst (drain q)) (snd (drain q))) = contents q"
  by (simp add: contents_restore contents_drain)

lemma run_conserves:
  "snd (run_buffer push drain restore ops q) @ contents (fst (run_buffer push drain restore ops q))
   = contents q @ pushed ops"
proof (induction ops arbitrary: q)
  case (Cons x ops)
  show ?case
  proof (cases x)
    case (Push xs)
    then show ?thesis using Cons [of "push xs q"] by (simp add: contents_push)
  next
    case Take
    have "fst (drain q) @ contents (snd (drain q)) @ pushed ops = contents q @ pushed ops"
      by (simp only: append_assoc [symmetric] contents_drain)
    then show ?thesis
      using Take Cons [of "snd (drain q)"] by (simp add: case_prod_beta Let_def)
  next
    case TakeAndRestore
    then show ?thesis
      using Cons [of "restore (fst (drain q)) (snd (drain q))"]
      by (simp add: case_prod_beta Let_def drain_restore)
  qed
qed simp

end

end
