(* ===== verification/Queues.thy ===== *)
theory Queues
  imports Permission Drain_Buffer
begin

text \<open>
  The three injection queues of \<open>zhive-core/src/queues.rs\<close>: steer, follow-up and next-turn, each a
  \<open>VecDeque<Item>\<close>, with a drain policy for the first two. Every queue is a \<open>drain_buffer\<close>.
\<close>

datatype queue_mode = All | OneAtATime

datatype queue_target = Steer | FollowUp | NextTurn

text \<open>
  \<open>TryFrom<StreamingBehavior>\<close>: the error branch is for variants a later protocol may add; the two
  variants there are always convert.
\<close>

fun queue_target_try_from :: "streaming_behavior \<Rightarrow> (queue_target, streaming_behavior) rust_result" where
  "queue_target_try_from streaming_behavior.Steer = Inr queue_target.Steer"
| "queue_target_try_from streaming_behavior.FollowUp = Inr queue_target.FollowUp"

record abort_snapshot =
  as_cleared_steer :: "item list"
  as_cleared_follow_up :: "item list"
  as_next_turn_retained_count :: u32

record injection_queues =
  iq_steer :: "item list"
  iq_steer_mode :: queue_mode
  iq_follow_up :: "item list"
  iq_follow_up_mode :: queue_mode
  iq_next_turn :: "item list"

definition queues_new :: injection_queues where
  "queues_new =
     \<lparr>iq_steer = [], iq_steer_mode = OneAtATime, iq_follow_up = [], iq_follow_up_mode = OneAtATime,
      iq_next_turn = []\<rparr>"

fun set_mode :: "queue_target \<Rightarrow> queue_mode \<Rightarrow> injection_queues \<Rightarrow> injection_queues" where
  "set_mode queue_target.Steer m q = q\<lparr>iq_steer_mode := m\<rparr>"
| "set_mode queue_target.FollowUp m q = q\<lparr>iq_follow_up_mode := m\<rparr>"
| "set_mode NextTurn m q = q"

text \<open>\<open>buf_mut\<close> borrows a queue: it is read by \<open>buf\<close> and written by \<open>buf_update\<close>.\<close>

fun buf :: "queue_target \<Rightarrow> injection_queues \<Rightarrow> item list" where
  "buf queue_target.Steer q = iq_steer q"
| "buf queue_target.FollowUp q = iq_follow_up q"
| "buf NextTurn q = iq_next_turn q"

fun buf_update :: "queue_target \<Rightarrow> item list \<Rightarrow> injection_queues \<Rightarrow> injection_queues" where
  "buf_update queue_target.Steer b q = q\<lparr>iq_steer := b\<rparr>"
| "buf_update queue_target.FollowUp b q = q\<lparr>iq_follow_up := b\<rparr>"
| "buf_update NextTurn b q = q\<lparr>iq_next_turn := b\<rparr>"

lemma buf_buf_update: "buf s (buf_update t b q) = (if s = t then b else buf s q)"
  by (cases s; cases t) auto

text \<open>The loop of \<open>push_back\<close>, and that of \<open>restore_front\<close> over the reversed items.\<close>

definition push_back :: "queue_target \<Rightarrow> item list \<Rightarrow> injection_queues \<Rightarrow> injection_queues" where
  "push_back target items q = buf_update target (foldl (\<lambda>b item. b @ [item]) (buf target q) items) q"

definition restore_front :: "queue_target \<Rightarrow> item list \<Rightarrow> injection_queues \<Rightarrow> injection_queues" where
  "restore_front target items q =
     buf_update target (foldl (\<lambda>b item. item # b) (buf target q) (rev items)) q"

fun mode_of :: "queue_target \<Rightarrow> injection_queues \<Rightarrow> queue_mode" where
  "mode_of queue_target.Steer q = iq_steer_mode q"
| "mode_of queue_target.FollowUp q = iq_follow_up_mode q"
| "mode_of NextTurn q = All"

definition drain :: "queue_target \<Rightarrow> injection_queues \<Rightarrow> item list \<times> injection_queues" where
  "drain target q =
     (case mode_of target q of
        All \<Rightarrow> (buf target q, buf_update target [] q)
      | OneAtATime \<Rightarrow>
          (case buf target q of
             [] \<Rightarrow> ([], q)
           | item # rest \<Rightarrow> ([item], buf_update target rest q)))"

definition queue_len :: "queue_target \<Rightarrow> injection_queues \<Rightarrow> nat" where
  "queue_len target q = length (buf target q)"

definition queues_is_empty :: "injection_queues \<Rightarrow> bool" where
  "queues_is_empty q = (iq_steer q = [] \<and> iq_follow_up q = [] \<and> iq_next_turn q = [])"

definition abort :: "injection_queues \<Rightarrow> abort_snapshot \<times> injection_queues" where
  "abort q =
     (\<lparr>as_cleared_steer = iq_steer q, as_cleared_follow_up = iq_follow_up q,
       as_next_turn_retained_count = u32_of_len (length (iq_next_turn q))\<rparr>,
      q\<lparr>iq_steer := [], iq_follow_up := []\<rparr>)"

lemma foldl_push: "foldl (\<lambda>b x. b @ [x]) b xs = b @ xs"
  by (induction xs arbitrary: b) auto

lemma foldl_front: "foldl (\<lambda>b x. x # b) b xs = rev xs @ b"
  by (induction xs arbitrary: b) auto

lemma buf_push_back: "buf s (push_back t xs q) = (if s = t then buf s q @ xs else buf s q)"
  by (simp add: push_back_def foldl_push buf_buf_update)

lemma buf_restore_front: "buf s (restore_front t xs q) = (if s = t then xs @ buf s q else buf s q)"
  by (simp add: restore_front_def foldl_front buf_buf_update)

lemma buf_drain_other [frame_simps]: "s \<noteq> t \<Longrightarrow> buf s (snd (drain t q)) = buf s q"
  by (auto simp: drain_def buf_buf_update split: queue_mode.split list.split)

lemma drain_contents: "fst (drain t q) @ buf t (snd (drain t q)) = buf t q"
  by (auto simp: drain_def buf_buf_update split: queue_mode.split list.split)

lemma drain_All: "mode_of t q = All \<Longrightarrow> fst (drain t q) = buf t q \<and> buf t (snd (drain t q)) = []"
  by (simp add: drain_def buf_buf_update)

lemma drain_OneAtATime:
  "mode_of t q = OneAtATime \<Longrightarrow> fst (drain t q) = take 1 (buf t q) \<and> buf t (snd (drain t q)) = drop 1 (buf t q)"
  by (auto simp: drain_def buf_buf_update split: list.split)

interpretation queue_buffer: drain_buffer "push_back t" "drain t" "restore_front t" "buf t" for t
  by unfold_locales (simp_all add: buf_push_back buf_restore_front drain_contents)

section \<open>Properties\<close>

text \<open>
  under every drain policy and any interleaving of pushes, drains and restores, an injection
  queue loses, repeats and reorders nothing: the items applied, followed by those left, are the
  initial ones followed by those pushed.
\<close>

theorem queue_conserves:
  "snd (run_buffer (push_back t) (drain t) (restore_front t) ops q) @
     buf t (fst (run_buffer (push_back t) (drain t) (restore_front t) ops q)) = buf t q @ pushed ops"
  by (rule queue_buffer.run_conserves)

text \<open>
  an abort hands back exactly the steer and follow-up items and empties those two queues; the
  next-turn queue stays as it was and its length is reported, saturating at the type's maximum.
\<close>

theorem abort_keeps_next_turn:
  "as_cleared_steer (fst (abort q)) = iq_steer q \<and>
   as_cleared_follow_up (fst (abort q)) = iq_follow_up q \<and>
   unat (as_next_turn_retained_count (fst (abort q))) = min (length (iq_next_turn q)) u32_max \<and>
   buf queue_target.Steer (snd (abort q)) = [] \<and> buf queue_target.FollowUp (snd (abort q)) = [] \<and>
   buf NextTurn (snd (abort q)) = buf NextTurn q"
  by (simp add: abort_def unat_u32_of_len)

end
