(* ===== verification/Phase.thy ===== *)
theory Phase
  imports Permission
begin

text \<open>
  The engine phase (\<open>zhive-proto/src/hook.rs\<close>), its legality table
  (\<open>zhive-core/src/engine/phase.rs\<close>) and the guarded transition of \<open>EngineInner\<close>
  (\<open>zhive-core/src/engine/inner.rs\<close>). A run of the engine's phase is a path of the table.
\<close>

datatype engine_phase = Idle | Turn | Compaction | BranchSummary | Retry | Restore

datatype compact_trigger = Manual | Auto

fun allows_transition :: "engine_phase \<Rightarrow> engine_phase \<Rightarrow> bool" where
  "allows_transition Idle to = (to \<in> {Turn, Compaction, BranchSummary, Restore})"
| "allows_transition Turn to = (to \<in> {Compaction, Retry, Idle})"
| "allows_transition Compaction to = (to = Idle)"
| "allows_transition BranchSummary to = (to = Idle)"
| "allows_transition Restore to = (to = Idle)"
| "allows_transition Retry to = (to \<in> {Turn, Idle})"

datatype phase_transition_error =
    Illegal engine_phase engine_phase engine_phase
  | PreconditionMismatch engine_phase engine_phase

fun actual :: "phase_transition_error \<Rightarrow> engine_phase" where
  "actual (Illegal from to act) = act"
| "actual (PreconditionMismatch expected act) = act"

text \<open>\<open>try_set_phase_atomic\<close>: the lock is held throughout, the guard is the phase it protects.\<close>

definition try_set_phase_atomic ::
    "engine_phase \<Rightarrow> engine_phase \<Rightarrow> engine_phase \<Rightarrow>
     (unit, phase_transition_error) rust_result \<times> engine_phase" where
  "try_set_phase_atomic from to guard =
     (if \<not> allows_transition from to then (Inl (Illegal from to guard), guard)
      else if guard \<noteq> from then (Inl (PreconditionMismatch from guard), guard)
      else (Inr (), to))"

lemma try_set_phase_ok:
  "fst (try_set_phase_atomic from to g) = Inr () \<longleftrightarrow> allows_transition from to \<and> g = from"
  by (simp add: try_set_phase_atomic_def)

lemma try_set_phase_result:
  "snd (try_set_phase_atomic from to g) =
     (if allows_transition from to \<and> g = from then to else g)"
  by (simp add: try_set_phase_atomic_def)

lemma try_set_phase_error:
  "fst (try_set_phase_atomic from to g) = Inl e \<Longrightarrow> actual e = g"
  by (auto simp: try_set_phase_atomic_def split: if_splits)

text \<open>A sequence of attempts and the phases it passes through.\<close>

fun phase_run :: "(engine_phase \<times> engine_phase) list \<Rightarrow> engine_phase \<Rightarrow> engine_phase list" where
  "phase_run [] g = [g]"
| "phase_run ((from, to) # rest) g = g # phase_run rest (snd (try_set_phase_atomic from to g))"

text \<open>A phase trace is legal: each step stays or is an edge of the table.\<close>

fun legal_trace :: "engine_phase list \<Rightarrow> bool" where
  "legal_trace (a # b # rest) = ((a = b \<or> allows_transition a b) \<and> legal_trace (b # rest))"
| "legal_trace _ = True"

lemma phase_run_Cons: "\<exists>rest. phase_run attempts g = g # rest"
  by (cases attempts) auto

lemma phase_run_legal: "legal_trace (phase_run attempts g)"
proof (induction attempts g rule: phase_run.induct)
  case (2 src dst rest g)
  obtain tl where tl: "phase_run rest (snd (try_set_phase_atomic src dst g))
                       = snd (try_set_phase_atomic src dst g) # tl"
    using phase_run_Cons by blast
  with 2 show ?case by (auto simp: try_set_phase_result)
qed simp

text \<open>
  The heavy phases exclude each other: a direct step between two of them other than
  \<open>Turn\<close> to \<open>Compaction\<close> is not in the table, so the way leads through \<open>Idle\<close>.
\<close>

definition heavy :: "engine_phase \<Rightarrow> bool" where
  "heavy p = (p \<in> {Turn, Compaction, BranchSummary, Restore})"

lemma heavy_step: "heavy a \<Longrightarrow> heavy b \<Longrightarrow> allows_transition a b \<Longrightarrow> a = Turn \<and> b = Compaction"
  by (cases a; cases b) (auto simp: heavy_def)

lemma always_back_to_idle: "a \<noteq> Idle \<Longrightarrow> allows_transition a Idle"
  by (cases a) auto

section \<open>Properties\<close>

text \<open>
  whatever transitions are attempted, in whatever order, the engine's phase only moves along the
  legality table: an attempt that is not legal, or whose precondition fails, leaves it as it is.
\<close>

theorem phase_trace_legal:
  "legal_trace (phase_run attempts g) \<and>
   snd (try_set_phase_atomic src dst g) = (if allows_transition src dst \<and> g = src then dst else g) \<and>
   (fst (try_set_phase_atomic src dst g) = Inr () \<longleftrightarrow> allows_transition src dst \<and> g = src)"
  by (simp add: phase_run_legal try_set_phase_result try_set_phase_ok)

end
