(* ===== verification/Subagent.thy ===== *)
theory Subagent
  imports Permission
begin

text \<open>
  Subagent scheduling helpers of \<open>zhive-core/src/subagent.rs\<close>: the scope a child runs under and the
  one item of its transcript that reaches the parent. The source builds the candidate scope through
  a JSON round trip of its own four fields; the model builds the record directly (the error of a
  changed schema, \<open>ScopeConstruction\<close>, cannot arise from it).
\<close>

datatype parent_verdict = Allow | Deny

datatype subagent_error =
    ParentIsSubagent
  | ChildSpawnRequested
  | InvalidNarrowing scope_error

datatype subagent_final_event =
    Completed thread_id "item option"
  | Errored thread_id turn_error
  | Suspended thread_id string

record child_scope =
  cs_thread_id :: thread_id
  cs_scope :: permission_scope
  cs_prompt :: string
  cs_description :: string

text \<open>The loop that merges the definition's denylist into the parent's, without repetition.\<close>

fun merge_disallowed :: "tool_name list \<Rightarrow> tool_name list \<Rightarrow> tool_name list" where
  "merge_disallowed acc [] = acc"
| "merge_disallowed acc (t # ts) = merge_disallowed (if t \<in> set acc then acc else acc @ [t]) ts"

definition candidate_scope :: "permission_scope \<Rightarrow> subagent_definition \<Rightarrow> permission_scope" where
  "candidate_scope parent d =
     \<lparr>allowed_tools = (case sd_tools d of Some ts \<Rightarrow> Some ts | None \<Rightarrow> allowed_tools parent),
      disallowed_tools = merge_disallowed (disallowed_tools parent) (sd_disallowed_tools d),
      permission_mode =
        (if permission_mode parent = Some BypassPermissions then Some BypassPermissions
         else (case sd_permission_mode d of Some m \<Rightarrow> Some m | None \<Rightarrow> permission_mode parent)),
      allow_subagent_spawn = False\<rparr>"

definition prepare_child_scope ::
    "permission_scope \<Rightarrow> bool \<Rightarrow> subagent_definition \<Rightarrow> thread_id \<Rightarrow>
     (child_scope, subagent_error) rust_result" where
  "prepare_child_scope parent parent_is_subagent d child_thread_id =
     (if parent_is_subagent then Inl ParentIsSubagent
      else if sd_allow_subagent_spawn d then Inl ChildSpawnRequested
      else (let candidate = candidate_scope parent d
            in case narrowed_into parent candidate of
                 Inl e \<Rightarrow> Inl (InvalidNarrowing e)
               | Inr _ \<Rightarrow>
                   Inr \<lparr>cs_thread_id = child_thread_id, cs_scope = candidate,
                        cs_prompt = sd_prompt d, cs_description = sd_description d\<rparr>))"

lemma set_merge_disallowed: "set (merge_disallowed acc ts) = set acc \<union> set ts"
  by (induction acc ts rule: merge_disallowed.induct) auto

lemma prepare_child_scope_ok:
  "prepare_child_scope p sub d tid = Inr c \<longleftrightarrow>
     \<not> sub \<and> \<not> sd_allow_subagent_spawn d \<and> narrows p (candidate_scope p d) \<and>
     c = \<lparr>cs_thread_id = tid, cs_scope = candidate_scope p d, cs_prompt = sd_prompt d,
          cs_description = sd_description d\<rparr>"
  using narrowed_into_ok [of p "candidate_scope p d"]
  by (auto simp: prepare_child_scope_def Let_def split: sum.splits)

text \<open>
  Which definitions are accepted: the candidate inherits everything it does not restrict, so only
  an explicit allowlist or an explicit mode can make it wider.
\<close>

lemma candidate_narrows:
  "narrows p (candidate_scope p d) \<longleftrightarrow>
     (case (allowed_tools p, sd_tools d) of (Some ps, Some ts) \<Rightarrow> set ts \<subseteq> set ps | _ \<Rightarrow> True) \<and>
     (case (permission_mode p, sd_permission_mode d) of (Some m, Some c) \<Rightarrow> c \<le> m | _ \<Rightarrow> True)"
  by (auto simp: narrows_def candidate_scope_def set_merge_disallowed split: option.splits)

lemma child_permits: "prepare_child_scope p sub d tid = Inr c \<Longrightarrow> permits (cs_scope c) t \<Longrightarrow> permits p t"
  by (auto simp: prepare_child_scope_ok dest: narrows_permits)

section \<open>The final message\<close>

text \<open>\<open>extract_final_message\<close>: one pass that keeps the last message and the last notice.\<close>

fun final_scan :: "item option \<Rightarrow> item option \<Rightarrow> item list \<Rightarrow> item option" where
  "final_scan final_msg fallback [] = (case final_msg of Some m \<Rightarrow> Some m | None \<Rightarrow> fallback)"
| "final_scan final_msg fallback (it # rest) =
     (case it of
        AgentMessage _ _ \<Rightarrow> final_scan (Some it) fallback rest
      | SystemNotice _ _ _ \<Rightarrow> final_scan final_msg (Some it) rest
      | _ \<Rightarrow> final_scan final_msg fallback rest)"

definition extract_final_message :: "item list \<Rightarrow> item option" where
  "extract_final_message transcript = final_scan None None transcript"

fun is_agent_message :: "item \<Rightarrow> bool" where
  "is_agent_message (AgentMessage _ _) = True"
| "is_agent_message _ = False"

fun is_system_notice :: "item \<Rightarrow> bool" where
  "is_system_notice (SystemNotice _ _ _) = True"
| "is_system_notice _ = False"

lemma last_such_append:
  "last_such P (xs @ ys) = (case last_such P ys of Some y \<Rightarrow> Some y | None \<Rightarrow> last_such P xs)"
  by (auto simp: last_such_def)

lemma last_such_Cons:
  "last_such P (x # xs) = (case last_such P xs of Some y \<Rightarrow> Some y | None \<Rightarrow> if P x then Some x else None)"
  by (auto simp: last_such_def)

lemma final_scan_eq:
  "final_scan m f its =
     (case last_such is_agent_message its of
        Some x \<Rightarrow> Some x
      | None \<Rightarrow> (case m of Some x \<Rightarrow> Some x
                | None \<Rightarrow> (case last_such is_system_notice its of Some x \<Rightarrow> Some x | None \<Rightarrow> f)))"
proof (induction m f its rule: final_scan.induct)
  case (2 m f it rest)
  then show ?case by (cases it) (auto simp: last_such_Cons split: option.splits)
qed (simp split: option.splits)

lemma extract_final_message_eq:
  "extract_final_message its =
     (case last_such is_agent_message its of
        Some x \<Rightarrow> Some x | None \<Rightarrow> last_such is_system_notice its)"
  by (auto simp: extract_final_message_def final_scan_eq split: option.splits)

section \<open>Properties\<close>

text \<open>
  of a child's transcript the parent receives exactly one item: the last agent message, or the
  last notice when the child never spoke, or nothing.
\<close>

theorem final_message_is_last:
  "extract_final_message items =
     (if filter is_agent_message items \<noteq> [] then Some (last (filter is_agent_message items))
      else if filter is_system_notice items \<noteq> [] then Some (last (filter is_system_notice items))
      else None)"
  by (auto simp: extract_final_message_eq last_such_def)

end
