(* ===== verification/Turn_Buffer.thy ===== *)
theory Turn_Buffer
  imports Domain
begin

text \<open>
  The turn-dimensioned transcript of \<open>zhive-core/src/state/turn_buffer.rs\<close>: an optional active turn
  and the completed turns, oldest first, of which at most a fixed number keep their items. Turns are
  never removed by eviction: only their item payload is dropped.
\<close>

definition IN_MEMORY_TURN_CAP :: nat where
  "IN_MEMORY_TURN_CAP = 50"

record turn_history_buffer =
  hb_active :: "turn option"
  hb_completed :: "turn list"
  hb_in_memory_turn_cap :: nat
  hb_lazy_unloaded_count :: nat

definition with_cap :: "nat \<Rightarrow> turn_history_buffer" where
  "with_cap cap =
     \<lparr>hb_active = None, hb_completed = [], hb_in_memory_turn_cap = max cap 1, hb_lazy_unloaded_count = 0\<rparr>"

definition buffer_new :: turn_history_buffer where
  "buffer_new = with_cap IN_MEMORY_TURN_CAP"

section \<open>Eviction\<close>

definition loaded :: "turn \<Rightarrow> bool" where
  "loaded t = (t_items_view t \<noteq> turn_items_view.NotLoaded)"

definition resident :: "turn list \<Rightarrow> nat" where
  "resident ts = length (filter loaded ts)"

text \<open>
  The loop over the completed turns: \<open>to_evict\<close> counts down, turns already evicted are skipped; the
  second component is the number of turns evicted by this call.
\<close>

fun evict :: "nat \<Rightarrow> turn list \<Rightarrow> turn list \<times> nat" where
  "evict to_evict [] = ([], 0)"
| "evict to_evict (t # ts) =
     (if to_evict = 0 then (t # ts, 0)
      else if \<not> loaded t then (let (ts', n) = evict to_evict ts in (t # ts', n))
      else (let (ts', n) = evict (to_evict - 1) ts
            in (t\<lparr>t_items := [], t_items_view := turn_items_view.NotLoaded\<rparr> # ts', Suc n)))"

definition enforce_cap :: "turn_history_buffer \<Rightarrow> turn_history_buffer" where
  "enforce_cap b =
     (let r = resident (hb_completed b)
      in if r \<le> hb_in_memory_turn_cap b then b
         else (let (ts, n) = evict (r - hb_in_memory_turn_cap b) (hb_completed b)
               in b\<lparr>hb_completed := ts, hb_lazy_unloaded_count := hb_lazy_unloaded_count b + n\<rparr>))"

section \<open>Operations\<close>

definition start_turn :: "turn \<Rightarrow> turn_history_buffer \<Rightarrow> turn_history_buffer" where
  "start_turn turn b =
     (case hb_active b of
        Some prev \<Rightarrow>
          (enforce_cap (b\<lparr>hb_active := None, hb_completed := hb_completed b @ [prev]\<rparr>))
            \<lparr>hb_active := Some turn\<rparr>
      | None \<Rightarrow> b\<lparr>hb_active := Some turn\<rparr>)"

definition push_item :: "item \<Rightarrow> turn_history_buffer \<Rightarrow> turn_history_buffer" where
  "push_item it b =
     (case hb_active b of
        Some turn \<Rightarrow> b\<lparr>hb_active := Some (turn\<lparr>t_items := t_items turn @ [it]\<rparr>)\<rparr>
      | None \<Rightarrow> b)"

definition finish_turn ::
    "turn_status \<Rightarrow> int \<Rightarrow> int option \<Rightarrow> turn_history_buffer \<Rightarrow> turn_history_buffer" where
  "finish_turn status completed_at duration_ms b =
     (case hb_active b of
        None \<Rightarrow> b
      | Some turn \<Rightarrow>
          (let turn' = turn\<lparr>t_status := status, t_completed_at := Some completed_at,
                            t_duration_ms := duration_ms\<rparr>
           in enforce_cap (b\<lparr>hb_active := None, hb_completed := hb_completed b @ [turn']\<rparr>)))"

definition iter_items :: "turn_history_buffer \<Rightarrow> item list" where
  "iter_items b =
     concat (map t_items (hb_completed b)) @ (case hb_active b of Some t \<Rightarrow> t_items t | None \<Rightarrow> [])"

definition item_count :: "turn_history_buffer \<Rightarrow> nat" where
  "item_count b =
     (case hb_active b of Some t \<Rightarrow> length (t_items t) | None \<Rightarrow> 0) +
     sum_list (map (\<lambda>t. length (t_items t)) (hb_completed b))"

definition completed_len :: "turn_history_buffer \<Rightarrow> nat" where
  "completed_len b = length (hb_completed b)"

definition has_active :: "turn_history_buffer \<Rightarrow> bool" where
  "has_active b = (hb_active b \<noteq> None)"

definition active_turn_id :: "turn_history_buffer \<Rightarrow> turn_id option" where
  "active_turn_id b = map_option t_id (hb_active b)"

definition all_item_ids :: "turn_history_buffer \<Rightarrow> item_id list" where
  "all_item_ids b = map item_id_of (iter_items b)"

definition active_turn_items :: "turn_history_buffer \<Rightarrow> item list" where
  "active_turn_items b = (case hb_active b of Some t \<Rightarrow> t_items t | None \<Rightarrow> [])"

definition recent_turns :: "nat \<Rightarrow> nat \<Rightarrow> turn_history_buffer \<Rightarrow> turn list" where
  "recent_turns offset limit b = take limit (drop offset (rev (hb_completed b)))"

definition replace_with_compaction :: "turn_id \<Rightarrow> item list \<Rightarrow> turn_history_buffer \<Rightarrow> turn_history_buffer" where
  "replace_with_compaction tid items b =
     b\<lparr>hb_active := None,
       hb_lazy_unloaded_count := 0,
       hb_completed :=
         [\<lparr>t_id = tid, t_items = items, t_items_view = turn_items_view.Full,
           t_status = turn_status.Completed, t_error = None, t_started_at = None,
           t_completed_at = None, t_duration_ms = None\<rparr>]\<rparr>"

section \<open>Invariant\<close>

text \<open>
  The cap is positive and respected, an evicted turn holds no items, and the counter counts the
  evicted turns.
\<close>

definition buffer_inv :: "turn_history_buffer \<Rightarrow> bool" where
  "buffer_inv b \<longleftrightarrow>
     1 \<le> hb_in_memory_turn_cap b \<and>
     resident (hb_completed b) \<le> hb_in_memory_turn_cap b \<and>
     (\<forall>t \<in> set (hb_completed b). \<not> loaded t \<longrightarrow> t_items t = []) \<and>
     hb_lazy_unloaded_count b = length (filter (\<lambda>t. \<not> loaded t) (hb_completed b)) \<and>
     (case hb_active b of Some t \<Rightarrow> loaded t | None \<Rightarrow> True)"

text \<open>The header of a turn: what eviction keeps.\<close>

definition header :: "turn \<Rightarrow> turn" where
  "header t = t\<lparr>t_items := [], t_items_view := turn_items_view.NotLoaded\<rparr>"

lemma evict_map_header: "map header (fst (evict n ts)) = map header ts"
  by (induction n ts rule: evict.induct) (auto simp: header_def case_prod_beta Let_def)

lemma length_evict [simp]: "length (fst (evict n ts)) = length ts"
  using evict_map_header [of n ts] by (metis length_map)

lemma evict_count: "snd (evict n ts) = min n (resident ts)"
  by (induction n ts rule: evict.induct) (auto simp: resident_def case_prod_beta Let_def)

lemma resident_evict: "resident (fst (evict n ts)) = resident ts - n"
proof (induction n ts rule: evict.induct)
  case (2 n t ts)
  then show ?case
    by (cases "n = 0"; cases "loaded t") (auto simp: resident_def case_prod_beta Let_def loaded_def)
qed (simp add: resident_def)

lemma evict_unloaded:
  "length (filter (\<lambda>t. \<not> loaded t) (fst (evict n ts))) =
   length (filter (\<lambda>t. \<not> loaded t) ts) + snd (evict n ts)"
  by (induction n ts rule: evict.induct) (auto simp: loaded_def case_prod_beta Let_def)

lemma evict_empty:
  "\<forall>t \<in> set ts. \<not> loaded t \<longrightarrow> t_items t = [] \<Longrightarrow>
   \<forall>t \<in> set (fst (evict n ts)). \<not> loaded t \<longrightarrow> t_items t = []"
  by (induction n ts rule: evict.induct) (auto simp: case_prod_beta Let_def split: if_splits)

text \<open>Eviction drops a prefix of the loaded turns: the survivors are the newest ones.\<close>

lemma evict_keeps_newest:
  "filter loaded (fst (evict n ts)) = drop n (filter loaded ts)"
proof (induction n ts rule: evict.induct)
  case (2 n t ts)
  then show ?case
    by (cases n) (auto simp: case_prod_beta Let_def loaded_def)
qed simp

lemma enforce_cap_fields [frame_simps]:
  "hb_active (enforce_cap b) = hb_active b"
  "hb_in_memory_turn_cap (enforce_cap b) = hb_in_memory_turn_cap b"
  by (auto simp: enforce_cap_def Let_def case_prod_beta)

lemma enforce_cap_headers: "map header (hb_completed (enforce_cap b)) = map header (hb_completed b)"
  by (auto simp: enforce_cap_def Let_def case_prod_beta evict_map_header)

lemma enforce_cap_loaded:
  "filter loaded (hb_completed (enforce_cap b)) =
     drop (resident (hb_completed b) - hb_in_memory_turn_cap b) (filter loaded (hb_completed b))"
  by (auto simp: enforce_cap_def Let_def case_prod_beta evict_keeps_newest)

lemma enforce_cap_inv:
  assumes "1 \<le> hb_in_memory_turn_cap b"
    and "\<forall>t \<in> set (hb_completed b). \<not> loaded t \<longrightarrow> t_items t = []"
    and "hb_lazy_unloaded_count b = length (filter (\<lambda>t. \<not> loaded t) (hb_completed b))"
    and "case hb_active b of Some t \<Rightarrow> loaded t | None \<Rightarrow> True"
  shows "buffer_inv (enforce_cap b)"
  using assms evict_empty [OF assms(2)]
  by (simp add: buffer_inv_def enforce_cap_def Let_def case_prod_beta resident_evict evict_unloaded)

lemma with_cap_inv [inv_intros]: "buffer_inv (with_cap c)"
  by (simp add: buffer_inv_def with_cap_def resident_def)

lemma start_turn_inv [inv_intros]:
  assumes "buffer_inv b" "loaded t"
  shows "buffer_inv (start_turn t b)"
proof (cases "hb_active b")
  case None
  with assms show ?thesis by (simp add: start_turn_def buffer_inv_def)
next
  case (Some prev)
  let ?b = "b\<lparr>hb_active := None, hb_completed := hb_completed b @ [prev]\<rparr>"
  have "buffer_inv (enforce_cap ?b)"
    by (rule enforce_cap_inv) (use assms Some in \<open>auto simp: buffer_inv_def\<close>)
  with Some assms(2) show ?thesis by (simp add: start_turn_def buffer_inv_def frame_simps)
qed

lemma push_item_inv [inv_intros]: "buffer_inv b \<Longrightarrow> buffer_inv (push_item it b)"
  by (auto simp: push_item_def buffer_inv_def loaded_def split: option.splits)

lemma finish_turn_inv [inv_intros]:
  assumes "buffer_inv b"
  shows "buffer_inv (finish_turn st at d b)"
proof (cases "hb_active b")
  case None
  with assms show ?thesis by (simp add: finish_turn_def)
next
  case (Some turn)
  show ?thesis
    unfolding finish_turn_def Some Let_def option.case
    by (rule enforce_cap_inv) (use assms Some in \<open>auto simp: buffer_inv_def loaded_def\<close>)
qed

lemma replace_with_compaction_inv [inv_intros]:
  "buffer_inv b \<Longrightarrow> buffer_inv (replace_with_compaction tid its b)"
  by (auto simp: buffer_inv_def replace_with_compaction_def resident_def loaded_def)

lemma item_count_eq: "item_count b = length (iter_items b)"
  by (simp add: item_count_def iter_items_def length_concat comp_def add.commute split: option.splits)

section \<open>Properties\<close>

text \<open>Any sequence of the operations of the transcript.\<close>

datatype transcript_op =
    StartTurn turn_id int
  | PushItem item
  | FinishTurn turn_status int "int option"
  | ReplaceWithCompaction turn_id "item list"

fun buffer_step :: "transcript_op \<Rightarrow> turn_history_buffer \<Rightarrow> turn_history_buffer" where
  "buffer_step (StartTurn tid at) b =
     start_turn \<lparr>t_id = tid, t_items = [], t_items_view = turn_items_view.Full,
                 t_status = turn_status.InProgress, t_error = None, t_started_at = Some at,
                 t_completed_at = None, t_duration_ms = None\<rparr> b"
| "buffer_step (PushItem it) b = push_item it b"
| "buffer_step (FinishTurn st at d) b = finish_turn st at d b"
| "buffer_step (ReplaceWithCompaction tid its) b = replace_with_compaction tid its b"

lemma fold_step_inv: "buffer_inv b \<Longrightarrow> buffer_inv (fold buffer_step steps b)"
proof (induction steps arbitrary: b)
  case (Cons s steps)
  have "buffer_inv (buffer_step s b)"
    using Cons.prems by (cases s) (auto intro: inv_intros start_turn_inv simp: loaded_def)
  then show ?case by (simp add: Cons.IH)
qed simp

text \<open>
  after any sequence of turns, items and compactions, at most the configured number of completed
  turns keep their items in memory, an evicted turn holds none, and the counter is the number of
  evicted turns.
\<close>

theorem memory_cap_respected:
  "resident (hb_completed (fold buffer_step steps (with_cap c))) \<le> max c 1 \<and>
   {t \<in> set (hb_completed (fold buffer_step steps (with_cap c))). \<not> loaded t \<and> t_items t \<noteq> []} = {} \<and>
   hb_lazy_unloaded_count (fold buffer_step steps (with_cap c)) =
     length (filter (\<lambda>t. \<not> loaded t) (hb_completed (fold buffer_step steps (with_cap c))))"
proof -
  have "hb_in_memory_turn_cap (fold buffer_step steps b) = hb_in_memory_turn_cap b" for b
  proof (induction steps arbitrary: b)
    case (Cons s steps)
    have "hb_in_memory_turn_cap (buffer_step s b) = hb_in_memory_turn_cap b"
      by (cases s) (auto simp: start_turn_def push_item_def finish_turn_def replace_with_compaction_def
                               frame_simps Let_def split: option.splits)
    then show ?case by (simp add: Cons)
  qed simp
  then have cap: "hb_in_memory_turn_cap (fold buffer_step steps (with_cap c)) = max c 1"
    by (simp add: with_cap_def)
  have "buffer_inv (fold buffer_step steps (with_cap c))" by (rule fold_step_inv [OF with_cap_inv])
  then show ?thesis by (auto simp: buffer_inv_def cap)
qed

text \<open>
  closing a turn removes no turn: the headers are those of before with the closed turn at the
  end, and the turns that keep their items are the newest ones of those that had them.
\<close>

theorem finish_keeps_headers_and_newest:
  assumes "hb_active b = Some t"
  shows "map header (hb_completed (finish_turn st at d b)) =
           map header (hb_completed b) @
           [header (t\<lparr>t_status := st, t_completed_at := Some at, t_duration_ms := d\<rparr>)] \<and>
         suffix (filter loaded (hb_completed (finish_turn st at d b)))
           (filter loaded (hb_completed b @ [t\<lparr>t_status := st, t_completed_at := Some at, t_duration_ms := d\<rparr>])) \<and>
         hb_active (finish_turn st at d b) = None"
proof -
  let ?t = "t\<lparr>t_status := st, t_completed_at := Some at, t_duration_ms := d\<rparr>"
  let ?b = "b\<lparr>hb_active := None, hb_completed := hb_completed b @ [?t]\<rparr>"
  have eq: "finish_turn st at d b = enforce_cap ?b" using assms by (simp add: finish_turn_def)
  have "map header (hb_completed (enforce_cap ?b)) = map header (hb_completed ?b)"
    by (rule enforce_cap_headers)
  moreover have "suffix (filter loaded (hb_completed (enforce_cap ?b))) (filter loaded (hb_completed ?b))"
    unfolding enforce_cap_loaded by (rule suffix_drop)
  ultimately show ?thesis unfolding eq by (simp del: filter_append add: frame_simps)
qed

theorem finish_keeps_headers_and_newest_witness:
  "map t_id (hb_completed (finish_turn turn_status.Completed 5 None
     (buffer_step (StartTurn (TurnId ''a'') 0) buffer_new))) = [TurnId ''a'']"
proof -
  let ?b = "buffer_step (StartTurn (TurnId ''a'') 0) buffer_new"
  have "hb_active ?b = Some \<lparr>t_id = TurnId ''a'', t_items = [], t_items_view = turn_items_view.Full,
                 t_status = turn_status.InProgress, t_error = None, t_started_at = Some 0,
                 t_completed_at = None, t_duration_ms = None\<rparr>" "hb_completed ?b = []"
    by (simp_all add: start_turn_def buffer_new_def with_cap_def)
  from finish_keeps_headers_and_newest [OF this(1), of turn_status.Completed 5 None] this(2)
  have "map header (hb_completed (finish_turn turn_status.Completed 5 None ?b)) =
        [header \<lparr>t_id = TurnId ''a'', t_items = [], t_items_view = turn_items_view.Full,
                 t_status = turn_status.Completed, t_error = None, t_started_at = Some 0,
                 t_completed_at = Some 5, t_duration_ms = None\<rparr>]"
    by simp
  then have "map (t_id \<circ> header) (hb_completed (finish_turn turn_status.Completed 5 None ?b)) = [TurnId ''a'']"
    by (simp only: map_map [symmetric]) (simp add: header_def)
  then show ?thesis by (simp add: comp_def header_def)
qed

end
