(* ===== verification/Preview.thy ===== *)
theory Preview
  imports Domain
begin

text \<open>
  Thread previews (\<open>zhive-core/src/persistence/preview.rs\<close>). The source truncates by characters, so
  the byte string is first cut into its UTF-8 encoded characters; the other pieces of the standard
  library it needs (\<open>trim\<close> by Unicode white space, \<open>join\<close>) are defined here on top of that.
\<close>

section \<open>Characters of a UTF-8 string\<close>

definition is_continuation :: "char \<Rightarrow> bool" where
  "is_continuation c = (128 \<le> (of_char c :: nat) \<and> (of_char c :: nat) < 192)"

text \<open>\<open>str::chars\<close>: each character as its own byte string, a leading byte and its continuations.\<close>

fun chars :: "string \<Rightarrow> string list" where
  "chars [] = []"
| "chars (c # cs) =
     (case chars cs of
        [] \<Rightarrow> [[c]]
      | ch # rest \<Rightarrow> (if is_continuation (hd ch) then (c # ch) # rest else [c] # ch # rest))"

text \<open>\<open>char::is_whitespace\<close>: the characters with the Unicode property White\_Space, encoded.\<close>

definition is_whitespace :: "string \<Rightarrow> bool" where
  "is_whitespace ch =
     (let bs = map of_char ch :: nat list
      in (case bs of
            [b] \<Rightarrow> (9 \<le> b \<and> b \<le> 13) \<or> b = 32
          | [b1, b2] \<Rightarrow> b1 = 194 \<and> (b2 = 133 \<or> b2 = 160)
          | [b1, b2, b3] \<Rightarrow>
              (b1 = 225 \<and> b2 = 154 \<and> b3 = 128) \<or>
              (b1 = 226 \<and> b2 = 128 \<and> ((128 \<le> b3 \<and> b3 \<le> 138) \<or> b3 = 168 \<or> b3 = 169 \<or> b3 = 175)) \<or>
              (b1 = 226 \<and> b2 = 129 \<and> b3 = 159) \<or>
              (b1 = 227 \<and> b2 = 128 \<and> b3 = 128)
          | _ \<Rightarrow> False))"

text \<open>\<open>str::trim\<close>, as the characters that remain.\<close>

definition trim_chars :: "string \<Rightarrow> string list" where
  "trim_chars s = rev (dropWhile is_whitespace (rev (dropWhile is_whitespace (chars s))))"

definition trim :: "string \<Rightarrow> string" where
  "trim s = concat (trim_chars s)"

fun join :: "string \<Rightarrow> string list \<Rightarrow> string" where
  "join sep [] = []"
| "join sep [s] = s"
| "join sep (s # t # ts) = s @ sep @ join sep (t # ts)"

lemma concat_chars [simp]: "concat (chars s) = s"
proof (induction s)
  case (Cons c cs)
  then show ?case by (auto split: list.split)
qed simp

lemma chars_nonempty: "[] \<notin> set (chars s)"
  by (induction s) (auto split: list.splits)

section \<open>The preview\<close>

definition PREVIEW_MAX_CHARS :: nat where
  "PREVIEW_MAX_CHARS = 80"

text \<open>\<open>truncate_preview\<close>: \<open>trim\<close>, the characters, at most 80 of them, collected.\<close>

definition truncate_preview :: "string \<Rightarrow> string" where
  "truncate_preview text = concat (take PREVIEW_MAX_CHARS (chars (trim text)))"

fun text_part :: "item_content \<Rightarrow> string option" where
  "text_part (item_content.Text text _) = Some text"
| "text_part _ = None"

fun user_text :: "item \<Rightarrow> string option" where
  "user_text (UserMessage _ content) = Some (join '' '' (List.map_filter text_part content))"
| "user_text _ = None"

fun find_map :: "('a \<Rightarrow> 'b option) \<Rightarrow> 'a list \<Rightarrow> 'b option" where
  "find_map f [] = None"
| "find_map f (x # xs) = (case f x of Some y \<Rightarrow> Some y | None \<Rightarrow> find_map f xs)"

definition derive_preview_from_items :: "item list \<Rightarrow> string" where
  "derive_preview_from_items items =
     (case find_map user_text items of
        None \<Rightarrow> []
      | Some text \<Rightarrow> truncate_preview text)"

text \<open>
  Cutting a concatenation of whole characters gives those characters back: a list of encoded
  characters is one where only the first byte of each is not a continuation byte.
\<close>

fun char_shaped :: "string \<Rightarrow> bool" where
  "char_shaped [] = False"
| "char_shaped (c # cs) = (\<not> is_continuation c \<and> (\<forall>b \<in> set cs. is_continuation b))"

definition utf8_shaped :: "string \<Rightarrow> bool" where
  "utf8_shaped s \<longleftrightarrow> s = [] \<or> \<not> is_continuation (hd s)"

lemma chars_Cons_lead:
  "\<forall>b \<in> set ch. is_continuation b \<Longrightarrow> utf8_shaped rest \<Longrightarrow>
   chars ((c # ch) @ rest) = (c # ch) # chars rest"
proof (induction ch arbitrary: c)
  case Nil
  then show ?case
    by (cases rest) (auto simp: utf8_shaped_def split: list.splits)
next
  case (Cons b bs)
  then have "chars ((b # bs) @ rest) = (b # bs) # chars rest" by auto
  with Cons.prems(1) show ?case by simp
qed

lemma chars_concat:
  "\<forall>ch \<in> set chs. char_shaped ch \<Longrightarrow> chars (concat chs) = chs"
proof (induction chs)
  case (Cons ch chs)
  obtain c cs where ch: "ch = c # cs" using Cons.prems by (cases ch) auto
  have "utf8_shaped (concat chs)"
  proof (cases chs)
    case (Cons ch' chs')
    then show ?thesis using Cons.prems by (cases ch') (auto simp: utf8_shaped_def)
  qed (simp add: utf8_shaped_def)
  then have "chars ((c # cs) @ concat chs) = (c # cs) # chars (concat chs)"
    using Cons.prems ch by (intro chars_Cons_lead) auto
  with Cons ch show ?case by simp
qed simp

lemma chars_shaped: "utf8_shaped s \<Longrightarrow> \<forall>ch \<in> set (chars s). char_shaped ch"
proof -
  have "case chars s of [] \<Rightarrow> s = []
        | ch # chs \<Rightarrow> ch \<noteq> [] \<and> hd ch = hd s \<and> s \<noteq> [] \<and> (\<forall>b \<in> set (tl ch). is_continuation b)
                      \<and> (\<forall>x \<in> set chs. char_shaped x)" for s
  proof (induction s)
    case (Cons c cs)
    show ?case
    proof (cases "chars cs")
      case Nil
      then show ?thesis by simp
    next
      case (Cons ch chs)
      with Cons.IH have ch: "ch \<noteq> []" "\<forall>b \<in> set (tl ch). is_continuation b"
        "\<forall>x \<in> set chs. char_shaped x" by auto
      then obtain b bs where b: "ch = b # bs" by (cases ch) auto
      from Cons ch b show ?thesis by auto
    qed
  qed simp
  from this [of s] show "utf8_shaped s \<Longrightarrow> ?thesis"
    by (cases "chars s"; cases "hd (chars s)") (auto simp: utf8_shaped_def)
qed

lemma trim_chars_subset: "set (trim_chars s) \<subseteq> set (chars s)"
  unfolding trim_chars_def by (auto dest!: set_dropWhileD)

lemma chars_trim: "utf8_shaped s \<Longrightarrow> chars (trim s) = trim_chars s"
  unfolding trim_def
  by (intro chars_concat) (use chars_shaped trim_chars_subset in blast)

lemma chars_truncate_preview:
  "utf8_shaped s \<Longrightarrow> chars (truncate_preview s) = take PREVIEW_MAX_CHARS (trim_chars s)"
  unfolding truncate_preview_def
  by (subst chars_concat) (use chars_shaped trim_chars_subset in \<open>auto simp: chars_trim dest!: in_set_takeD\<close>)

section \<open>Properties\<close>

text \<open>
  the preview of a UTF-8 text has at most eighty characters, and they are the first characters of
  the trimmed text: no character is cut in the middle.
\<close>

theorem preview_bounded_prefix:
  assumes "utf8_shaped text"
  shows "length (chars (truncate_preview text)) \<le> 80 \<and>
         chars (truncate_preview text) = take 80 (chars (trim text))"
  using assms by (simp add: chars_truncate_preview chars_trim PREVIEW_MAX_CHARS_def)

theorem preview_bounded_prefix_witness: "truncate_preview ''  hi '' = ''hi'' \<and> length (chars (truncate_preview ''  hi '')) \<le> 80"
  using preview_bounded_prefix [of "''  hi ''"]
  by (simp add: utf8_shaped_def is_continuation_def truncate_preview_def trim_def trim_chars_def is_whitespace_def PREVIEW_MAX_CHARS_def Let_def)

end
