(* ===== verification/Cancel.thy ===== *)
theory Cancel
  imports Zhive_Prelude
begin

text \<open>
  The cancellation hierarchy of \<open>zhive-core/src/cancel.rs\<close>. A token is a number; the tree records
  the parent of every token created as a child and the tokens that were fired. The root is token 0.
  A token is cancelled when it or an ancestor has fired, which is what the tokens of tokio-util
  promise. A child is numbered after its parent, so walking up terminates.
\<close>

type_synonym cancel_token = nat

record cancellation_tree =
  ct_parents :: "cancel_token list"  \<comment> \<open>the parent of token \<open>i + 1\<close> is element \<open>i\<close>\<close>
  ct_fired :: "cancel_token list"

definition cancel_new :: cancellation_tree where
  "cancel_new = \<lparr>ct_parents = [], ct_fired = []\<rparr>"

definition root :: "cancellation_tree \<Rightarrow> cancel_token" where
  "root t = 0"

definition child_token :: "cancel_token \<Rightarrow> cancellation_tree \<Rightarrow> cancel_token \<times> cancellation_tree" where
  "child_token p t = (Suc (length (ct_parents t)), t\<lparr>ct_parents := ct_parents t @ [p]\<rparr>)"

definition child_for_turn :: "cancellation_tree \<Rightarrow> cancel_token \<times> cancellation_tree" where
  "child_for_turn t = child_token (root t) t"

definition child_for_tool :: "cancel_token \<Rightarrow> cancellation_tree \<Rightarrow> cancel_token \<times> cancellation_tree" where
  "child_for_tool parent t = child_token parent t"

definition cancel :: "cancel_token \<Rightarrow> cancellation_tree \<Rightarrow> cancellation_tree" where
  "cancel tok t = t\<lparr>ct_fired := tok # ct_fired t\<rparr>"

definition cancel_all :: "cancellation_tree \<Rightarrow> cancellation_tree" where
  "cancel_all t = cancel (root t) t"

text \<open>The path from a token to the root; a step that does not go down in number ends the walk.\<close>

fun ancestors :: "cancel_token list \<Rightarrow> cancel_token \<Rightarrow> cancel_token list" where
  "ancestors ps 0 = [0]"
| "ancestors ps (Suc i) =
     (if i < length ps \<and> ps ! i < Suc i then Suc i # ancestors ps (ps ! i) else [Suc i])"

definition token_is_cancelled :: "cancellation_tree \<Rightarrow> cancel_token \<Rightarrow> bool" where
  "token_is_cancelled t tok = list_ex (\<lambda>a. a \<in> set (ct_fired t)) (ancestors (ct_parents t) tok)"

definition is_cancelled :: "cancellation_tree \<Rightarrow> bool" where
  "is_cancelled t = token_is_cancelled t (root t)"

text \<open>Well-formed: every parent is numbered before its child.\<close>

definition tree_wf :: "cancellation_tree \<Rightarrow> bool" where
  "tree_wf t \<longleftrightarrow> (\<forall>i < length (ct_parents t). ct_parents t ! i < Suc i)"

lemma cancel_new_wf: "tree_wf cancel_new"
  by (simp add: tree_wf_def cancel_new_def)

lemma child_token_wf [inv_intros]:
  "tree_wf t \<Longrightarrow> p \<le> length (ct_parents t) \<Longrightarrow> tree_wf (snd (child_token p t))"
  by (auto simp: tree_wf_def child_token_def nth_append less_Suc_eq)

lemma cancel_wf [inv_intros]: "tree_wf t \<Longrightarrow> tree_wf (cancel tok t)"
  by (simp add: tree_wf_def cancel_def)

lemma ancestors_self: "tok \<in> set (ancestors ps tok)"
  by (cases tok) auto

lemma ancestors_root:
  "(\<forall>i < length ps. ps ! i < Suc i) \<Longrightarrow> tok \<le> length ps \<Longrightarrow> 0 \<in> set (ancestors ps tok)"
proof (induction ps tok rule: ancestors.induct)
  case (2 ps i)
  then have "ps ! i < Suc i" "i < length ps" by auto
  with 2 show ?case by auto
qed simp

lemma ancestors_le: "a \<in> set (ancestors ps tok) \<Longrightarrow> a \<le> tok"
  by (induction ps tok rule: ancestors.induct) (auto split: if_splits)

lemma ancestors_append:
  "tok \<le> length ps \<Longrightarrow> (\<forall>i < length ps. ps ! i < Suc i) \<Longrightarrow> ancestors (ps @ qs) tok = ancestors ps tok"
proof (induction ps tok rule: ancestors.induct)
  case (2 ps i)
  then have i: "i < length ps" "ps ! i < Suc i" by auto
  then have "ps ! i \<le> length ps" by linarith
  then have "ancestors (ps @ qs) (ps ! i) = ancestors ps (ps ! i)"
    using 2 i by auto
  with i show ?case by (simp add: nth_append)
qed simp

lemma cancelled_cancel:
  "token_is_cancelled (cancel tok t) u \<longleftrightarrow>
     token_is_cancelled t u \<or> tok \<in> set (ancestors (ct_parents t) u)"
  by (auto simp: token_is_cancelled_def cancel_def list_ex_iff)

lemma child_parent:
  assumes "tree_wf t" "p \<le> length (ct_parents t)"
  shows "token_is_cancelled (snd (child_token p t)) (fst (child_token p t)) \<longleftrightarrow>
         fst (child_token p t) \<in> set (ct_fired t) \<or> token_is_cancelled t p"
proof -
  have "ancestors (ct_parents t @ [p]) (Suc (length (ct_parents t))) =
        Suc (length (ct_parents t)) # ancestors (ct_parents t) p"
    using assms by (simp add: tree_wf_def ancestors_append)
  then show ?thesis by (simp add: token_is_cancelled_def child_token_def)
qed

section \<open>Properties\<close>

lemma ancestors_child:
  assumes "tree_wf t" "p \<le> length (ct_parents t)"
  shows "ancestors (ct_parents (snd (child_token p t))) (fst (child_token p t)) =
           fst (child_token p t) # ancestors (ct_parents t) p"
    and "u \<le> length (ct_parents t) \<Longrightarrow>
         ancestors (ct_parents (snd (child_token p t))) u = ancestors (ct_parents t) u"
  using assms by (simp_all add: child_token_def tree_wf_def ancestors_append)

definition fired_known :: "cancellation_tree \<Rightarrow> bool" where
  "fired_known t \<longleftrightarrow> list_all (\<lambda>u. u \<le> length (ct_parents t)) (ct_fired t)"

text \<open>
  a tool's token follows its turn's token and the engine's root, and never the other way round:
  firing the turn cancels the tool and not the engine, firing the tool leaves the turn running, and
  cancelling everything reaches both.
\<close>

theorem tool_token_follows_turn:
  assumes "tree_wf t" "fired_known t" "\<not> is_cancelled t"
    and "child_for_turn t = (turn, t1)" "child_for_tool turn t1 = (tool, t2)"
  shows "token_is_cancelled (cancel turn t2) tool \<and> \<not> is_cancelled (cancel turn t2) \<and>
         \<not> token_is_cancelled (cancel tool t2) turn \<and> \<not> token_is_cancelled t2 tool \<and>
         token_is_cancelled (cancel_all t2) turn \<and> token_is_cancelled (cancel_all t2) tool"
proof -
  have wf1: "tree_wf t1" using child_token_wf [OF assms(1), of 0] assms(4) by (simp add: child_for_turn_def root_def)
  have turn: "turn = Suc (length (ct_parents t))" "ct_parents t1 = ct_parents t @ [0]" "ct_fired t1 = ct_fired t"
    using assms(4) by (auto simp: child_for_turn_def child_token_def root_def)
  have tool: "tool = Suc turn" "ct_parents t2 = ct_parents t1 @ [turn]" "ct_fired t2 = ct_fired t"
    using assms(5) turn by (auto simp: child_for_tool_def child_token_def)
  have a1: "ancestors (ct_parents t1) turn = [turn, 0]"
    using ancestors_child(1) [OF assms(1), of 0] assms(4) by (simp add: child_for_turn_def root_def)
  have le: "turn \<le> length (ct_parents t1)" using turn by simp
  have a2: "ancestors (ct_parents t2) tool = [tool, turn, 0]" "ancestors (ct_parents t2) turn = [turn, 0]"
    using ancestors_child(1) [OF wf1 le] ancestors_child(2) [OF wf1 le le] assms(5) a1
    by (simp_all add: child_for_tool_def)
  have fresh: "turn \<notin> set (ct_fired t)" "tool \<notin> set (ct_fired t)"
    using assms(2) turn(1) tool(1) by (auto simp: fired_known_def list_all_iff)
  have "0 \<notin> set (ct_fired t)" using assms(3) by (simp add: is_cancelled_def token_is_cancelled_def root_def)
  then show ?thesis
    using fresh a2 turn(1) tool(1,3)
    by (simp add: token_is_cancelled_def is_cancelled_def root_def cancel_def cancel_all_def)
qed

theorem tool_token_follows_turn_witness:
  "token_is_cancelled (cancel 1 (snd (child_for_tool 1 (snd (child_for_turn cancel_new))))) 2"
proof -
  have "fired_known cancel_new" "\<not> is_cancelled cancel_new"
    by (simp_all add: fired_known_def is_cancelled_def token_is_cancelled_def root_def cancel_new_def)
  moreover have "child_for_turn cancel_new = (1, snd (child_for_turn cancel_new))"
    "child_for_tool 1 (snd (child_for_turn cancel_new)) = (2, snd (child_for_tool 1 (snd (child_for_turn cancel_new))))"
    by (simp_all add: child_for_turn_def child_for_tool_def child_token_def cancel_new_def)
  ultimately show ?thesis using tool_token_follows_turn [OF cancel_new_wf] by blast
qed

end
