(* ===== verification/Storage_Op.thy ===== *)
theory Storage_Op
  imports Permission
begin

text \<open>
  The write operations handed to the persistence task
  (\<open>StorageWriteOp\<close> of \<open>zhive-core/src/persistence/writer.rs\<close>). The acknowledgement channel a
  flush may carry is represented by a number that identifies it.
\<close>

datatype storage_write_op =
    ThreadUpserted thread
  | TurnStarted thread_id turn_id int
  | ItemAppended thread_id turn_id int item
  | TurnEnded thread_id turn_id turn_status "turn_error option" int "int option"
  | Flush thread_id "nat option"
  | ModelChanged thread_id string string
  | SessionNameSet thread_id string
  | SetLeaf thread_id "string option"
  | ForkHeader thread_id thread_id string int
  | Compaction thread_id turn_id int string "item list" u32
  | PermissionSuspended thread_id turn_id int string request_permission_request
  | PermissionResolved thread_id string int
  | Snapshot thread_id turn_id int string string

end
