(* ===== verification/Pending_Writes.thy ===== *)
theory Pending_Writes
  imports Storage_Op Phase Drain_Buffer
begin

text \<open>
  Session writes deferred while the engine is not idle
  (\<open>zhive-core/src/state/pending_writes.rs\<close>). The closure the source passes to \<open>flush\<close> is a
  function on a state of the caller's choosing, which may refuse an operation.
\<close>

datatype pending_session_write =
    Item thread_id turn_id int item
  | ModelChanged thread_id string string
  | SessionInfo thread_id "string option"
  | Leaf thread_id
  | ThinkingLevelChange u8
  | Label item_id string
  | Custom string json
  | CustomMessage string string

datatype pending_flush_error = EnqueueRejected string

type_synonym pending_session_writes = "pending_session_write list"

definition push_or_enqueue ::
    "engine_phase \<Rightarrow> pending_session_write \<Rightarrow> (pending_session_write \<Rightarrow> 's \<Rightarrow> 's) \<Rightarrow>
     pending_session_writes \<times> 's \<Rightarrow> pending_session_writes \<times> 's" where
  "push_or_enqueue phase w enqueue st =
     (let (queue, s) = st
      in if phase = Idle then (queue, enqueue w s) else (queue @ [w], s))"

fun pending_to_storage_op :: "pending_session_write \<Rightarrow> storage_write_op option" where
  "pending_to_storage_op (Item tid turn seq it) = Some (ItemAppended tid turn seq it)"
| "pending_to_storage_op (pending_session_write.ModelChanged tid provider model) =
     Some (storage_write_op.ModelChanged tid provider model)"
| "pending_to_storage_op (SessionInfo tid name) =
     Some (SessionNameSet tid (case name of Some n \<Rightarrow> n | None \<Rightarrow> []))"
| "pending_to_storage_op (Leaf tid) = Some (Flush tid None)"
| "pending_to_storage_op other = None"

text \<open>
  The loop of \<open>flush\<close>: the result, the writes left in the buffer and the caller's state. The write
  whose operation was refused has left the buffer.
\<close>

fun flush_loop ::
    "(storage_write_op \<Rightarrow> 's \<Rightarrow> (unit, pending_flush_error) rust_result \<times> 's) \<Rightarrow>
     pending_session_writes \<Rightarrow> nat \<Rightarrow> 's \<Rightarrow>
     (nat, pending_flush_error) rust_result \<times> pending_session_writes \<times> 's" where
  "flush_loop enqueue [] flushed s = (Inr flushed, [], s)"
| "flush_loop enqueue (w # queue) flushed s =
     (case pending_to_storage_op w of
        None \<Rightarrow> flush_loop enqueue queue flushed s
      | Some op \<Rightarrow>
          (case enqueue op s of
             (Inl e, s') \<Rightarrow> (Inl e, queue, s')
           | (Inr _, s') \<Rightarrow> flush_loop enqueue queue (Suc flushed) s'))"

definition flush ::
    "(storage_write_op \<Rightarrow> 's \<Rightarrow> (unit, pending_flush_error) rust_result \<times> 's) \<Rightarrow>
     pending_session_writes \<Rightarrow> 's \<Rightarrow>
     (nat, pending_flush_error) rust_result \<times> pending_session_writes \<times> 's" where
  "flush enqueue queue s = flush_loop enqueue queue 0 s"

text \<open>The operations a buffer stands for, in order.\<close>

definition durable_ops :: "pending_session_writes \<Rightarrow> storage_write_op list" where
  "durable_ops ws = List.map_filter pending_to_storage_op ws"

lemma durable_ops_simps [simp]:
  "durable_ops [] = []"
  "durable_ops (w # ws) =
     (case pending_to_storage_op w of None \<Rightarrow> durable_ops ws | Some op \<Rightarrow> op # durable_ops ws)"
  by (auto simp: durable_ops_def List.map_filter_def split: option.splits)

text \<open>A closure that always accepts and logs what it is given.\<close>

definition log_op :: "storage_write_op \<Rightarrow> storage_write_op list \<Rightarrow>
    (unit, pending_flush_error) rust_result \<times> storage_write_op list" where
  "log_op op log = (Inr (), log @ [op])"

lemma flush_loop_log:
  "flush_loop log_op ws n log = (Inr (n + length (durable_ops ws)), [], log @ durable_ops ws)"
  by (induction ws arbitrary: n log) (auto simp: log_op_def split: option.splits)

lemma flush_log: "flush log_op ws log = (Inr (length (durable_ops ws)), [], log @ durable_ops ws)"
  by (simp add: flush_def flush_loop_log)

text \<open>A closure that accepts \<open>k\<close> operations and refuses the next.\<close>

definition bounded_log ::
    "string \<Rightarrow> storage_write_op \<Rightarrow> nat \<times> storage_write_op list \<Rightarrow>
     (unit, pending_flush_error) rust_result \<times> nat \<times> storage_write_op list" where
  "bounded_log cause op st =
     (case st of
        (0, log) \<Rightarrow> (Inl (EnqueueRejected cause), (0, log))
      | (Suc k, log) \<Rightarrow> (Inr (), (k, log @ [op])))"

lemma flush_loop_bounded_ok:
  "length (durable_ops ws) \<le> k \<Longrightarrow>
   flush_loop (bounded_log c) ws n (k, log) =
     (Inr (n + length (durable_ops ws)), [], (k - length (durable_ops ws), log @ durable_ops ws))"
proof (induction ws arbitrary: n k log)
  case (Cons w ws)
  then show ?case
    by (cases k) (auto simp: bounded_log_def split: option.splits)
qed simp

lemma flush_loop_bounded_fail:
  "k < length (durable_ops ws) \<Longrightarrow>
   \<exists>rest. flush_loop (bounded_log c) ws n (k, log) =
            (Inl (EnqueueRejected c), rest, (0, log @ take k (durable_ops ws))) \<and>
          durable_ops rest = drop (Suc k) (durable_ops ws)"
proof (induction ws arbitrary: n k log)
  case (Cons w ws)
  show ?case
  proof (cases "pending_to_storage_op w")
    case None
    with Cons show ?thesis by simp
  next
    case (Some op)
    show ?thesis
    proof (cases k)
      case 0
      with Some show ?thesis by (simp add: bounded_log_def)
    next
      case (Suc j)
      with Some Cons.prems have "j < length (durable_ops ws)" by simp
      with Cons.IH [of j "Suc n" "log @ [op]"] Suc Some show ?thesis
        by (auto simp: bounded_log_def)
    qed
  qed
qed simp

text \<open>Outside \<open>Idle\<close> nothing reaches the closure; the buffer keeps the order of arrival.\<close>

lemma push_deferred: "phase \<noteq> Idle \<Longrightarrow> push_or_enqueue phase w enqueue (q, s) = (q @ [w], s)"
  by (simp add: push_or_enqueue_def)

lemma push_idle: "push_or_enqueue Idle w enqueue (q, s) = (q, enqueue w s)"
  by (simp add: push_or_enqueue_def)

section \<open>Properties\<close>

text \<open>
  a flush whose closure accepts everything hands over the durable operations in the order they
  were deferred, reports their number and empties the buffer.
\<close>

theorem flush_all:
  "flush log_op ws log = (Inr (length (durable_ops ws)), [], log @ durable_ops ws)"
  by (rule flush_log)

text \<open>
  when the closure accepts \<open>k\<close> operations and refuses the next, exactly the first \<open>k\<close> are
  handed over, and of the rest the refused one is lost: what stays buffered starts after it.
\<close>

theorem flush_refused_loses_one:
  assumes "k < length (durable_ops ws)"
  shows "fst (flush (bounded_log c) ws (k, log)) = Inl (EnqueueRejected c) \<and>
         snd (snd (flush (bounded_log c) ws (k, log))) = (0, log @ take k (durable_ops ws)) \<and>
         durable_ops (fst (snd (flush (bounded_log c) ws (k, log)))) = drop (Suc k) (durable_ops ws)"
proof -
  obtain rest where "flush_loop (bounded_log c) ws 0 (k, log) =
      (Inl (EnqueueRejected c), rest, (0, log @ take k (durable_ops ws)))"
    "durable_ops rest = drop (Suc k) (durable_ops ws)"
    using flush_loop_bounded_fail [OF assms] by blast
  then show ?thesis by (simp add: flush_def)
qed

theorem flush_refused_loses_one_witness:
  "fst (snd (flush (bounded_log ''full'') [Leaf (ThreadId ''t'')] (0, []))) = [] \<and>
   snd (snd (snd (flush (bounded_log ''full'') [Leaf (ThreadId ''t'')] (0, [])))) = []"
  using flush_refused_loses_one [of 0 "[Leaf (ThreadId ''t'')]" "''full''" "[]"]
  by (simp add: flush_def bounded_log_def)

end
