(* ===== verification/Thread_State.thy ===== *)
theory Thread_State
  imports Queues Pending_Writes Turn_Buffer Cancel
begin

text \<open>
  Thread handles, active turns and the thread store (\<open>zhive-core/src/state/thread.rs\<close>,
  \<open>thread_event.rs\<close>). A handle's locks are held only within one statement, so its operations are
  functions on the record. A broadcast channel is the list of the events sent on it; the two
  channels of a child handle are represented by whether the sending half is there.
\<close>

datatype thread_event =
    TurnStarted turn_id int
  | ItemAppended turn_id item
  | TurnCompleted turn_id turn_status
  | MetadataChanged "string option" "thread_status option" int

record active_turn =
  at_id :: turn_id
  at_started_at :: int
  at_next_item_seq :: u32
  at_cancel :: cancel_token
  at_scope :: permission_scope
  at_reasoning :: "thinking_effort option"

definition new_with_cancel :: "turn_id \<Rightarrow> int \<Rightarrow> cancel_token \<Rightarrow> active_turn" where
  "new_with_cancel tid started_at tok =
     \<lparr>at_id = tid, at_started_at = started_at, at_next_item_seq = 0, at_cancel = tok,
      at_scope = default_turn_scope, at_reasoning = None\<rparr>"

definition new_with_cancel_and_scope ::
    "turn_id \<Rightarrow> int \<Rightarrow> cancel_token \<Rightarrow> permission_scope \<Rightarrow> active_turn" where
  "new_with_cancel_and_scope tid started_at tok scope =
     \<lparr>at_id = tid, at_started_at = started_at, at_next_item_seq = 0, at_cancel = tok,
      at_scope = scope, at_reasoning = None\<rparr>"

record thread_handle =
  hd_id :: thread_id
  hd_status :: thread_status
  hd_active_turn :: "active_turn option"
  hd_history :: turn_history_buffer
  hd_events :: "thread_event list"
  hd_injection :: injection_queues
  hd_pending :: pending_session_writes
  hd_parent :: "thread_id option"
  hd_final_tx :: bool
  hd_decision_tx :: bool

definition with_capacity :: "thread_id \<Rightarrow> nat \<Rightarrow> thread_handle" where
  "with_capacity tid capacity =
     \<lparr>hd_id = tid, hd_status = thread_status.Idle, hd_active_turn = None,
      hd_history = with_cap capacity, hd_events = [], hd_injection = queues_new, hd_pending = [],
      hd_parent = None, hd_final_tx = False, hd_decision_tx = False\<rparr>"

definition new_idle :: "thread_id \<Rightarrow> thread_handle" where
  "new_idle tid = with_capacity tid IN_MEMORY_TURN_CAP"

definition new_child :: "thread_id \<Rightarrow> thread_id \<Rightarrow> thread_handle" where
  "new_child tid parent =
     \<lparr>hd_id = tid, hd_status = thread_status.Idle, hd_active_turn = None,
      hd_history = with_cap IN_MEMORY_TURN_CAP, hd_events = [], hd_injection = queues_new,
      hd_pending = [], hd_parent = Some parent, hd_final_tx = True, hd_decision_tx = True\<rparr>"

definition thread_send :: "thread_event \<Rightarrow> thread_handle \<Rightarrow> thread_handle" where
  "thread_send ev h = h\<lparr>hd_events := hd_events h @ [ev]\<rparr>"

definition start_turn_buffer :: "turn_id \<Rightarrow> int \<Rightarrow> thread_handle \<Rightarrow> thread_handle" where
  "start_turn_buffer tid started_at h =
     h\<lparr>hd_history :=
         Turn_Buffer.start_turn
           \<lparr>t_id = tid, t_items = [], t_items_view = turn_items_view.Full,
            t_status = turn_status.InProgress, t_error = None, t_started_at = Some started_at,
            t_completed_at = None, t_duration_ms = None\<rparr> (hd_history h)\<rparr>"

definition finish_turn_buffer :: "turn_status \<Rightarrow> int \<Rightarrow> int option \<Rightarrow> thread_handle \<Rightarrow> thread_handle" where
  "finish_turn_buffer status completed_at duration_ms h =
     h\<lparr>hd_history := Turn_Buffer.finish_turn status completed_at duration_ms (hd_history h)\<rparr>"

definition handle_push_item :: "item \<Rightarrow> thread_handle \<Rightarrow> thread_handle" where
  "handle_push_item it h =
     (let turn_id = active_turn_id (hd_history h);
          h' = h\<lparr>hd_history := Turn_Buffer.push_item it (hd_history h)\<rparr>
      in case turn_id of
           Some tid \<Rightarrow> thread_send (ItemAppended tid it) h'
         | None \<Rightarrow> h')"

definition item_ids :: "thread_handle \<Rightarrow> item_id list" where
  "item_ids h = all_item_ids (hd_history h)"

definition items_snapshot :: "thread_handle \<Rightarrow> item list" where
  "items_snapshot h = iter_items (hd_history h)"

definition handle_active_turn_items :: "thread_handle \<Rightarrow> item list" where
  "handle_active_turn_items h = active_turn_items (hd_history h)"

definition handle_item_count :: "thread_handle \<Rightarrow> nat" where
  "handle_item_count h = item_count (hd_history h)"

definition replace_history_with_compaction :: "turn_id \<Rightarrow> item list \<Rightarrow> thread_handle \<Rightarrow> thread_handle" where
  "replace_history_with_compaction tid items h =
     h\<lparr>hd_history := replace_with_compaction tid items (hd_history h)\<rparr>"

section \<open>The store\<close>

type_synonym thread_store = "thread_id \<rightharpoonup> thread_handle"

definition get_or_init :: "thread_id \<Rightarrow> thread_store \<Rightarrow> thread_handle \<times> thread_store" where
  "get_or_init tid store =
     (case store tid of
        Some h \<Rightarrow> (h, store)
      | None \<Rightarrow> (let h = new_idle tid in (h, store(tid \<mapsto> h))))"

definition store_remove :: "thread_id \<Rightarrow> thread_store \<Rightarrow> thread_store" where
  "store_remove tid store = store(tid := None)"

section \<open>What a handle keeps consistent\<close>

text \<open>
  The three views of "a turn is running" agree: the runtime slot, the active turn of the transcript
  and the status; and the transcript buffer respects its own invariant.
\<close>

definition handle_inv :: "thread_handle \<Rightarrow> bool" where
  "handle_inv h \<longleftrightarrow>
     buffer_inv (hd_history h) \<and>
     active_turn_id (hd_history h) = map_option at_id (hd_active_turn h) \<and>
     hd_status h = (if hd_active_turn h = None then thread_status.Idle
                    else thread_status.Active [TurnInProgress])"

lemma new_idle_inv [inv_intros]: "handle_inv (new_idle tid)"
  by (auto simp: handle_inv_def new_idle_def with_capacity_def active_turn_id_def with_cap_inv)
     (simp add: with_cap_def)

lemma new_child_inv [inv_intros]: "handle_inv (new_child tid p)"
  by (auto simp: handle_inv_def new_child_def active_turn_id_def with_cap_inv) (simp add: with_cap_def)

lemma active_turn_id_push [simp]: "active_turn_id (Turn_Buffer.push_item it b) = active_turn_id b"
  by (auto simp: active_turn_id_def Turn_Buffer.push_item_def split: option.splits)

lemma active_turn_id_start [simp]: "active_turn_id (Turn_Buffer.start_turn t b) = Some (t_id t)"
  by (auto simp: active_turn_id_def Turn_Buffer.start_turn_def split: option.splits)

lemma active_turn_id_finish [simp]: "active_turn_id (Turn_Buffer.finish_turn s c d b) = None"
  by (auto simp: active_turn_id_def Turn_Buffer.finish_turn_def frame_simps Let_def split: option.splits)

lemma handle_push_item_fields [frame_simps]:
  "hd_id (handle_push_item it h) = hd_id h"
  "hd_status (handle_push_item it h) = hd_status h"
  "hd_active_turn (handle_push_item it h) = hd_active_turn h"
  "hd_injection (handle_push_item it h) = hd_injection h"
  "hd_pending (handle_push_item it h) = hd_pending h"
  "hd_parent (handle_push_item it h) = hd_parent h"
  "hd_history (handle_push_item it h) = Turn_Buffer.push_item it (hd_history h)"
  by (auto simp: handle_push_item_def thread_send_def Let_def split: option.splits)

lemma handle_push_item_inv [inv_intros]: "handle_inv h \<Longrightarrow> handle_inv (handle_push_item it h)"
  by (simp add: handle_inv_def frame_simps push_item_inv)

lemma thread_send_fields [frame_simps]:
  "hd_id (thread_send e h) = hd_id h"
  "hd_status (thread_send e h) = hd_status h"
  "hd_active_turn (thread_send e h) = hd_active_turn h"
  "hd_injection (thread_send e h) = hd_injection h"
  "hd_pending (thread_send e h) = hd_pending h"
  "hd_parent (thread_send e h) = hd_parent h"
  "hd_history (thread_send e h) = hd_history h"
  by (simp_all add: thread_send_def)

lemma active_turn_items_push:
  "active_turn_items (Turn_Buffer.push_item it b) =
     (if has_active b then active_turn_items b @ [it] else active_turn_items b)"
  by (auto simp: active_turn_items_def Turn_Buffer.push_item_def has_active_def split: option.splits)

end
