(* ===== verification/Engine_Event.thy ===== *)
theory Engine_Event
  imports Phase Pending
begin

text \<open>
  The engine's vocabulary: the events it broadcasts (\<open>zhive-core/src/engine/event.rs\<close>) and the
  submissions it accepts with their replies (\<open>zhive-core/src/engine/submission.rs\<close>). Boxes are
  transparent. The replies of operations that only query the persistence layer are left out.
\<close>

datatype turn_rejection_reason = EngineBusy engine_phase

datatype item_delta_kind = Text | Reasoning

datatype engine_event =
    TurnStarted thread_id turn_id
  | TurnRejected thread_id turn_rejection_reason
  | ItemAppended thread_id turn_id item
  | ItemDelta thread_id turn_id string item_delta_kind
  | TurnCompleted thread_id turn_id
  | TurnFailed thread_id turn_id turn_error
  | SessionAborted session_aborted_notification
  | PhaseChanged "thread_id option" engine_phase engine_phase
  | PermissionRequested permission_request_id request_permission_request
  | Usage thread_id turn_id u64 u64
  | SavePoint thread_id bool
  | SubagentStarted thread_id thread_id "string option" "string option"
  | SubagentCompleted thread_id thread_id "item option"
  | TurnSuspended thread_id turn_id permission_request_id "string option"
  | TurnResumed thread_id turn_id
  | ThreadForked thread_id thread_id "item_id option"
  | CompactionStarted thread_id compact_trigger u32
  | CompactionDelta thread_id string
  | CompactionCompleted thread_id u32
  | CompactionFailed thread_id string
  | Restored thread_id thread_id u32 u32

section \<open>Submissions and replies\<close>

datatype start_turn_reply = StartTurnReply turn_id

datatype start_turn_error = EngineBusy engine_phase

datatype cancel_turn_reply = Cancelled turn_id | NoActiveTurn

datatype resume_permission_reply = Resolved | UnknownRequest | InvalidRequestId | Abandoned

datatype subagent_spawn_error =
  ParentNotFound | RecursionForbidden | ChildSpawnRequested | ScopeWideningRejected

datatype compact_reply = Compacted u32 | NothingToCompact | Started

datatype compact_error =
    ThreadNotFound
  | EngineBusy engine_phase
  | SummarizationFailed string
  | BlockedByHook "string option"

datatype delete_error = StorageUnavailable | ThreadHasActiveTurn | DeleteFailed string

datatype rename_error = StorageUnavailable | RenameFailed string

datatype submission =
    StartTurn thread_id "item list" "permission_scope option" "thinking_effort option"
  | CancelTurn thread_id
  | EnqueueInjection thread_id streaming_behavior "item list"
  | EnqueueNextTurn thread_id "item list"
  | ResumePermission permission_request_id permission_outcome
  | SpawnSubagent thread_id subagent_definition
  | Compact thread_id compact_trigger
  | Fork thread_id "item_id option" bool
  | ListThreads "string option"
  | ResumeThread thread_id
  | GetItems thread_id "turn_id option" "int option" "int option"
  | Shutdown
  | Delete thread_id
  | Rename thread_id string
  | Search string "string option"
  | ListTools
  | ListCheckpoints thread_id
  | Restore thread_id turn_id

end
