(* ===== verification/Engine.thy ===== *)
theory Engine
  imports Thread_State Preview Engine_Event
begin

text \<open>
  The engine's shared state (\<open>EngineInner\<close> of \<open>zhive-core/src/engine/inner.rs\<close>), the accessors and
  the small handlers of that file, and the turn limits of \<open>engine.rs\<close>. Broadcast channels are the
  list of what was sent on them; a closed persistence writer is \<open>None\<close>, an open one is a bounded
  queue. Provider, tools, hooks and snapshot store are third-party or I/O objects that the turn loop
  receives as parameters.
\<close>

section \<open>State\<close>

record storage_channel =
  sc_capacity :: nat
  sc_queue :: "storage_write_op list"

record 'tx engine_inner =
  ei_threads :: thread_store
  ei_events :: "engine_event list"
  ei_phase :: engine_phase
  ei_turn_counter :: u64
  ei_compaction_counter :: u64
  ei_permission :: "'tx permission_reducer"
  ei_context_window :: u64
  ei_max_output_tokens :: u64
  ei_turn_limits :: "u32 option"
  ei_cancel_tree :: cancellation_tree
  ei_storage_writer :: "storage_channel option"
  ei_compact_token_threshold :: "u64 option"
  ei_last_input_tokens :: u64
  ei_storage :: bool
  ei_cwd :: string

definition engine_new ::
    "u32 option \<Rightarrow> storage_channel option \<Rightarrow> u64 option \<Rightarrow> bool \<Rightarrow> string \<Rightarrow> 'tx engine_inner" where
  "engine_new limits storage_tx threshold storage cwd =
     \<lparr>ei_threads = Map.empty, ei_events = [], ei_phase = Idle, ei_turn_counter = 0,
      ei_compaction_counter = 0, ei_permission = reducer_new, ei_context_window = 0,
      ei_max_output_tokens = 0, ei_turn_limits = limits, ei_cancel_tree = cancel_new,
      ei_storage_writer = storage_tx, ei_compact_token_threshold = threshold,
      ei_last_input_tokens = 0, ei_storage = storage, ei_cwd = cwd\<rparr>"

section \<open>Turn limits\<close>

definition DEFAULT_MAX_TURN_ITERATIONS :: u32 where
  "DEFAULT_MAX_TURN_ITERATIONS = 80"

definition MAX_TURN_ITERATIONS_SAFETY_CEILING :: u32 where
  "MAX_TURN_ITERATIONS_SAFETY_CEILING = 1000"

definition effective_cap :: "u32 option \<Rightarrow> u32" where
  "effective_cap max_iterations =
     max (case max_iterations of
            None \<Rightarrow> MAX_TURN_ITERATIONS_SAFETY_CEILING
          | Some n \<Rightarrow> min n MAX_TURN_ITERATIONS_SAFETY_CEILING) 1"

lemma unat_effective_cap:
  "unat (effective_cap m) = max 1 (case m of None \<Rightarrow> 1000 | Some n \<Rightarrow> min (unat n) 1000)"
  by (auto simp: effective_cap_def MAX_TURN_ITERATIONS_SAFETY_CEILING_def max_def min_def
                 word_le_nat_alt split: option.splits)

definition max_turn_iterations :: "'tx engine_inner \<Rightarrow> u32" where
  "max_turn_iterations e = effective_cap (ei_turn_limits e)"

section \<open>Accessors\<close>

definition send :: "engine_event \<Rightarrow> 'tx engine_inner \<Rightarrow> 'tx engine_inner" where
  "send ev e = e\<lparr>ei_events := ei_events e @ [ev]\<rparr>"

definition put_handle :: "thread_id \<Rightarrow> thread_handle \<Rightarrow> 'tx engine_inner \<Rightarrow> 'tx engine_inner" where
  "put_handle tid h e = e\<lparr>ei_threads := (ei_threads e)(tid \<mapsto> h)\<rparr>"

definition context_window :: "'tx engine_inner \<Rightarrow> u64 option" where
  "context_window e = (if ei_context_window e = 0 then None else Some (ei_context_window e))"

definition set_context_window :: "u64 option \<Rightarrow> 'tx engine_inner \<Rightarrow> 'tx engine_inner" where
  "set_context_window window e =
     e\<lparr>ei_context_window := (case window of Some n \<Rightarrow> n | None \<Rightarrow> 0)\<rparr>"

definition max_output_tokens :: "'tx engine_inner \<Rightarrow> u64 option" where
  "max_output_tokens e = (if ei_max_output_tokens e = 0 then None else Some (ei_max_output_tokens e))"

definition set_max_output_tokens :: "u64 option \<Rightarrow> 'tx engine_inner \<Rightarrow> 'tx engine_inner" where
  "set_max_output_tokens m e =
     e\<lparr>ei_max_output_tokens := (case m of Some n \<Rightarrow> n | None \<Rightarrow> 0)\<rparr>"

definition set_last_input_tokens :: "u64 \<Rightarrow> 'tx engine_inner \<Rightarrow> 'tx engine_inner" where
  "set_last_input_tokens n e = e\<lparr>ei_last_input_tokens := n\<rparr>"

text \<open>\<open>try_send\<close> refuses when the channel is full; the refused operation is dropped with a warning.\<close>

definition enqueue_storage_op :: "storage_write_op \<Rightarrow> 'tx engine_inner \<Rightarrow> 'tx engine_inner" where
  "enqueue_storage_op op e =
     (case ei_storage_writer e of
        None \<Rightarrow> e
      | Some ch \<Rightarrow>
          (if length (sc_queue ch) < sc_capacity ch
           then e\<lparr>ei_storage_writer := Some (ch\<lparr>sc_queue := sc_queue ch @ [op]\<rparr>)\<rparr>
           else e))"

text \<open>\<open>flush_pending_session_writes\<close>: the closure always reports success.\<close>

definition flush_pending_session_writes ::
    "thread_handle \<Rightarrow> 'tx engine_inner \<Rightarrow> bool \<times> thread_handle \<times> 'tx engine_inner" where
  "flush_pending_session_writes h e =
     (let had_pending = (hd_pending h \<noteq> []);
          (_, rest, e') = flush (\<lambda>op s. (Inr (), enqueue_storage_op op s)) (hd_pending h) e
      in (had_pending, h\<lparr>hd_pending := rest\<rparr>, e'))"

definition next_compaction_seq :: "'tx engine_inner \<Rightarrow> u64 \<times> 'tx engine_inner" where
  "next_compaction_seq e =
     (ei_compaction_counter e + 1, e\<lparr>ei_compaction_counter := ei_compaction_counter e + 1\<rparr>)"

text \<open>\<open>try_set_phase_atomic\<close> on the engine, and its use with the broadcast that follows a success.\<close>

definition set_phase ::
    "engine_phase \<Rightarrow> engine_phase \<Rightarrow> 'tx engine_inner \<Rightarrow>
     (unit, phase_transition_error) rust_result \<times> 'tx engine_inner" where
  "set_phase from to e =
     (let (r, p) = try_set_phase_atomic from to (ei_phase e) in (r, e\<lparr>ei_phase := p\<rparr>))"

definition set_phase_broadcast ::
    "thread_id \<Rightarrow> engine_phase \<Rightarrow> engine_phase \<Rightarrow> 'tx engine_inner \<Rightarrow> 'tx engine_inner" where
  "set_phase_broadcast tid from to e =
     (case set_phase from to e of
        (Inl _, e') \<Rightarrow> e'
      | (Inr _, e') \<Rightarrow> send (PhaseChanged (Some tid) from to) e')"

section \<open>Small handlers\<close>

definition with_handle ::
    "thread_id \<Rightarrow> (thread_handle \<Rightarrow> thread_handle) \<Rightarrow> 'tx engine_inner \<Rightarrow> 'tx engine_inner" where
  "with_handle tid f e =
     (let (h, store) = get_or_init tid (ei_threads e)
      in e\<lparr>ei_threads := store(tid \<mapsto> f h)\<rparr>)"

definition enqueue_injection ::
    "thread_id \<Rightarrow> streaming_behavior \<Rightarrow> item list \<Rightarrow> 'tx engine_inner \<Rightarrow> 'tx engine_inner" where
  "enqueue_injection tid behavior items e =
     (case queue_target_try_from behavior of
        Inl _ \<Rightarrow> e
      | Inr target \<Rightarrow>
          with_handle tid (\<lambda>h. h\<lparr>hd_injection := push_back target items (hd_injection h)\<rparr>) e)"

definition enqueue_next_turn :: "thread_id \<Rightarrow> item list \<Rightarrow> 'tx engine_inner \<Rightarrow> 'tx engine_inner" where
  "enqueue_next_turn tid items e =
     with_handle tid (\<lambda>h. h\<lparr>hd_injection := push_back NextTurn items (hd_injection h)\<rparr>) e"

fun resume_reply_of_error :: "reducer_error \<Rightarrow> resume_permission_reply" where
  "resume_reply_of_error (reducer_error.UnknownRequest _) = resume_permission_reply.UnknownRequest"
| "resume_reply_of_error (ReducerInvalidRequestId _) = resume_permission_reply.InvalidRequestId"
| "resume_reply_of_error reducer_error.Abandoned = resume_permission_reply.Abandoned"
| "resume_reply_of_error (TimedOut _) = resume_permission_reply.Abandoned"

text \<open>\<open>resume_permission\<close>: the reply, the engine and the deliveries that reached a waiter.\<close>

definition resume_permission ::
    "('tx \<Rightarrow> bool) \<Rightarrow> permission_request_id \<Rightarrow> permission_outcome \<Rightarrow> 'tx engine_inner \<Rightarrow>
     resume_permission_reply \<times> 'tx engine_inner \<times> ('tx \<times> permission_outcome) list" where
  "resume_permission alive request_id outcome e =
     (let (r, reducer, sent) =
            resolve_by_wire_id_with_context alive request_id outcome (ei_permission e);
          e' = e\<lparr>ei_permission := reducer\<rparr>
      in case r of
           Inl err \<Rightarrow> (resume_reply_of_error err, e', sent)
         | Inr None \<Rightarrow> (Resolved, e', sent)
         | Inr (Some ctx) \<Rightarrow>
             (Resolved, send (TurnResumed (rc_thread_id ctx) (rc_turn_id ctx)) e', sent))"

fun error_kind :: "reducer_error \<Rightarrow> string" where
  "error_kind (reducer_error.UnknownRequest _) = ''unknown_request''"
| "error_kind (ReducerInvalidRequestId _) = ''invalid_request_id''"
| "error_kind reducer_error.Abandoned = ''abandoned''"
| "error_kind (TimedOut _) = ''timed_out''"

text \<open>
  \<open>delete_thread\<close> (\<open>thread_admin.rs\<close>): the row deletion and the file removal are I/O, given by
  their results (an error message, whether a row went, whether the file went).
\<close>

definition delete_thread ::
    "(bool, string) rust_result \<Rightarrow> bool \<Rightarrow> thread_id \<Rightarrow> 'tx engine_inner \<Rightarrow>
     (bool, delete_error) rust_result \<times> 'tx engine_inner" where
  "delete_thread sql_delete rollout_existed tid e =
     (if \<not> ei_storage e then (Inl delete_error.StorageUnavailable, e)
      else (let has_active = (case ei_threads e tid of
                                Some h \<Rightarrow> hd_active_turn h \<noteq> None
                              | None \<Rightarrow> False)
            in if has_active then (Inl ThreadHasActiveTurn, e)
               else (case sql_delete of
                       Inl msg \<Rightarrow> (Inl (DeleteFailed msg), e)
                     | Inr sql_deleted \<Rightarrow>
                         (Inr (sql_deleted \<or> rollout_existed),
                          e\<lparr>ei_threads := store_remove tid (ei_threads e)\<rparr>))))"

definition rename_thread ::
    "thread_id \<Rightarrow> string \<Rightarrow> 'tx engine_inner \<Rightarrow> (bool, rename_error) rust_result \<times> 'tx engine_inner" where
  "rename_thread tid name e =
     (if \<not> ei_storage e then (Inl rename_error.StorageUnavailable, e)
      else (Inr True, enqueue_storage_op (SessionNameSet tid name) e))"

text \<open>
  What a shutdown does to the state (the \<open>Shutdown\<close> arm of \<open>EngineInner::run\<close>): every token is
  cancelled and the sender to the writer is taken, so that the writer ends.
\<close>

definition shut_down :: "'tx engine_inner \<Rightarrow> 'tx engine_inner" where
  "shut_down e = e\<lparr>ei_cancel_tree := cancel_all (ei_cancel_tree e), ei_storage_writer := None\<rparr>"

section \<open>What the operations leave alone\<close>

lemma send_fields [frame_simps]:
  "ei_threads (send ev e) = ei_threads e" "ei_phase (send ev e) = ei_phase e"
  "ei_turn_counter (send ev e) = ei_turn_counter e"
  "ei_permission (send ev e) = ei_permission e"
  "ei_cancel_tree (send ev e) = ei_cancel_tree e"
  "ei_storage_writer (send ev e) = ei_storage_writer e"
  "ei_cwd (send ev e) = ei_cwd e" "ei_storage (send ev e) = ei_storage e"
  "ei_compaction_counter (send ev e) = ei_compaction_counter e"
  "ei_events (send ev e) = ei_events e @ [ev]"
  by (simp_all add: send_def)

lemma put_handle_fields [frame_simps]:
  "ei_threads (put_handle tid h e) = (ei_threads e)(tid \<mapsto> h)"
  "ei_phase (put_handle tid h e) = ei_phase e"
  "ei_turn_counter (put_handle tid h e) = ei_turn_counter e"
  "ei_permission (put_handle tid h e) = ei_permission e"
  "ei_cancel_tree (put_handle tid h e) = ei_cancel_tree e"
  "ei_storage_writer (put_handle tid h e) = ei_storage_writer e"
  "ei_events (put_handle tid h e) = ei_events e"
  "ei_cwd (put_handle tid h e) = ei_cwd e"
  by (simp_all add: put_handle_def)

lemma enqueue_storage_op_fields [frame_simps]:
  "ei_threads (enqueue_storage_op op e) = ei_threads e"
  "ei_phase (enqueue_storage_op op e) = ei_phase e"
  "ei_turn_counter (enqueue_storage_op op e) = ei_turn_counter e"
  "ei_permission (enqueue_storage_op op e) = ei_permission e"
  "ei_cancel_tree (enqueue_storage_op op e) = ei_cancel_tree e"
  "ei_events (enqueue_storage_op op e) = ei_events e"
  "ei_cwd (enqueue_storage_op op e) = ei_cwd e"
  "ei_storage (enqueue_storage_op op e) = ei_storage e"
  "ei_compaction_counter (enqueue_storage_op op e) = ei_compaction_counter e"
  by (simp_all add: enqueue_storage_op_def split: option.splits)

text \<open>A flush is the fold of the accepted operations over the engine.\<close>

lemma flush_loop_fold:
  "flush_loop (\<lambda>op s. (Inr (), enqueue_storage_op op s)) ws n e =
     (Inr (n + length (durable_ops ws)), [], fold enqueue_storage_op (durable_ops ws) e)"
  by (induction ws arbitrary: n e) (auto split: option.splits)

lemma flush_pending_eq:
  "flush_pending_session_writes h e =
     (hd_pending h \<noteq> [], h\<lparr>hd_pending := []\<rparr>, fold enqueue_storage_op (durable_ops (hd_pending h)) e)"
  by (simp add: flush_pending_session_writes_def flush_def flush_loop_fold)

lemma fold_enqueue_fields [frame_simps]:
  "ei_threads (fold enqueue_storage_op ops e) = ei_threads e"
  "ei_phase (fold enqueue_storage_op ops e) = ei_phase e"
  "ei_turn_counter (fold enqueue_storage_op ops e) = ei_turn_counter e"
  "ei_permission (fold enqueue_storage_op ops e) = ei_permission e"
  "ei_cancel_tree (fold enqueue_storage_op ops e) = ei_cancel_tree e"
  "ei_events (fold enqueue_storage_op ops e) = ei_events e"
  "ei_cwd (fold enqueue_storage_op ops e) = ei_cwd e"
  by (induction ops arbitrary: e) (simp_all add: frame_simps)

lemma set_phase_broadcast_fields [frame_simps]:
  "ei_threads (set_phase_broadcast tid a b e) = ei_threads e"
  "ei_turn_counter (set_phase_broadcast tid a b e) = ei_turn_counter e"
  "ei_permission (set_phase_broadcast tid a b e) = ei_permission e"
  "ei_cancel_tree (set_phase_broadcast tid a b e) = ei_cancel_tree e"
  "ei_storage_writer (set_phase_broadcast tid a b e) = ei_storage_writer e"
  "ei_cwd (set_phase_broadcast tid a b e) = ei_cwd e"
  by (auto simp: set_phase_broadcast_def set_phase_def send_def case_prod_beta split: sum.splits)

lemma set_phase_broadcast_phase:
  "ei_phase (set_phase_broadcast tid a b e) =
     (if allows_transition a b \<and> ei_phase e = a then b else ei_phase e)"
  by (auto simp: set_phase_broadcast_def set_phase_def try_set_phase_atomic_def send_def)

text \<open>The writer's queue never exceeds the channel's capacity.\<close>

definition writer_bounded :: "'tx engine_inner \<Rightarrow> bool" where
  "writer_bounded e \<longleftrightarrow>
     (case ei_storage_writer e of None \<Rightarrow> True | Some ch \<Rightarrow> length (sc_queue ch) \<le> sc_capacity ch)"

lemma enqueue_bounded [inv_intros]: "writer_bounded e \<Longrightarrow> writer_bounded (enqueue_storage_op op e)"
  by (auto simp: writer_bounded_def enqueue_storage_op_def split: option.splits)

lemma enqueue_prefix:
  "ei_storage_writer e = Some ch \<Longrightarrow>
   \<exists>ch'. ei_storage_writer (enqueue_storage_op op e) = Some ch' \<and> sc_capacity ch' = sc_capacity ch \<and>
         (sc_queue ch' = sc_queue ch @ [op] \<or> sc_queue ch' = sc_queue ch \<and> sc_capacity ch \<le> length (sc_queue ch))"
  by (auto simp: enqueue_storage_op_def)

end
