(* ===== verification/Lifecycle.thy ===== *)
theory Lifecycle
  imports Engine
begin

text \<open>
  Starting, finishing and cancelling a turn (\<open>zhive-core/src/engine/lifecycle.rs\<close>). The actor runs
  \<open>start_turn\<close> and \<open>cancel_turn\<close>; \<open>finish_turn\<close> runs in the turn's own task, so it is split at the
  point where it releases the engine phase, which is where another submission can interleave.
  The clock is the parameter \<open>now\<close>.
\<close>

section \<open>Helpers\<close>

definition allocate_turn_id :: "thread_id \<Rightarrow> 'tx engine_inner \<Rightarrow> turn_id \<times> 'tx engine_inner" where
  "allocate_turn_id tid e =
     (let seq = ei_turn_counter e
      in (TurnId (''turn:'' @ thread_id_str tid @ ''/'' @ show_nat (unat seq)),
          e\<lparr>ei_turn_counter := seq + 1\<rparr>))"

definition thread_source_for_handle :: "thread_handle \<Rightarrow> thread_source" where
  "thread_source_for_handle h = (if hd_parent h \<noteq> None then thread_source.Subagent else thread_source.User)"

definition subagent_parent_for_handle :: "thread_handle \<Rightarrow> thread_id option" where
  "subagent_parent_for_handle h = hd_parent h"

text \<open>The thread snapshot the handlers persist.\<close>

definition snapshot ::
    "thread_id \<Rightarrow> thread_handle \<Rightarrow> string \<Rightarrow> int \<Rightarrow> thread_status \<Rightarrow> string \<Rightarrow> thread" where
  "snapshot tid h preview at status cwd =
     \<lparr>th_id = tid, th_session_id = None, th_forked_from = None,
      th_subagent_parent = subagent_parent_for_handle h, th_preview = preview,
      th_ephemeral = False, th_model_provider = ''unknown'', th_created_at = at,
      th_updated_at = at, th_status = status, th_cwd = cwd,
      th_source = thread_source_for_handle h, th_name = None, th_turns = []\<rparr>"

definition in_progress :: thread_status where
  "in_progress = thread_status.Active [TurnInProgress]"

text \<open>\<open>(completed_at - started_at).saturating_mul(1_000)\<close>.\<close>

definition duration_since :: "int \<Rightarrow> int \<Rightarrow> int" where
  "duration_since now started_at = i64_saturating_mul (now - started_at) 1000"

section \<open>Starting a turn\<close>

definition seeded_id :: "turn_id \<Rightarrow> nat \<Rightarrow> item_id" where
  "seeded_id tid seq = ItemId (''item:'' @ turn_id_str tid @ ''/'' @ show_nat seq)"

text \<open>The loop that stamps, records and broadcasts the input items.\<close>

fun push_input ::
    "thread_id \<Rightarrow> turn_id \<Rightarrow> nat \<Rightarrow> item list \<Rightarrow> thread_handle \<times> 'tx engine_inner \<Rightarrow>
     thread_handle \<times> 'tx engine_inner" where
  "push_input tid turn seq [] st = st"
| "push_input tid turn seq (it # rest) (h, e) =
     (let it' = set_id (seeded_id turn seq) it
      in push_input tid turn (Suc seq) rest
           (handle_push_item it' h, send (engine_event.ItemAppended tid turn it') e))"

definition start_turn ::
    "int \<Rightarrow> thread_id \<Rightarrow> item list \<Rightarrow> permission_scope option \<Rightarrow> thinking_effort option \<Rightarrow>
     'tx engine_inner \<Rightarrow> (turn_id, start_turn_error) rust_result \<times> 'tx engine_inner" where
  "start_turn now tid user_input scope reasoning e0 =
     (case set_phase Idle Turn e0 of
        (Inl err, e) \<Rightarrow>
          (Inl (start_turn_error.EngineBusy (actual err)),
           send (TurnRejected tid (turn_rejection_reason.EngineBusy (actual err))) e)
      | (Inr _, e1) \<Rightarrow>
          (let e2 = send (PhaseChanged (Some tid) Idle Turn) e1;
               (h0, store) = get_or_init tid (ei_threads e2);
               (turn, e3) = allocate_turn_id tid (e2\<lparr>ei_threads := store\<rparr>);
               started_at = now;
               (next_turn_seed, q) = drain NextTurn (hd_injection h0);
               h1 = h0\<lparr>hd_injection := q\<rparr>;
               full_input = next_turn_seed @ user_input;
               preview = derive_preview_from_items full_input;
               (turn_cancel, tree) = child_for_turn (ei_cancel_tree e3);
               e4 = e3\<lparr>ei_cancel_tree := tree\<rparr>;
               active = (case scope of
                           Some s \<Rightarrow> new_with_cancel_and_scope turn started_at turn_cancel s
                         | None \<Rightarrow> new_with_cancel turn started_at turn_cancel)
                          \<lparr>at_reasoning := reasoning\<rparr>;
               h2 = h1\<lparr>hd_active_turn := Some active, hd_status := in_progress\<rparr>;
               h3 = start_turn_buffer turn started_at h2;
               h4 = thread_send (thread_event.TurnStarted turn started_at) h3;
               (h5, e5) = push_input tid turn 0 full_input (h4, e4);
               e6 = send (engine_event.TurnStarted tid turn) e5;
               e7 = enqueue_storage_op
                      (ThreadUpserted (snapshot tid h5 preview started_at in_progress (ei_cwd e6))) e6;
               e8 = enqueue_storage_op (storage_write_op.TurnStarted tid turn started_at) e7
           in (Inr turn, put_handle tid h5 e8)))"

section \<open>Finishing a turn\<close>

text \<open>Whether the slot of the handle still belongs to the turn.\<close>

definition owns :: "thread_handle \<Rightarrow> turn_id \<Rightarrow> bool" where
  "owns h turn = (case hd_active_turn h of Some a \<Rightarrow> at_id a = turn | None \<Rightarrow> False)"

text \<open>
  Up to the release of the phase: the slot and the status are cleared, deferred writes flushed, the
  save point broadcast, and a top-level thread takes the phase back to \<open>Idle\<close>. The third component
  is the start time read from the slot.
\<close>

definition finish_turn_release ::
    "thread_id \<Rightarrow> thread_handle \<Rightarrow> 'tx engine_inner \<Rightarrow> thread_handle \<times> 'tx engine_inner \<times> int option" where
  "finish_turn_release tid h e =
     (let started_at = map_option at_started_at (hd_active_turn h);
          h1 = h\<lparr>hd_active_turn := None, hd_status := thread_status.Idle\<rparr>;
          (had_pending, h2, e1) = flush_pending_session_writes h1 e;
          e2 = send (SavePoint tid had_pending) e1;
          e3 = (if hd_parent h2 = None then set_phase_broadcast tid Turn Idle e2 else e2)
      in (h2, e3, started_at))"

text \<open>The rest: the transcript's turn is closed, then the terminal events and the persisted end.\<close>

definition finish_turn_record ::
    "int \<Rightarrow> thread_id \<Rightarrow> turn_id \<Rightarrow> turn_error option \<Rightarrow> int option \<Rightarrow>
     thread_handle \<times> 'tx engine_inner \<Rightarrow> thread_handle \<times> 'tx engine_inner" where
  "finish_turn_record now tid turn error started_at st =
     (let (h, e) = st;
          completed_at = now;
          duration_ms = map_option (duration_since completed_at) started_at;
          terminal_status = (if error \<noteq> None then turn_status.Failed else turn_status.Completed);
          h1 = finish_turn_buffer terminal_status completed_at duration_ms h;
          e1 = (if error = None then send (engine_event.TurnCompleted tid turn) e else e);
          h2 = thread_send (thread_event.TurnCompleted turn terminal_status) h1;
          e2 = enqueue_storage_op
                 (TurnEnded tid turn terminal_status error completed_at duration_ms) e1;
          e3 = enqueue_storage_op
                 (ThreadUpserted (snapshot tid h2 [] completed_at thread_status.Idle (ei_cwd e2))) e2
      in (h2, e3))"

definition finish_turn ::
    "int \<Rightarrow> thread_id \<Rightarrow> turn_id \<Rightarrow> turn_error option \<Rightarrow>
     thread_handle \<times> 'tx engine_inner \<Rightarrow> thread_handle \<times> 'tx engine_inner" where
  "finish_turn now tid turn error st =
     (let (h, e) = st
      in if \<not> owns h turn then (h, e)
         else (let (h', e', started_at) = finish_turn_release tid h e
               in finish_turn_record now tid turn error started_at (h', e')))"

section \<open>Cancelling a turn\<close>

definition cancel_turn ::
    "('tx \<Rightarrow> bool) \<Rightarrow> int \<Rightarrow> thread_id \<Rightarrow> 'tx engine_inner \<Rightarrow>
     cancel_turn_reply \<times> 'tx engine_inner \<times> ('tx \<times> permission_outcome) list" where
  "cancel_turn alive now tid e =
     (case ei_threads e tid of
        None \<Rightarrow> (NoActiveTurn, e, [])
      | Some h \<Rightarrow>
          (case hd_active_turn h of
             None \<Rightarrow> (NoActiveTurn, e, [])
           | Some active \<Rightarrow>
               (let e1 = e\<lparr>ei_cancel_tree := cancel (at_cancel active) (ei_cancel_tree e)\<rparr>;
                    (reducer, sent) = reducer_cancel_all alive (ei_permission e1);
                    e2 = e1\<lparr>ei_permission := reducer\<rparr>;
                    (snap, q) = abort (hd_injection h);
                    h1 = h\<lparr>hd_active_turn := None, hd_injection := q, hd_status := thread_status.Idle\<rparr>;
                    aborted = (session_aborted_notification_new tid (Some (at_id active)))
                                \<lparr>sa_cleared_steer := as_cleared_steer snap,
                                 sa_cleared_follow_up := as_cleared_follow_up snap,
                                 sa_next_turn_retained_count := as_next_turn_retained_count snap\<rparr>;
                    e3 = send (SessionAborted aborted) e2;
                    cancel_at = now;
                    duration_ms = Some (duration_since cancel_at (at_started_at active));
                    h2 = finish_turn_buffer turn_status.Interrupted cancel_at duration_ms h1;
                    h3 = thread_send (thread_event.TurnCompleted (at_id active) turn_status.Interrupted) h2;
                    e4 = enqueue_storage_op
                           (TurnEnded tid (at_id active) turn_status.Interrupted None cancel_at duration_ms) e3;
                    e5 = enqueue_storage_op
                           (ThreadUpserted (snapshot tid h3 [] cancel_at thread_status.Idle (ei_cwd e4))) e4;
                    e6 = (if hd_parent h3 = None then set_phase_broadcast tid Turn Idle e5 else e5)
                in (cancel_turn_reply.Cancelled (at_id active), put_handle tid h3 e6, sent))))"

section \<open>Closed forms\<close>

text \<open>The input items with their positional ids.\<close>

fun stamp :: "turn_id \<Rightarrow> nat \<Rightarrow> item list \<Rightarrow> item list" where
  "stamp turn seq [] = []"
| "stamp turn seq (it # rest) = set_id (seeded_id turn seq) it # stamp turn (Suc seq) rest"

lemma length_stamp [simp]: "length (stamp turn n its) = length its"
  by (induction its arbitrary: n) auto

lemma stamp_ids: "map item_id_of (stamp turn n its) = map (seeded_id turn) [n ..< n + length its]"
  by (induction its arbitrary: n) (auto simp: upt_rec)

lemma seeded_id_inj: "seeded_id turn m = seeded_id turn n \<longleftrightarrow> m = n"
  by (auto simp: seeded_id_def show_nat_inj)

lemma stamp_distinct: "distinct (map item_id_of (stamp turn n its))"
  by (simp add: stamp_ids distinct_map inj_on_def seeded_id_inj)

lemma push_input_eq:
  "push_input tid turn n its (h, e) =
     (fold handle_push_item (stamp turn n its) h,
      e\<lparr>ei_events := ei_events e @ map (engine_event.ItemAppended tid turn) (stamp turn n its)\<rparr>)"
  by (induction its arbitrary: n h e) (auto simp: Let_def send_def)

lemma fold_push_fields [frame_simps]:
  "hd_id (fold handle_push_item its h) = hd_id h"
  "hd_status (fold handle_push_item its h) = hd_status h"
  "hd_active_turn (fold handle_push_item its h) = hd_active_turn h"
  "hd_injection (fold handle_push_item its h) = hd_injection h"
  "hd_pending (fold handle_push_item its h) = hd_pending h"
  "hd_parent (fold handle_push_item its h) = hd_parent h"
  by (induction its arbitrary: h) (simp_all add: frame_simps)

lemma fold_push_inv [inv_intros]: "handle_inv h \<Longrightarrow> handle_inv (fold handle_push_item its h)"
  by (induction its arbitrary: h) (simp_all add: inv_intros)

lemma fold_push_items:
  "has_active (hd_history h) \<Longrightarrow>
   handle_active_turn_items (fold handle_push_item its h) = handle_active_turn_items h @ its"
proof (induction its arbitrary: h)
  case (Cons it its)
  have "has_active (hd_history (handle_push_item it h))"
    using Cons.prems by (auto simp: frame_simps has_active_def Turn_Buffer.push_item_def)
  with Cons show ?case
    by (simp add: handle_active_turn_items_def frame_simps active_turn_items_push)
qed simp

text \<open>The handle a started turn leaves behind.\<close>

definition started ::
    "int \<Rightarrow> turn_id \<Rightarrow> cancel_token \<Rightarrow> permission_scope option \<Rightarrow> thinking_effort option \<Rightarrow>
     item list \<Rightarrow> thread_handle \<Rightarrow> thread_handle" where
  "started now turn tok scope reasoning input h =
     fold handle_push_item (stamp turn 0 input)
       (thread_send (thread_event.TurnStarted turn now)
         (start_turn_buffer turn now
           (h\<lparr>hd_active_turn :=
                Some \<lparr>at_id = turn, at_started_at = now, at_next_item_seq = 0, at_cancel = tok,
                      at_scope = (case scope of Some s \<Rightarrow> s | None \<Rightarrow> default_turn_scope),
                      at_reasoning = reasoning\<rparr>,
              hd_status := in_progress\<rparr>)))"

definition handle_of :: "thread_id \<Rightarrow> 'tx engine_inner \<Rightarrow> thread_handle" where
  "handle_of tid e = fst (get_or_init tid (ei_threads e))"

definition turn_id_for :: "thread_id \<Rightarrow> u64 \<Rightarrow> turn_id" where
  "turn_id_for tid seq = TurnId (''turn:'' @ thread_id_str tid @ ''/'' @ show_nat (unat seq))"

lemma start_turn_busy:
  "ei_phase e \<noteq> Idle \<Longrightarrow>
   start_turn now tid input scope reasoning e =
     (Inl (start_turn_error.EngineBusy (ei_phase e)),
      send (TurnRejected tid (turn_rejection_reason.EngineBusy (ei_phase e))) e)"
  by (simp add: start_turn_def set_phase_def try_set_phase_atomic_def)

lemma get_or_init_put: "(snd (get_or_init tid m))(tid \<mapsto> x) = m(tid \<mapsto> x)"
  by (auto simp: get_or_init_def Let_def split: option.splits)

lemma drain_next_turn:
  "drain NextTurn q = (iq_next_turn q, q\<lparr>iq_next_turn := []\<rparr>)"
  by (simp add: drain_def)

lemma start_turn_ok:
  assumes "ei_phase e = Idle"
  shows "fst (start_turn now tid input scope reasoning e) = Inr (turn_id_for tid (ei_turn_counter e))"
    and "ei_phase (snd (start_turn now tid input scope reasoning e)) = Turn"
    and "ei_turn_counter (snd (start_turn now tid input scope reasoning e)) = ei_turn_counter e + 1"
    and "ei_permission (snd (start_turn now tid input scope reasoning e)) = ei_permission e"
    and "ei_cancel_tree (snd (start_turn now tid input scope reasoning e)) =
           snd (child_for_turn (ei_cancel_tree e))"
    and "ei_threads (snd (start_turn now tid input scope reasoning e)) =
           (ei_threads e)(tid \<mapsto>
              started now (turn_id_for tid (ei_turn_counter e)) (fst (child_for_turn (ei_cancel_tree e)))
                scope reasoning (iq_next_turn (hd_injection (handle_of tid e)) @ input)
                ((handle_of tid e)\<lparr>hd_injection := (hd_injection (handle_of tid e))\<lparr>iq_next_turn := []\<rparr>\<rparr>))"
  using assms
  by (auto simp: start_turn_def set_phase_def try_set_phase_atomic_def Let_def case_prod_beta
                 frame_simps push_input_eq allocate_turn_id_def turn_id_for_def handle_of_def
                 drain_next_turn started_def get_or_init_put new_with_cancel_def
                 new_with_cancel_and_scope_def split: option.splits)

lemma started_fields:
  "hd_id (started now turn tok scope r input h) = hd_id h"
  "hd_parent (started now turn tok scope r input h) = hd_parent h"
  "hd_injection (started now turn tok scope r input h) = hd_injection h"
  "map_option at_id (hd_active_turn (started now turn tok scope r input h)) = Some turn"
  "map_option at_cancel (hd_active_turn (started now turn tok scope r input h)) = Some tok"
  "hd_active_turn (started now turn tok scope r input h) \<noteq> None"
  "map_option at_scope (hd_active_turn (started now turn tok scope r input h)) =
     Some (case scope of Some s \<Rightarrow> s | None \<Rightarrow> default_turn_scope)"
  by (simp_all add: started_def frame_simps start_turn_buffer_def)

lemma started_inv [inv_intros]:
  assumes "buffer_inv (hd_history h)"
  shows "handle_inv (started now turn tok scope r input h)"
  unfolding started_def
  by (rule fold_push_inv)
     (use assms in \<open>auto simp: handle_inv_def frame_simps start_turn_buffer_def in_progress_def
                            intro!: start_turn_inv simp: loaded_def\<close>)

lemma started_items:
  "handle_active_turn_items (started now turn tok scope r input h) = stamp turn 0 input"
proof -
  let ?h = "\<lambda>a s. thread_send (thread_event.TurnStarted turn now)
                   (start_turn_buffer turn now (h\<lparr>hd_active_turn := a, hd_status := s\<rparr>))"
  have "has_active (hd_history (?h a s)) \<and> handle_active_turn_items (?h a s) = []" for a s
    by (auto simp: frame_simps start_turn_buffer_def has_active_def Turn_Buffer.start_turn_def
                   handle_active_turn_items_def active_turn_items_def split: option.splits)
  then show ?thesis by (simp add: started_def fold_push_items)
qed

text \<open>The handle a finished or cancelled turn leaves behind, and the engine's fields.\<close>

lemma finish_not_owner: "\<not> owns h turn \<Longrightarrow> finish_turn now tid turn error (h, e) = (h, e)"
  by (simp add: finish_turn_def)

lemma finish_buffer_fields [frame_simps]:
  "hd_id (finish_turn_buffer s c d h) = hd_id h"
  "hd_status (finish_turn_buffer s c d h) = hd_status h"
  "hd_active_turn (finish_turn_buffer s c d h) = hd_active_turn h"
  "hd_injection (finish_turn_buffer s c d h) = hd_injection h"
  "hd_pending (finish_turn_buffer s c d h) = hd_pending h"
  "hd_parent (finish_turn_buffer s c d h) = hd_parent h"
  "hd_history (finish_turn_buffer s c d h) = Turn_Buffer.finish_turn s c d (hd_history h)"
  by (simp_all add: finish_turn_buffer_def)

lemma finish_owner:
  assumes "owns h turn"
  shows "hd_active_turn (fst (finish_turn now tid turn error (h, e))) = None"
    and "hd_status (fst (finish_turn now tid turn error (h, e))) = thread_status.Idle"
    and "hd_id (fst (finish_turn now tid turn error (h, e))) = hd_id h"
    and "hd_parent (fst (finish_turn now tid turn error (h, e))) = hd_parent h"
    and "hd_injection (fst (finish_turn now tid turn error (h, e))) = hd_injection h"
    and "hd_pending (fst (finish_turn now tid turn error (h, e))) = []"
    and "hd_history (fst (finish_turn now tid turn error (h, e))) =
           Turn_Buffer.finish_turn (if error \<noteq> None then turn_status.Failed else turn_status.Completed)
             now (map_option (duration_since now) (map_option at_started_at (hd_active_turn h)))
             (hd_history h)"
    and "ei_phase (snd (finish_turn now tid turn error (h, e))) =
           (if hd_parent h = None \<and> ei_phase e = Turn then Idle else ei_phase e)"
    and "ei_threads (snd (finish_turn now tid turn error (h, e))) = ei_threads e"
    and "ei_turn_counter (snd (finish_turn now tid turn error (h, e))) = ei_turn_counter e"
    and "ei_cancel_tree (snd (finish_turn now tid turn error (h, e))) = ei_cancel_tree e"
    and "ei_permission (snd (finish_turn now tid turn error (h, e))) = ei_permission e"
  using assms
  by (simp_all add: finish_turn_def finish_turn_release_def finish_turn_record_def Let_def
                    case_prod_beta flush_pending_eq frame_simps set_phase_broadcast_phase)

lemma finish_inv [inv_intros]:
  assumes "handle_inv h"
  shows "handle_inv (fst (finish_turn now tid turn error (h, e)))"
proof (cases "owns h turn")
  case True
  with assms show ?thesis
    by (simp add: handle_inv_def finish_owner finish_turn_inv)
next
  case False
  with assms show ?thesis by (simp add: finish_not_owner)
qed

definition cancelled ::
    "int \<Rightarrow> active_turn \<Rightarrow> thread_handle \<Rightarrow> thread_handle" where
  "cancelled now a h =
     thread_send (thread_event.TurnCompleted (at_id a) turn_status.Interrupted)
       (finish_turn_buffer turn_status.Interrupted now (Some (duration_since now (at_started_at a)))
         (h\<lparr>hd_active_turn := None, hd_injection := snd (abort (hd_injection h)),
            hd_status := thread_status.Idle\<rparr>))"

lemma cancel_turn_none:
  "(case ei_threads e tid of None \<Rightarrow> True | Some h \<Rightarrow> hd_active_turn h = None) \<Longrightarrow>
   cancel_turn alive now tid e = (NoActiveTurn, e, [])"
  by (auto simp: cancel_turn_def split: option.splits)

lemma cancel_turn_active:
  assumes "ei_threads e tid = Some h" "hd_active_turn h = Some a"
  shows "fst (cancel_turn alive now tid e) = cancel_turn_reply.Cancelled (at_id a)"
    and "ei_threads (fst (snd (cancel_turn alive now tid e))) = (ei_threads e)(tid \<mapsto> cancelled now a h)"
    and "ei_phase (fst (snd (cancel_turn alive now tid e))) =
           (if hd_parent h = None \<and> ei_phase e = Turn then Idle else ei_phase e)"
    and "ei_cancel_tree (fst (snd (cancel_turn alive now tid e))) = cancel (at_cancel a) (ei_cancel_tree e)"
    and "ei_turn_counter (fst (snd (cancel_turn alive now tid e))) = ei_turn_counter e"
    and "ei_permission (fst (snd (cancel_turn alive now tid e))) =
           fst (reducer_cancel_all alive (ei_permission e))"
    and "snd (snd (cancel_turn alive now tid e)) = snd (reducer_cancel_all alive (ei_permission e))"
  using assms
  by (simp_all add: cancel_turn_def Let_def case_prod_beta cancelled_def frame_simps
                    set_phase_broadcast_phase put_handle_fields)

lemma cancelled_fields:
  "hd_id (cancelled now a h) = hd_id h" "hd_parent (cancelled now a h) = hd_parent h"
  "hd_active_turn (cancelled now a h) = None" "hd_status (cancelled now a h) = thread_status.Idle"
  "hd_injection (cancelled now a h) = snd (abort (hd_injection h))"
  "hd_pending (cancelled now a h) = hd_pending h"
  by (simp_all add: cancelled_def frame_simps)

lemma cancelled_inv [inv_intros]: "handle_inv h \<Longrightarrow> handle_inv (cancelled now a h)"
  by (simp add: handle_inv_def cancelled_def frame_simps finish_turn_inv)

section \<open>Properties\<close>

lemma started_owns [simp]: "owns (started now turn tok scope reasoning its h) turn"
  by (simp add: owns_def started_def frame_simps start_turn_buffer_def)

text \<open>
  a turn started on an idle engine records the queued next-turn items and then the user's input,
  in order and under distinct positional ids; it empties the next-turn queue, marks the thread
  active and hands the turn a token of its own.
\<close>

theorem start_turn_records_input:
  assumes "ei_phase e = Idle"
    and "ei_threads (snd (start_turn now tid input scope reasoning e)) tid = Some h"
  shows "fst (start_turn now tid input scope reasoning e) = Inr (turn_id_for tid (ei_turn_counter e)) \<and>
         handle_active_turn_items h =
           stamp (turn_id_for tid (ei_turn_counter e)) 0 (iq_next_turn (hd_injection (handle_of tid e)) @ input) \<and>
         distinct (map item_id_of (handle_active_turn_items h)) \<and>
         iq_next_turn (hd_injection h) = [] \<and> owns h (turn_id_for tid (ei_turn_counter e)) \<and>
         hd_status h = thread_status.Active [TurnInProgress]"
proof -
  let ?h = "(handle_of tid e)\<lparr>hd_injection := (hd_injection (handle_of tid e))\<lparr>iq_next_turn := []\<rparr>\<rparr>"
  have h: "h = started now (turn_id_for tid (ei_turn_counter e)) (fst (child_for_turn (ei_cancel_tree e)))
              scope reasoning (iq_next_turn (hd_injection (handle_of tid e)) @ input) ?h"
    using assms(2) start_turn_ok(6) [OF assms(1), of now tid input scope reasoning] by simp
  have own: "owns h (turn_id_for tid (ei_turn_counter e))"
    unfolding h by simp
  have status: "hd_status h = in_progress"
    unfolding h by (simp add: started_def frame_simps start_turn_buffer_def)
  show ?thesis
    using start_turn_ok(1) [OF assms(1), of now tid input scope reasoning] own status
    by (simp add: h started_items started_fields(3) stamp_distinct in_progress_def)
qed

definition plain_engine :: "unit engine_inner" where
  "plain_engine = engine_new None None None True ''/work''"

definition hello :: item where
  "hello = UserMessage (ItemId ''x'') [item_content.Text ''hello'' None]"

lemma plain_facts: "ei_phase plain_engine = Idle" "ei_turn_counter plain_engine = 0"
  "handle_of tid plain_engine = new_idle tid"
  by (simp_all add: plain_engine_def engine_new_def handle_of_def get_or_init_def Let_def)

theorem start_turn_records_input_witness:
  "fst (start_turn 3 (ThreadId ''t'') [hello] None None plain_engine) = Inr (turn_id_for (ThreadId ''t'') 0) \<and>
   map item_id_of (handle_active_turn_items (the (ei_threads (snd (start_turn 3 (ThreadId ''t'') [hello] None None plain_engine)) (ThreadId ''t''))))
     = [seeded_id (turn_id_for (ThreadId ''t'') 0) 0]"
proof -
  obtain h where h: "ei_threads (snd (start_turn 3 (ThreadId ''t'') [hello] None None plain_engine)) (ThreadId ''t'') = Some h"
    using start_turn_ok(6) [OF plain_facts(1), of 3 "ThreadId ''t''" "[hello]" None None] by simp
  from start_turn_records_input [OF plain_facts(1) h] h show ?thesis
    by (simp add: plain_facts new_idle_def with_capacity_def queues_new_def)
qed

text \<open>
  cancelling a thread's turn takes the turn off the thread, closes it in the transcript, empties
  the steer and follow-up queues but not the next-turn queue, settles every pending permission
  request of the engine as cancelled, and cancels the turn's token with all its descendants.
\<close>

theorem cancel_turn_effects:
  assumes "ei_threads e tid = Some h" "hd_active_turn h = Some a"
    and "cancel_turn alive now tid e = (reply, e', sent)"
  shows "reply = cancel_turn_reply.Cancelled (at_id a) \<and>
         map_option hd_active_turn (ei_threads e' tid) = Some None \<and>
         map_option hd_injection (ei_threads e' tid) =
           Some ((hd_injection h)\<lparr>iq_steer := [], iq_follow_up := []\<rparr>) \<and>
         map_option (active_turn_id \<circ> hd_history) (ei_threads e' tid) = Some None \<and>
         pp_map (pr_pending (ei_permission e')) = [] \<and>
         sent = map (\<lambda>tx. (tx, permission_outcome.Cancelled))
                  (filter alive (map (\<lambda>(k, entry). pe_tx entry) (pp_map (pr_pending (ei_permission e))))) \<and>
         {u. token_is_cancelled (ei_cancel_tree e') u} =
           {u. token_is_cancelled (ei_cancel_tree e) u \<or> at_cancel a \<in> set (ancestors (ct_parents (ei_cancel_tree e)) u)}"
proof -
  have c: "reply = fst (cancel_turn alive now tid e)" "e' = fst (snd (cancel_turn alive now tid e))"
    "sent = snd (snd (cancel_turn alive now tid e))"
    using assms(3) by auto
  note f = cancel_turn_active [OF assms(1,2), of alive now]
  show ?thesis
    unfolding c f
    by (simp add: cancelled_fields cancelled_cancel abort_def reducer_cancel_all_def pp_drain_def Let_def)
       (simp add: cancelled_def frame_simps)
qed

theorem cancel_turn_effects_witness:
  "fst (cancel_turn (\<lambda>_. True) 4 (ThreadId ''t'')
         (snd (start_turn 3 (ThreadId ''t'') [hello] None None plain_engine))) =
   cancel_turn_reply.Cancelled (turn_id_for (ThreadId ''t'') 0)"
proof -
  let ?e = "snd (start_turn 3 (ThreadId ''t'') [hello] None None plain_engine)"
  obtain h where h: "ei_threads ?e (ThreadId ''t'') = Some h"
    using start_turn_ok(6) [OF plain_facts(1), of 3 "ThreadId ''t''" "[hello]" None None] by simp
  have "owns h (turn_id_for (ThreadId ''t'') 0)"
    using start_turn_ok(6) [OF plain_facts(1), of 3 "ThreadId ''t''" "[hello]" None None] h plain_facts(2)
    by (metis fun_upd_same option.inject started_owns)
  then obtain a where a: "hd_active_turn h = Some a" "at_id a = turn_id_for (ThreadId ''t'') 0"
    by (auto simp: owns_def split: option.splits)
  obtain reply e' sent where c: "cancel_turn (\<lambda>_. True) 4 (ThreadId ''t'') ?e = (reply, e', sent)"
    by (cases "cancel_turn (\<lambda>_. True) 4 (ThreadId ''t'') ?e")
  from cancel_turn_effects [OF h(1) a(1) c] a(2) c show ?thesis by simp
qed

text \<open>
  a task whose turn no longer owns its thread's slot, because it was cancelled or replaced,
  changes nothing when it finishes.
\<close>

theorem stale_finish_is_noop:
  assumes "map_option at_id (hd_active_turn h) \<noteq> Some turn"
  shows "finish_turn now tid turn error (h, e) = (h, e)"
  by (rule finish_not_owner) (use assms in \<open>auto simp: owns_def split: option.splits\<close>)

theorem stale_finish_is_noop_witness:
  "finish_turn 1 (ThreadId ''t'') (TurnId ''old'') None (new_idle (ThreadId ''t''), plain_engine) =
   (new_idle (ThreadId ''t''), plain_engine)"
  using stale_finish_is_noop [of "new_idle (ThreadId ''t'')" "TurnId ''old''"]
  by (simp add: new_idle_def with_capacity_def)

text \<open>
  the phase is released before the transcript is closed, so a turn started in between is the one
  that gets closed: the new turn owns the thread's slot but the transcript has no active turn, and
  every item it produces from then on is dropped from memory.
\<close>

theorem finish_races_with_next_start:
  assumes "ei_phase e = Turn" "hd_parent h = None"
    and "finish_turn_release tid h e = (h1, e1, started_at)"
    and "start_turn now tid input scope reasoning (put_handle tid h1 e1) = (r, e2)"
    and "ei_threads e2 tid = Some h2"
    and "finish_turn_record now' tid turn error started_at (h2, e2) = (h3, e3)"
  shows "r = Inr (turn_id_for tid (ei_turn_counter e)) \<and> owns h3 (turn_id_for tid (ei_turn_counter e)) \<and>
         active_turn_id (hd_history h3) = None \<and>
         items_snapshot (handle_push_item it h3) = items_snapshot h3"
proof -
  let ?e = "put_handle tid h1 e1"
  have rel: "ei_phase e1 = Idle" "ei_turn_counter e1 = ei_turn_counter e"
    using assms(1-3)
    by (auto simp: finish_turn_release_def Let_def case_prod_beta flush_pending_eq frame_simps
                   set_phase_broadcast_phase)
  then have idle: "ei_phase ?e = Idle" "ei_turn_counter ?e = ei_turn_counter e" by (simp_all add: frame_simps)
  note ok = start_turn_ok [OF idle(1), of now tid input scope reasoning]
  have r: "r = Inr (turn_id_for tid (ei_turn_counter e))" using ok(1) assms(4) idle(2) by simp
  obtain tok its h0 where h2: "h2 = started now (turn_id_for tid (ei_turn_counter e)) tok scope reasoning its h0"
    using ok(6) assms(4,5) idle(2) that by (metis fun_upd_same option.inject snd_conv)
  have own: "owns h2 (turn_id_for tid (ei_turn_counter e))"
    unfolding h2 by simp
  have h3: "hd_active_turn h3 = hd_active_turn h2"
    "hd_history h3 = Turn_Buffer.finish_turn (if error \<noteq> None then turn_status.Failed else turn_status.Completed)
       now' (map_option (duration_since now') started_at) (hd_history h2)"
    using assms(6) by (auto simp: finish_turn_record_def Let_def frame_simps)
  then have none: "active_turn_id (hd_history h3) = None" by simp
  then have "hb_active (hd_history h3) = None" by (simp add: active_turn_id_def)
  then have "items_snapshot (handle_push_item it h3) = items_snapshot h3"
    by (simp add: items_snapshot_def frame_simps Turn_Buffer.push_item_def)
  with r own none h3(1) show ?thesis by (simp add: owns_def)
qed

theorem finish_races_with_next_start_witness:
  "\<exists>h3. owns h3 (turn_id_for (ThreadId ''t'') 1) \<and> items_snapshot (handle_push_item hello h3) = items_snapshot h3"
proof -
  let ?t = "ThreadId ''t''"
  let ?e = "snd (start_turn 3 ?t [hello] None None plain_engine)"
  let ?H = "the (ei_threads ?e ?t)"
  have e: "ei_phase ?e = Turn" "ei_turn_counter ?e = 1" "hd_parent ?H = None"
    using start_turn_ok [OF plain_facts(1), of 3 ?t "[hello]" None None]
    by (simp_all add: plain_facts started_fields) (simp add: new_idle_def with_capacity_def)
  obtain h1 e1 s where 1: "finish_turn_release ?t ?H ?e = (h1, e1, s)" by (metis prod_cases3)
  obtain r e2 where 2: "start_turn 4 ?t [hello] None None (put_handle ?t h1 e1) = (r, e2)" by (metis prod.exhaust)
  have "ei_phase (put_handle ?t h1 e1) = Idle"
    using 1 e by (auto simp: finish_turn_release_def Let_def case_prod_beta flush_pending_eq frame_simps
                   set_phase_broadcast_phase)
  from start_turn_ok(6) [OF this, of 4 ?t "[hello]" None None] 2
  obtain h2 where 3: "ei_threads e2 ?t = Some h2" by simp
  obtain h3 e3 where 4: "finish_turn_record 5 ?t (turn_id_for ?t 0) None s (h2, e2) = (h3, e3)" by (metis prod.exhaust)
  from finish_races_with_next_start [OF e(1,3) 1 2 3 4, of hello] show ?thesis by (auto simp: e(2))
qed

end
