(* ===== verification/Subagent_Spawn.thy ===== *)
theory Subagent_Spawn
  imports Lifecycle Subagent
begin

text \<open>
  Spawning a child thread and delivering its outcome
  (\<open>zhive-core/src/engine/subagent_spawn/mod.rs\<close>). The tool registry is the list of its entries:
  the name and whether the tool is available to subagents. The child's own turn runs as a task: what
  it returns (the error that ended it, if any) is an argument of the delivery.
\<close>

fun spawn_error_of :: "subagent_error \<Rightarrow> subagent_spawn_error" where
  "spawn_error_of ParentIsSubagent = subagent_spawn_error.RecursionForbidden"
| "spawn_error_of subagent_error.ChildSpawnRequested = subagent_spawn_error.ChildSpawnRequested"
| "spawn_error_of (InvalidNarrowing _) = ScopeWideningRejected"

text \<open>The loop that denies the child every tool not available to subagents.\<close>

fun deny_unavailable :: "(string \<times> bool) list \<Rightarrow> tool_name list \<Rightarrow> tool_name list" where
  "deny_unavailable [] disallowed = disallowed"
| "deny_unavailable ((name, available) # tools) disallowed =
     deny_unavailable tools
       (if \<not> available then
          (if ToolName name \<in> set disallowed then disallowed else disallowed @ [ToolName name])
        else disallowed)"

definition filter_nonempty :: "string \<Rightarrow> string option" where
  "filter_nonempty s = (if s = [] then None else Some s)"

definition start_child_turn ::
    "int \<Rightarrow> thread_id \<Rightarrow> turn_id \<Rightarrow> cancel_token \<Rightarrow> permission_scope \<Rightarrow> string \<Rightarrow>
     thread_handle \<times> 'tx engine_inner \<Rightarrow> thread_handle \<times> 'tx engine_inner" where
  "start_child_turn now tid turn tok scope prompt st =
     (let (h, e) = st;
          started_at = now;
          h1 = h\<lparr>hd_active_turn := Some (new_with_cancel_and_scope turn started_at tok scope)\<rparr>;
          h2 = (start_turn_buffer turn started_at h1)\<lparr>hd_status := in_progress\<rparr>;
          child_preview = truncate_preview prompt;
          (h3, e1) =
            (if prompt \<noteq> [] then
               (let it = UserMessage (ItemId (''item:subagent:'' @ thread_id_str tid @ ''/prompt''))
                           [item_content.Text prompt None]
                in (handle_push_item it h2, send (engine_event.ItemAppended tid turn it) e))
             else (h2, e));
          e2 = send (engine_event.TurnStarted tid turn) e1;
          e3 = enqueue_storage_op
                 (ThreadUpserted
                   ((snapshot tid h3 child_preview started_at in_progress (ei_cwd e2))
                      \<lparr>th_subagent_parent := hd_parent h3, th_source := thread_source.Subagent\<rparr>)) e2;
          e4 = enqueue_storage_op (storage_write_op.TurnStarted tid turn started_at) e3
      in (h3, e4))"

text \<open>
  \<open>spawn_subagent_awaitable\<close>: on success the child's thread and turn identifiers and its token,
  which the spawned task runs with.
\<close>

definition spawn_subagent_awaitable ::
    "int \<Rightarrow> (string \<times> bool) list \<Rightarrow> thread_id \<Rightarrow> subagent_definition \<Rightarrow> 'tx engine_inner \<Rightarrow>
     (thread_id \<times> turn_id \<times> cancel_token, subagent_spawn_error) rust_result \<times> 'tx engine_inner" where
  "spawn_subagent_awaitable now tools parent_tid d e =
     (case ei_threads e parent_tid of
        None \<Rightarrow> (Inl ParentNotFound, e)
      | Some parent \<Rightarrow>
          (let parent_scope = (case hd_active_turn parent of
                                 Some a \<Rightarrow> at_scope a | None \<Rightarrow> default_turn_scope);
               counter = ei_turn_counter e;
               e1 = e\<lparr>ei_turn_counter := counter + 1\<rparr>;
               parent_stem = (case strip_prefix ''thread:'' (thread_id_str parent_tid) of
                                Some s \<Rightarrow> s | None \<Rightarrow> thread_id_str parent_tid);
               child_tid = ThreadId (''thread:subagent/'' @ parent_stem @ ''/'' @ show_nat (unat counter))
           in case prepare_child_scope parent_scope (hd_parent parent \<noteq> None) d child_tid of
                Inl err \<Rightarrow> (Inl (spawn_error_of err), e1)
              | Inr child_scope \<Rightarrow>
                  (let scope = (cs_scope child_scope)
                                 \<lparr>disallowed_tools :=
                                    deny_unavailable tools (disallowed_tools (cs_scope child_scope))\<rparr>;
                       h0 = new_child child_tid parent_tid;
                       e2 = put_handle child_tid h0 e1;
                       (child_turn, e3) = allocate_turn_id child_tid e2;
                       (tok, tree) = child_for_turn (ei_cancel_tree e3);
                       (h, e4) = start_child_turn now child_tid child_turn tok scope
                                   (cs_prompt child_scope) (h0, e3\<lparr>ei_cancel_tree := tree\<rparr>);
                       e5 = send (SubagentStarted parent_tid child_tid
                                   (filter_nonempty (sd_name d)) (filter_nonempty (sd_description d))) e4
                   in (Inr (child_tid, child_turn, tok), put_handle child_tid h e5))))"

text \<open>\<open>spawn_subagent\<close>: the receivers are dropped.\<close>

definition spawn_subagent ::
    "int \<Rightarrow> (string \<times> bool) list \<Rightarrow> thread_id \<Rightarrow> subagent_definition \<Rightarrow> 'tx engine_inner \<Rightarrow>
     (thread_id, subagent_spawn_error) rust_result \<times> 'tx engine_inner" where
  "spawn_subagent now tools parent_tid d e =
     (case spawn_subagent_awaitable now tools parent_tid d e of
        (Inl err, e') \<Rightarrow> (Inl err, e')
      | (Inr (child_tid, _, _), e') \<Rightarrow> (Inr child_tid, e'))"

section \<open>Delivery\<close>

definition deliver_subagent_outcome ::
    "thread_handle \<Rightarrow> thread_id \<Rightarrow> thread_id \<Rightarrow> item option \<Rightarrow> turn_error option \<Rightarrow> 'tx engine_inner \<Rightarrow>
     subagent_final_event option \<times> 'tx engine_inner" where
  "deliver_subagent_outcome child parent_tid child_tid final_msg child_error e =
     (let event = (if hd_final_tx child then
                     Some (case child_error of
                             Some err \<Rightarrow> subagent_final_event.Errored child_tid err
                           | None \<Rightarrow> subagent_final_event.Completed child_tid final_msg)
                   else None);
          e1 = send (SubagentCompleted parent_tid child_tid final_msg) e
      in (event, e1\<lparr>ei_threads := store_remove child_tid (ei_threads e1)\<rparr>))"

text \<open>\<open>run_child_turn_inner\<close> once \<open>run_turn\<close> has returned \<open>child_error\<close>.\<close>

definition finish_child ::
    "thread_handle \<Rightarrow> thread_id \<Rightarrow> thread_id \<Rightarrow> turn_error option \<Rightarrow> 'tx engine_inner \<Rightarrow>
     subagent_final_event option \<times> 'tx engine_inner" where
  "finish_child child child_tid parent_tid child_error e =
     (if child_error \<noteq> None then deliver_subagent_outcome child parent_tid child_tid None child_error e
      else (case ei_threads e child_tid of
              None \<Rightarrow> deliver_subagent_outcome child parent_tid child_tid None child_error e
            | Some h \<Rightarrow>
                deliver_subagent_outcome child parent_tid child_tid
                  (extract_final_message (items_snapshot h)) child_error e))"

section \<open>What a spawn establishes\<close>

lemma set_deny_unavailable:
  "set (deny_unavailable tools ds) = set ds \<union> {ToolName n |n. (n, False) \<in> set tools}"
  by (induction tools ds rule: deny_unavailable.induct) auto

text \<open>The child thread's identifier and the handle it starts with.\<close>

definition child_id_for :: "thread_id \<Rightarrow> u64 \<Rightarrow> thread_id" where
  "child_id_for parent_tid counter =
     ThreadId (''thread:subagent/'' @
       (case strip_prefix ''thread:'' (thread_id_str parent_tid) of
          Some s \<Rightarrow> s | None \<Rightarrow> thread_id_str parent_tid) @ ''/'' @ show_nat (unat counter))"

definition effective_scope :: "(string \<times> bool) list \<Rightarrow> permission_scope \<Rightarrow> permission_scope" where
  "effective_scope tools s = s\<lparr>disallowed_tools := deny_unavailable tools (disallowed_tools s)\<rparr>"

definition child_handle ::
    "int \<Rightarrow> thread_id \<Rightarrow> thread_id \<Rightarrow> turn_id \<Rightarrow> cancel_token \<Rightarrow> permission_scope \<Rightarrow> string \<Rightarrow> thread_handle" where
  "child_handle now tid parent turn tok scope prompt =
     (let h = (start_turn_buffer turn now
                 ((new_child tid parent)
                    \<lparr>hd_active_turn := Some (new_with_cancel_and_scope turn now tok scope)\<rparr>))
                \<lparr>hd_status := in_progress\<rparr>
      in if prompt \<noteq> [] then
           handle_push_item
             (UserMessage (ItemId (''item:subagent:'' @ thread_id_str tid @ ''/prompt''))
                [item_content.Text prompt None]) h
         else h)"

lemma start_child_turn_fields:
  "fst (start_child_turn now tid turn tok scope prompt (new_child tid parent, e)) =
     child_handle now tid parent turn tok scope prompt"
  "ei_threads (snd (start_child_turn now tid turn tok scope prompt (h, e))) = ei_threads e"
  "ei_phase (snd (start_child_turn now tid turn tok scope prompt (h, e))) = ei_phase e"
  "ei_turn_counter (snd (start_child_turn now tid turn tok scope prompt (h, e))) = ei_turn_counter e"
  "ei_cancel_tree (snd (start_child_turn now tid turn tok scope prompt (h, e))) = ei_cancel_tree e"
  "ei_permission (snd (start_child_turn now tid turn tok scope prompt (h, e))) = ei_permission e"
  by (cases "prompt = []"; simp add: start_child_turn_def child_handle_def Let_def frame_simps)+

lemma child_handle_fields:
  "hd_id (child_handle now tid p turn tok s prompt) = tid"
  "hd_parent (child_handle now tid p turn tok s prompt) = Some p"
  "hd_active_turn (child_handle now tid p turn tok s prompt) =
     Some (new_with_cancel_and_scope turn now tok s)"
  by (simp_all add: child_handle_def Let_def frame_simps start_turn_buffer_def new_child_def)

lemma child_handle_inv [inv_intros]: "handle_inv (child_handle now tid p turn tok s prompt)"
proof -
  let ?h = "(start_turn_buffer turn now
              ((new_child tid p)\<lparr>hd_active_turn := Some (new_with_cancel_and_scope turn now tok s)\<rparr>))
              \<lparr>hd_status := in_progress\<rparr>"
  have "buffer_inv (hd_history (new_child tid p))"
    using new_child_inv [of tid p] by (simp add: handle_inv_def)
  then have "handle_inv ?h"
    by (auto simp: handle_inv_def start_turn_buffer_def in_progress_def new_with_cancel_and_scope_def
             intro!: start_turn_inv simp: loaded_def)
  then show ?thesis by (simp add: child_handle_def Let_def handle_push_item_inv)
qed

lemma spawn_error_threads:
  assumes "fst (spawn_subagent_awaitable now tools p d e) = Inl err"
  shows "ei_threads (snd (spawn_subagent_awaitable now tools p d e)) = ei_threads e"
    and "ei_phase (snd (spawn_subagent_awaitable now tools p d e)) = ei_phase e"
    and "ei_cancel_tree (snd (spawn_subagent_awaitable now tools p d e)) = ei_cancel_tree e"
proof -
  have "snd (spawn_subagent_awaitable now tools p d e) = e \<or>
        snd (spawn_subagent_awaitable now tools p d e) = e\<lparr>ei_turn_counter := ei_turn_counter e + 1\<rparr>"
  proof (cases "ei_threads e p")
    case None
    then show ?thesis by (simp add: spawn_subagent_awaitable_def)
  next
    case (Some parent)
    show ?thesis
    proof (cases "prepare_child_scope
         (case hd_active_turn parent of Some a \<Rightarrow> at_scope a | None \<Rightarrow> default_turn_scope)
         (hd_parent parent \<noteq> None) d (child_id_for p (ei_turn_counter e))")
      case (Inl x)
      with Some show ?thesis by (simp add: spawn_subagent_awaitable_def Let_def child_id_for_def)
    next
      case (Inr cs)
      with Some assms show ?thesis
        by (simp add: spawn_subagent_awaitable_def Let_def case_prod_beta child_id_for_def)
    qed
  qed
  then show "ei_threads (snd (spawn_subagent_awaitable now tools p d e)) = ei_threads e"
    and "ei_phase (snd (spawn_subagent_awaitable now tools p d e)) = ei_phase e"
    and "ei_cancel_tree (snd (spawn_subagent_awaitable now tools p d e)) = ei_cancel_tree e"
    by auto
qed

lemma spawn_ok:
  fixes now :: int and tools :: "(string \<times> bool) list"
  assumes "ei_threads e p = Some parent"
    and "prepare_child_scope
           (case hd_active_turn parent of Some a \<Rightarrow> at_scope a | None \<Rightarrow> default_turn_scope)
           (hd_parent parent \<noteq> None) d (child_id_for p (ei_turn_counter e)) = Inr cs"
  defines "child \<equiv> child_id_for p (ei_turn_counter e)"
    and "turn \<equiv> turn_id_for (child_id_for p (ei_turn_counter e)) (ei_turn_counter e + 1)"
    and "r \<equiv> spawn_subagent_awaitable now tools p d e"
  shows "fst r = Inr (child, turn, fst (child_for_turn (ei_cancel_tree e)))"
    and "ei_threads (snd r) = (ei_threads e)(child \<mapsto>
           child_handle now child p turn (fst (child_for_turn (ei_cancel_tree e)))
             (effective_scope tools (cs_scope cs)) (cs_prompt cs))"
    and "ei_phase (snd r) = ei_phase e"
    and "ei_turn_counter (snd r) = ei_turn_counter e + 2"
    and "ei_cancel_tree (snd r) = snd (child_for_turn (ei_cancel_tree e))"
    and "ei_permission (snd r) = ei_permission e"
  unfolding child_def turn_def r_def
  using assms(1) assms(2)
  by (simp_all add: spawn_subagent_awaitable_def Let_def case_prod_beta child_id_for_def
                    allocate_turn_id_def turn_id_for_def frame_simps start_child_turn_fields
                    effective_scope_def put_handle_fields)

lemma spawn_cases:
  obtains (err) x where "fst (spawn_subagent_awaitable now tools p d e) = Inl x"
  | (ok) parent cs where "ei_threads e p = Some parent"
      "prepare_child_scope
         (case hd_active_turn parent of Some a \<Rightarrow> at_scope a | None \<Rightarrow> default_turn_scope)
         (hd_parent parent \<noteq> None) d (child_id_for p (ei_turn_counter e)) = Inr cs"
proof (cases "ei_threads e p")
  case None
  then show ?thesis by (intro err [of ParentNotFound]) (simp add: spawn_subagent_awaitable_def)
next
  case (Some parent)
  show ?thesis
  proof (cases "prepare_child_scope
         (case hd_active_turn parent of Some a \<Rightarrow> at_scope a | None \<Rightarrow> default_turn_scope)
         (hd_parent parent \<noteq> None) d (child_id_for p (ei_turn_counter e))")
    case (Inl x)
    then show ?thesis
      by (intro err [of "spawn_error_of x"])
         (simp add: spawn_subagent_awaitable_def Some Let_def child_id_for_def)
  next
    case (Inr cs)
    with Some show ?thesis by (rule ok)
  qed
qed

lemma effective_permits: "permits (effective_scope tools s) n \<Longrightarrow> permits s n \<and> (n, False) \<notin> set tools"
  by (auto simp: permits_iff effective_scope_def set_deny_unavailable)

lemma deliver_threads:
  "ei_threads (snd (deliver_subagent_outcome child p c m err e)) = (ei_threads e)(c := None)"
  "ei_phase (snd (deliver_subagent_outcome child p c m err e)) = ei_phase e"
  "ei_cancel_tree (snd (deliver_subagent_outcome child p c m err e)) = ei_cancel_tree e"
  "ei_turn_counter (snd (deliver_subagent_outcome child p c m err e)) = ei_turn_counter e"
  by (simp_all add: deliver_subagent_outcome_def Let_def store_remove_def frame_simps)

lemma finish_child_fields:
  "ei_threads (snd (finish_child child c p err e)) = (ei_threads e)(c := None)"
  "ei_phase (snd (finish_child child c p err e)) = ei_phase e"
  "ei_cancel_tree (snd (finish_child child c p err e)) = ei_cancel_tree e"
  "ei_turn_counter (snd (finish_child child c p err e)) = ei_turn_counter e"
  by (simp_all add: finish_child_def deliver_threads split: option.splits)

section \<open>Properties\<close>


definition plain_subagent :: subagent_definition where
  "plain_subagent =
     \<lparr>sd_name = ''scan'', sd_description = ''reads files'', sd_prompt = ''scan the tree'', sd_tools = Some [ToolName ''read''],
      sd_disallowed_tools = [], sd_permission_mode = None, sd_allow_subagent_spawn = False\<rparr>"

definition parent_engine :: "unit engine_inner" where
  "parent_engine = snd (start_turn 3 (ThreadId ''t'') [hello] None None plain_engine)"

lemma parent_engine_handle:
  obtains h a where "ei_threads parent_engine (ThreadId ''t'') = Some h" "hd_active_turn h = Some a"
    "at_scope a = default_turn_scope" "at_cancel a = 1" "hd_parent h = None" "ei_turn_counter parent_engine = 1"
proof -
  let ?h = "started 3 (turn_id_for (ThreadId ''t'') 0) (fst (child_for_turn (ei_cancel_tree plain_engine))) None None
              (iq_next_turn (hd_injection (handle_of (ThreadId ''t'') plain_engine)) @ [hello])
              ((handle_of (ThreadId ''t'') plain_engine)\<lparr>hd_injection := (hd_injection (handle_of (ThreadId ''t'') plain_engine))\<lparr>iq_next_turn := []\<rparr>\<rparr>)"
  note ok = start_turn_ok [OF plain_facts(1), of 3 "ThreadId ''t''" "[hello]" None None]
  have h: "ei_threads parent_engine (ThreadId ''t'') = Some ?h"
    using ok(6) by (simp only: parent_engine_def plain_facts(2) fun_upd_same)
  have tok: "fst (child_for_turn (ei_cancel_tree plain_engine)) = 1"
    by (simp add: child_for_turn_def child_token_def plain_engine_def engine_new_def cancel_new_def)
  have parent: "hd_parent ?h = None"
    by (simp add: started_fields plain_facts(3)) (simp add: new_idle_def with_capacity_def)
  have "map_option at_scope (hd_active_turn ?h) = Some default_turn_scope" "map_option at_cancel (hd_active_turn ?h) = Some 1"
    using started_fields(7) [of 3 _ _ None] started_fields(5) tok by auto
  then obtain a where "hd_active_turn ?h = Some a" "at_scope a = default_turn_scope" "at_cancel a = 1"
    by (cases "hd_active_turn ?h") auto
  moreover have "ei_turn_counter parent_engine = 1" using ok by (simp add: parent_engine_def plain_facts(2))
  ultimately show thesis using that h parent by blast
qed


text \<open>
  a subagent's token hangs below the engine's root and not below its parent's turn: cancelling the
  parent's turn leaves the subagent running.
\<close>

theorem parent_cancel_spares_child:
  assumes "tree_wf (ei_cancel_tree e)" "fired_known (ei_cancel_tree e)" "\<not> is_cancelled (ei_cancel_tree e)"
    and "ei_threads e p = Some parent" "hd_active_turn parent = Some a"
    and "0 < at_cancel a" "at_cancel a \<le> length (ct_parents (ei_cancel_tree e))"
    and "spawn_subagent_awaitable now tools p d e = (Inr (child, turn, tok), e')"
  shows "\<not> token_is_cancelled (cancel (at_cancel a) (ei_cancel_tree e')) tok"
proof (rule spawn_cases [of now tools p d e])
  fix x assume "fst (spawn_subagent_awaitable now tools p d e) = Inl x"
  with assms(8) show ?thesis by simp
next
  fix parent' cs
  assume "ei_threads e p = Some parent'" and prep: "prepare_child_scope
      (case hd_active_turn parent' of Some a \<Rightarrow> at_scope a | None \<Rightarrow> default_turn_scope)
      (hd_parent parent' \<noteq> None) d (child_id_for p (ei_turn_counter e)) = Inr cs"
  then have eq: "parent' = parent" using assms(4) by simp
  note ok = spawn_ok [OF assms(4) prep [unfolded eq], of now tools]
  let ?t = "ei_cancel_tree e"
  have tok: "tok = fst (child_token 0 ?t)" "ei_cancel_tree e' = snd (child_token 0 ?t)"
    using ok(1,5) assms(8) by (simp_all add: child_for_turn_def root_def)
  have fired: "ct_fired (ei_cancel_tree e') = ct_fired ?t" by (simp add: tok child_token_def)
  have anc: "ancestors (ct_parents (ei_cancel_tree e')) tok = [tok, 0]"
    using ancestors_child(1) [OF assms(1), of 0] by (simp add: tok)
  have "tok = Suc (length (ct_parents ?t))" by (simp add: tok child_token_def)
  then have "tok \<notin> set (ct_fired ?t)" "at_cancel a \<noteq> tok"
    using assms(2,7) by (auto simp: fired_known_def list_all_iff)
  moreover have "0 \<notin> set (ct_fired ?t)" using assms(3) by (simp add: is_cancelled_def token_is_cancelled_def root_def)
  ultimately show ?thesis
    using assms(6) anc fired by (simp add: token_is_cancelled_def cancel_def)
qed

theorem parent_cancel_spares_child_witness:
  "\<exists>child turn tok e'.
     spawn_subagent_awaitable 5 [] (ThreadId ''t'') plain_subagent parent_engine = (Inr (child, turn, tok), e') \<and>
     \<not> token_is_cancelled (cancel 1 (ei_cancel_tree e')) tok"
proof -
  obtain h a where p: "ei_threads parent_engine (ThreadId ''t'') = Some h" "hd_active_turn h = Some a"
    "at_scope a = default_turn_scope" "at_cancel a = 1" "hd_parent h = None"
    using parent_engine_handle by metis
  have "narrows default_turn_scope (candidate_scope default_turn_scope plain_subagent)"
    by (simp add: candidate_narrows plain_subagent_def default_turn_scope_def)
  then obtain cs where cs: "prepare_child_scope (case hd_active_turn h of Some a \<Rightarrow> at_scope a | None \<Rightarrow> default_turn_scope)
     (hd_parent h \<noteq> None) plain_subagent (child_id_for (ThreadId ''t'') (ei_turn_counter parent_engine)) = Inr cs"
    by (simp add: p prepare_child_scope_ok) (simp add: plain_subagent_def)
  obtain child turn tok e' where s:
    "spawn_subagent_awaitable 5 [] (ThreadId ''t'') plain_subagent parent_engine = (Inr (child, turn, tok), e')"
    using spawn_ok(1) [OF p(1) cs, of 5 "[]"] by (metis prod.collapse)
  have tree: "ei_cancel_tree parent_engine = snd (child_for_turn cancel_new)"
    using start_turn_ok [OF plain_facts(1), of 3 "ThreadId ''t''" "[hello]" None None]
    by (simp add: parent_engine_def plain_engine_def engine_new_def)
  from parent_cancel_spares_child [OF _ _ _ p(1,2) _ _ s] show ?thesis
    by (auto simp: s p(4) tree child_for_turn_def child_token_def root_def cancel_new_def tree_wf_def fired_known_def
                   is_cancelled_def token_is_cancelled_def)
qed

end
