(* ===== verification/Provider_Retry.thy ===== *)
theory Provider_Retry
  imports Lifecycle
begin

text \<open>
  Classification of provider errors (\<open>zhive-core/src/provider/mod.rs\<close>) and the retry loop around a
  provider call (\<open>zhive-core/src/engine/turn.rs\<close>). The SDK's error is the record of what its
  accessors return; the provider, and what the rest of the engine does while the loop awaits, are
  parameters. Durations are numbers: seconds for the server's hint, milliseconds for a delay.
\<close>

section \<open>Errors\<close>

record sdk_error =
  se_status_code :: "nat option"
  se_response_headers :: "(string \<times> string) list option"
  se_is_retryable :: bool
  se_text :: string

datatype provider_error =
    RateLimit "nat option"
  | Transient string
  | Other string

definition lower_char :: "char \<Rightarrow> char" where
  "lower_char c =
     (if 65 \<le> (of_char c :: nat) \<and> (of_char c :: nat) \<le> 90 then char_of (of_char c + 32 :: nat) else c)"

definition eq_ignore_ascii_case :: "string \<Rightarrow> string \<Rightarrow> bool" where
  "eq_ignore_ascii_case s t = (map lower_char s = map lower_char t)"

definition parse_retry_after :: "(string \<times> string) list \<Rightarrow> nat option" where
  "parse_retry_after headers =
     (case find (\<lambda>(name, _). eq_ignore_ascii_case name ''retry-after'') headers of
        None \<Rightarrow> None
      | Some (_, value) \<Rightarrow> parse_uint u64_max (trim value))"

definition from_llmsdk :: "sdk_error \<Rightarrow> provider_error" where
  "from_llmsdk err =
     (if se_status_code err = Some 429 then
        RateLimit (case se_response_headers err of
                     None \<Rightarrow> None | Some headers \<Rightarrow> parse_retry_after headers)
      else if se_is_retryable err then Transient (se_text err)
      else Other (se_text err))"

fun is_retryable :: "provider_error \<Rightarrow> bool" where
  "is_retryable (RateLimit _) = True"
| "is_retryable (Transient _) = True"
| "is_retryable (Other _) = False"

text \<open>The derived display, with the debug form of a whole number of seconds.\<close>

definition show_secs :: "nat \<Rightarrow> string" where
  "show_secs n = (if n = 0 then ''0ns'' else show_nat n @ ''s'')"

fun provider_error_text :: "provider_error \<Rightarrow> string" where
  "provider_error_text (RateLimit None) = ''provider rate limited''"
| "provider_error_text (RateLimit (Some d)) = ''provider rate limited (retry after '' @ show_secs d @ '')''"
| "provider_error_text (Transient s) = ''transient provider error: '' @ s"
| "provider_error_text (Other s) = ''provider error: '' @ s"

section \<open>Phase bracket and delay\<close>

definition MAX_PROVIDER_RETRIES :: nat where
  "MAX_PROVIDER_RETRIES = 3"

definition RETRY_INITIAL_BACKOFF :: nat where
  "RETRY_INITIAL_BACKOFF = 500"

definition RETRY_MAX_BACKOFF :: nat where
  "RETRY_MAX_BACKOFF = 8000"

definition enter_retry_phase :: "thread_id \<Rightarrow> 'tx engine_inner \<Rightarrow> 'tx engine_inner" where
  "enter_retry_phase tid e = set_phase_broadcast tid Turn Retry e"

definition leave_retry_phase :: "thread_id \<Rightarrow> 'tx engine_inner \<Rightarrow> 'tx engine_inner" where
  "leave_retry_phase tid e = set_phase_broadcast tid Retry Turn e"

text \<open>\<open>1u32.checked_shl(attempt)\<close> is none from 32 on.\<close>

definition backoff_delay :: "nat \<Rightarrow> provider_error \<Rightarrow> nat" where
  "backoff_delay attempt err =
     (if attempt \<ge> 32 then RETRY_MAX_BACKOFF
      else (let computed = min (RETRY_INITIAL_BACKOFF * 2 ^ attempt) RETRY_MAX_BACKOFF
            in case err of
                 RateLimit (Some hint) \<Rightarrow> max computed (1000 * hint)
               | _ \<Rightarrow> computed))"

section \<open>The loop\<close>

text \<open>
  The world the loop runs in: what the provider answers to each attempt, and what else happens to
  the engine during the call and during the sleep of each attempt.
\<close>

record ('s, 'tx) provider_world =
  pw_do_stream :: "nat \<Rightarrow> ('s, sdk_error) rust_result"
  pw_during_call :: "nat \<Rightarrow> 'tx engine_inner \<Rightarrow> 'tx engine_inner"
  pw_during_sleep :: "nat \<Rightarrow> 'tx engine_inner \<Rightarrow> 'tx engine_inner"

text \<open>
  The result is a stream or, as \<open>Err\<close>, the absence (cancelled) or presence of a turn error; the
  list holds the delays slept. Both selects are biased towards the cancellation.
\<close>

function call_provider_with_retry ::
    "('s, 'tx) provider_world \<Rightarrow> thread_id \<Rightarrow> cancel_token \<Rightarrow> nat \<Rightarrow> 'tx engine_inner \<Rightarrow>
     ('s, turn_error option) rust_result \<times> nat list \<times> 'tx engine_inner" where
  "call_provider_with_retry w tid tok attempt e =
     (let e1 = pw_during_call w attempt e
      in if token_is_cancelled (ei_cancel_tree e1) tok then (Inl None, [], e1)
         else (case pw_do_stream w attempt of
                 Inr stream \<Rightarrow> (Inr stream, [], e1)
               | Inl raw_err \<Rightarrow>
                   (let provider_err = from_llmsdk raw_err
                    in if is_retryable provider_err \<and> attempt < MAX_PROVIDER_RETRIES then
                         (let delay = backoff_delay attempt provider_err;
                              e2 = enter_retry_phase tid e1;
                              e3 = pw_during_sleep w attempt e2;
                              cancelled = token_is_cancelled (ei_cancel_tree e3) tok;
                              e4 = leave_retry_phase tid e3
                          in if cancelled then (Inl None, [delay], e4)
                             else (let (r, delays, e5) = call_provider_with_retry w tid tok (Suc attempt) e4
                                   in (r, delay # delays, e5)))
                       else (Inl (Some \<lparr>te_message = provider_error_text provider_err,
                                       te_additional_details = None\<rparr>), [], e1))))"
  by pat_completeness auto
termination
  by (relation "measure (\<lambda>(w, tid, tok, attempt, e). MAX_PROVIDER_RETRIES - attempt)") auto

declare call_provider_with_retry.simps [simp del]

section \<open>Bounds\<close>

lemma backoff_ge: "attempt < 32 \<Longrightarrow> min (500 * 2 ^ attempt) 8000 \<le> backoff_delay attempt err"
  by (auto simp: backoff_delay_def RETRY_INITIAL_BACKOFF_def RETRY_MAX_BACKOFF_def Let_def
           split: provider_error.splits option.splits)

lemma backoff_no_hint:
  "(\<forall>h. err \<noteq> RateLimit (Some h)) \<Longrightarrow> backoff_delay attempt err \<le> 8000"
  by (auto simp: backoff_delay_def RETRY_INITIAL_BACKOFF_def RETRY_MAX_BACKOFF_def Let_def
           split: provider_error.splits option.splits)

lemma backoff_hint:
  "attempt < 32 \<Longrightarrow> 1000 * h \<le> backoff_delay attempt (RateLimit (Some h))"
  by (simp add: backoff_delay_def)

lemma retry_induct:
  assumes "\<And>attempt e. (\<And>e'. attempt < MAX_PROVIDER_RETRIES \<Longrightarrow> P (Suc attempt) e') \<Longrightarrow> P attempt e"
  shows "P attempt e"
proof (induction "MAX_PROVIDER_RETRIES - attempt" arbitrary: attempt e rule: less_induct)
  case less
  show ?case by (rule assms) (rule less, simp)
qed

lemma retry_delays_length:
  "length (fst (snd (call_provider_with_retry w tid tok attempt e))) \<le> MAX_PROVIDER_RETRIES - attempt"
proof (induction attempt e rule: retry_induct)
  case (1 attempt e)
  then show ?case
    by (subst call_provider_with_retry.simps)
       (auto simp: Let_def case_prod_beta Suc_diff_Suc [symmetric] simp del: Suc_diff_Suc split: sum.split)
qed

text \<open>Only the attempts up to the bound are made.\<close>

lemma retry_consults:
  assumes "\<And>k. k \<le> MAX_PROVIDER_RETRIES \<Longrightarrow> pw_do_stream w k = pw_do_stream w' k"
    and "pw_during_call w' = pw_during_call w" "pw_during_sleep w' = pw_during_sleep w"
  shows "attempt \<le> MAX_PROVIDER_RETRIES \<Longrightarrow>
         call_provider_with_retry w tid tok attempt e = call_provider_with_retry w' tid tok attempt e"
proof (induction attempt e rule: retry_induct)
  case (1 attempt e)
  have "call_provider_with_retry w tid tok (Suc attempt) e' = call_provider_with_retry w' tid tok (Suc attempt) e'"
    if "attempt < MAX_PROVIDER_RETRIES" for e' using 1 that by simp
  moreover have "pw_do_stream w attempt = pw_do_stream w' attempt" using 1 assms by simp
  ultimately show ?case
    by (subst (1 2) call_provider_with_retry.simps) (auto simp: Let_def assms(2-) split: sum.split)
qed

text \<open>A stream is what the provider answered to one of the attempts.\<close>

lemma retry_ok:
  "fst (call_provider_with_retry w tid tok attempt e) = Inr s \<Longrightarrow>
   attempt \<le> MAX_PROVIDER_RETRIES \<Longrightarrow>
   \<exists>k \<le> MAX_PROVIDER_RETRIES. attempt \<le> k \<and> pw_do_stream w k = Inr s"
proof (induction attempt e rule: retry_induct)
  case (1 attempt e)
  show ?case
  proof (cases "pw_do_stream w attempt")
    case (Inr s')
    with "1.prems" show ?thesis
      by (subst (asm) call_provider_with_retry.simps) (auto simp: Let_def split: if_splits)
  next
    case (Inl raw)
    obtain e' where "attempt < MAX_PROVIDER_RETRIES"
      "fst (call_provider_with_retry w tid tok (Suc attempt) e') = Inr s"
      using "1.prems"(1) Inl
      by (subst (asm) call_provider_with_retry.simps) (auto simp: Let_def case_prod_beta split: if_splits)
    with "1.IH" show ?thesis by (meson Suc_leD Suc_leI)
  qed
qed

text \<open>The loop is a bracket: if nothing else moves the phase, it is \<open>Turn\<close> again afterwards.\<close>

lemma enter_leave_phase:
  "ei_phase (leave_retry_phase tid e) = (if ei_phase e = Retry then Turn else ei_phase e)"
  "ei_phase (enter_retry_phase tid e) = (if ei_phase e = Turn then Retry else ei_phase e)"
  by (simp_all add: leave_retry_phase_def enter_retry_phase_def set_phase_broadcast_phase)

lemma retry_phase:
  assumes "\<And>k e. ei_phase (pw_during_call w k e) = ei_phase e"
    and "\<And>k e. ei_phase (pw_during_sleep w k e) = ei_phase e"
  shows "ei_phase e = Turn \<Longrightarrow> ei_phase (snd (snd (call_provider_with_retry w tid tok attempt e))) = Turn"
proof (induction attempt e rule: retry_induct)
  case (1 attempt e)
  then show ?case
    by (subst call_provider_with_retry.simps)
       (auto simp: assms Let_def case_prod_beta enter_leave_phase split: sum.split)
qed

section \<open>Properties\<close>

text \<open>
  C31: a request is attempted at most four times, with at most three waits. It returns a stream only
  if the provider gave it, and an error only if it was not retryable or was the last attempt's.
\<close>

theorem retry_is_bounded:
  "length (fst (snd (call_provider_with_retry w tid tok 0 e))) \<le> 3 \<and>
   (case fst (call_provider_with_retry w tid tok 0 e) of
      Inr s \<Rightarrow> \<exists>k \<le> 3. pw_do_stream w k = Inr s
    | Inl None \<Rightarrow> True
    | Inl (Some err) \<Rightarrow>
        \<exists>k \<le> 3. \<exists>raw. pw_do_stream w k = Inl raw \<and> te_message err = provider_error_text (from_llmsdk raw) \<and>
          (k = 3 \<or> from_llmsdk raw \<in> range Other))"
proof -
  have fatal: "\<not> is_retryable err \<Longrightarrow> err \<in> range Other" for err by (cases err) auto
  have err: "fst (call_provider_with_retry w tid tok attempt e) = Inl (Some err) \<Longrightarrow> attempt \<le> MAX_PROVIDER_RETRIES \<Longrightarrow>
      \<exists>k \<le> MAX_PROVIDER_RETRIES. \<exists>raw. pw_do_stream w k = Inl raw \<and> te_message err = provider_error_text (from_llmsdk raw) \<and>
          (k = MAX_PROVIDER_RETRIES \<or> \<not> is_retryable (from_llmsdk raw))" for attempt e err
  proof (induction attempt e rule: retry_induct)
    case (1 attempt e)
    show ?case
    proof (cases "pw_do_stream w attempt")
      case (Inr s)
      with "1.prems"(1) show ?thesis
        by (subst (asm) call_provider_with_retry.simps) (auto simp: Let_def split: if_splits)
    next
      case (Inl raw)
      show ?thesis
      proof (cases "is_retryable (from_llmsdk raw) \<and> attempt < MAX_PROVIDER_RETRIES")
        case True
        then obtain e' where "fst (call_provider_with_retry w tid tok (Suc attempt) e') = Inl (Some err)"
          using "1.prems"(1) Inl
          by (subst (asm) call_provider_with_retry.simps) (auto simp: Let_def case_prod_beta split: if_splits)
        with "1.IH" True show ?thesis by auto
      next
        case False
        with "1.prems" Inl show ?thesis
          by (intro exI [of _ attempt])
             (subst (asm) call_provider_with_retry.simps, auto simp: Let_def split: if_splits)
      qed
    qed
  qed
  show ?thesis
    using retry_delays_length [of w tid tok 0 e] retry_ok [of w tid tok 0 e] err [of 0 e]
    by (fastforce simp: MAX_PROVIDER_RETRIES_def dest: fatal split: sum.split option.split)
qed

text \<open>
  when the first \<open>j\<close> attempts fail with retryable errors and the next one succeeds, and nobody
  cancels the turn, the turn gets the stream, having waited the computed delay after each failure;
  and the engine is back in the \<open>Turn\<close> phase.
\<close>

theorem retry_rides_out_failures:
  assumes "j \<le> 3" "pw_do_stream w j = Inr s"
    and "\<And>k. k < j \<Longrightarrow> pw_do_stream w k = Inl (raw k) \<and> is_retryable (from_llmsdk (raw k))"
    and "\<And>k e. ei_cancel_tree (pw_during_call w k e) = ei_cancel_tree e \<and> ei_phase (pw_during_call w k e) = ei_phase e"
    and "\<And>k e. ei_cancel_tree (pw_during_sleep w k e) = ei_cancel_tree e \<and> ei_phase (pw_during_sleep w k e) = ei_phase e"
    and "\<not> token_is_cancelled (ei_cancel_tree e) tok" "ei_phase e = Turn"
  shows "fst (call_provider_with_retry w tid tok 0 e) = Inr s \<and>
         fst (snd (call_provider_with_retry w tid tok 0 e)) = map (\<lambda>k. backoff_delay k (from_llmsdk (raw k))) [0..<j] \<and>
         ei_phase (snd (snd (call_provider_with_retry w tid tok 0 e))) = Turn"
proof -
  have tree: "ei_cancel_tree (enter_retry_phase tid x) = ei_cancel_tree x" "ei_cancel_tree (leave_retry_phase tid x) = ei_cancel_tree x"
    for x :: "'b engine_inner" by (simp_all add: enter_retry_phase_def leave_retry_phase_def frame_simps)
  have "fst (call_provider_with_retry w tid tok a e) = Inr s \<and>
        fst (snd (call_provider_with_retry w tid tok a e)) = map (\<lambda>k. backoff_delay k (from_llmsdk (raw k))) [a..<j]"
    if "a \<le> j" "\<not> token_is_cancelled (ei_cancel_tree e) tok" for a e
    using that
  proof (induction "j - a" arbitrary: a e)
    case 0
    then show ?case using assms(2,4) by (subst (1 2) call_provider_with_retry.simps) (simp add: Let_def)
  next
    case (Suc n)
    then have a: "a < j" "n = j - Suc a" by auto
    let ?e = "leave_retry_phase tid (pw_during_sleep w a (enter_retry_phase tid (pw_during_call w a e)))"
    have nc: "\<not> token_is_cancelled (ei_cancel_tree ?e) tok" using Suc.prems assms(4,5) by (simp add: tree)
    have un: "call_provider_with_retry w tid tok a e =
        (fst (call_provider_with_retry w tid tok (Suc a) ?e),
         backoff_delay a (from_llmsdk (raw a)) # fst (snd (call_provider_with_retry w tid tok (Suc a) ?e)),
         snd (snd (call_provider_with_retry w tid tok (Suc a) ?e)))"
      using assms(1,3-5) a Suc.prems
      by (subst call_provider_with_retry.simps) (simp add: Let_def tree case_prod_beta MAX_PROVIDER_RETRIES_def)
    have "[a..<j] = a # [Suc a..<j]" using a(1) by (rule upt_conv_Cons)
    with Suc.hyps(1) [OF a(2) _ nc] a(1) show ?case by (simp add: un)
  qed
  then show ?thesis using retry_phase [of w e] assms(4-7) by simp
qed

definition busy :: sdk_error where
  "busy = \<lparr>se_status_code = Some 503, se_response_headers = None, se_is_retryable = True, se_text = ''busy''\<rparr>"

definition flaky :: "(nat, unit) provider_world" where
  "flaky = \<lparr>pw_do_stream = (\<lambda>k. if k = 0 then Inl busy else Inr k),
            pw_during_call = (\<lambda>_ e. e), pw_during_sleep = (\<lambda>_ e. e)\<rparr>"

lemma from_busy: "from_llmsdk busy = Transient ''busy''"
  by (simp add: from_llmsdk_def busy_def)

theorem retry_rides_out_failures_witness:
  "fst (call_provider_with_retry flaky (ThreadId ''t'') 0 0 (plain_engine\<lparr>ei_phase := Turn\<rparr>)) = Inr 1 \<and>
   fst (snd (call_provider_with_retry flaky (ThreadId ''t'') 0 0 (plain_engine\<lparr>ei_phase := Turn\<rparr>))) = [500]"
proof -
  have "\<not> token_is_cancelled (ei_cancel_tree (plain_engine\<lparr>ei_phase := Turn\<rparr>)) 0"
    by (simp add: plain_engine_def engine_new_def token_is_cancelled_def cancel_new_def)
  moreover have "backoff_delay 0 (from_llmsdk busy) = 500"
    by (simp add: from_busy backoff_delay_def RETRY_INITIAL_BACKOFF_def RETRY_MAX_BACKOFF_def)
  ultimately show ?thesis
    using retry_rides_out_failures [of 1 flaky 1 "\<lambda>_. busy" "plain_engine\<lparr>ei_phase := Turn\<rparr>" 0 "ThreadId ''t''"]
    by (simp add: flaky_def from_busy)
qed

end
