(* ===== verification/Rollout.thy ===== *)
theory Rollout
  imports Preview Permission
begin

text \<open>
  The append-only session file (\<open>zhive-core/src/persistence/rollout.rs\<close>), the replay of its items
  and the file naming of \<open>persistence/mod.rs\<close>. A file is its bytes; one that does not exist is
  \<open>None\<close>. The serializer and parser of \<open>serde_json\<close> are parameters: \<open>to_vec\<close> and \<open>from_str\<close>, the
  latter with the text of its error.
\<close>

definition SESSION_VERSION :: u32 where
  "SESSION_VERSION = 4"

datatype rollout_entry =
    Session u32 string int string "string option" "string option" "thread_source option"
  | Item string string int item
  | Leaf "string option"
  | Compaction string string int string "item list" u32
  | PendingPermission string string int string request_permission_request
  | PermissionResolved string string int
  | Snapshot string string int string string

datatype storage_error =
    NotFound
  | RolloutCorrupted nat string

section \<open>Writing\<close>

definition newline :: char where
  "newline = CHR 0x0A"

definition carriage_return :: char where
  "carriage_return = CHR 0x0D"

definition append_entry :: "(rollout_entry \<Rightarrow> string) \<Rightarrow> rollout_entry \<Rightarrow> string \<Rightarrow> string" where
  "append_entry to_vec entry file = file @ to_vec entry @ [newline]"

definition append_session_header_full ::
    "(rollout_entry \<Rightarrow> string) \<Rightarrow> string \<Rightarrow> int \<Rightarrow> string \<Rightarrow> string option \<Rightarrow> string option \<Rightarrow>
     thread_source option \<Rightarrow> string \<Rightarrow> string" where
  "append_session_header_full to_vec sid timestamp cwd parent_session subagent_parent source file =
     append_entry to_vec
       (Session SESSION_VERSION sid timestamp cwd parent_session subagent_parent source) file"

definition append_session_header ::
    "(rollout_entry \<Rightarrow> string) \<Rightarrow> string \<Rightarrow> int \<Rightarrow> string \<Rightarrow> string option \<Rightarrow> string \<Rightarrow> string" where
  "append_session_header to_vec sid timestamp cwd parent_session file =
     append_session_header_full to_vec sid timestamp cwd parent_session None None file"

definition set_leaf_id :: "(rollout_entry \<Rightarrow> string) \<Rightarrow> string option \<Rightarrow> string \<Rightarrow> string" where
  "set_leaf_id to_vec target_id file = append_entry to_vec (Leaf target_id) file"

section \<open>Reading\<close>

text \<open>
  \<open>AsyncBufReadExt::lines\<close>: the pieces between newlines, a carriage return before the newline
  removed; an empty rest is not a line.
\<close>

definition strip_cr :: "string \<Rightarrow> string" where
  "strip_cr l = (if l \<noteq> [] \<and> last l = carriage_return then butlast l else l)"

function split_lines :: "string \<Rightarrow> string list" where
  "split_lines s =
     (if s = [] then []
      else (let l = takeWhile (\<lambda>c. c \<noteq> newline) s;
                rest = dropWhile (\<lambda>c. c \<noteq> newline) s
            in (if rest = [] then l else strip_cr l) # split_lines (drop 1 rest)))"
  by pat_completeness auto
termination
proof (relation "measure length")
  fix s l rest :: string
  assume "s \<noteq> []" "rest = dropWhile (\<lambda>c. c \<noteq> newline) s"
  moreover have "length (dropWhile (\<lambda>c. c \<noteq> newline) s) \<le> length s" by (rule length_dropWhile_le)
  ultimately show "(drop 1 rest, s) \<in> measure length"
    by (cases "rest = []") (auto simp: length_greater_0_conv intro: diff_less_mono2 less_le_trans)
qed simp

declare split_lines.simps [simp del]

definition blank :: "string \<Rightarrow> bool" where
  "blank line = (trim line = [])"

text \<open>The loop of \<open>read_all\<close>: the first line that does not parse ends it.\<close>

fun read_lines ::
    "(string \<Rightarrow> string + rollout_entry) \<Rightarrow> nat \<Rightarrow> rollout_entry list \<Rightarrow> string list \<Rightarrow>
     (rollout_entry list, storage_error) rust_result" where
  "read_lines from_str line_no entries [] = Inr entries"
| "read_lines from_str line_no entries (line # rest) =
     (if blank line then read_lines from_str (Suc line_no) entries rest
      else (case from_str line of
              Inl reason \<Rightarrow> Inl (RolloutCorrupted (Suc line_no) reason)
            | Inr entry \<Rightarrow> read_lines from_str (Suc line_no) (entries @ [entry]) rest))"

definition read_all ::
    "(string \<Rightarrow> string + rollout_entry) \<Rightarrow> string option \<Rightarrow>
     (rollout_entry list, storage_error) rust_result" where
  "read_all from_str file =
     (case file of
        None \<Rightarrow> Inl NotFound
      | Some bytes \<Rightarrow> read_lines from_str 0 [] (split_lines bytes))"

text \<open>The loop of \<open>read_all_tolerant\<close>: a bad line is an error only when a further line follows.\<close>

fun read_lines_tolerant ::
    "(string \<Rightarrow> string + rollout_entry) \<Rightarrow> nat \<Rightarrow> (nat \<times> string) option \<Rightarrow> rollout_entry list \<Rightarrow>
     string list \<Rightarrow> (rollout_entry list, storage_error) rust_result" where
  "read_lines_tolerant from_str line_no pending_bad entries [] = Inr entries"
| "read_lines_tolerant from_str line_no pending_bad entries (line # rest) =
     (if blank line then read_lines_tolerant from_str (Suc line_no) pending_bad entries rest
      else (case pending_bad of
              Some (bad_line, reason) \<Rightarrow> Inl (RolloutCorrupted bad_line reason)
            | None \<Rightarrow>
                (case from_str line of
                   Inr entry \<Rightarrow> read_lines_tolerant from_str (Suc line_no) None (entries @ [entry]) rest
                 | Inl reason \<Rightarrow>
                     read_lines_tolerant from_str (Suc line_no) (Some (Suc line_no, reason)) entries rest)))"

definition read_all_tolerant ::
    "(string \<Rightarrow> string + rollout_entry) \<Rightarrow> string option \<Rightarrow>
     (rollout_entry list, storage_error) rust_result" where
  "read_all_tolerant from_str file =
     (case file of
        None \<Rightarrow> Inl NotFound
      | Some bytes \<Rightarrow> read_lines_tolerant from_str 0 None [] (split_lines bytes))"

section \<open>Replaying items\<close>

text \<open>The loop of \<open>replay_thread_items\<close>: a checkpoint replaces what came before it.\<close>

fun replay_entries :: "item_id option \<Rightarrow> item list \<Rightarrow> rollout_entry list \<Rightarrow> item list" where
  "replay_entries up_to items [] = items"
| "replay_entries up_to items (entry # rest) =
     (case entry of
        Item _ _ _ it \<Rightarrow>
          (if up_to = Some (item_id_of it) then items @ [it]
           else replay_entries up_to (items @ [it]) rest)
      | Compaction _ _ _ _ replacement _ \<Rightarrow> replay_entries up_to replacement rest
      | _ \<Rightarrow> replay_entries up_to items rest)"

definition replay_thread_items ::
    "(string \<Rightarrow> string + rollout_entry) \<Rightarrow> string option \<Rightarrow> item_id option \<Rightarrow>
     (item list, storage_error) rust_result" where
  "replay_thread_items from_str file up_to =
     (case read_all from_str file of
        Inr entries \<Rightarrow> Inr (replay_entries up_to [] entries)
      | Inl NotFound \<Rightarrow> Inr []
      | Inl other \<Rightarrow> Inl other)"

section \<open>File names\<close>

definition EMPTY_SENTINEL :: string where
  "EMPTY_SENTINEL = ''__empty__''"

definition EMPTY_SENTINEL_LITERAL_DISAMBIGUATOR :: string where
  "EMPTY_SENTINEL_LITERAL_DISAMBIGUATOR = ''__empty__literal__''"

definition is_ascii_alphanumeric :: "char \<Rightarrow> bool" where
  "is_ascii_alphanumeric c =
     (let b = of_char c :: nat
      in (48 \<le> b \<and> b \<le> 57) \<or> (65 \<le> b \<and> b \<le> 90) \<or> (97 \<le> b \<and> b \<le> 122))"

definition safe_char :: "char \<Rightarrow> bool" where
  "safe_char c = (is_ascii_alphanumeric c \<or> c = CHR ''_'' \<or> c = CHR ''-'')"

text \<open>The loop runs over characters: a character of several bytes becomes one underscore.\<close>

definition sanitise_char :: "string \<Rightarrow> char" where
  "sanitise_char ch = (case ch of [c] \<Rightarrow> (if safe_char c then c else CHR ''_'') | _ \<Rightarrow> CHR ''_'')"

definition sanitise_thread_id :: "string \<Rightarrow> string" where
  "sanitise_thread_id tid =
     (let out = map sanitise_char (chars tid)
      in if out = [] then EMPTY_SENTINEL
         else if out = EMPTY_SENTINEL then EMPTY_SENTINEL_LITERAL_DISAMBIGUATOR
         else out)"

definition rollout_file_name :: "string \<Rightarrow> string" where
  "rollout_file_name tid = sanitise_thread_id tid @ ''.jsonl''"

section \<open>What is read back\<close>

lemma split_lines_Nil [simp]: "split_lines [] = []"
  by (simp add: split_lines.simps)

lemma takeWhile_line: "newline \<notin> set l \<Longrightarrow> takeWhile (\<lambda>c. c \<noteq> newline) (l @ newline # s) = l"
  by (induction l) auto

lemma dropWhile_line: "newline \<notin> set l \<Longrightarrow> dropWhile (\<lambda>c. c \<noteq> newline) (l @ newline # s) = newline # s"
  by (induction l) auto

lemma split_lines_line:
  "newline \<notin> set l \<Longrightarrow> split_lines (l @ newline # s) = strip_cr l # split_lines s"
  by (subst split_lines.simps) (simp add: takeWhile_line dropWhile_line Let_def)

lemma split_lines_rest: "newline \<notin> set l \<Longrightarrow> l \<noteq> [] \<Longrightarrow> split_lines l = [l]"
proof -
  assume l: "newline \<notin> set l" "l \<noteq> []"
  then have "\<forall>x\<in>set l. x \<noteq> newline" by auto
  then have "takeWhile (\<lambda>c. c \<noteq> newline) l = l" "dropWhile (\<lambda>c. c \<noteq> newline) l = []"
    by (simp_all only: takeWhile_eq_all_conv dropWhile_eq_Nil_conv)
  with l(2) show "split_lines l = [l]"
    by (subst split_lines.simps) (simp only: Let_def if_False if_True drop_Nil split_lines_Nil refl)
qed

text \<open>What the reader relies on of the serializer, for the entries of a file.\<close>

definition serde_ok ::
    "(rollout_entry \<Rightarrow> string) \<Rightarrow> (string \<Rightarrow> string + rollout_entry) \<Rightarrow> rollout_entry list \<Rightarrow> bool" where
  "serde_ok to_vec from_str entries =
     list_all (\<lambda>e. newline \<notin> set (to_vec e) \<and> strip_cr (to_vec e) = to_vec e \<and>
                   \<not> blank (to_vec e) \<and> from_str (to_vec e) = Inr e) entries"

definition written :: "(rollout_entry \<Rightarrow> string) \<Rightarrow> rollout_entry list \<Rightarrow> string" where
  "written to_vec entries = fold (append_entry to_vec) entries []"

lemma fold_append_entry: "fold (append_entry to_vec) es bytes = bytes @ written to_vec es"
proof (induction es arbitrary: bytes)
  case (Cons e es)
  have w: "written to_vec (e # es) = append_entry to_vec e [] @ written to_vec es"
    using Cons [of "append_entry to_vec e []"] by (simp add: written_def)
  have "fold (append_entry to_vec) (e # es) bytes = append_entry to_vec e bytes @ written to_vec es"
    by (simp add: Cons)
  then show ?case by (simp only: w append_entry_def [of to_vec e] append_Nil append_assoc)
qed (simp add: written_def)

lemma written_simps [simp]:
  "written to_vec [] = []"
  "written to_vec (e # es) = to_vec e @ newline # written to_vec es"
  using fold_append_entry [of to_vec es "to_vec e @ [newline]"]
  by (simp_all add: written_def append_entry_def)

lemma written_append: "written to_vec (es @ fs) = written to_vec es @ written to_vec fs"
  by (induction es) simp_all

lemma split_written:
  "serde_ok to_vec from_str es \<Longrightarrow> split_lines (written to_vec es @ s) = map to_vec es @ split_lines s"
  by (induction es) (auto simp: serde_ok_def split_lines_line)

lemma read_lines_written:
  "serde_ok to_vec from_str es \<Longrightarrow>
   read_lines from_str n acc (map to_vec es @ ls) = read_lines from_str (n + length es) (acc @ es) ls"
  by (induction es arbitrary: n acc) (auto simp: serde_ok_def)

lemma read_tolerant_written:
  "serde_ok to_vec from_str es \<Longrightarrow>
   read_lines_tolerant from_str n None acc (map to_vec es @ ls) =
   read_lines_tolerant from_str (n + length es) None (acc @ es) ls"
  by (induction es arbitrary: n acc) (auto simp: serde_ok_def)

lemma read_all_written:
  "serde_ok to_vec from_str es \<Longrightarrow> read_all from_str (Some (written to_vec es)) = Inr es"
  using split_written [of to_vec from_str es "[]"] read_lines_written [of to_vec from_str es 0 "[]" "[]"]
  by (simp add: read_all_def)

text \<open>A torn last line: present bytes without a newline that do not parse.\<close>

lemma read_tolerant_torn:
  assumes "serde_ok to_vec from_str es" "newline \<notin> set torn" "from_str torn = Inl reason"
  shows "read_all_tolerant from_str (Some (written to_vec es @ torn)) = Inr es"
proof (cases "torn = []")
  case True
  with assms show ?thesis
    using split_written [of to_vec from_str es "[]"] read_tolerant_written [of to_vec from_str es 0 "[]" "[]"]
    by (simp add: read_all_tolerant_def)
next
  case False
  then have "split_lines (written to_vec es @ torn) = map to_vec es @ [torn]"
    using assms by (simp add: split_written split_lines_rest)
  with assms show ?thesis by (simp add: read_all_tolerant_def read_tolerant_written)
qed

lemma read_tolerant_bad_middle:
  assumes "serde_ok to_vec from_str es" "newline \<notin> set bad" "\<not> blank (strip_cr bad)"
    and "from_str (strip_cr bad) = Inl reason" "serde_ok to_vec from_str (e # fs)"
  shows "read_all_tolerant from_str (Some (written to_vec es @ bad @ newline # written to_vec (e # fs))) =
         Inl (RolloutCorrupted (Suc (length es)) reason)"
proof -
  have "split_lines (written to_vec es @ bad @ newline # written to_vec (e # fs)) =
        map to_vec es @ strip_cr bad # map to_vec (e # fs)"
    using split_written [OF assms(1)] split_lines_line [OF assms(2)]
      split_written [OF assms(5), of "[]"] by simp
  with assms show ?thesis
    by (simp add: read_all_tolerant_def read_tolerant_written serde_ok_def)
qed

section \<open>What is replayed\<close>

fun entry_item :: "rollout_entry \<Rightarrow> item option" where
  "entry_item (Item _ _ _ it) = Some it"
| "entry_item _ = None"

fun is_compaction :: "rollout_entry \<Rightarrow> bool" where
  "is_compaction (Compaction _ _ _ _ _ _) = True"
| "is_compaction _ = False"

definition entry_items :: "rollout_entry list \<Rightarrow> item list" where
  "entry_items es = List.map_filter entry_item es"

lemma entry_items_simps [simp]:
  "entry_items [] = []"
  "entry_items (e # es) = (case entry_item e of Some it \<Rightarrow> it # entry_items es | None \<Rightarrow> entry_items es)"
  by (auto simp: entry_items_def List.map_filter_def split: option.splits)

lemma entry_items_append: "entry_items (es @ fs) = entry_items es @ entry_items fs"
  by (induction es) (auto split: option.splits)

lemma replay_no_compaction:
  "list_all (\<lambda>e. \<not> is_compaction e) es \<Longrightarrow> replay_entries None acc es = acc @ entry_items es"
  by (induction es arbitrary: acc) (auto split: rollout_entry.splits)

lemma replay_append:
  "replay_entries None acc (es @ fs) = replay_entries None (replay_entries None acc es) fs"
  by (induction es arbitrary: acc) (auto split: rollout_entry.splits)

lemma replay_checkpoint:
  "list_all (\<lambda>e. \<not> is_compaction e) post \<Longrightarrow>
   replay_entries None acc (pre @ Compaction t u ts s replacement n # post) = replacement @ entry_items post"
  by (simp add: replay_append replay_no_compaction)

lemma replay_up_to:
  "list_all (\<lambda>e. \<not> is_compaction e) pre \<Longrightarrow> i \<notin> set (map item_id_of (entry_items pre)) \<Longrightarrow>
   item_id_of it = i \<Longrightarrow>
   replay_entries (Some i) acc (pre @ Item t u ts it # post) = acc @ entry_items pre @ [it]"
  by (induction pre arbitrary: acc) (auto split: rollout_entry.splits)

section \<open>Which names arise\<close>

lemma sanitise_safe: "c \<in> set (sanitise_thread_id tid) \<Longrightarrow> safe_char c"
proof -
  have "safe_char (sanitise_char ch)" for ch
    by (auto simp: sanitise_char_def safe_char_def split: list.splits)
  moreover have "list_all safe_char EMPTY_SENTINEL" "list_all safe_char EMPTY_SENTINEL_LITERAL_DISAMBIGUATOR"
    by (simp_all add: EMPTY_SENTINEL_def EMPTY_SENTINEL_LITERAL_DISAMBIGUATOR_def safe_char_def
                      is_ascii_alphanumeric_def)
  ultimately show "c \<in> set (sanitise_thread_id tid) \<Longrightarrow> safe_char c"
    by (auto simp: sanitise_thread_id_def Let_def list_all_iff split: if_splits)
qed

lemma sanitise_nonempty: "sanitise_thread_id tid \<noteq> []"
  by (auto simp: sanitise_thread_id_def Let_def EMPTY_SENTINEL_def EMPTY_SENTINEL_LITERAL_DISAMBIGUATOR_def)

section \<open>Properties\<close>

lemma blank_x: "\<not> blank ''x''"
  by (simp add: blank_def trim_def trim_chars_def is_whitespace_def is_continuation_def Let_def)

lemma blank_torn: "\<not> blank ''{''"
  by (simp add: blank_def trim_def trim_chars_def is_whitespace_def is_continuation_def Let_def)

lemma serde_ok_append: "serde_ok to_vec from_str (es @ fs) \<longleftrightarrow> serde_ok to_vec from_str es \<and> serde_ok to_vec from_str fs"
  by (simp add: serde_ok_def)

lemma strip_cr_id [simp]: "carriage_return \<notin> set l \<Longrightarrow> strip_cr l = l"
  by (auto simp: strip_cr_def) (metis last_in_set)

text \<open>A serializer for one entry, for the examples.\<close>

definition one_entry :: rollout_entry where
  "one_entry = Item ''t'' ''u'' 0 (UserMessage (ItemId ''i'') [])"

definition one_to_vec :: "rollout_entry \<Rightarrow> string" where
  "one_to_vec e = (if e = one_entry then ''x'' else ''y'')"

definition one_from_str :: "string \<Rightarrow> string + rollout_entry" where
  "one_from_str s = (if s = ''x'' then Inr one_entry else Inl ''expected an entry'')"

lemma one_serde: "serde_ok one_to_vec one_from_str [one_entry]"
  "serde_ok one_to_vec one_from_str [one_entry, one_entry]"
  by (simp_all add: serde_ok_def one_to_vec_def one_from_str_def blank_x newline_def carriage_return_def strip_cr_def)

lemma read_strict_bad:
  assumes "serde_ok to_vec from_str es" "newline \<notin> set torn" "\<not> blank torn" "torn \<noteq> []" "from_str torn = Inl reason"
  shows "read_all from_str (Some (written to_vec es @ torn)) = Inl (RolloutCorrupted (Suc (length es)) reason)"
proof -
  have "split_lines (written to_vec es @ torn) = map to_vec es @ [torn]"
    using assms by (simp add: split_written split_lines_rest)
  with assms show ?thesis by (simp add: read_all_def read_lines_written)
qed



text \<open>
  appending after a torn last line glues the next entry to it. As soon as one more entry
  follows, even the tolerant reader reports the file as corrupt, and the thread cannot be resumed.
\<close>

theorem append_after_torn_corrupts:
  assumes "serde_ok to_vec from_str es" "serde_ok to_vec from_str (f # fs)" "newline \<notin> set (torn @ to_vec e)"
    and "\<not> blank (torn @ to_vec e)" "carriage_return \<notin> set (to_vec e)" "to_vec e \<noteq> []" "from_str (torn @ to_vec e) = Inl reason"
  shows "read_all_tolerant from_str (Some (fold (append_entry to_vec) (e # f # fs) (written to_vec es @ torn))) =
         Inl (RolloutCorrupted (Suc (length es)) reason)"
proof -
  have "last (torn @ to_vec e) = last (to_vec e)" using assms(6) by simp
  moreover have "last (to_vec e) \<noteq> carriage_return" using assms(5,6) by (metis last_in_set)
  ultimately have cr: "strip_cr (torn @ to_vec e) = torn @ to_vec e" by (simp add: strip_cr_def)
  have "fold (append_entry to_vec) (e # f # fs) (written to_vec es @ torn) =
        written to_vec es @ (torn @ to_vec e) @ newline # written to_vec (f # fs)"
    by (simp only: fold_append_entry written_simps append_assoc append_Cons)
  then show ?thesis
    using read_tolerant_bad_middle [OF assms(1,3) _ _ assms(2)] assms(4,7) cr by simp
qed

lemma blank_torn_x: "\<not> blank ''{x''"
  by (simp add: blank_def trim_def trim_chars_def is_whitespace_def is_continuation_def Let_def)

theorem append_after_torn_corrupts_witness:
  "read_all_tolerant one_from_str
     (Some (fold (append_entry one_to_vec) [one_entry, one_entry] (written one_to_vec [one_entry] @ ''{''))) =
   Inl (RolloutCorrupted 2 ''expected an entry'')"
  using append_after_torn_corrupts [OF one_serde(1) one_serde(1), of "''{''" one_entry] blank_torn_x
  by (simp add: one_to_vec_def one_from_str_def newline_def carriage_return_def numeral_2_eq_2)

text \<open>
  replaying a session file that holds a compaction checkpoint gives the items of the checkpoint
  followed by those appended after it: nothing before the last checkpoint comes back.
\<close>

theorem replay_from_checkpoint:
  assumes "serde_ok to_vec from_str (pre @ Compaction t u ts s replacement n # post)"
    and "list_all (\<lambda>e. \<not> is_compaction e) post"
  shows "replay_thread_items from_str
           (Some (written to_vec (pre @ Compaction t u ts s replacement n # post))) None =
         Inr (replacement @ entry_items post)"
  using read_all_written [OF assms(1)] replay_checkpoint [OF assms(2)]
  by (simp add: replay_thread_items_def)

definition one_checkpoint :: rollout_entry where
  "one_checkpoint = Compaction ''t'' ''u'' 0 ''s'' [AgentMessage (ItemId ''c'') ''summary''] 4"

theorem replay_from_checkpoint_witness:
  "replay_thread_items (\<lambda>_. Inr one_checkpoint) (Some (written (\<lambda>_. ''x'') [one_checkpoint])) None =
   Inr [AgentMessage (ItemId ''c'') ''summary'']"
  using replay_from_checkpoint
    [of "\<lambda>_. ''x''" "\<lambda>_. Inr one_checkpoint" "[]" "''t''" "''u''" 0 "''s''" "[AgentMessage (ItemId ''c'') ''summary'']" 4 "[]"]
  by (simp add: serde_ok_def one_checkpoint_def blank_x newline_def carriage_return_def strip_cr_def)

text \<open>
  the file of a thread, whatever its id, has a non-empty name made of ASCII letters, digits,
  underscores and hyphens before its extension, so it can name no other directory.
\<close>

theorem file_name_safe:
  "\<exists>stem. rollout_file_name tid = stem @ ''.jsonl'' \<and> stem \<noteq> [] \<and> set stem \<subseteq> {c. safe_char c} \<and>
          CHR ''/'' \<notin> set (rollout_file_name tid)"
proof -
  have "CHR ''/'' \<notin> set (sanitise_thread_id tid)"
    using sanitise_safe [of "CHR ''/''" tid] by (auto simp: safe_char_def is_ascii_alphanumeric_def)
  then show ?thesis
    using sanitise_safe [of _ tid] sanitise_nonempty [of tid]
    by (intro exI [of _ "sanitise_thread_id tid"]) (auto simp: rollout_file_name_def)
qed

end
