(* ===== verification/Writer.thy ===== *)
theory Writer
  imports Rollout Storage_Op
begin

text \<open>
  The persistence task (\<open>zhive-core/src/persistence/writer.rs\<close>): each write operation appends to
  the thread's session file first and updates the SQL index second; the index can be rebuilt from
  the files. The SQL engine and the file system are not the program's own code: a SQL call is an
  entry of the effect log, a file is an inode holding the entries appended to it (its bytes are
  \<open>written\<close> of them, theory \<open>Rollout\<close>), and whether an open or an append succeeds is the
  parameter \<open>io\<close>. A failed SQL call or fsync is only logged by the source.
\<close>

section \<open>State\<close>

datatype sql_call =
    UpsertThread thread
  | RecordTurnStart thread_id turn_id int
  | AppendItem turn_id int item
  | RecordTurnEnd turn_id turn_status "turn_error option" int "int option"
  | SetThreadModel thread_id string string
  | SetThreadName thread_id string
  | RecordSnapshot thread_id turn_id string string int

datatype writer_effect =
    Append nat rollout_entry
  | Sync nat
  | Sql sql_call
  | Ack nat

record io_outcomes =
  io_open :: "thread_id \<Rightarrow> bool"
  io_append :: "rollout_entry \<Rightarrow> bool"

text \<open>
  The directory maps file names to inodes; a removed name leaves the inode of an open writer alone.
\<close>

record writer_state =
  ws_dir :: "string \<rightharpoonup> nat"
  ws_files :: "nat \<Rightarrow> rollout_entry list"
  ws_next_inode :: nat
  ws_rollouts :: "thread_id \<rightharpoonup> nat"
  ws_header_written :: "thread_id set"
  ws_effects :: "writer_effect list"

definition writer_new :: writer_state where
  "writer_new =
     \<lparr>ws_dir = Map.empty, ws_files = (\<lambda>_. []), ws_next_inode = 0, ws_rollouts = Map.empty,
      ws_header_written = {}, ws_effects = []\<rparr>"

definition effect :: "writer_effect \<Rightarrow> writer_state \<Rightarrow> writer_state" where
  "effect x w = w\<lparr>ws_effects := ws_effects w @ [x]\<rparr>"

text \<open>\<open>RolloutWriter::open\<close>: opens the named file, creating it when it is not there.\<close>

definition open_rollout :: "string \<Rightarrow> writer_state \<Rightarrow> nat \<times> writer_state" where
  "open_rollout name w =
     (case ws_dir w name of
        Some i \<Rightarrow> (i, w)
      | None \<Rightarrow>
          (ws_next_inode w,
           w\<lparr>ws_dir := (ws_dir w)(name \<mapsto> ws_next_inode w), ws_next_inode := Suc (ws_next_inode w)\<rparr>))"

definition rollout_for :: "io_outcomes \<Rightarrow> thread_id \<Rightarrow> writer_state \<Rightarrow> nat option \<times> writer_state" where
  "rollout_for io tid w =
     (case ws_rollouts w tid of
        Some i \<Rightarrow> (Some i, w)
      | None \<Rightarrow>
          (if io_open io tid then
             (let (i, w') = open_rollout (rollout_file_name (thread_id_str tid)) w
              in (Some i, w'\<lparr>ws_rollouts := (ws_rollouts w')(tid \<mapsto> i)\<rparr>))
           else (None, w)))"

definition append_rollout :: "io_outcomes \<Rightarrow> nat \<Rightarrow> rollout_entry \<Rightarrow> writer_state \<Rightarrow> bool \<times> writer_state" where
  "append_rollout io i entry w =
     (if io_append io entry
      then (True, effect (Append i entry) (w\<lparr>ws_files := (ws_files w)(i := ws_files w i @ [entry])\<rparr>))
      else (False, w))"

section \<open>Applying one operation\<close>

definition apply_thread_upserted :: "io_outcomes \<Rightarrow> thread \<Rightarrow> writer_state \<Rightarrow> writer_state" where
  "apply_thread_upserted io thread w =
     (let w1 =
        (if th_id thread \<in> ws_header_written w then w
         else (let session_entry =
                     Session SESSION_VERSION (thread_id_str (th_id thread)) (th_created_at thread)
                       (th_cwd thread) (map_option thread_id_str (th_forked_from thread))
                       (map_option thread_id_str (th_subagent_parent thread)) (Some (th_source thread))
               in case rollout_for io (th_id thread) w of
                    (None, w') \<Rightarrow> w'
                  | (Some i, w') \<Rightarrow>
                      (case append_rollout io i session_entry w' of
                         (False, w'') \<Rightarrow> w''
                       | (True, w'') \<Rightarrow>
                           w''\<lparr>ws_header_written := insert (th_id thread) (ws_header_written w'')\<rparr>)))
      in effect (Sql (UpsertThread thread)) w1)"

definition apply_turn_started :: "thread_id \<Rightarrow> turn_id \<Rightarrow> int \<Rightarrow> writer_state \<Rightarrow> writer_state" where
  "apply_turn_started tid turn started_at w = effect (Sql (RecordTurnStart tid turn started_at)) w"

definition apply_item_appended ::
    "io_outcomes \<Rightarrow> int \<Rightarrow> thread_id \<Rightarrow> turn_id \<Rightarrow> int \<Rightarrow> item \<Rightarrow> writer_state \<Rightarrow> writer_state" where
  "apply_item_appended io now tid turn seq it w =
     (let entry = Item (thread_id_str tid) (turn_id_str turn) now it;
          w1 = (case rollout_for io tid w of
                  (None, w') \<Rightarrow> w'
                | (Some i, w') \<Rightarrow> snd (append_rollout io i entry w'))
      in effect (Sql (AppendItem turn seq it)) w1)"

definition apply_turn_ended ::
    "io_outcomes \<Rightarrow> thread_id \<Rightarrow> turn_id \<Rightarrow> turn_status \<Rightarrow> turn_error option \<Rightarrow> int \<Rightarrow> int option \<Rightarrow>
     writer_state \<Rightarrow> writer_state" where
  "apply_turn_ended io tid turn status error completed_at duration_ms w =
     (let w1 = (case rollout_for io tid w of
                  (None, w') \<Rightarrow> w'
                | (Some i, w') \<Rightarrow> effect (Sync i) (snd (append_rollout io i (Leaf None) w')))
      in effect (Sql (RecordTurnEnd turn status error completed_at duration_ms)) w1)"

definition apply_flush :: "thread_id \<Rightarrow> nat option \<Rightarrow> writer_state \<Rightarrow> writer_state" where
  "apply_flush tid ack w =
     (let w1 = (case ws_rollouts w tid of Some i \<Rightarrow> effect (Sync i) w | None \<Rightarrow> w)
      in case ack of Some a \<Rightarrow> effect (Ack a) w1 | None \<Rightarrow> w1)"

definition apply_set_leaf :: "io_outcomes \<Rightarrow> thread_id \<Rightarrow> string option \<Rightarrow> writer_state \<Rightarrow> writer_state" where
  "apply_set_leaf io tid target_id w =
     (case rollout_for io tid w of
        (None, w') \<Rightarrow> w'
      | (Some i, w') \<Rightarrow> effect (Sync i) (snd (append_rollout io i (Leaf target_id) w')))"

definition apply_fork_header ::
    "io_outcomes \<Rightarrow> thread_id \<Rightarrow> thread_id \<Rightarrow> string \<Rightarrow> int \<Rightarrow> writer_state \<Rightarrow> writer_state" where
  "apply_fork_header io tid parent_session cwd created_at w =
     (if tid \<in> ws_header_written w then w
      else (case rollout_for io tid w of
              (None, w') \<Rightarrow> w'
            | (Some i, w') \<Rightarrow>
                (case append_rollout io i
                        (Session SESSION_VERSION (thread_id_str tid) created_at cwd
                           (Some (thread_id_str parent_session)) None None) w' of
                   (False, w'') \<Rightarrow> w''
                 | (True, w'') \<Rightarrow> w''\<lparr>ws_header_written := insert tid (ws_header_written w'')\<rparr>)))"

text \<open>Append, and fsync only when the append went through; whether the caller goes on.\<close>

definition append_synced ::
    "io_outcomes \<Rightarrow> thread_id \<Rightarrow> rollout_entry \<Rightarrow> writer_state \<Rightarrow> bool \<times> writer_state" where
  "append_synced io tid entry w =
     (case rollout_for io tid w of
        (None, w') \<Rightarrow> (True, w')
      | (Some i, w') \<Rightarrow>
          (case append_rollout io i entry w' of
             (False, w'') \<Rightarrow> (False, w'')
           | (True, w'') \<Rightarrow> (True, effect (Sync i) w'')))"

definition apply_permission_suspended ::
    "io_outcomes \<Rightarrow> thread_id \<Rightarrow> turn_id \<Rightarrow> int \<Rightarrow> string \<Rightarrow> request_permission_request \<Rightarrow>
     writer_state \<Rightarrow> writer_state" where
  "apply_permission_suspended io tid turn timestamp request_id request w =
     snd (append_synced io tid
            (PendingPermission (thread_id_str tid) (turn_id_str turn) timestamp request_id request) w)"

definition apply_permission_resolved ::
    "io_outcomes \<Rightarrow> thread_id \<Rightarrow> string \<Rightarrow> int \<Rightarrow> writer_state \<Rightarrow> writer_state" where
  "apply_permission_resolved io tid request_id timestamp w =
     snd (append_synced io tid (rollout_entry.PermissionResolved (thread_id_str tid) request_id timestamp) w)"

fun append_items :: "turn_id \<Rightarrow> int \<Rightarrow> item list \<Rightarrow> sql_call list" where
  "append_items turn seq [] = []"
| "append_items turn seq (it # rest) = AppendItem turn seq it # append_items turn (seq + 1) rest"

definition apply_compaction ::
    "io_outcomes \<Rightarrow> int \<Rightarrow> thread_id \<Rightarrow> turn_id \<Rightarrow> int \<Rightarrow> string \<Rightarrow> item list \<Rightarrow> u32 \<Rightarrow>
     writer_state \<Rightarrow> writer_state" where
  "apply_compaction io now tid turn timestamp summary replacement entries_compacted w =
     (case append_synced io tid
             (rollout_entry.Compaction (thread_id_str tid) (turn_id_str turn) timestamp summary replacement
                entries_compacted) w of
        (False, w') \<Rightarrow> w'
      | (True, w') \<Rightarrow>
          fold (\<lambda>call. effect (Sql call))
            (RecordTurnStart tid turn now # append_items turn 0 replacement @
             [RecordTurnEnd turn turn_status.Completed None now None]) w')"

definition apply_snapshot ::
    "io_outcomes \<Rightarrow> thread_id \<Rightarrow> turn_id \<Rightarrow> int \<Rightarrow> string \<Rightarrow> string \<Rightarrow> writer_state \<Rightarrow> writer_state" where
  "apply_snapshot io tid turn timestamp tree preview w =
     (case append_synced io tid
             (rollout_entry.Snapshot (thread_id_str tid) (turn_id_str turn) timestamp tree preview) w of
        (False, w') \<Rightarrow> w'
      | (True, w') \<Rightarrow> effect (Sql (RecordSnapshot tid turn tree preview timestamp)) w')"

fun apply_op :: "io_outcomes \<Rightarrow> int \<Rightarrow> storage_write_op \<Rightarrow> writer_state \<Rightarrow> writer_state" where
  "apply_op io now (ThreadUpserted thread) w = apply_thread_upserted io thread w"
| "apply_op io now (storage_write_op.TurnStarted tid turn started_at) w =
     apply_turn_started tid turn started_at w"
| "apply_op io now (storage_write_op.ItemAppended tid turn seq it) w =
     apply_item_appended io now tid turn seq it w"
| "apply_op io now (TurnEnded tid turn status error completed_at duration_ms) w =
     apply_turn_ended io tid turn status error completed_at duration_ms w"
| "apply_op io now (storage_write_op.Flush tid ack) w = apply_flush tid ack w"
| "apply_op io now (storage_write_op.ModelChanged tid provider model_id) w =
     effect (Sql (SetThreadModel tid provider model_id)) w"
| "apply_op io now (SessionNameSet tid name) w = effect (Sql (SetThreadName tid name)) w"
| "apply_op io now (SetLeaf tid target_id) w = apply_set_leaf io tid target_id w"
| "apply_op io now (ForkHeader tid parent_session cwd created_at) w =
     apply_fork_header io tid parent_session cwd created_at w"
| "apply_op io now (storage_write_op.Compaction tid turn timestamp summary replacement n) w =
     apply_compaction io now tid turn timestamp summary replacement n w"
| "apply_op io now (PermissionSuspended tid turn timestamp request_id request) w =
     apply_permission_suspended io tid turn timestamp request_id request w"
| "apply_op io now (storage_write_op.PermissionResolved tid request_id timestamp) w =
     apply_permission_resolved io tid request_id timestamp w"
| "apply_op io now (storage_write_op.Snapshot tid turn timestamp tree preview) w =
     apply_snapshot io tid turn timestamp tree preview w"

definition run_ops :: "io_outcomes \<Rightarrow> int \<Rightarrow> storage_write_op list \<Rightarrow> writer_state \<Rightarrow> writer_state" where
  "run_ops io now ops w = fold (apply_op io now) ops w"

section \<open>Rebuilding the index\<close>

text \<open>
  The sequence of SQL calls of \<open>rebuild_state_from_entries\<close>. The state is the item count per turn,
  in order of first use, and the thread ids seen.
\<close>

definition turn_count :: "turn_id \<Rightarrow> (turn_id \<times> int) list \<Rightarrow> int" where
  "turn_count t counts = (case map_of counts t of Some n \<Rightarrow> n | None \<Rightarrow> 0)"

fun set_count :: "turn_id \<Rightarrow> int \<Rightarrow> (turn_id \<times> int) list \<Rightarrow> (turn_id \<times> int) list" where
  "set_count t n [] = [(t, n)]"
| "set_count t n ((u, m) # rest) = (if u = t then (t, n) # rest else (u, m) # set_count t n rest)"

fun rebuild_entry ::
    "int \<Rightarrow> rollout_entry \<Rightarrow> (turn_id \<times> int) list \<times> string set \<Rightarrow>
     sql_call list \<times> (turn_id \<times> int) list \<times> string set" where
  "rebuild_entry now (Session v sid timestamp cwd parent_session subagent_parent source) (counts, seen) =
     (if sid \<in> seen then ([], counts, seen)
      else ([UpsertThread
               \<lparr>th_id = ThreadId sid, th_session_id = None,
                th_forked_from = map_option ThreadId parent_session,
                th_subagent_parent = map_option ThreadId subagent_parent, th_preview = [],
                th_ephemeral = False, th_model_provider = ''unknown'', th_created_at = timestamp,
                th_updated_at = timestamp, th_status = thread_status.Idle, th_cwd = cwd,
                th_source = (case source of Some s \<Rightarrow> s | None \<Rightarrow> thread_source.User),
                th_name = None, th_turns = []\<rparr>],
            counts, insert sid seen))"
| "rebuild_entry now (Item tid turn timestamp it) (counts, seen) =
     (let seq = turn_count (TurnId turn) counts
      in ([RecordTurnStart (ThreadId tid) (TurnId turn) now, AppendItem (TurnId turn) seq it],
          set_count (TurnId turn) (seq + 1) counts, seen))"
| "rebuild_entry now (Leaf target) (counts, seen) = ([], counts, seen)"
| "rebuild_entry now (PendingPermission _ _ _ _ _) (counts, seen) = ([], counts, seen)"
| "rebuild_entry now (rollout_entry.PermissionResolved _ _ _) (counts, seen) = ([], counts, seen)"
| "rebuild_entry now (rollout_entry.Compaction tid turn timestamp summary replacement n) (counts, seen) =
     (let seq = turn_count (TurnId turn) counts
      in (RecordTurnStart (ThreadId tid) (TurnId turn) now # append_items (TurnId turn) seq replacement,
          set_count (TurnId turn) (seq + int (length replacement)) counts, seen))"
| "rebuild_entry now (rollout_entry.Snapshot tid turn timestamp tree preview) (counts, seen) =
     ([RecordSnapshot (ThreadId tid) (TurnId turn) tree preview timestamp], counts, seen)"

fun rebuild_loop ::
    "int \<Rightarrow> rollout_entry list \<Rightarrow> (turn_id \<times> int) list \<times> string set \<Rightarrow> sql_call list" where
  "rebuild_loop now [] (counts, seen) =
     map (\<lambda>(t, n). RecordTurnEnd t turn_status.Completed None now None) counts"
| "rebuild_loop now (entry # rest) st =
     (let (calls, st') = rebuild_entry now entry st in calls @ rebuild_loop now rest st')"

definition rebuild_calls :: "int \<Rightarrow> rollout_entry list \<Rightarrow> sql_call list" where
  "rebuild_calls now entries = rebuild_loop now entries ([], {})"

text \<open>A failing call ends the replay: the calls made are those up to it.\<close>

fun run_calls :: "(sql_call \<Rightarrow> bool) \<Rightarrow> sql_call list \<Rightarrow> bool \<times> sql_call list" where
  "run_calls db [] = (True, [])"
| "run_calls db (c # cs) =
     (if db c then (let (ok, made) = run_calls db cs in (ok, c # made)) else (False, [c]))"

definition rebuild_state_from_entries ::
    "(sql_call \<Rightarrow> bool) \<Rightarrow> int \<Rightarrow> rollout_entry list \<Rightarrow> bool \<times> sql_call list" where
  "rebuild_state_from_entries db now entries = run_calls db (rebuild_calls now entries)"

definition rebuild_state_from_rollout ::
    "(sql_call \<Rightarrow> bool) \<Rightarrow> (string \<Rightarrow> string + rollout_entry) \<Rightarrow> int \<Rightarrow> string option \<Rightarrow>
     (bool \<times> sql_call list, storage_error) rust_result" where
  "rebuild_state_from_rollout db from_str now file =
     (case read_all_tolerant from_str file of
        Inr entries \<Rightarrow> Inr (rebuild_state_from_entries db now entries)
      | Inl NotFound \<Rightarrow> Inr (True, [])
      | Inl other \<Rightarrow> Inl other)"

section \<open>The files of a run\<close>

text \<open>With every open and append succeeding, an operation on a thread appends these entries.\<close>

definition io_fine :: io_outcomes where
  "io_fine = \<lparr>io_open = (\<lambda>_. True), io_append = (\<lambda>_. True)\<rparr>"

fun op_thread :: "storage_write_op \<Rightarrow> thread_id" where
  "op_thread (ThreadUpserted thread) = th_id thread"
| "op_thread (storage_write_op.TurnStarted tid _ _) = tid"
| "op_thread (storage_write_op.ItemAppended tid _ _ _) = tid"
| "op_thread (TurnEnded tid _ _ _ _ _) = tid"
| "op_thread (storage_write_op.Flush tid _) = tid"
| "op_thread (storage_write_op.ModelChanged tid _ _) = tid"
| "op_thread (SessionNameSet tid _) = tid"
| "op_thread (SetLeaf tid _) = tid"
| "op_thread (ForkHeader tid _ _ _) = tid"
| "op_thread (storage_write_op.Compaction tid _ _ _ _ _) = tid"
| "op_thread (PermissionSuspended tid _ _ _ _) = tid"
| "op_thread (storage_write_op.PermissionResolved tid _ _) = tid"
| "op_thread (storage_write_op.Snapshot tid _ _ _ _) = tid"

fun op_entries :: "int \<Rightarrow> bool \<Rightarrow> storage_write_op \<Rightarrow> rollout_entry list" where
  "op_entries now hdr (ThreadUpserted thread) =
     (if hdr then []
      else [Session SESSION_VERSION (thread_id_str (th_id thread)) (th_created_at thread)
              (th_cwd thread) (map_option thread_id_str (th_forked_from thread))
              (map_option thread_id_str (th_subagent_parent thread)) (Some (th_source thread))])"
| "op_entries now hdr (storage_write_op.ItemAppended tid turn seq it) =
     [Item (thread_id_str tid) (turn_id_str turn) now it]"
| "op_entries now hdr (TurnEnded tid turn status error completed_at duration_ms) = [Leaf None]"
| "op_entries now hdr (SetLeaf tid target_id) = [Leaf target_id]"
| "op_entries now hdr (ForkHeader tid parent_session cwd created_at) =
     (if hdr then []
      else [Session SESSION_VERSION (thread_id_str tid) created_at cwd
              (Some (thread_id_str parent_session)) None None])"
| "op_entries now hdr (storage_write_op.Compaction tid turn timestamp summary replacement n) =
     [rollout_entry.Compaction (thread_id_str tid) (turn_id_str turn) timestamp summary replacement n]"
| "op_entries now hdr (PermissionSuspended tid turn timestamp request_id request) =
     [PendingPermission (thread_id_str tid) (turn_id_str turn) timestamp request_id request]"
| "op_entries now hdr (storage_write_op.PermissionResolved tid request_id timestamp) =
     [rollout_entry.PermissionResolved (thread_id_str tid) request_id timestamp]"
| "op_entries now hdr (storage_write_op.Snapshot tid turn timestamp tree preview) =
     [rollout_entry.Snapshot (thread_id_str tid) (turn_id_str turn) timestamp tree preview]"
| "op_entries now hdr _ = []"

fun writes_header :: "storage_write_op \<Rightarrow> bool" where
  "writes_header (ThreadUpserted _) = True"
| "writes_header (ForkHeader _ _ _ _) = True"
| "writes_header _ = False"

fun run_entries :: "int \<Rightarrow> bool \<Rightarrow> storage_write_op list \<Rightarrow> rollout_entry list" where
  "run_entries now hdr [] = []"
| "run_entries now hdr (op # ops) = op_entries now hdr op @ run_entries now (hdr \<or> writes_header op) ops"

fun live_appends :: "storage_write_op \<Rightarrow> sql_call list" where
  "live_appends (storage_write_op.ItemAppended tid turn seq it) = [AppendItem turn seq it]"
| "live_appends (storage_write_op.Compaction tid turn timestamp summary replacement n) =
     append_items turn 0 replacement"
| "live_appends _ = []"

fun is_append :: "sql_call \<Rightarrow> bool" where
  "is_append (AppendItem _ _ _) = True"
| "is_append _ = False"

fun effect_call :: "writer_effect \<Rightarrow> sql_call option" where
  "effect_call (Sql c) = Some c"
| "effect_call _ = None"

definition appended :: "writer_state \<Rightarrow> sql_call list" where
  "appended w = filter is_append (List.map_filter effect_call (ws_effects w))"

definition thread_file :: "thread_id \<Rightarrow> writer_state \<Rightarrow> rollout_entry list" where
  "thread_file tid w = (case ws_rollouts w tid of Some i \<Rightarrow> ws_files w i | None \<Rightarrow> [])"

text \<open>A thread that is not open yet would be given a fresh file.\<close>

definition fresh_or_open :: "thread_id \<Rightarrow> writer_state \<Rightarrow> bool" where
  "fresh_or_open tid w \<longleftrightarrow>
     (ws_rollouts w tid = None \<longrightarrow>
        ws_dir w (rollout_file_name (thread_id_str tid)) = None \<and> ws_files w (ws_next_inode w) = [])"

lemma fresh_new: "fresh_or_open tid writer_new"
  by (simp add: fresh_or_open_def writer_new_def)

lemma filter_append_items [simp]: "filter is_append (append_items turn n its) = append_items turn n its"
  by (induction turn n its rule: append_items.induct) auto

lemma appended_effect [simp]:
  "appended (effect (Sql c) w) = appended w @ (if is_append c then [c] else [])"
  "appended (effect (Sync i) w) = appended w"
  "appended (effect (Ack i) w) = appended w"
  "appended (effect (Append i e) w) = appended w"
  by (simp_all add: appended_def effect_def List.map_filter_def)

lemma appended_fold [simp]:
  "appended (fold (\<lambda>call. effect (Sql call)) calls w) = appended w @ filter is_append calls"
  by (induction calls arbitrary: w) auto

lemma effect_fields [simp]:
  "ws_dir (effect x w) = ws_dir w" "ws_files (effect x w) = ws_files w"
  "ws_next_inode (effect x w) = ws_next_inode w" "ws_rollouts (effect x w) = ws_rollouts w"
  "ws_header_written (effect x w) = ws_header_written w"
  by (simp_all add: effect_def)

lemma fold_effect_fields [simp]:
  "ws_files (fold (\<lambda>call. effect (Sql call)) calls w) = ws_files w"
  "ws_rollouts (fold (\<lambda>call. effect (Sql call)) calls w) = ws_rollouts w"
  "ws_header_written (fold (\<lambda>call. effect (Sql call)) calls w) = ws_header_written w"
  by (induction calls arbitrary: w) auto

lemma rollout_for_fine:
  assumes "fresh_or_open tid w"
  obtains i where "fst (rollout_for io_fine tid w) = Some i"
    "ws_rollouts (snd (rollout_for io_fine tid w)) = (ws_rollouts w)(tid \<mapsto> i)"
    "ws_files (snd (rollout_for io_fine tid w)) i = thread_file tid w"
    "ws_header_written (snd (rollout_for io_fine tid w)) = ws_header_written w"
    "appended (snd (rollout_for io_fine tid w)) = appended w"
proof (cases "ws_rollouts w tid")
  case None
  with assms show ?thesis
    by (intro that [of "ws_next_inode w"])
       (simp_all add: rollout_for_def io_fine_def open_rollout_def fresh_or_open_def thread_file_def appended_def)
next
  case (Some i)
  then show ?thesis
    by (intro that [of i]) (auto simp: rollout_for_def thread_file_def fun_upd_idem)
qed

lemma append_fine:
  "fst (append_rollout io_fine i e w) = True"
  "ws_rollouts (snd (append_rollout io_fine i e w)) = ws_rollouts w"
  "ws_files (snd (append_rollout io_fine i e w)) i = ws_files w i @ [e]"
  "ws_header_written (snd (append_rollout io_fine i e w)) = ws_header_written w"
  "appended (snd (append_rollout io_fine i e w)) = appended w"
  by (simp_all add: append_rollout_def io_fine_def) (simp add: appended_def)

lemma append_fine_True: "append_rollout io_fine i e w = (True, snd (append_rollout io_fine i e w))"
  using append_fine(1) [of i e w] by (simp add: prod_eq_iff)

lemma append_step:
  assumes "fresh_or_open tid w"
  obtains i w' A where "rollout_for io_fine tid w = (Some i, w')"
    "\<And>e. append_rollout io_fine i e w' = (True, A e)"
    "\<And>e. ws_rollouts (A e) tid = Some i"
    "\<And>e. ws_files (A e) i = thread_file tid w @ [e]"
    "\<And>e. ws_header_written (A e) = ws_header_written w"
    "\<And>e. appended (A e) = appended w"
proof -
  obtain i where i: "fst (rollout_for io_fine tid w) = Some i"
    "ws_rollouts (snd (rollout_for io_fine tid w)) = (ws_rollouts w)(tid \<mapsto> i)"
    "ws_files (snd (rollout_for io_fine tid w)) i = thread_file tid w"
    "ws_header_written (snd (rollout_for io_fine tid w)) = ws_header_written w"
    "appended (snd (rollout_for io_fine tid w)) = appended w"
    using rollout_for_fine [OF assms] by blast
  show thesis
    by (rule that [of i "snd (rollout_for io_fine tid w)"
                      "\<lambda>e. snd (append_rollout io_fine i e (snd (rollout_for io_fine tid w)))"])
       (use i in \<open>simp_all add: append_fine append_fine_True [symmetric] prod_eq_iff\<close>)
qed

lemma apply_op_fine:
  assumes "fresh_or_open tid w" "op_thread op = tid"
  shows "fresh_or_open tid (apply_op io_fine now op w) \<and>
         thread_file tid (apply_op io_fine now op w) =
           thread_file tid w @ op_entries now (tid \<in> ws_header_written w) op \<and>
         (tid \<in> ws_header_written (apply_op io_fine now op w) \<longleftrightarrow>
           tid \<in> ws_header_written w \<or> writes_header op) \<and>
         appended (apply_op io_fine now op w) = appended w @ live_appends op"
proof -
  obtain i w' A where step: "rollout_for io_fine tid w = (Some i, w')"
    "\<And>e. append_rollout io_fine i e w' = (True, A e)"
    "\<And>e. ws_rollouts (A e) tid = Some i"
    "\<And>e. ws_files (A e) i = thread_file tid w @ [e]"
    "\<And>e. ws_header_written (A e) = ws_header_written w"
    "\<And>e. appended (A e) = appended w"
    using append_step [OF assms(1)] by blast
  note defs = apply_thread_upserted_def apply_turn_started_def apply_item_appended_def
    apply_turn_ended_def apply_flush_def apply_set_leaf_def apply_fork_header_def append_synced_def
    apply_permission_suspended_def apply_permission_resolved_def apply_compaction_def
    apply_snapshot_def Let_def
  have touch: "fresh_or_open tid (w'\<lparr>ws_header_written := x\<rparr>) = fresh_or_open tid w'"
    "thread_file tid (w'\<lparr>ws_header_written := x\<rparr>) = thread_file tid w'"
    "appended (w'\<lparr>ws_header_written := x\<rparr>) = appended w'"
    "fresh_or_open tid (effect y w') = fresh_or_open tid w'"
    "thread_file tid (effect y w') = thread_file tid w'" for w' x y
    by (simp_all add: fresh_or_open_def thread_file_def appended_def split: option.split)
  have opened: "fresh_or_open tid (A e)" "thread_file tid (A e) = thread_file tid w @ [e]" for e
    using step by (simp_all add: fresh_or_open_def thread_file_def)
  have calls: "fresh_or_open tid (fold (\<lambda>call. effect (Sql call)) cs x) = fresh_or_open tid x"
    "thread_file tid (fold (\<lambda>call. effect (Sql call)) cs x) = thread_file tid x" for cs x
    by (induction cs arbitrary: x) (simp_all add: touch)
  show ?thesis
    using assms
    by (cases op; simp add: defs step touch opened calls split: option.split)
qed

text \<open>A run of operations on one thread: its file, and the rows its items went to.\<close>

lemma run_ops_fine:
  assumes "fresh_or_open tid w" "list_all (\<lambda>op. op_thread op = tid) ops"
  shows "thread_file tid (run_ops io_fine now ops w) =
           thread_file tid w @ run_entries now (tid \<in> ws_header_written w) ops"
    and "appended (run_ops io_fine now ops w) = appended w @ concat (map live_appends ops)"
proof -
  have "thread_file tid (run_ops io_fine now ops w) =
           thread_file tid w @ run_entries now (tid \<in> ws_header_written w) ops \<and>
        appended (run_ops io_fine now ops w) = appended w @ concat (map live_appends ops)"
    using assms
  proof (induction ops arbitrary: w)
    case (Cons op ops)
    let ?w = "apply_op io_fine now op w"
    have f: "fresh_or_open tid ?w"
      "thread_file tid ?w = thread_file tid w @ op_entries now (tid \<in> ws_header_written w) op"
      "tid \<in> ws_header_written ?w \<longleftrightarrow> tid \<in> ws_header_written w \<or> writes_header op"
      "appended ?w = appended w @ live_appends op"
      using apply_op_fine [of tid w op now] Cons.prems by auto
    have "run_ops io_fine now (op # ops) w = run_ops io_fine now ops ?w" by (simp add: run_ops_def)
    with Cons.IH [OF f(1)] Cons.prems(2) f show ?case by simp
  qed (simp add: run_ops_def)
  then show "thread_file tid (run_ops io_fine now ops w) =
           thread_file tid w @ run_entries now (tid \<in> ws_header_written w) ops"
    and "appended (run_ops io_fine now ops w) = appended w @ concat (map live_appends ops)"
    by auto
qed

section \<open>The rebuilt index\<close>

text \<open>The positions the live writer is given continue the count of each turn.\<close>

fun seqs_ok :: "(turn_id \<times> int) list \<Rightarrow> storage_write_op list \<Rightarrow> bool" where
  "seqs_ok counts [] = True"
| "seqs_ok counts (op # ops) =
     (case op of
        storage_write_op.ItemAppended tid turn seq it \<Rightarrow>
          seq = turn_count turn counts \<and> seqs_ok (set_count turn (seq + 1) counts) ops
      | storage_write_op.Compaction tid turn timestamp summary replacement n \<Rightarrow>
          turn_count turn counts = 0 \<and>
          seqs_ok (set_count turn (int (length replacement)) counts) ops
      | _ \<Rightarrow> seqs_ok counts ops)"

lemma TurnId_str [simp]: "TurnId (turn_id_str t) = t" "ThreadId (thread_id_str u) = u"
  by (cases t, simp) (cases u, simp)

lemma rebuild_appends:
  "seqs_ok counts ops \<Longrightarrow>
   filter is_append (rebuild_loop now (run_entries now' hdr ops) (counts, seen)) =
   concat (map live_appends ops)"
proof (induction ops arbitrary: counts seen hdr)
  case Nil
  then show ?case by (induction counts) auto
next
  case (Cons op ops)
  then show ?case by (cases op) (auto simp: Let_def)
qed

section \<open>Properties\<close>

text \<open>
  C26: rebuilding the index from a thread's session file puts the items in the same rows as the live
  writer did: for a run of operations on one thread whose positions continue each turn's count, the
  calls that add items are the same, in the same order, with the same positions.
\<close>

theorem rebuild_matches_live:
  assumes "list_all (\<lambda>op. op_thread op = tid) ops" "seqs_ok [] ops"
    and "serde_ok to_vec from_str (run_entries now False ops)"
  shows "\<exists>calls. rebuild_state_from_rollout (\<lambda>_. True) from_str now'
             (Some (written to_vec (thread_file tid (run_ops io_fine now ops writer_new)))) = Inr (True, calls) \<and>
           filter is_append calls = appended (run_ops io_fine now ops writer_new)"
proof -
  have f: "thread_file tid (run_ops io_fine now ops writer_new) = run_entries now False ops"
    "appended (run_ops io_fine now ops writer_new) = concat (map live_appends ops)"
    using run_ops_fine [OF fresh_new assms(1)]
    by (simp_all add: thread_file_def writer_new_def appended_def)
  have all: "run_calls (\<lambda>_. True) cs = (True, cs)" for cs by (induction cs) auto
  have "read_all_tolerant from_str (Some (written to_vec (run_entries now False ops))) = Inr (run_entries now False ops)"
    using split_written [OF assms(3), of "[]"] read_tolerant_written [OF assms(3), of 0 "[]" "[]"]
    by (simp add: read_all_tolerant_def)
  then show ?thesis
    using rebuild_appends [OF assms(2), of now' now False "{}"]
    by (simp add: rebuild_state_from_rollout_def rebuild_state_from_entries_def rebuild_calls_def f all)
qed

definition one_append :: "storage_write_op list" where
  "one_append = [storage_write_op.ItemAppended (ThreadId ''t'') (TurnId ''u'') 0 (UserMessage (ItemId ''i'') [])]"

theorem rebuild_matches_live_witness:
  "\<exists>calls. rebuild_state_from_rollout (\<lambda>_. True) (\<lambda>_. Inr (Item ''t'' ''u'' 0 (UserMessage (ItemId ''i'') []))) 5
             (Some (written (\<lambda>_. ''x'') (thread_file (ThreadId ''t'') (run_ops io_fine 0 one_append writer_new)))) = Inr (True, calls) \<and>
           filter is_append calls = appended (run_ops io_fine 0 one_append writer_new)"
proof (rule rebuild_matches_live)
  have "\<not> blank ''x''" by (simp add: blank_def trim_def trim_chars_def is_whitespace_def is_continuation_def Let_def)
  then show "serde_ok (\<lambda>_. ''x'') (\<lambda>_. Inr (Item ''t'' ''u'' 0 (UserMessage (ItemId ''i'') []))) (run_entries 0 False one_append)"
    by (simp add: serde_ok_def one_append_def newline_def carriage_return_def strip_cr_def)
qed (simp_all add: one_append_def turn_count_def)

end
