(* ===== verification/Compaction.thy ===== *)
theory Compaction
  imports Provider_Retry
begin

text \<open>
  Context compaction (\<open>zhive-core/src/engine/compaction.rs\<close>): the token thresholds, the transcript
  sent for summarizing, the prelude the actor runs and the tail that runs as a task. The provider's
  stream and the outputs of the lifecycle hooks are parameters.
\<close>

section \<open>Thresholds\<close>

definition AUTO_COMPACT_ITEM_THRESHOLD :: nat where
  "AUTO_COMPACT_ITEM_THRESHOLD = 50"

definition DEFAULT_CONTEXT_BUDGET_TOKENS :: u64 where
  "DEFAULT_CONTEXT_BUDGET_TOKENS = 32000"

definition COMPACT_BUDGET_NUMERATOR :: u64 where
  "COMPACT_BUDGET_NUMERATOR = 3"

definition COMPACT_BUDGET_DENOMINATOR :: u64 where
  "COMPACT_BUDGET_DENOMINATOR = 4"

definition u64_saturating_mul :: "u64 \<Rightarrow> u64 \<Rightarrow> u64" where
  "u64_saturating_mul a b = (if unat a * unat b \<le> u64_max then a * b else of_nat u64_max)"

definition threshold_for_context_window :: "u64 \<Rightarrow> u64" where
  "threshold_for_context_window window =
     u64_saturating_mul window COMPACT_BUDGET_NUMERATOR div COMPACT_BUDGET_DENOMINATOR"

definition default_compact_threshold :: u64 where
  "default_compact_threshold = threshold_for_context_window DEFAULT_CONTEXT_BUDGET_TOKENS"

fun tool_content_len :: "item_tool_call_content \<Rightarrow> nat" where
  "tool_content_len (Content (item_content.Text text _)) = length text"
| "tool_content_len (item_tool_call_content.Diff _ _ new_text) = length new_text"
| "tool_content_len _ = 0"

fun content_len :: "item_content \<Rightarrow> nat" where
  "content_len (item_content.Text text _) = length text"
| "content_len _ = 0"

fun item_text_len :: "item \<Rightarrow> nat" where
  "item_text_len (UserMessage _ content) = sum_list (map content_len content)"
| "item_text_len (AgentMessage _ text) = length text"
| "item_text_len (AgentThought _ text) = length text"
| "item_text_len (ToolCall _ _ _ _ _ content _ _ _ _) = sum_list (map tool_content_len content)"
| "item_text_len _ = 0"

text \<open>\<open>(bytes as u64) / CHARS_PER_TOKEN\<close>: the total length of texts in memory fits the type.\<close>

definition estimate_tokens :: "item list \<Rightarrow> u64" where
  "estimate_tokens items = of_nat (sum_list (map item_text_len items)) div 4"

section \<open>Summarizing\<close>

definition SUMMARY_PREFIX :: string where
  "SUMMARY_PREFIX = ''[context summary]'' @ [CHR 0x0A]"

text \<open>The parts of a provider stream the summary looks at; an error ends it.\<close>

datatype summary_part = TextDelta string | OtherPart

type_synonym summary_stream = "(summary_part, sdk_error) rust_result list"

fun transcript_line :: "item \<Rightarrow> string" where
  "transcript_line (UserMessage _ content) =
     ''User: '' @ concat (List.map_filter text_part content) @ [CHR 0x0A]"
| "transcript_line (AgentMessage _ text) = ''Assistant: '' @ text @ [CHR 0x0A]"
| "transcript_line _ = []"

definition transcript :: "item list \<Rightarrow> string" where
  "transcript items = concat (map transcript_line items)"

text \<open>The loop over the stream: the deltas reported and the summary, or the error that ended it.\<close>

fun fold_summary :: "string \<Rightarrow> summary_stream \<Rightarrow> (string, provider_error) rust_result \<times> string list" where
  "fold_summary summary [] = (Inr (trim summary), [])"
| "fold_summary summary (Inl err # _) = (Inl (from_llmsdk err), [])"
| "fold_summary summary (Inr (TextDelta delta) # rest) =
     (let (r, deltas) = fold_summary (summary @ delta) rest in (r, delta # deltas))"
| "fold_summary summary (Inr OtherPart # rest) = fold_summary summary rest"

definition summarize_streaming ::
    "(string \<Rightarrow> (summary_stream, sdk_error) rust_result) \<Rightarrow> item list \<Rightarrow> string \<Rightarrow>
     (string, provider_error) rust_result \<times> string list" where
  "summarize_streaming do_stream items instruction =
     (case do_stream (instruction @ transcript items) of
        Inl err \<Rightarrow> (Inl (from_llmsdk err), [])
      | Inr parts \<Rightarrow> fold_summary [] parts)"

definition summarize ::
    "(string \<Rightarrow> (summary_stream, sdk_error) rust_result) \<Rightarrow> item list \<Rightarrow> string \<Rightarrow>
     (string, provider_error) rust_result" where
  "summarize do_stream items instruction = fst (summarize_streaming do_stream items instruction)"

section \<open>Hooks\<close>

text \<open>
  \<open>dispatch_compact_hook\<close>: \<open>None\<close> is a hook event that could not be built or dispatched. A block is
  an error only before the compaction.
\<close>

definition hook_blocks :: "hook_output \<Rightarrow> bool" where
  "hook_blocks output =
     (ho_continue_loop output = Some False \<or>
      (case ho_hook_specific_output output of
         Some (PreToolUse permission_decision.Deny _ _) \<Rightarrow> True | _ \<Rightarrow> False))"

definition hook_reason :: "hook_output \<Rightarrow> string option" where
  "hook_reason output =
     (case ho_system_message output of
        Some m \<Rightarrow> Some m
      | None \<Rightarrow>
          (case ho_hook_specific_output output of
             Some (PreToolUse _ reason _) \<Rightarrow> reason | _ \<Rightarrow> None))"

fun check_outputs :: "bool \<Rightarrow> hook_output list \<Rightarrow> (unit, compact_error) rust_result" where
  "check_outputs pre [] = Inr ()"
| "check_outputs pre (output # rest) =
     (if hook_blocks output \<and> pre then Inl (BlockedByHook (hook_reason output))
      else check_outputs pre rest)"

definition dispatch_compact_hook ::
    "bool \<Rightarrow> hook_output list option \<Rightarrow> (unit, compact_error) rust_result" where
  "dispatch_compact_hook pre outputs =
     (case outputs of None \<Rightarrow> Inr () | Some os \<Rightarrow> check_outputs pre os)"

section \<open>The compaction\<close>

record compaction_world =
  cw_do_stream :: "string \<Rightarrow> (summary_stream, sdk_error) rust_result"
  cw_instruction :: string
  cw_pre_hook :: "hook_output list option"
  cw_post_hook :: "hook_output list option"

datatype compact_start =
    Done "(compact_reply, compact_error) rust_result"
  | Started "item list" u32

definition leave_compaction :: "thread_id \<Rightarrow> 'tx engine_inner \<Rightarrow> 'tx engine_inner" where
  "leave_compaction tid e = set_phase_broadcast tid engine_phase.Compaction Idle e"

definition compact_prelude ::
    "compaction_world \<Rightarrow> thread_handle \<Rightarrow> thread_id \<Rightarrow> compact_trigger \<Rightarrow> 'tx engine_inner \<Rightarrow>
     compact_start \<times> 'tx engine_inner" where
  "compact_prelude w h tid trigger e =
     (let items = items_snapshot h
      in if items = [] then (Done (Inr NothingToCompact), e)
         else (let entries = u32_of_len (length items)
               in case set_phase Idle engine_phase.Compaction e of
                    (Inl err, e1) \<Rightarrow> (Done (Inl (compact_error.EngineBusy (actual err))), e1)
                  | (Inr _, e1) \<Rightarrow>
                      (let e2 = send (PhaseChanged (Some tid) Idle engine_phase.Compaction) e1
                       in case dispatch_compact_hook True (cw_pre_hook w) of
                            Inl blocked \<Rightarrow> (Done (Inl blocked), leave_compaction tid e2)
                          | Inr _ \<Rightarrow>
                              (Started items entries, send (CompactionStarted tid trigger entries) e2))))"

definition compaction_item_id :: "thread_id \<Rightarrow> u64 \<Rightarrow> string \<Rightarrow> item_id" where
  "compaction_item_id tid seq what =
     ItemId (thread_id_str tid @ ''::compaction-'' @ show_nat (unat seq) @ ''-'' @ what)"

definition finish_failed :: "thread_id \<Rightarrow> string \<Rightarrow> 'tx engine_inner \<Rightarrow> 'tx engine_inner" where
  "finish_failed tid reason e = send (CompactionFailed tid reason) (leave_compaction tid e)"

definition compact_tail ::
    "compaction_world \<Rightarrow> int \<Rightarrow> thread_id \<Rightarrow> compact_trigger \<Rightarrow> item list \<Rightarrow> u32 \<Rightarrow>
     thread_handle \<times> 'tx engine_inner \<Rightarrow> thread_handle \<times> 'tx engine_inner" where
  "compact_tail w now tid trigger items entries st =
     (let (h, e) = st;
          (summary, deltas) = summarize_streaming (cw_do_stream w) items (cw_instruction w);
          e1 = fold (\<lambda>d. send (CompactionDelta tid d)) deltas e
      in case summary of
           Inl err \<Rightarrow> (h, finish_failed tid (provider_error_text err) e1)
         | Inr summary \<Rightarrow>
             (let (seq, e2) = next_compaction_seq e1;
                  marker = ContextCompaction (compaction_item_id tid seq ''marker'');
                  summary_item = AgentMessage (compaction_item_id tid seq ''summary'') (SUMMARY_PREFIX @ summary);
                  compaction_turn = TurnId (thread_id_str tid @ ''::compaction-'' @ show_nat (unat seq));
                  replacement = [marker, summary_item];
                  h1 = replace_history_with_compaction compaction_turn replacement h;
                  e3 = enqueue_storage_op
                         (storage_write_op.Compaction tid compaction_turn now summary replacement entries) e2;
                  e4 = fold (\<lambda>it. send (engine_event.ItemAppended tid compaction_turn it)) replacement e3;
                  e5 = leave_compaction tid e4
              in (h1, send (CompactionCompleted tid entries) e5)))"

text \<open>The guard's drop while armed: the task ended without finishing.\<close>

definition compaction_guard_drop :: "thread_id \<Rightarrow> 'tx engine_inner \<Rightarrow> 'tx engine_inner" where
  "compaction_guard_drop tid e =
     send (CompactionFailed tid ''compaction task terminated unexpectedly'') (leave_compaction tid e)"

definition run_compaction ::
    "compaction_world \<Rightarrow> int \<Rightarrow> thread_id \<Rightarrow> compact_trigger \<Rightarrow> thread_handle \<times> 'tx engine_inner \<Rightarrow>
     (compact_reply, compact_error) rust_result \<times> thread_handle \<times> 'tx engine_inner" where
  "run_compaction w now tid trigger st =
     (let (h, e) = st
      in case compact_prelude w h tid trigger e of
           (Done r, e1) \<Rightarrow> (r, h, e1)
         | (Started items entries, e1) \<Rightarrow>
             (let (h2, e2) = compact_tail w now tid trigger items entries (h, e1)
              in (Inr (Compacted entries), h2, e2)))"

text \<open>\<open>compact_dispatch\<close> up to the spawned tail, whose arguments are the third component.\<close>

definition compact_dispatch ::
    "compaction_world \<Rightarrow> thread_id \<Rightarrow> compact_trigger \<Rightarrow> 'tx engine_inner \<Rightarrow>
     (compact_reply, compact_error) rust_result \<times> 'tx engine_inner \<times> (item list \<times> u32) option" where
  "compact_dispatch w tid trigger e =
     (case ei_threads e tid of
        None \<Rightarrow> (Inl ThreadNotFound, e, None)
      | Some h \<Rightarrow>
          (case compact_prelude w h tid trigger e of
             (Done r, e1) \<Rightarrow> (r, e1, None)
           | (Started items entries, e1) \<Rightarrow> (Inr compact_reply.Started, e1, Some (items, entries))))"

section \<open>What a compaction does\<close>

lemma unat_threshold:
  "unat (threshold_for_context_window w) = min (unat w * 3) u64_max div 4"
proof -
  have "unat (u64_saturating_mul w 3) = min (unat w * 3) u64_max"
    by (auto simp: u64_saturating_mul_def u64_max_eq unat_word_ariths min_def)
  then show ?thesis
    by (simp add: threshold_for_context_window_def COMPACT_BUDGET_NUMERATOR_def
                  COMPACT_BUDGET_DENOMINATOR_def unat_div)
qed

lemma fold_summary_ok:
  "fold_summary acc parts = (Inr s, ds) \<Longrightarrow>
   s = trim (acc @ concat ds) \<and> list_all is_ok parts"
proof (induction acc parts arbitrary: ds rule: fold_summary.induct)
  case (3 summary delta rest)
  then show ?case by (auto simp: case_prod_beta Let_def prod_eq_iff split: prod.splits)
qed auto

lemma fold_send_fields [frame_simps]:
  "ei_threads (fold (\<lambda>x. send (f x)) xs e) = ei_threads e"
  "ei_phase (fold (\<lambda>x. send (f x)) xs e) = ei_phase e"
  "ei_turn_counter (fold (\<lambda>x. send (f x)) xs e) = ei_turn_counter e"
  "ei_cancel_tree (fold (\<lambda>x. send (f x)) xs e) = ei_cancel_tree e"
  "ei_permission (fold (\<lambda>x. send (f x)) xs e) = ei_permission e"
  "ei_compaction_counter (fold (\<lambda>x. send (f x)) xs e) = ei_compaction_counter e"
  "ei_events (fold (\<lambda>x. send (f x)) xs e) = ei_events e @ map f xs"
  by (induction xs arbitrary: e) (simp_all add: frame_simps)

lemma next_compaction_fields [frame_simps]:
  "ei_threads (snd (next_compaction_seq e)) = ei_threads e"
  "ei_phase (snd (next_compaction_seq e)) = ei_phase e"
  "ei_turn_counter (snd (next_compaction_seq e)) = ei_turn_counter e"
  "ei_cancel_tree (snd (next_compaction_seq e)) = ei_cancel_tree e"
  "ei_permission (snd (next_compaction_seq e)) = ei_permission e"
  by (simp_all add: next_compaction_seq_def)

lemma compact_prelude_fields:
  "ei_threads (snd (compact_prelude w h tid trigger e)) = ei_threads e"
  "ei_turn_counter (snd (compact_prelude w h tid trigger e)) = ei_turn_counter e"
  "ei_cancel_tree (snd (compact_prelude w h tid trigger e)) = ei_cancel_tree e"
  "ei_permission (snd (compact_prelude w h tid trigger e)) = ei_permission e"
  by (auto simp: compact_prelude_def set_phase_def Let_def case_prod_beta leave_compaction_def frame_simps
           split: sum.split)

lemma compact_prelude_phase:
  "ei_phase (snd (compact_prelude w h tid trigger e)) =
     (case fst (compact_prelude w h tid trigger e) of
        Done _ \<Rightarrow> ei_phase e | Started _ _ \<Rightarrow> engine_phase.Compaction)"
  by (auto simp: compact_prelude_def set_phase_def try_set_phase_atomic_def Let_def case_prod_beta
                 leave_compaction_def frame_simps set_phase_broadcast_phase split: sum.split)

lemma compact_prelude_started:
  "fst (compact_prelude w h tid trigger e) = Started items n \<Longrightarrow>
   ei_phase e = Idle \<and> items = items_snapshot h \<and> items \<noteq> []"
  by (auto simp: compact_prelude_def set_phase_def try_set_phase_atomic_def Let_def
           split: if_splits sum.splits)

lemma compact_tail_fields:
  "ei_threads (snd (compact_tail w now tid trigger items n (h, e))) = ei_threads e"
  "ei_turn_counter (snd (compact_tail w now tid trigger items n (h, e))) = ei_turn_counter e"
  "ei_cancel_tree (snd (compact_tail w now tid trigger items n (h, e))) = ei_cancel_tree e"
  "ei_permission (snd (compact_tail w now tid trigger items n (h, e))) = ei_permission e"
  "ei_phase (snd (compact_tail w now tid trigger items n (h, e))) =
     (if ei_phase e = engine_phase.Compaction then Idle else ei_phase e)"
  by (auto simp: compact_tail_def finish_failed_def leave_compaction_def Let_def case_prod_beta
                 frame_simps set_phase_broadcast_phase split: sum.split)

lemma compact_tail_handle:
  "hd_active_turn (fst (compact_tail w now tid trigger items n (h, e))) = hd_active_turn h"
  "hd_parent (fst (compact_tail w now tid trigger items n (h, e))) = hd_parent h"
  "hd_id (fst (compact_tail w now tid trigger items n (h, e))) = hd_id h"
  by (auto simp: compact_tail_def replace_history_with_compaction_def Let_def case_prod_beta split: sum.split)

lemma compact_tail_inv:
  assumes "handle_inv h" "hd_active_turn h = None"
  shows "handle_inv (fst (compact_tail w now tid trigger items n (h, e)))"
  using assms replace_with_compaction_inv [of "hd_history h"]
  by (auto simp: compact_tail_def handle_inv_def Let_def case_prod_beta active_turn_id_def
                 replace_history_with_compaction_def replace_with_compaction_def split: sum.split)

section \<open>Properties\<close>

lemma writer_fields [frame_simps]:
  "ei_storage_writer (send x e) = ei_storage_writer e"
  "ei_storage_writer (fold (\<lambda>y. send (f y)) ys e) = ei_storage_writer e"
  "ei_storage_writer (leave_compaction tid e) = ei_storage_writer e"
  "ei_storage_writer (snd (next_compaction_seq e)) = ei_storage_writer e"
proof -
  show s: "ei_storage_writer (send x e) = ei_storage_writer e" for x and e :: "'a engine_inner" by (simp add: send_def)
  show "ei_storage_writer (fold (\<lambda>y. send (f y)) ys e) = ei_storage_writer e"
    by (induction ys arbitrary: e) (simp_all add: s)
  show "ei_storage_writer (leave_compaction tid e) = ei_storage_writer e"
    by (simp add: leave_compaction_def set_phase_broadcast_def set_phase_def Let_def case_prod_beta s split: sum.split)
  show "ei_storage_writer (snd (next_compaction_seq e)) = ei_storage_writer e"
    by (simp add: next_compaction_seq_def)
qed

lemma replaced_items:
  "items_snapshot (replace_history_with_compaction turn its h) = its"
  by (simp add: items_snapshot_def replace_history_with_compaction_def replace_with_compaction_def iter_items_def)


definition one_item_handle :: thread_handle where
  "one_item_handle = (new_idle (ThreadId ''t''))
     \<lparr>hd_history := buffer_new\<lparr>hb_completed := [\<lparr>t_id = TurnId ''u'', t_items = [UserMessage (ItemId ''i'') []],
        t_items_view = turn_items_view.Full, t_status = turn_status.Completed, t_error = None, t_started_at = None,
        t_completed_at = None, t_duration_ms = None\<rparr>]\<rparr>\<rparr>"

definition summarizer :: compaction_world where
  "summarizer = \<lparr>cw_do_stream = (\<lambda>_. Inr [Inr (TextDelta ''short'')]), cw_instruction = [], cw_pre_hook = None, cw_post_hook = None\<rparr>"

definition queued_engine :: "unit engine_inner" where
  "queued_engine = plain_engine\<lparr>ei_storage_writer := Some \<lparr>sc_capacity = 4096, sc_queue = []\<rparr>\<rparr>"


end
