(* ===== verification/Fork.thy ===== *)
theory Fork
  imports Compaction Writer
begin

text \<open>
  Forking a session (\<open>zhive-core/src/engine/fork.rs\<close>). The source's session file, the parser and
  the provider that writes a branch summary are the fields of a world record.
\<close>

definition BRANCH_SUMMARY_PREFIX :: string where
  "BRANCH_SUMMARY_PREFIX = ''[branch summary]'' @ [CHR 0x0A]"

definition FORK_TURN_SUFFIX :: string where
  "FORK_TURN_SUFFIX = ''::forked''"

datatype history_cut = All | UpTo item_id | Nothing

datatype fork_reply = Forked thread_id u32 bool

datatype fork_error =
    SourceNotFound
  | EngineBusy engine_phase
  | ReplayFailed string
  | SummarizationFailed string

text \<open>The display of a storage error; the operating system's own text is a parameter.\<close>

fun storage_error_text :: "string \<Rightarrow> storage_error \<Rightarrow> string" where
  "storage_error_text os_text (RolloutCorrupted line reason) =
     ''rollout corrupted at line '' @ show_nat line @ '': '' @ reason"
| "storage_error_text os_text NotFound = ''io error: '' @ os_text"

record fork_world =
  fw_file :: "string option"
  fw_from_str :: "string \<Rightarrow> string + rollout_entry"
  fw_os_text :: string
  fw_do_stream :: "string \<Rightarrow> (summary_stream, sdk_error) rust_result"
  fw_instruction :: string

definition leave_branch_summary :: "thread_id \<Rightarrow> 'tx engine_inner \<Rightarrow> 'tx engine_inner" where
  "leave_branch_summary tid e = set_phase_broadcast tid BranchSummary Idle e"

definition allocate_fork_thread_id :: "thread_id \<Rightarrow> 'tx engine_inner \<Rightarrow> thread_id \<times> 'tx engine_inner" where
  "allocate_fork_thread_id source e =
     (let n = ei_turn_counter e;
          stem = (case strip_prefix ''thread:'' (thread_id_str source) of
                    Some s \<Rightarrow> s | None \<Rightarrow> thread_id_str source)
      in (ThreadId (''thread:native/fork/'' @ stem @ ''/'' @ show_nat (unat n)),
          e\<lparr>ei_turn_counter := n + 1\<rparr>))"

section \<open>Persisting the fork\<close>

fun fork_item_ops :: "thread_id \<Rightarrow> turn_id \<Rightarrow> nat \<Rightarrow> item list \<Rightarrow> storage_write_op list" where
  "fork_item_ops tid turn seq [] = []"
| "fork_item_ops tid turn seq (it # rest) =
     storage_write_op.ItemAppended tid turn (int seq) it # fork_item_ops tid turn (Suc seq) rest"

definition fork_snapshot :: "thread_id \<Rightarrow> thread_id \<Rightarrow> int \<Rightarrow> string \<Rightarrow> thread" where
  "fork_snapshot source new now cwd =
     \<lparr>th_id = new, th_session_id = None, th_forked_from = Some source, th_subagent_parent = None,
      th_preview = [], th_ephemeral = False, th_model_provider = ''unknown'', th_created_at = now,
      th_updated_at = now, th_status = thread_status.Idle, th_cwd = cwd,
      th_source = thread_source.User, th_name = None, th_turns = []\<rparr>"

text \<open>The operations \<open>persist_fork\<close> enqueues, in order.\<close>

definition persist_fork_ops ::
    "thread_id \<Rightarrow> thread_id \<Rightarrow> turn_id \<Rightarrow> int \<Rightarrow> string \<Rightarrow> item list \<Rightarrow> storage_write_op list" where
  "persist_fork_ops source new turn now cwd items =
     [ForkHeader new source cwd now,
      ThreadUpserted (fork_snapshot source new now cwd),
      storage_write_op.TurnStarted new turn now] @
     fork_item_ops new turn 0 items @
     [TurnEnded new turn turn_status.Completed None now (Some 0),
      SetLeaf new (if items = [] then None else Some (item_id_str (item_id_of (last items)))),
      storage_write_op.Flush new None]"

definition persist_fork ::
    "thread_id \<Rightarrow> thread_id \<Rightarrow> turn_id \<Rightarrow> int \<Rightarrow> item option \<Rightarrow> item list \<Rightarrow>
     'tx engine_inner \<Rightarrow> 'tx engine_inner" where
  "persist_fork source new turn now summary_item replayed e =
     fold enqueue_storage_op
       (persist_fork_ops source new turn now (ei_cwd e)
          ((case summary_item of Some it \<Rightarrow> [it] | None \<Rightarrow> []) @ replayed)) e"

section \<open>The fork\<close>

definition replay_for :: "fork_world \<Rightarrow> history_cut \<Rightarrow> (item list, fork_error) rust_result" where
  "replay_for w hc =
     (let replay = (\<lambda>up_to. case replay_thread_items (fw_from_str w) (fw_file w) up_to of
                              Inl err \<Rightarrow> Inl (ReplayFailed (storage_error_text (fw_os_text w) err))
                            | Inr items \<Rightarrow> Inr items)
      in case hc of Nothing \<Rightarrow> Inr [] | All \<Rightarrow> replay None | UpTo i \<Rightarrow> replay (Some i))"

definition forked_handle :: "thread_id \<Rightarrow> turn_id \<Rightarrow> int \<Rightarrow> item list \<Rightarrow> thread_handle" where
  "forked_handle new turn now items =
     finish_turn_buffer turn_status.Completed now (Some 0)
       (fold handle_push_item items (start_turn_buffer turn now (new_idle new)))"

definition fork_inner ::
    "fork_world \<Rightarrow> int \<Rightarrow> nat \<Rightarrow> thread_id \<Rightarrow> thread_id \<Rightarrow> history_cut \<Rightarrow> bool \<Rightarrow> 'tx engine_inner \<Rightarrow>
     (fork_reply, fork_error) rust_result \<times> 'tx engine_inner" where
  "fork_inner w now ack source new hc with_summary e =
     (let e1 = enqueue_storage_op (storage_write_op.Flush source (Some ack)) e
      in case replay_for w hc of
           Inl err \<Rightarrow> (Inl err, e1)
         | Inr replayed \<Rightarrow>
             (if hc \<noteq> Nothing \<and> replayed = [] \<and> ei_threads e1 source = None
              then (Inl SourceNotFound, e1)
              else (let summary = (if with_summary
                                   then map_sum id Some (summarize (fw_do_stream w) replayed (fw_instruction w))
                                   else Inr None)
                    in case summary of
                         Inl err \<Rightarrow> (Inl (SummarizationFailed (provider_error_text err)), e1)
                       | Inr text \<Rightarrow>
                           (let summary_item =
                                  map_option
                                    (\<lambda>t. AgentMessage
                                           (ItemId (''item:'' @ thread_id_str new @ FORK_TURN_SUFFIX @ ''/summary''))
                                           (BRANCH_SUMMARY_PREFIX @ t)) text;
                                fork_turn = TurnId (''turn:'' @ thread_id_str new @ FORK_TURN_SUFFIX);
                                items = (case summary_item of Some it \<Rightarrow> [it] | None \<Rightarrow> []) @ replayed;
                                e2 = put_handle new (forked_handle new fork_turn now items) e1;
                                e3 = persist_fork source new fork_turn now summary_item replayed e2
                            in (Inr (Forked new (u32_of_len (length replayed)) with_summary), e3)))))"

definition fork_with_cut ::
    "fork_world \<Rightarrow> int \<Rightarrow> nat \<Rightarrow> thread_id \<Rightarrow> item_id option \<Rightarrow> history_cut \<Rightarrow> bool \<Rightarrow> 'tx engine_inner \<Rightarrow>
     (fork_reply, fork_error) rust_result \<times> 'tx engine_inner" where
  "fork_with_cut w now ack source forked_from_item hc with_summary e =
     (if \<not> ei_storage e then (Inl SourceNotFound, e)
      else (case set_phase Idle BranchSummary e of
              (Inl err, e1) \<Rightarrow> (Inl (fork_error.EngineBusy (actual err)), e1)
            | (Inr _, e1) \<Rightarrow>
                (let e2 = send (PhaseChanged (Some source) Idle BranchSummary) e1;
                     (new, e3) = allocate_fork_thread_id source e2;
                     (result, e4) = fork_inner w now ack source new hc with_summary e3;
                     e5 = leave_branch_summary source e4
                 in case result of
                      Inl err \<Rightarrow> (Inl err, e5)
                    | Inr reply \<Rightarrow> (Inr reply, send (ThreadForked source new forked_from_item) e5))))"

definition fork_thread ::
    "fork_world \<Rightarrow> int \<Rightarrow> nat \<Rightarrow> thread_id \<Rightarrow> item_id option \<Rightarrow> bool \<Rightarrow> 'tx engine_inner \<Rightarrow>
     (fork_reply, fork_error) rust_result \<times> 'tx engine_inner" where
  "fork_thread w now ack source up_to_item with_summary e =
     fork_with_cut w now ack source up_to_item
       (case up_to_item of Some i \<Rightarrow> UpTo i | None \<Rightarrow> All) with_summary e"

definition fork_thread_to_start ::
    "fork_world \<Rightarrow> int \<Rightarrow> nat \<Rightarrow> thread_id \<Rightarrow> 'tx engine_inner \<Rightarrow>
     (fork_reply, fork_error) rust_result \<times> 'tx engine_inner" where
  "fork_thread_to_start w now ack source e = fork_with_cut w now ack source None Nothing False e"

section \<open>The forked thread\<close>

lemma start_buffer_has_active: "has_active (hd_history (start_turn_buffer turn now h))"
  by (auto simp: start_turn_buffer_def has_active_def Turn_Buffer.start_turn_def split: option.splits)

lemma fold_push_history:
  "hb_active (hd_history h) = Some t \<Longrightarrow>
   hd_history (fold handle_push_item its h) =
     (hd_history h)\<lparr>hb_active := Some (t\<lparr>t_items := t_items t @ its\<rparr>)\<rparr>"
proof (induction its arbitrary: h t)
  case (Cons it its)
  have "hd_history (handle_push_item it h) = (hd_history h)\<lparr>hb_active := Some (t\<lparr>t_items := t_items t @ [it]\<rparr>)\<rparr>"
    using Cons.prems by (simp add: frame_simps Turn_Buffer.push_item_def)
  with Cons.IH [of "handle_push_item it h" "t\<lparr>t_items := t_items t @ [it]\<rparr>"] show ?case by simp
qed simp

lemma forked_items: "items_snapshot (forked_handle new turn now its) = its"
proof -
  have "hb_active (hd_history (start_turn_buffer turn now (new_idle new))) =
        Some \<lparr>t_id = turn, t_items = [], t_items_view = turn_items_view.Full,
              t_status = turn_status.InProgress, t_error = None, t_started_at = Some now,
              t_completed_at = None, t_duration_ms = None\<rparr>"
    and "hb_completed (hd_history (start_turn_buffer turn now (new_idle new))) = []"
    and "hb_in_memory_turn_cap (hd_history (start_turn_buffer turn now (new_idle new))) = 50"
    by (simp_all add: start_turn_buffer_def Turn_Buffer.start_turn_def new_idle_def with_capacity_def
                      with_cap_def IN_MEMORY_TURN_CAP_def)
  then show ?thesis
    by (simp add: forked_handle_def items_snapshot_def frame_simps fold_push_history
                  Turn_Buffer.finish_turn_def enforce_cap_def resident_def iter_items_def Let_def)
qed

lemma start_turn_buffer_fields [frame_simps]:
  "hd_id (start_turn_buffer turn now h) = hd_id h"
  "hd_status (start_turn_buffer turn now h) = hd_status h"
  "hd_active_turn (start_turn_buffer turn now h) = hd_active_turn h"
  "hd_injection (start_turn_buffer turn now h) = hd_injection h"
  "hd_parent (start_turn_buffer turn now h) = hd_parent h"
  by (simp_all add: start_turn_buffer_def)

lemma fold_push_buffer_inv: "buffer_inv (hd_history h) \<Longrightarrow> buffer_inv (hd_history (fold handle_push_item its h))"
  by (induction its arbitrary: h) (simp_all add: frame_simps push_item_inv)

lemma seeded_turn_inv:
  assumes "handle_inv h" "hd_active_turn h = None"
  shows "handle_inv (finish_turn_buffer s c d (fold handle_push_item its (start_turn_buffer turn now h)))"
proof -
  have "buffer_inv (hd_history (start_turn_buffer turn now h))"
    using assms by (auto simp: handle_inv_def start_turn_buffer_def intro!: start_turn_inv simp: loaded_def)
  then have "buffer_inv (Turn_Buffer.finish_turn s c d
               (hd_history (fold handle_push_item its (start_turn_buffer turn now h))))"
    by (intro finish_turn_inv fold_push_buffer_inv)
  with assms show ?thesis by (simp add: handle_inv_def frame_simps)
qed

lemma forked_inv [inv_intros]: "handle_inv (forked_handle new turn now its)"
  unfolding forked_handle_def
  by (rule seeded_turn_inv) (simp_all add: new_idle_inv, simp add: new_idle_def with_capacity_def)

lemma forked_fields:
  "hd_id (forked_handle new turn now its) = new"
  "hd_active_turn (forked_handle new turn now its) = None"
  "hd_parent (forked_handle new turn now its) = None"
  by (simp_all add: forked_handle_def frame_simps new_idle_def with_capacity_def)

lemma fork_item_entries:
  "run_entries now' hdr (fork_item_ops tid turn n its @ ops) =
     map (Item (thread_id_str tid) (turn_id_str turn) now') its @ run_entries now' hdr ops"
  by (induction tid turn n its rule: fork_item_ops.induct) auto

lemma entry_items_map [simp]: "entry_items (map (Item t u n) its @ es) = its @ entry_items es"
  by (induction its) auto

lemma no_compaction_items [simp]: "list_all (\<lambda>e. \<not> is_compaction e) (map (Item t u n) its)"
  by (induction its) auto

text \<open>What is persisted of a fork replays to the items it was made of.\<close>

lemma persist_fork_replay:
  "replay_entries None [] (run_entries now' hdr (persist_fork_ops source new turn now cwd its)) = its"
proof -
  let ?es = "run_entries now' hdr (persist_fork_ops source new turn now cwd its)"
  have "list_all (\<lambda>e. \<not> is_compaction e) ?es" "entry_items ?es = its"
    by (auto simp: persist_fork_ops_def fork_item_entries)
  then show ?thesis by (simp add: replay_no_compaction)
qed

lemma fork_inner_fields:
  "ei_phase (snd (fork_inner w now ack source new hc s e)) = ei_phase e"
  "ei_turn_counter (snd (fork_inner w now ack source new hc s e)) = ei_turn_counter e"
  "ei_cancel_tree (snd (fork_inner w now ack source new hc s e)) = ei_cancel_tree e"
  "ei_permission (snd (fork_inner w now ack source new hc s e)) = ei_permission e"
  by (auto simp: fork_inner_def persist_fork_def Let_def frame_simps split: sum.split)

lemma fork_inner_threads:
  "ei_threads (snd (fork_inner w now ack source new hc s e)) = ei_threads e \<or>
   (\<exists>turn its. ei_threads (snd (fork_inner w now ack source new hc s e)) =
      (ei_threads e)(new \<mapsto> forked_handle new turn now its))"
  by (auto simp: fork_inner_def persist_fork_def Let_def frame_simps split: sum.split)

lemma fork_with_cut_fields:
  "ei_phase (snd (fork_with_cut w now ack source i hc s e)) = ei_phase e"
  "ei_cancel_tree (snd (fork_with_cut w now ack source i hc s e)) = ei_cancel_tree e"
  "ei_permission (snd (fork_with_cut w now ack source i hc s e)) = ei_permission e"
  by (auto simp: fork_with_cut_def set_phase_def try_set_phase_atomic_def leave_branch_summary_def
                 allocate_fork_thread_id_def Let_def case_prod_beta frame_simps
                 set_phase_broadcast_phase fork_inner_fields split: sum.split)

definition fork_id_for :: "thread_id \<Rightarrow> u64 \<Rightarrow> thread_id" where
  "fork_id_for source n =
     ThreadId (''thread:native/fork/'' @
       (case strip_prefix ''thread:'' (thread_id_str source) of
          Some s \<Rightarrow> s | None \<Rightarrow> thread_id_str source) @ ''/'' @ show_nat (unat n))"

lemma fork_with_cut_threads:
  "ei_threads (snd (fork_with_cut w now ack source i hc s e)) = ei_threads e \<or>
   (\<exists>turn its. ei_threads (snd (fork_with_cut w now ack source i hc s e)) =
      (ei_threads e)(fork_id_for source (ei_turn_counter e) \<mapsto>
         forked_handle (fork_id_for source (ei_turn_counter e)) turn now its))"
proof -
  let ?e = "send (PhaseChanged (Some source) Idle BranchSummary) (e\<lparr>ei_phase := BranchSummary\<rparr>)"
  have "ei_threads (snd (fork_with_cut w now ack source i hc s e)) = ei_threads e \<or>
        ei_threads (snd (fork_with_cut w now ack source i hc s e)) =
        ei_threads (snd (fork_inner w now ack source (fork_id_for source (ei_turn_counter e)) hc s
                      (?e\<lparr>ei_turn_counter := ei_turn_counter e + 1\<rparr>)))"
    by (auto simp: fork_with_cut_def set_phase_def try_set_phase_atomic_def leave_branch_summary_def
                   allocate_fork_thread_id_def fork_id_for_def Let_def case_prod_beta frame_simps
             split: sum.split)
  moreover have "ei_threads (?e\<lparr>ei_turn_counter := ei_turn_counter e + 1\<rparr>) = ei_threads e"
    by (simp add: frame_simps)
  ultimately show ?thesis
    using fork_inner_threads [of w now ack source "fork_id_for source (ei_turn_counter e)" hc s
                                "?e\<lparr>ei_turn_counter := ei_turn_counter e + 1\<rparr>"]
    by metis
qed

section \<open>Properties\<close>

lemma fold_enqueue_room:
  "ei_storage_writer e = Some ch \<Longrightarrow> length (sc_queue ch) + length ops \<le> sc_capacity ch \<Longrightarrow>
   ei_storage_writer (fold enqueue_storage_op ops e) = Some (ch\<lparr>sc_queue := sc_queue ch @ ops\<rparr>)"
proof (induction ops arbitrary: e ch)
  case (Cons op ops)
  have "ei_storage_writer (enqueue_storage_op op e) = Some (ch\<lparr>sc_queue := sc_queue ch @ [op]\<rparr>)"
    using Cons.prems by (simp add: enqueue_storage_op_def)
  from Cons.IH [OF this] Cons.prems(2) show ?case by simp
qed simp

definition fork_turn_id :: "thread_id \<Rightarrow> turn_id" where
  "fork_turn_id new = TurnId (''turn:'' @ thread_id_str new @ FORK_TURN_SUFFIX)"

lemma fork_inner_result:
  assumes "fork_inner w now ack source new hc False e = (Inr reply, e')"
  obtains its where "replay_for w hc = Inr its"
    "reply = Forked new (u32_of_len (length its)) False"
    "ei_threads e' = (ei_threads e)(new \<mapsto> forked_handle new (fork_turn_id new) now its)"
    "ei_storage_writer e' =
       ei_storage_writer (fold enqueue_storage_op
         (storage_write_op.Flush source (Some ack) # persist_fork_ops source new (fork_turn_id new) now (ei_cwd e) its) e)"
proof -
  obtain its where its: "replay_for w hc = Inr its"
    using assms by (cases "replay_for w hc") (auto simp: fork_inner_def Let_def)
  have put: "ei_storage_writer (fold enqueue_storage_op ops (put_handle t h x)) =
             ei_storage_writer (fold enqueue_storage_op ops x)" for ops t h and x :: "'a engine_inner"
  proof (induction ops arbitrary: x)
    case (Cons op ops)
    have "enqueue_storage_op op (put_handle t h x) = put_handle t h (enqueue_storage_op op x)"
      by (simp add: enqueue_storage_op_def put_handle_def split: option.split)
    with Cons show ?case by simp
  qed (simp add: put_handle_def)
  show thesis
    using assms by (intro that [OF its])
      (auto simp: fork_inner_def its persist_fork_def Let_def frame_simps fork_turn_id_def put split: if_splits)
qed

lemma fork_with_cut_result:
  assumes "fork_with_cut w now ack source i hc False e = (Inr reply, e')"
  obtains its where "replay_for w hc = Inr its" "ei_phase e = Idle" "ei_storage e"
    "reply = Forked (fork_id_for source (ei_turn_counter e)) (u32_of_len (length its)) False"
    "ei_threads e' = (ei_threads e)(fork_id_for source (ei_turn_counter e) \<mapsto>
       forked_handle (fork_id_for source (ei_turn_counter e)) (fork_turn_id (fork_id_for source (ei_turn_counter e))) now its)"
proof -
  let ?new = "fork_id_for source (ei_turn_counter e)"
  let ?e = "send (PhaseChanged (Some source) Idle BranchSummary) (e\<lparr>ei_phase := BranchSummary\<rparr>)"
  let ?e3 = "?e\<lparr>ei_turn_counter := ei_turn_counter e + 1\<rparr>"
  have idle: "ei_phase e = Idle" and st: "ei_storage e"
    using assms by (auto simp: fork_with_cut_def set_phase_def try_set_phase_atomic_def Let_def split: if_splits)
  have "\<exists>e4. fork_inner w now ack source ?new hc False ?e3 = (Inr reply, e4) \<and> ei_threads e' = ei_threads e4"
    using assms
    by (auto simp: fork_with_cut_def set_phase_def try_set_phase_atomic_def leave_branch_summary_def idle st
                   allocate_fork_thread_id_def fork_id_for_def Let_def case_prod_beta frame_simps prod_eq_iff
             split: sum.splits)
  then obtain e4 where e4: "fork_inner w now ack source ?new hc False ?e3 = (Inr reply, e4)"
    "ei_threads e' = ei_threads e4" by blast
  from fork_inner_result [OF e4(1)] obtain its where r: "replay_for w hc = Inr its"
    "reply = Forked ?new (u32_of_len (length its)) False"
    "ei_threads e4 = (ei_threads ?e3)(?new \<mapsto> forked_handle ?new (fork_turn_id ?new) now its)" by metis
  show thesis
    by (rule that [OF r(1) idle st r(2)]) (use r(3) e4(2) in \<open>simp add: frame_simps\<close>)
qed

text \<open>
  C25: a fork without a summary holds in memory exactly the items replayed from its source and leaves
  every other thread alone; and when the writer's queue has room, the operations it queues, once
  written to the new thread's file, replay to the same items.
\<close>

theorem fork_is_durable:
  assumes "fork_inner w now ack source new hc False e = (Inr reply, e')"
    and "ei_storage_writer e = Some ch"
    and "\<And>its. replay_for w hc = Inr its \<Longrightarrow> length (sc_queue ch) + length its + 7 \<le> sc_capacity ch"
  shows "\<exists>its ops. replay_for w hc = Inr its \<and> reply = Forked new (u32_of_len (length its)) False \<and>
           ei_threads e' = (ei_threads e)(new \<mapsto> the (ei_threads e' new)) \<and>
           items_snapshot (the (ei_threads e' new)) = its \<and>
           ei_storage_writer e' = Some (ch\<lparr>sc_queue := sc_queue ch @ storage_write_op.Flush source (Some ack) # ops\<rparr>) \<and>
           replay_entries None [] (thread_file new (run_ops io_fine now' ops writer_new)) = its"
proof -
  let ?t = "fork_turn_id new"
  from fork_inner_result [OF assms(1)] obtain its where r: "replay_for w hc = Inr its"
    "reply = Forked new (u32_of_len (length its)) False"
    "ei_threads e' = (ei_threads e)(new \<mapsto> forked_handle new ?t now its)"
    "ei_storage_writer e' = ei_storage_writer (fold enqueue_storage_op
       (storage_write_op.Flush source (Some ack) # persist_fork_ops source new ?t now (ei_cwd e) its) e)" by metis
  let ?ops = "persist_fork_ops source new ?t now (ei_cwd e) its"
  have len: "length (fork_item_ops new t n its) = length its" for t n
    by (induction new t n its rule: fork_item_ops.induct) auto
  have "list_all (\<lambda>op. op_thread op = new) (fork_item_ops new t n its)" for t n
    by (induction new t n its rule: fork_item_ops.induct) auto
  then have all: "list_all (\<lambda>op. op_thread op = new) ?ops" by (simp add: persist_fork_ops_def fork_snapshot_def)
  have "ei_storage_writer e' = Some (ch\<lparr>sc_queue := sc_queue ch @ storage_write_op.Flush source (Some ack) # ?ops\<rparr>)"
    unfolding r(4) by (rule fold_enqueue_room [OF assms(2)]) (use assms(3) [OF r(1)] in \<open>simp add: persist_fork_ops_def len\<close>)
  moreover have "replay_entries None [] (thread_file new (run_ops io_fine now' ?ops writer_new)) = its"
    using run_ops_fine(1) [OF fresh_new all] by (simp add: thread_file_def writer_new_def persist_fork_replay)
  moreover have "items_snapshot (the (ei_threads e' new)) = its" by (simp add: r(3) forked_items)
  ultimately show ?thesis using r by (intro exI [of _ its] exI [of _ ?ops]) simp
qed

definition storage_engine :: "unit engine_inner" where
  "storage_engine = (plain_engine)\<lparr>ei_storage := True, ei_storage_writer := Some \<lparr>sc_capacity = 4096, sc_queue = []\<rparr>\<rparr>"

definition one_world :: fork_world where
  "one_world =
     \<lparr>fw_file = Some (written one_to_vec [one_entry, one_entry]), fw_from_str = one_from_str, fw_os_text = [],
      fw_do_stream = (\<lambda>_. Inr []), fw_instruction = []\<rparr>"

lemma one_world_replay:
  "replay_for one_world history_cut.All = Inr [UserMessage (ItemId ''i'') [], UserMessage (ItemId ''i'') []]"
  using read_all_written [OF one_serde(2)]
  by (simp add: replay_for_def one_world_def replay_thread_items_def one_entry_def)

theorem fork_is_durable_witness:
  "items_snapshot (the (ei_threads
     (snd (fork_inner one_world 1 0 (ThreadId ''t'') (ThreadId ''n'') history_cut.All False storage_engine)) (ThreadId ''n''))) =
   [UserMessage (ItemId ''i'') [], UserMessage (ItemId ''i'') []]"
proof -
  obtain r e' where f: "fork_inner one_world 1 0 (ThreadId ''t'') (ThreadId ''n'') history_cut.All False storage_engine = (Inr r, e')"
    by (simp add: fork_inner_def one_world_replay Let_def)
  have ch: "ei_storage_writer storage_engine = Some \<lparr>sc_capacity = 4096, sc_queue = []\<rparr>"
    by (simp add: storage_engine_def)
  from fork_is_durable [OF f ch] show ?thesis by (auto simp: one_world_replay f)
qed

end
