(* ===== verification/Resume.thy ===== *)
theory Resume
  imports Fork
begin

text \<open>
  Resuming a persisted session (\<open>zhive-core/src/engine/resume.rs\<close>): its turns are read back from
  the session file and seeded into memory, and its unresolved permission requests are registered
  again under their old keys. The iteration order of the source's hash maps is not specified; the
  model keeps the order of insertion.
\<close>

datatype resume_error =
    StorageUnavailable
  | ThreadNotFound
  | EngineBusy engine_phase
  | ReplayFailed string

record restored_pending =
  rs_key :: request_key
  rs_context :: request_context
  rs_request :: request_permission_request

record resume_reply =
  rr_thread_id :: thread_id
  rr_items_restored :: u32
  rr_turns_restored :: u32

section \<open>Reading the turns\<close>

record reading =
  rd_order :: "turn_id list"
  rd_by_turn :: "turn_id \<rightharpoonup> item list"
  rd_pending :: "(string \<times> restored_pending) list"

definition read_start :: reading where
  "read_start = \<lparr>rd_order = [], rd_by_turn = Map.empty, rd_pending = []\<rparr>"

fun read_entry :: "rollout_entry \<Rightarrow> reading \<Rightarrow> reading" where
  "read_entry (rollout_entry.Item thread turn ts it) r =
     (let tid = TurnId turn
      in case rd_by_turn r tid of
           Some its \<Rightarrow> r\<lparr>rd_by_turn := (rd_by_turn r)(tid \<mapsto> its @ [it])\<rparr>
         | None \<Rightarrow> r\<lparr>rd_order := rd_order r @ [tid], rd_by_turn := (rd_by_turn r)(tid \<mapsto> [it])\<rparr>)"
| "read_entry (rollout_entry.Compaction thread turn ts summary replacement n) r =
     r\<lparr>rd_order := [TurnId turn], rd_by_turn := [TurnId turn \<mapsto> replacement]\<rparr>"
| "read_entry (PendingPermission thread turn ts request_id request) r =
     (case from_wire (PermissionRequestId request_id) of
        Inr key \<Rightarrow>
          r\<lparr>rd_pending :=
              AList.update request_id
                \<lparr>rs_key = key, rs_context = \<lparr>rc_thread_id = ThreadId thread, rc_turn_id = TurnId turn\<rparr>,
                 rs_request = request\<rparr> (rd_pending r)\<rparr>
      | Inl _ \<Rightarrow> r)"
| "read_entry (rollout_entry.PermissionResolved thread request_id ts) r =
     r\<lparr>rd_pending := AList.delete request_id (rd_pending r)\<rparr>"
| "read_entry (Session _ _ _ _ _ _ _) r = r"
| "read_entry (rollout_entry.Leaf _) r = r"
| "read_entry (rollout_entry.Snapshot _ _ _ _ _) r = r"

definition turns_of :: "reading \<Rightarrow> (turn_id \<times> item list) list" where
  "turns_of r =
     map (\<lambda>tid. (tid, case rd_by_turn r tid of Some its \<Rightarrow> its | None \<Rightarrow> [])) (rd_order r)"

definition read_rollout_turns ::
    "fork_world \<Rightarrow> ((turn_id \<times> item list) list \<times> restored_pending list, resume_error) rust_result" where
  "read_rollout_turns w =
     (case read_all_tolerant (fw_from_str w) (fw_file w) of
        Inl NotFound \<Rightarrow> Inr ([], [])
      | Inl other \<Rightarrow> Inl (ReplayFailed (storage_error_text (fw_os_text w) other))
      | Inr entries \<Rightarrow>
          (let r = fold read_entry entries read_start
           in Inr (turns_of r, map snd (rd_pending r))))"

section \<open>Seeding\<close>

definition seed_turn :: "int \<Rightarrow> turn_id \<times> item list \<Rightarrow> thread_handle \<Rightarrow> thread_handle" where
  "seed_turn now turn h =
     finish_turn_buffer turn_status.Completed now (Some 0)
       (fold handle_push_item (snd turn) (start_turn_buffer (fst turn) now h))"

definition seed_history :: "int \<Rightarrow> (turn_id \<times> item list) list \<Rightarrow> thread_handle \<Rightarrow> thread_handle" where
  "seed_history now turns h = fold (seed_turn now) turns h"

text \<open>
  The loop over the pending requests: each is registered with a fresh sender and announced; the
  waiting tasks it spawns are returned as the pairs of the wire id and the context they hold.
\<close>

definition resumed_reason :: string where
  "resumed_reason = ''resumed: awaiting prior deferred permission decision''"

fun restore_pending ::
    "(nat \<Rightarrow> 'tx) \<Rightarrow> nat \<Rightarrow> restored_pending list \<Rightarrow> 'tx engine_inner \<Rightarrow>
     (permission_request_id \<times> request_context) list \<times> 'tx engine_inner" where
  "restore_pending new_tx i [] e = ([], e)"
| "restore_pending new_tx i (p # ps) e =
     (let e1 = e\<lparr>ei_permission := reinstate_for_resume (rs_key p) (new_tx i) (rs_context p) (ei_permission e)\<rparr>;
          wire_id = to_wire (rs_key p);
          e2 = send (PermissionRequested wire_id (rs_request p)) e1;
          e3 = send (TurnSuspended (rc_thread_id (rs_context p)) (rc_turn_id (rs_context p)) wire_id
                      (Some resumed_reason)) e2;
          (tasks, e4) = restore_pending new_tx (Suc i) ps e3
      in ((wire_id, rs_context p) # tasks, e4))"

text \<open>What such a task does when its wait ends; the wait has no deadline.\<close>

definition cleanup_task ::
    "int \<Rightarrow> permission_request_id \<times> request_context \<Rightarrow> (permission_outcome, reducer_error) rust_result \<Rightarrow>
     'tx engine_inner \<Rightarrow> 'tx engine_inner" where
  "cleanup_task now task r e =
     (let (wire_id, ctx) = task
      in case r of
           Inl err \<Rightarrow> e
         | Inr outcome \<Rightarrow>
             send (TurnResumed (rc_thread_id ctx) (rc_turn_id ctx))
               (enqueue_storage_op
                 (storage_write_op.PermissionResolved (rc_thread_id ctx)
                   (case wire_id of PermissionRequestId s \<Rightarrow> s) now) e))"

definition saturating_sum :: "nat list \<Rightarrow> u32" where
  "saturating_sum ns = fold (\<lambda>n acc. u32_of_len (unat acc + unat (u32_of_len n))) ns 0"

definition resume_thread ::
    "fork_world \<Rightarrow> (nat \<Rightarrow> 'tx) \<Rightarrow> (bool, string) rust_result \<Rightarrow> int \<Rightarrow> nat \<Rightarrow> thread_id \<Rightarrow> 'tx engine_inner \<Rightarrow>
     (resume_reply, resume_error) rust_result \<times> 'tx engine_inner \<times>
     (permission_request_id \<times> request_context) list" where
  "resume_thread w new_tx get_thread now ack tid e =
     (if \<not> ei_storage e then (Inl StorageUnavailable, e, [])
      else (case get_thread of
              Inl msg \<Rightarrow> (Inl (ReplayFailed msg), e, [])
            | Inr False \<Rightarrow> (Inl ThreadNotFound, e, [])
            | Inr True \<Rightarrow>
                (if ei_phase e \<noteq> Idle then (Inl (resume_error.EngineBusy (ei_phase e)), e, [])
                 else (let e1 = enqueue_storage_op (storage_write_op.Flush tid (Some ack)) e
                       in case read_rollout_turns w of
                            Inl err \<Rightarrow> (Inl err, e1, [])
                          | Inr (turns, pending) \<Rightarrow>
                              (let (h0, store) = get_or_init tid (ei_threads e1);
                                   h1 = seed_history now turns h0;
                                   h2 = h1\<lparr>hd_status := thread_status.Idle\<rparr>;
                                   (tasks, e2) = restore_pending new_tx 0 pending
                                                   (e1\<lparr>ei_threads := store\<rparr>)
                               in (Inr \<lparr>rr_thread_id = tid,
                                       rr_items_restored = saturating_sum (map (\<lambda>t. length (snd t)) turns),
                                       rr_turns_restored = u32_of_len (length turns)\<rparr>,
                                   put_handle tid h2 e2, tasks))))))"

section \<open>What is restored\<close>

text \<open>Turns are read back in the order of their first item, and no turn twice.\<close>

definition reading_ok :: "reading \<Rightarrow> bool" where
  "reading_ok r \<longleftrightarrow> distinct (rd_order r) \<and> dom (rd_by_turn r) = set (rd_order r)"

lemma read_entry_ok: "reading_ok r \<Longrightarrow> reading_ok (read_entry entry r)"
  by (cases entry) (auto simp: reading_ok_def Let_def split: option.splits sum.splits)

lemma fold_read_ok: "reading_ok r \<Longrightarrow> reading_ok (fold read_entry es r)"
  by (induction es arbitrary: r) (auto intro: read_entry_ok)

lemma read_start_ok: "reading_ok read_start"
  by (simp add: reading_ok_def read_start_def)

text \<open>A file whose turns are contiguous is read back turn by turn.\<close>

definition turn_entries :: "string \<Rightarrow> int \<Rightarrow> turn_id \<times> item list \<Rightarrow> rollout_entry list" where
  "turn_entries thread ts turn = map (rollout_entry.Item thread (turn_id_str (fst turn)) ts) (snd turn)"

lemma read_turn_more:
  "rd_by_turn r tid = Some its \<Longrightarrow>
   fold read_entry (map (rollout_entry.Item thread (turn_id_str tid) ts) its') r =
     r\<lparr>rd_by_turn := (rd_by_turn r)(tid \<mapsto> its @ its')\<rparr>"
proof (induction its' arbitrary: r its)
  case (Cons it its')
  have "read_entry (rollout_entry.Item thread (turn_id_str tid) ts it) r =
        r\<lparr>rd_by_turn := (rd_by_turn r)(tid \<mapsto> its @ [it])\<rparr>"
    using Cons.prems by simp
  with Cons.IH [of "r\<lparr>rd_by_turn := (rd_by_turn r)(tid \<mapsto> its @ [it])\<rparr>" "its @ [it]"]
    Cons.prems show ?case by (simp del: fun_upd_apply add: fun_upd_same)
qed (simp add: fun_upd_idem)

lemma read_turn_new:
  "rd_by_turn r (fst turn) = None \<Longrightarrow> snd turn \<noteq> [] \<Longrightarrow>
   fold read_entry (turn_entries thread ts turn) r =
     r\<lparr>rd_order := rd_order r @ [fst turn], rd_by_turn := (rd_by_turn r)(fst turn \<mapsto> snd turn)\<rparr>"
proof -
  assume new: "rd_by_turn r (fst turn) = None" and ne: "snd turn \<noteq> []"
  obtain it its where its: "snd turn = it # its" using ne by (cases "snd turn") auto
  let ?r = "r\<lparr>rd_order := rd_order r @ [fst turn], rd_by_turn := (rd_by_turn r)(fst turn \<mapsto> [it])\<rparr>"
  have "fold read_entry (turn_entries thread ts turn) r =
        fold read_entry (map (rollout_entry.Item thread (turn_id_str (fst turn)) ts) its) ?r"
    using new by (simp add: turn_entries_def its Let_def)
  also have "\<dots> = ?r\<lparr>rd_by_turn := (rd_by_turn ?r)(fst turn \<mapsto> [it] @ its)\<rparr>"
    by (rule read_turn_more) simp
  finally show "fold read_entry (turn_entries thread ts turn) r =
     r\<lparr>rd_order := rd_order r @ [fst turn], rd_by_turn := (rd_by_turn r)(fst turn \<mapsto> snd turn)\<rparr>"
    using its by simp
qed

lemma read_turns:
  assumes "distinct (map fst turns)" "list_all (\<lambda>t. snd t \<noteq> []) turns"
    and "\<forall>t \<in> set turns. rd_by_turn r (fst t) = None" "reading_ok r"
  shows "turns_of (fold read_entry (concat (map (turn_entries thread ts) turns)) r) = turns_of r @ turns \<and>
         rd_pending (fold read_entry (concat (map (turn_entries thread ts) turns)) r) = rd_pending r"
  using assms
proof (induction turns arbitrary: r)
  case (Cons t turns)
  let ?r = "r\<lparr>rd_order := rd_order r @ [fst t], rd_by_turn := (rd_by_turn r)(fst t \<mapsto> snd t)\<rparr>"
  have "reading_ok ?r" using Cons.prems by (auto simp: reading_ok_def)
  moreover have "fst t \<notin> set (rd_order r)" using Cons.prems by (auto simp: reading_ok_def)
  then have "turns_of ?r = turns_of r @ [t]" by (auto simp: turns_of_def)
  moreover have "\<forall>u \<in> set turns. rd_by_turn ?r (fst u) = None" using Cons.prems by (force simp: image_iff)
  ultimately show ?case
    using Cons.IH [of ?r] Cons.prems read_turn_new [of r t thread ts] by (simp add: fold_append)
qed simp

text \<open>Seeding appends the items of every turn to what the handle already held.\<close>

lemma seed_turn_fields:
  "hd_id (seed_turn now t h) = hd_id h" "hd_active_turn (seed_turn now t h) = hd_active_turn h"
  "hd_parent (seed_turn now t h) = hd_parent h" "hd_status (seed_turn now t h) = hd_status h"
  by (simp_all add: seed_turn_def frame_simps)

lemma seed_turn_inv:
  "handle_inv h \<Longrightarrow> hd_active_turn h = None \<Longrightarrow> handle_inv (seed_turn now t h)"
  unfolding seed_turn_def by (rule seeded_turn_inv)

lemma seed_history_fields:
  "hd_id (seed_history now ts h) = hd_id h" "hd_active_turn (seed_history now ts h) = hd_active_turn h"
  "hd_parent (seed_history now ts h) = hd_parent h" "hd_status (seed_history now ts h) = hd_status h"
  by (induction ts arbitrary: h) (simp_all add: seed_history_def seed_turn_fields)

lemma seed_history_inv:
  "handle_inv h \<Longrightarrow> hd_active_turn h = None \<Longrightarrow> handle_inv (seed_history now ts h)"
  by (induction ts arbitrary: h) (simp_all add: seed_history_def seed_turn_inv seed_turn_fields)

lemma seed_turn_items:
  assumes "hb_active (hd_history h) = None"
    and "resident (hb_completed (hd_history h)) < hb_in_memory_turn_cap (hd_history h)"
  shows "hb_active (hd_history (seed_turn now t h)) = None"
    and "items_snapshot (seed_turn now t h) = items_snapshot h @ snd t"
    and "resident (hb_completed (hd_history (seed_turn now t h))) = Suc (resident (hb_completed (hd_history h)))"
    and "hb_in_memory_turn_cap (hd_history (seed_turn now t h)) = hb_in_memory_turn_cap (hd_history h)"
proof -
  obtain T where T: "hb_active (hd_history (start_turn_buffer (fst t) now h)) = Some T"
    "t_items T = []" "loaded T"
    using assms(1) by (auto simp: start_turn_buffer_def Turn_Buffer.start_turn_def loaded_def)
  have c: "hd_history (start_turn_buffer (fst t) now h) = (hd_history h)\<lparr>hb_active := Some T\<rparr>"
    using assms(1) T by (auto simp: start_turn_buffer_def Turn_Buffer.start_turn_def)
  note simps = seed_turn_def items_snapshot_def frame_simps fold_push_history [OF T(1)]
    Turn_Buffer.finish_turn_def enforce_cap_def iter_items_def Let_def c resident_def
  have r: "resident (hb_completed (hd_history h) @ [x]) \<le> hb_in_memory_turn_cap (hd_history h)" for x
    using assms(2) by (simp add: resident_def)
  show "hb_active (hd_history (seed_turn now t h)) = None"
    and "items_snapshot (seed_turn now t h) = items_snapshot h @ snd t"
    and "resident (hb_completed (hd_history (seed_turn now t h))) = Suc (resident (hb_completed (hd_history h)))"
    and "hb_in_memory_turn_cap (hd_history (seed_turn now t h)) = hb_in_memory_turn_cap (hd_history h)"
    using assms r T by (simp_all add: simps loaded_def)
qed

lemma seed_history_items:
  assumes "hb_active (hd_history h) = None"
    and "resident (hb_completed (hd_history h)) + length turns \<le> hb_in_memory_turn_cap (hd_history h)"
  shows "items_snapshot (seed_history now turns h) = items_snapshot h @ concat (map snd turns)"
  using assms
proof (induction turns arbitrary: h)
  case (Cons t turns)
  then have room: "resident (hb_completed (hd_history h)) < hb_in_memory_turn_cap (hd_history h)" by simp
  note st = seed_turn_items [OF Cons.prems(1) room, of now t]
  have "items_snapshot (seed_history now turns (seed_turn now t h)) =
        items_snapshot (seed_turn now t h) @ concat (map snd turns)"
    by (rule Cons.IH) (use st Cons.prems in simp_all)
  with st show ?case by (simp add: seed_history_def)
qed (simp add: seed_history_def)

lemma restore_pending_fields [frame_simps]:
  "ei_threads (snd (restore_pending new_tx i ps e)) = ei_threads e"
  "ei_phase (snd (restore_pending new_tx i ps e)) = ei_phase e"
  "ei_turn_counter (snd (restore_pending new_tx i ps e)) = ei_turn_counter e"
  "ei_cancel_tree (snd (restore_pending new_tx i ps e)) = ei_cancel_tree e"
  by (induction new_tx i ps e rule: restore_pending.induct) (simp_all add: Let_def case_prod_beta frame_simps)

lemma resume_thread_fields:
  "ei_phase (fst (snd (resume_thread w new_tx g now ack tid e))) = ei_phase e"
  "ei_turn_counter (fst (snd (resume_thread w new_tx g now ack tid e))) = ei_turn_counter e"
  "ei_cancel_tree (fst (snd (resume_thread w new_tx g now ack tid e))) = ei_cancel_tree e"
  by (auto simp: resume_thread_def Let_def case_prod_beta frame_simps split: sum.split bool.split)

lemma resume_thread_threads:
  "ei_threads (fst (snd (resume_thread w new_tx g now ack tid e))) = ei_threads e \<or>
   ei_phase e = Idle \<and>
   (\<exists>turns. ei_threads (fst (snd (resume_thread w new_tx g now ack tid e))) =
      (ei_threads e)(tid \<mapsto> (seed_history now turns (handle_of tid e))\<lparr>hd_status := thread_status.Idle\<rparr>))"
  by (auto simp: resume_thread_def Let_def case_prod_beta frame_simps handle_of_def get_or_init_put
           split: sum.split bool.split)

section \<open>Properties\<close>

lemma read_rollout_written:
  assumes "serde_ok to_vec (fw_from_str w) es" "fw_file w = Some (written to_vec es)"
  shows "read_rollout_turns w =
           Inr (turns_of (fold read_entry es read_start), map snd (rd_pending (fold read_entry es read_start)))"
  using split_written [OF assms(1), of "[]"] read_tolerant_written [OF assms(1), of 0 "[]" "[]"]
  by (simp add: read_rollout_turns_def read_all_tolerant_def assms(2) Let_def)

lemma resume_result:
  assumes "ei_storage e" "ei_phase e = Idle" "read_rollout_turns w = Inr (turns, pending)"
  shows "fst (resume_thread w new_tx (Inr True) now ack tid e) =
           Inr \<lparr>rr_thread_id = tid, rr_items_restored = saturating_sum (map (\<lambda>t. length (snd t)) turns),
                rr_turns_restored = u32_of_len (length turns)\<rparr>"
    and "ei_threads (fst (snd (resume_thread w new_tx (Inr True) now ack tid e))) =
           (ei_threads e)(tid \<mapsto> (seed_history now turns (handle_of tid e))\<lparr>hd_status := thread_status.Idle\<rparr>)"
    and "ei_phase (fst (snd (resume_thread w new_tx (Inr True) now ack tid e))) = Idle"
    and "ei_storage (fst (snd (resume_thread w new_tx (Inr True) now ack tid e)))"
proof -
  have put: "ei_storage (put_handle t h x) = ei_storage x" for t h x by (simp add: put_handle_def)
  have st: "ei_storage (snd (restore_pending new_tx i ps x)) = ei_storage x" for i ps x
    by (induction new_tx i ps x rule: restore_pending.induct) (simp_all add: Let_def case_prod_beta frame_simps send_def)
  show "fst (resume_thread w new_tx (Inr True) now ack tid e) =
           Inr \<lparr>rr_thread_id = tid, rr_items_restored = saturating_sum (map (\<lambda>t. length (snd t)) turns),
                rr_turns_restored = u32_of_len (length turns)\<rparr>"
    and "ei_threads (fst (snd (resume_thread w new_tx (Inr True) now ack tid e))) =
           (ei_threads e)(tid \<mapsto> (seed_history now turns (handle_of tid e))\<lparr>hd_status := thread_status.Idle\<rparr>)"
    and "ei_phase (fst (snd (resume_thread w new_tx (Inr True) now ack tid e))) = Idle"
    and "ei_storage (fst (snd (resume_thread w new_tx (Inr True) now ack tid e)))"
    using assms
    by (auto simp: resume_thread_def Let_def case_prod_beta frame_simps handle_of_def get_or_init_put st put)
qed

lemma new_idle_history:
  "hb_active (hd_history (new_idle tid)) = None" "resident (hb_completed (hd_history (new_idle tid))) = 0"
  "hb_in_memory_turn_cap (hd_history (new_idle tid)) = 50" "items_snapshot (new_idle tid) = []"
  by (simp_all add: new_idle_def with_capacity_def with_cap_def IN_MEMORY_TURN_CAP_def resident_def
                    items_snapshot_def iter_items_def)

lemma snapshot_status [simp]: "items_snapshot (h\<lparr>hd_status := s\<rparr>) = items_snapshot h"
  by (simp add: items_snapshot_def)

lemma handle_of_None: "ei_threads e tid = None \<Longrightarrow> handle_of tid e = new_idle tid"
  "ei_threads e tid = Some h \<Longrightarrow> handle_of tid e = h"
  by (simp_all add: handle_of_def get_or_init_def Let_def)


definition one_header :: rollout_entry where
  "one_header = Session 1 ''t'' 0 ''/'' None None None"

definition two_to_vec :: "rollout_entry \<Rightarrow> string" where
  "two_to_vec e = (if e = one_header then ''h'' else ''x'')"

definition two_from_str :: "string \<Rightarrow> string + rollout_entry" where
  "two_from_str s = (if s = ''h'' then Inr one_header else if s = ''x'' then Inr one_entry else Inl ''torn'')"

definition one_turn :: "(turn_id \<times> item list) list" where
  "one_turn = [(TurnId ''u'', [UserMessage (ItemId ''i'') []])]"

lemma blank_h: "\<not> blank ''h''"
  by (simp add: blank_def trim_def trim_chars_def is_whitespace_def is_continuation_def Let_def)

lemma two_serde:
  "serde_ok two_to_vec two_from_str (one_header # concat (map (turn_entries ''t'' 0) one_turn))"
  by (simp add: serde_ok_def one_turn_def turn_entries_def two_to_vec_def two_from_str_def blank_x blank_h
                one_header_def one_entry_def newline_def carriage_return_def strip_cr_def)

definition two_world :: fork_world where
  "two_world =
     \<lparr>fw_file = Some (written two_to_vec (one_header # concat (map (turn_entries ''t'' 0) one_turn)) @ ''{''),
      fw_from_str = two_from_str, fw_os_text = [], fw_do_stream = (\<lambda>_. Inr []), fw_instruction = []\<rparr>"


text \<open>
  resuming a thread that is already resident is not idempotent: the turns of the file are appended
  to the transcript in memory once more.
\<close>

theorem second_resume_duplicates:
  assumes "read_rollout_turns w = Inr (turns, pending)" "2 * length turns \<le> 50"
    and "ei_storage e" "ei_phase e = Idle" "ei_threads e tid = None"
  shows "items_snapshot (the (ei_threads
           (fst (snd (resume_thread w new_tx (Inr True) now' ack' tid
              (fst (snd (resume_thread w new_tx (Inr True) now ack tid e)))))) tid)) =
         concat (map snd turns) @ concat (map snd turns)"
proof -
  let ?e1 = "fst (snd (resume_thread w new_tx (Inr True) now ack tid e))"
  let ?h1 = "(seed_history now turns (new_idle tid))\<lparr>hd_status := thread_status.Idle\<rparr>"
  note r1 = resume_result [OF assms(3,4,1), of new_tx now ack tid]
  note r2 = resume_result [OF r1(4,3) assms(1), of new_tx now' ack' tid]
  have seeded: "hb_active (hd_history (seed_history n ts h)) = None \<and>
      resident (hb_completed (hd_history (seed_history n ts h))) = resident (hb_completed (hd_history h)) + length ts \<and>
      hb_in_memory_turn_cap (hd_history (seed_history n ts h)) = hb_in_memory_turn_cap (hd_history h)"
    if "hb_active (hd_history h) = None" "resident (hb_completed (hd_history h)) + length ts \<le> hb_in_memory_turn_cap (hd_history h)"
    for n ts h
    using that
  proof (induction ts arbitrary: h)
    case (Cons t ts)
    then have room: "resident (hb_completed (hd_history h)) < hb_in_memory_turn_cap (hd_history h)" by simp
    note st = seed_turn_items [OF Cons.prems(1) room, of n t]
    have "resident (hb_completed (hd_history (seed_turn n t h))) + length ts \<le> hb_in_memory_turn_cap (hd_history (seed_turn n t h))"
      using st Cons.prems by simp
    from Cons.IH [OF st(1) this] st show ?case by (simp add: seed_history_def)
  qed (simp add: seed_history_def)
  have s1: "items_snapshot (seed_history now turns (new_idle tid)) = concat (map snd turns)"
    using seed_history_items [of "new_idle tid" turns now] assms(2) by (simp add: new_idle_history)
  have "items_snapshot (seed_history now' turns ?h1) = items_snapshot ?h1 @ concat (map snd turns)"
    using seeded [of "new_idle tid" turns now] assms(2)
    by (intro seed_history_items) (simp_all add: new_idle_history)
  then show ?thesis
    using r1(2) r2(2) s1 by (simp add: handle_of_None(1) [OF assms(5)] handle_of_None(2))
qed

theorem second_resume_duplicates_witness:
  "items_snapshot (the (ei_threads
     (fst (snd (resume_thread two_world (\<lambda>_. ()) (Inr True) 2 0 (ThreadId ''t'')
        (fst (snd (resume_thread two_world (\<lambda>_. ()) (Inr True) 1 0 (ThreadId ''t'') storage_engine)))))) (ThreadId ''t''))) =
   [UserMessage (ItemId ''i'') [], UserMessage (ItemId ''i'') []]"
proof -
  have "turns_of (fold read_entry (one_header # concat (map (turn_entries ''t'' 0) one_turn)) read_start) = one_turn"
    by (simp add: one_header_def one_turn_def turn_entries_def read_start_def turns_of_def Let_def)
  moreover have "two_from_str ''{'' = Inl ''torn''" by (simp add: two_from_str_def)
  ultimately obtain pending where "read_rollout_turns two_world = Inr (one_turn, pending)"
    using read_tolerant_torn [OF two_serde, of "''{''" "''torn''"]
    by (simp add: read_rollout_turns_def two_world_def newline_def Let_def)
  note rd = this
  have e: "ei_storage storage_engine" "ei_phase storage_engine = Idle" "ei_threads storage_engine (ThreadId ''t'') = None"
    by (simp_all add: storage_engine_def plain_engine_def engine_new_def)
  from second_resume_duplicates [OF rd _ e] show ?thesis by (simp add: one_turn_def)
qed

text \<open>
  every permission request still open in the file is pending again after a resume, under its old
  number and with its context, and a task waits for its answer.
\<close>

theorem resume_reopens_requests:
  assumes "read_rollout_turns w = Inr (turns, pending)" "distinct (map rs_key pending)" "p \<in> set pending"
    and "ei_storage e" "ei_phase e = Idle"
    and "resume_thread w new_tx (Inr True) now ack tid e = (r, e', tasks)"
  shows "map_option pe_context (pp_lookup (pr_pending (ei_permission e')) (rs_key p)) = Some (Some (rs_context p)) \<and>
         (to_wire (rs_key p), rs_context p) \<in> set tasks"
proof -
  let ?look = "\<lambda>x. pp_lookup (pr_pending (ei_permission x))"
  have step: "?look (snd (restore_pending new_tx i (q # qs) x)) =
      ?look (snd (restore_pending new_tx (Suc i) qs
        (send (TurnSuspended (rc_thread_id (rs_context q)) (rc_turn_id (rs_context q)) (to_wire (rs_key q)) (Some resumed_reason))
          (send (PermissionRequested (to_wire (rs_key q)) (rs_request q))
            (x\<lparr>ei_permission := reinstate_for_resume (rs_key q) (new_tx i) (rs_context q) (ei_permission x)\<rparr>)))))"
    for i q qs x by (simp add: Let_def case_prod_beta)
  have keep: "?look (snd (restore_pending new_tx i ps x)) k = ?look x k" if "k \<notin> rs_key ` set ps" for i ps x k
    using that
  proof (induction ps arbitrary: i x)
    case (Cons q qs)
    then show ?case
      by (simp add: step frame_simps reinstate_for_resume_def reinstate_lookup
               del: restore_pending.simps)
  qed simp
  have set: "map_option pe_context (?look (snd (restore_pending new_tx i ps x)) (rs_key p)) =
               Some (Some (rs_context p)) \<and> (to_wire (rs_key p), rs_context p) \<in> set (fst (restore_pending new_tx i ps x))"
    if "distinct (map rs_key ps)" "p \<in> set ps" for i ps x
    using that
  proof (induction ps arbitrary: i x)
    case (Cons q qs)
    have tasks: "fst (restore_pending new_tx i (q # qs) x) = (to_wire (rs_key q), rs_context q) # 
        fst (restore_pending new_tx (Suc i) qs
        (send (TurnSuspended (rc_thread_id (rs_context q)) (rc_turn_id (rs_context q)) (to_wire (rs_key q)) (Some resumed_reason))
          (send (PermissionRequested (to_wire (rs_key q)) (rs_request q))
            (x\<lparr>ei_permission := reinstate_for_resume (rs_key q) (new_tx i) (rs_context q) (ei_permission x)\<rparr>))))"
      by (simp add: Let_def case_prod_beta)
    show ?case
    proof (cases "p = q")
      case True
      with Cons.prems have "rs_key p \<notin> rs_key ` set qs" by auto
      with True show ?thesis
        by (simp add: step tasks keep frame_simps reinstate_for_resume_def reinstate_lookup
                 del: restore_pending.simps)
    next
      case False
      with Cons show ?thesis by (simp add: step tasks del: restore_pending.simps)
    qed
  qed simp
  show ?thesis
    using set [OF assms(2,3)] assms(1,4-6)
    by (auto simp: resume_thread_def Let_def case_prod_beta frame_simps)
qed

definition bash_request :: request_permission_request where
  "bash_request =
     \<lparr>rp_thread_id = ThreadId ''t'', rp_resource_type = ''tool'', rp_name = ''bash'', rp_reason = [],
      rp_options = [], rp_tool_call_id = None\<rparr>"

definition open_request :: rollout_entry where
  "open_request = PendingPermission ''t'' ''u'' 0 (WIRE_PREFIX @ show_nat (unat (4 :: u64))) bash_request"

definition pending_world :: fork_world where
  "pending_world =
     \<lparr>fw_file = Some (written (\<lambda>_. ''x'') [open_request]), fw_from_str = (\<lambda>_. Inr open_request), fw_os_text = [],
      fw_do_stream = (\<lambda>_. Inr []), fw_instruction = []\<rparr>"

definition open_pending :: restored_pending where
  "open_pending = \<lparr>rs_key = RequestKey 4, rs_context = \<lparr>rc_thread_id = ThreadId ''t'', rc_turn_id = TurnId ''u''\<rparr>,
     rs_request = bash_request\<rparr>"

lemma read_pending: "read_rollout_turns pending_world = Inr ([], [open_pending])"
proof -
  have w: "fw_from_str pending_world = (\<lambda>_. Inr open_request)"
    "fw_file pending_world = Some (written (\<lambda>_. ''x'') [open_request])"
    by (simp_all only: pending_world_def fork_world.simps)
  have "serde_ok (\<lambda>_. ''x'') (fw_from_str pending_world) [open_request]"
    by (simp add: w(1) serde_ok_def blank_x newline_def carriage_return_def strip_cr_def)
  from read_rollout_written [OF this w(2)] show ?thesis
    using from_wire_to_wire [of "RequestKey 4"]
    by (simp add: read_start_def open_request_def to_wire_def turns_of_def open_pending_def)
qed

theorem resume_reopens_requests_witness:
  "map_option pe_context (pp_lookup (pr_pending (ei_permission
     (fst (snd (resume_thread pending_world (\<lambda>_. ()) (Inr True) 1 0 (ThreadId ''t'') storage_engine))))) (RequestKey 4)) =
   Some (Some \<lparr>rc_thread_id = ThreadId ''t'', rc_turn_id = TurnId ''u''\<rparr>)"
proof -
  obtain r e' tasks where r: "resume_thread pending_world (\<lambda>_. ()) (Inr True) 1 0 (ThreadId ''t'') storage_engine = (r, e', tasks)"
    by (metis prod_cases3)
  have e: "ei_storage storage_engine" "ei_phase storage_engine = Idle"
    by (simp_all add: storage_engine_def plain_engine_def engine_new_def)
  from resume_reopens_requests [OF read_pending _ _ e r, of open_pending] show ?thesis
    by (simp add: r) (simp add: open_pending_def)
qed

end
