(* ===== verification/Restore.thy ===== *)
theory Restore
  imports Resume
begin

text \<open>
  Reverting to a checkpoint (\<open>zhive-core/src/engine/restore.rs\<close>). The snapshot repository (git) and
  the SQL index are not the program's own code: their answers are the fields of a world record.
\<close>

datatype restore_reply = Restored thread_id u32 u32 u32

datatype restore_error =
    Unavailable
  | CheckpointNotFound
  | EngineBusy engine_phase
  | SnapshotFailed string
  | ReplayFailed string

datatype rewind_bound = UpTo item_id | ToStart | All

fun phase_debug :: "engine_phase \<Rightarrow> string" where
  "phase_debug Idle = ''Idle''"
| "phase_debug Turn = ''Turn''"
| "phase_debug engine_phase.Compaction = ''Compaction''"
| "phase_debug BranchSummary = ''BranchSummary''"
| "phase_debug Retry = ''Retry''"
| "phase_debug engine_phase.Restore = ''Restore''"

fun fork_error_text :: "fork_error \<Rightarrow> string" where
  "fork_error_text SourceNotFound = ''source thread not found (no history to fork)''"
| "fork_error_text (fork_error.EngineBusy current) =
     ''engine busy (phase '' @ phase_debug current @ ''); fork requires Idle''"
| "fork_error_text (fork_error.ReplayFailed message) = ''fork replay failed: '' @ message"
| "fork_error_text (fork_error.SummarizationFailed message) = ''branch summary failed: '' @ message"

section \<open>Which turn an item belongs to\<close>

definition rsplit_once :: "char \<Rightarrow> string \<Rightarrow> (string \<times> string) option" where
  "rsplit_once c s =
     (if c \<in> set s
      then Some (rev (tl (dropWhile (\<lambda>x. x \<noteq> c) (rev s))), rev (takeWhile (\<lambda>x. x \<noteq> c) (rev s)))
      else None)"

definition turn_of_item :: "item_id \<Rightarrow> string option" where
  "turn_of_item i =
     (case strip_prefix ''item:'' (item_id_str i) of
        None \<Rightarrow> None
      | Some body \<Rightarrow>
          (case rsplit_once (CHR 0x2F) body of
             None \<Rightarrow> None
           | Some (turn, seq) \<Rightarrow> (if turn = [] then None else Some turn)))"

text \<open>The loop of \<open>boundary_before_turn\<close>.\<close>

fun boundary_loop :: "turn_id \<Rightarrow> item_id option \<Rightarrow> rollout_entry list \<Rightarrow> rewind_bound" where
  "boundary_loop target last_before [] = rewind_bound.All"
| "boundary_loop target last_before (entry # rest) =
     (case entry of
        rollout_entry.Item _ _ _ it \<Rightarrow>
          (if turn_of_item (item_id_of it) = Some (turn_id_str target)
           then (case last_before of Some i \<Rightarrow> rewind_bound.UpTo i | None \<Rightarrow> ToStart)
           else boundary_loop target (Some (item_id_of it)) rest)
      | _ \<Rightarrow> boundary_loop target last_before rest)"

definition boundary_before_turn :: "fork_world \<Rightarrow> turn_id \<Rightarrow> rewind_bound" where
  "boundary_before_turn w target =
     (case read_all_tolerant (fw_from_str w) (fw_file w) of
        Inl _ \<Rightarrow> rewind_bound.All
      | Inr entries \<Rightarrow> boundary_loop target None entries)"

fun kept_loop :: "turn_id \<Rightarrow> rollout_entry list \<Rightarrow> string set" where
  "kept_loop target [] = {}"
| "kept_loop target (entry # rest) =
     (case entry of
        rollout_entry.Item _ _ _ it \<Rightarrow>
          (case turn_of_item (item_id_of it) of
             Some turn \<Rightarrow>
               (if turn = turn_id_str target then {} else insert turn (kept_loop target rest))
           | None \<Rightarrow> kept_loop target rest)
      | _ \<Rightarrow> kept_loop target rest)"

definition kept_turns_before :: "fork_world \<Rightarrow> turn_id \<Rightarrow> string set" where
  "kept_turns_before w target =
     (case read_all_tolerant (fw_from_str w) (fw_file w) of
        Inl _ \<Rightarrow> {}
      | Inr entries \<Rightarrow> kept_loop target entries)"

section \<open>Checkpoints\<close>

text \<open>
  \<open>capture_turn_snapshot\<close>: the repository may be missing, and its tree is there only when tracking
  succeeded in time.
\<close>

definition capture_turn_snapshot ::
    "string option option \<Rightarrow> int \<Rightarrow> thread_id \<Rightarrow> turn_id \<Rightarrow> string \<Rightarrow> 'tx engine_inner \<Rightarrow> 'tx engine_inner" where
  "capture_turn_snapshot repo now tid turn preview e =
     (case repo of
        None \<Rightarrow> e
      | Some None \<Rightarrow> e
      | Some (Some tree) \<Rightarrow> enqueue_storage_op (storage_write_op.Snapshot tid turn now tree preview) e)"

text \<open>\<open>list_checkpoints\<close>: \<open>changed\<close> is the repository's count of changed files, if it answers.\<close>

definition list_checkpoints ::
    "bool \<Rightarrow> (checkpoint list, string) rust_result \<Rightarrow> (string \<Rightarrow> nat option) option \<Rightarrow>
     (checkpoint list, string option) rust_result" where
  "list_checkpoints storage rows changed =
     (if \<not> storage then Inl None
      else (case rows of
              Inl msg \<Rightarrow> Inl (Some msg)
            | Inr cps \<Rightarrow>
                (case changed of
                   None \<Rightarrow> Inr cps
                 | Some f \<Rightarrow>
                     Inr (map (\<lambda>cp. case f (cp_tree cp) of
                                      Some n \<Rightarrow> cp\<lparr>cp_files_changed := u32_of_len n\<rparr>
                                    | None \<Rightarrow> cp) cps))))"

fun copy_checkpoints :: "int \<Rightarrow> thread_id \<Rightarrow> string set \<Rightarrow> checkpoint list \<Rightarrow> 'tx engine_inner \<Rightarrow> 'tx engine_inner" where
  "copy_checkpoints now new kept [] e = e"
| "copy_checkpoints now new kept (cp # cps) e =
     (if turn_id_str (cp_turn_id cp) \<notin> kept then copy_checkpoints now new kept cps e
      else copy_checkpoints now new kept cps
             (enqueue_storage_op
               (storage_write_op.Snapshot new (cp_turn_id cp) now (cp_tree cp) (cp_preview cp)) e))"

definition copy_checkpoints_to_fork ::
    "fork_world \<Rightarrow> (checkpoint list, string) rust_result \<Rightarrow> int \<Rightarrow> thread_id \<Rightarrow> turn_id \<Rightarrow>
     'tx engine_inner \<Rightarrow> 'tx engine_inner" where
  "copy_checkpoints_to_fork w rows now new target e =
     (let kept = kept_turns_before w target
      in if kept = {} then e
         else (case rows of Inl _ \<Rightarrow> e | Inr cps \<Rightarrow> copy_checkpoints now new kept cps e))"

section \<open>The restore\<close>

record restore_world =
  rw_fork :: fork_world
  rw_repo :: bool
  rw_snapshot_tree :: "(string option, string) rust_result"
  rw_restore_to :: "string \<Rightarrow> (nat \<times> nat, string) rust_result"
  rw_checkpoints :: "(checkpoint list, string) rust_result"

definition leave_restore :: "thread_id \<Rightarrow> 'tx engine_inner \<Rightarrow> 'tx engine_inner" where
  "leave_restore tid e = set_phase_broadcast tid engine_phase.Restore Idle e"

definition restore_to_checkpoint ::
    "restore_world \<Rightarrow> int \<Rightarrow> nat \<Rightarrow> thread_id \<Rightarrow> turn_id \<Rightarrow> 'tx engine_inner \<Rightarrow>
     (restore_reply, restore_error) rust_result \<times> 'tx engine_inner" where
  "restore_to_checkpoint w now ack tid target e =
     (if \<not> ei_storage e \<or> \<not> rw_repo w then (Inl Unavailable, e)
      else (case rw_snapshot_tree w of
              Inl msg \<Rightarrow> (Inl (SnapshotFailed msg), e)
            | Inr None \<Rightarrow> (Inl CheckpointNotFound, e)
            | Inr (Some target_tree) \<Rightarrow>
                (let boundary = boundary_before_turn (rw_fork w) target
                 in case set_phase Idle engine_phase.Restore e of
                      (Inl err, e1) \<Rightarrow> (Inl (restore_error.EngineBusy (actual err)), e1)
                    | (Inr _, e1) \<Rightarrow>
                        (let e2 = send (PhaseChanged (Some tid) Idle engine_phase.Restore) e1;
                             e3 = enqueue_storage_op (storage_write_op.Flush tid (Some ack)) e2;
                             outcome = rw_restore_to w target_tree;
                             e4 = leave_restore tid e3
                         in case outcome of
                              Inl msg \<Rightarrow> (Inl (SnapshotFailed msg), e4)
                            | Inr (n_reverted, n_deleted) \<Rightarrow>
                                (let (fork, e5) =
                                       (case boundary of
                                          rewind_bound.UpTo i \<Rightarrow> fork_thread (rw_fork w) now ack tid (Some i) False e4
                                        | ToStart \<Rightarrow> fork_thread_to_start (rw_fork w) now ack tid e4
                                        | rewind_bound.All \<Rightarrow> fork_thread (rw_fork w) now ack tid None False e4)
                                 in case fork of
                                      Inl err \<Rightarrow> (Inl (restore_error.ReplayFailed (fork_error_text err)), e5)
                                    | Inr (Forked new items_replayed _) \<Rightarrow>
                                        (let e6 = copy_checkpoints_to_fork (rw_fork w) (rw_checkpoints w) now new target e5;
                                             e7 = enqueue_storage_op (storage_write_op.Flush new (Some ack)) e6;
                                             reverted = u32_of_len n_reverted;
                                             deleted = u32_of_len n_deleted
                                         in (Inr (Restored new reverted deleted items_replayed),
                                             send (engine_event.Restored tid new reverted deleted) e7)))))))"

section \<open>Facts\<close>

lemma show_nat_no_slash: "CHR 0x2F \<notin> set (show_nat n)"
proof
  assume "CHR 0x2F \<in> set (show_nat n)"
  then obtain d where "d < 10" "CHR 0x2F = digit_char d" using show_nat_digits by blast
  then have "digit_val (CHR 0x2F) = Some d" by (simp only: digit_val_digit_char)
  then show False by (simp add: digit_val_def)
qed

lemma rsplit_once_last: "c \<notin> set t \<Longrightarrow> rsplit_once c (s @ c # t) = Some (s, t)"
proof -
  assume "c \<notin> set t"
  then have "\<forall>x\<in>set (rev t). x \<noteq> c" by auto
  then have "takeWhile (\<lambda>x. x \<noteq> c) (rev t @ c # rev s) = rev t"
    and "dropWhile (\<lambda>x. x \<noteq> c) (rev t @ c # rev s) = c # rev s"
    by (simp_all add: takeWhile_tail dropWhile_append)
  then show ?thesis by (simp add: rsplit_once_def)
qed

text \<open>Every item a turn records knows its turn.\<close>

lemma turn_of_seeded: "turn_id_str turn \<noteq> [] \<Longrightarrow> turn_of_item (seeded_id turn n) = Some (turn_id_str turn)"
proof -
  assume "turn_id_str turn \<noteq> []"
  moreover have "item_id_str (seeded_id turn n) = ''item:'' @ (turn_id_str turn @ CHR 0x2F # show_nat n)"
    by (simp add: seeded_id_def)
  ultimately show ?thesis
    by (simp only: turn_of_item_def strip_prefix_append option.case
                   rsplit_once_last [OF show_nat_no_slash] prod.case if_False)
qed

text \<open>
  The boundary and the replay fit together: the items replayed up to the boundary are those before
  the first item of the target turn.
\<close>

lemma boundary_loop_prefix:
  assumes "\<forall>it \<in> set (entry_items pre). turn_of_item (item_id_of it) \<noteq> Some (turn_id_str target)"
    and "turn_of_item (item_id_of it) = Some (turn_id_str target)"
  shows "boundary_loop target last_before (pre @ rollout_entry.Item a b c it # post) =
           (case (if entry_items pre = [] then last_before
                  else Some (item_id_of (last (entry_items pre)))) of
              Some i \<Rightarrow> rewind_bound.UpTo i | None \<Rightarrow> ToStart)"
  using assms
  by (induction pre arbitrary: last_before) (auto split: rollout_entry.splits)

lemma boundary_loop_none:
  "\<forall>it \<in> set (entry_items es). turn_of_item (item_id_of it) \<noteq> Some (turn_id_str target) \<Longrightarrow>
   boundary_loop target last_before es = rewind_bound.All"
  by (induction es arbitrary: last_before) (auto split: rollout_entry.splits)

lemma kept_loop_prefix:
  assumes "\<forall>it \<in> set (entry_items pre). turn_of_item (item_id_of it) \<noteq> Some (turn_id_str target)"
    and "turn_of_item (item_id_of it) = Some (turn_id_str target)"
  shows "kept_loop target (pre @ rollout_entry.Item a b c it # post) =
           {t. \<exists>i \<in> set (entry_items pre). turn_of_item (item_id_of i) = Some t}"
  using assms by (induction pre) (auto split: rollout_entry.splits option.splits)

lemma copy_checkpoints_fields [frame_simps]:
  "ei_threads (copy_checkpoints now new kept cps e) = ei_threads e"
  "ei_phase (copy_checkpoints now new kept cps e) = ei_phase e"
  "ei_cancel_tree (copy_checkpoints now new kept cps e) = ei_cancel_tree e"
  by (induction now new kept cps e rule: copy_checkpoints.induct) (simp_all add: frame_simps)

lemma copy_to_fork_fields [frame_simps]:
  "ei_threads (copy_checkpoints_to_fork w rows now new target e) = ei_threads e"
  "ei_phase (copy_checkpoints_to_fork w rows now new target e) = ei_phase e"
  "ei_cancel_tree (copy_checkpoints_to_fork w rows now new target e) = ei_cancel_tree e"
  by (auto simp: copy_checkpoints_to_fork_def Let_def frame_simps split: sum.split)

lemma fork_dispatch_fields:
  "ei_phase (snd (fork_thread w now ack tid i s e)) = ei_phase e"
  "ei_phase (snd (fork_thread_to_start w now ack tid e)) = ei_phase e"
  "ei_cancel_tree (snd (fork_thread w now ack tid i s e)) = ei_cancel_tree e"
  "ei_cancel_tree (snd (fork_thread_to_start w now ack tid e)) = ei_cancel_tree e"
  by (simp_all add: fork_thread_def fork_thread_to_start_def fork_with_cut_fields)

lemma restore_fields:
  "ei_phase (snd (restore_to_checkpoint w now ack tid target e)) = ei_phase e"
  "ei_cancel_tree (snd (restore_to_checkpoint w now ack tid target e)) = ei_cancel_tree e"
  by (auto simp: restore_to_checkpoint_def Let_def case_prod_beta set_phase_def try_set_phase_atomic_def
                 leave_restore_def frame_simps set_phase_broadcast_phase fork_dispatch_fields
           split: sum.split option.split rewind_bound.split fork_reply.split)

section \<open>Properties\<close>

definition cut_of :: "rewind_bound \<Rightarrow> history_cut" where
  "cut_of b = (case b of rewind_bound.UpTo i \<Rightarrow> history_cut.UpTo i | ToStart \<Rightarrow> Nothing | rewind_bound.All \<Rightarrow> history_cut.All)"

lemma replay_for_file:
  assumes "serde_ok to_vec (fw_from_str w) es" "fw_file w = Some (written to_vec es)"
  shows "replay_for w history_cut.All = Inr (replay_entries None [] es)"
    "replay_for w (history_cut.UpTo i) = Inr (replay_entries (Some i) [] es)"
    "replay_for w Nothing = Inr []"
    "boundary_before_turn w target = boundary_loop target None es"
    "kept_turns_before w target = kept_loop target es"
  using read_all_written [OF assms(1)] split_written [OF assms(1), of "[]"]
    read_tolerant_written [OF assms(1), of 0 "[]" "[]"]
  by (simp_all add: replay_for_def replay_thread_items_def boundary_before_turn_def kept_turns_before_def
                    read_all_tolerant_def assms(2))

lemma last_item_split:
  assumes "entry_items pre \<noteq> []"
  obtains p t u ts q where "pre = p @ rollout_entry.Item t u ts (last (entry_items pre)) # q" "entry_items q = []"
    "entry_items pre = entry_items p @ [last (entry_items pre)]"
  using assms
proof (induction pre arbitrary: thesis rule: rev_induct)
  case (snoc x xs)
  show ?case
  proof (cases "entry_item x")
    case None
    then have e: "entry_items (xs @ [x]) = entry_items xs" by (simp add: entry_items_append)
    with snoc.prems(2) have "entry_items xs \<noteq> []" by simp
    from snoc.IH [OF _ this] obtain p t u ts q where
      "xs = p @ rollout_entry.Item t u ts (last (entry_items xs)) # q" "entry_items q = []"
      "entry_items xs = entry_items p @ [last (entry_items xs)]" by blast
    then show ?thesis
      using e None by (intro snoc.prems(1) [of p t u ts "q @ [x]"]) (auto simp: entry_items_append)
  next
    case (Some it)
    then obtain t u ts where x: "x = rollout_entry.Item t u ts it" by (cases x) auto
    show ?thesis by (rule snoc.prems(1) [of xs t u ts "[]"]) (simp_all add: x entry_items_append)
  qed
qed simp

text \<open>The cut found for a turn replays to exactly the items before that turn.\<close>

lemma boundary_replay:
  assumes "serde_ok to_vec (fw_from_str w) (pre @ rollout_entry.Item a b c it # post)"
    and "fw_file w = Some (written to_vec (pre @ rollout_entry.Item a b c it # post))"
    and "list_all (\<lambda>e. \<not> is_compaction e) pre" "distinct (map item_id_of (entry_items pre))"
    and "\<forall>i \<in> set (entry_items pre). turn_of_item (item_id_of i) \<noteq> Some (turn_id_str target)"
    and "turn_of_item (item_id_of it) = Some (turn_id_str target)"
  shows "replay_for w (cut_of (boundary_before_turn w target)) = Inr (entry_items pre)"
proof (cases "entry_items pre = []")
  case True
  then show ?thesis
    by (simp add: replay_for_file [OF assms(1,2)] boundary_loop_prefix [OF assms(5,6)] cut_of_def)
next
  case False
  from last_item_split [OF False] obtain p t u ts q where
    s: "pre = p @ rollout_entry.Item t u ts (last (entry_items pre)) # q" "entry_items q = []"
      "entry_items pre = entry_items p @ [last (entry_items pre)]" by blast
  let ?l = "last (entry_items pre)"
  have "list_all (\<lambda>e. \<not> is_compaction e) p" using assms(3) s(1) by (metis list_all_append)
  moreover have "item_id_of ?l \<notin> set (map item_id_of (entry_items p))"
    using assms(4) s(3) by (metis (no_types, lifting) distinct_append disjoint_iff list.set_intros(1) map_append list.simps(9))
  ultimately have "replay_entries (Some (item_id_of ?l)) [] (p @ rollout_entry.Item t u ts ?l # q @ rollout_entry.Item a b c it # post) =
      entry_items p @ [?l]"
    using replay_up_to [of p "item_id_of ?l" ?l "[]"] by simp
  then have "replay_entries (Some (item_id_of ?l)) [] (pre @ rollout_entry.Item a b c it # post) = entry_items pre"
    using s by (metis append_Cons append_assoc)
  with False show ?thesis
    by (simp add: replay_for_file [OF assms(1,2)] boundary_loop_prefix [OF assms(5,6)] cut_of_def)
qed

lemma restore_result:
  assumes "restore_to_checkpoint w now ack tid target e = (Inr reply, e')"
  obtains its rev del where "replay_for (rw_fork w) (cut_of (boundary_before_turn (rw_fork w) target)) = Inr its"
    "reply = Restored (fork_id_for tid (ei_turn_counter e)) rev del (u32_of_len (length its))"
    "ei_phase e = Idle" "rw_repo w" "ei_storage e"
    "ei_threads e' = (ei_threads e)(fork_id_for tid (ei_turn_counter e) \<mapsto>
       forked_handle (fork_id_for tid (ei_turn_counter e)) (fork_turn_id (fork_id_for tid (ei_turn_counter e))) now its)"
proof -
  let ?b = "boundary_before_turn (rw_fork w) target"
  let ?new = "fork_id_for tid (ei_turn_counter e)"
  let ?e3 = "enqueue_storage_op (storage_write_op.Flush tid (Some ack))
               (send (PhaseChanged (Some tid) Idle engine_phase.Restore) (e\<lparr>ei_phase := engine_phase.Restore\<rparr>))"
  let ?e4 = "leave_restore tid ?e3"
  have pre: "ei_storage e" "rw_repo w" "ei_phase e = Idle"
    using assms by (auto simp: restore_to_checkpoint_def set_phase_def try_set_phase_atomic_def Let_def
                         split: if_splits sum.splits option.splits)
  obtain tree where tree: "rw_snapshot_tree w = Inr (Some tree)"
    using assms pre by (auto simp: restore_to_checkpoint_def split: sum.splits option.splits)
  have sp: "set_phase Idle engine_phase.Restore e = (Inr (), e\<lparr>ei_phase := engine_phase.Restore\<rparr>)"
    using pre by (simp add: set_phase_def try_set_phase_atomic_def)
  obtain n1 n2 where rt: "rw_restore_to w tree = Inr (n1, n2)"
    using assms pre tree sp by (cases "rw_restore_to w tree") (auto simp: restore_to_checkpoint_def Let_def)
  let ?i = "case ?b of rewind_bound.UpTo i \<Rightarrow> Some i | _ \<Rightarrow> None"
  have disp: "(case ?b of rewind_bound.UpTo i \<Rightarrow> fork_thread (rw_fork w) now ack tid (Some i) False ?e4
      | ToStart \<Rightarrow> fork_thread_to_start (rw_fork w) now ack tid ?e4
      | rewind_bound.All \<Rightarrow> fork_thread (rw_fork w) now ack tid None False ?e4) =
      fork_with_cut (rw_fork w) now ack tid ?i (cut_of ?b) False ?e4"
    by (simp add: fork_thread_def fork_thread_to_start_def cut_of_def split: rewind_bound.split)
  obtain r e5 where f: "fork_with_cut (rw_fork w) now ack tid ?i (cut_of ?b) False ?e4 = (r, e5)" by fastforce
  obtain freply where fr: "r = Inr freply"
    using assms pre tree sp rt f disp by (cases r) (auto simp: restore_to_checkpoint_def Let_def)
  have e4: "ei_turn_counter ?e4 = ei_turn_counter e" "ei_threads ?e4 = ei_threads e"
    by (simp_all add: leave_restore_def frame_simps)
  from fork_with_cut_result [OF f [unfolded fr]] obtain its where its:
    "replay_for (rw_fork w) (cut_of ?b) = Inr its"
    "freply = Forked ?new (u32_of_len (length its)) False"
    "ei_threads e5 = (ei_threads e)(?new \<mapsto> forked_handle ?new (fork_turn_id ?new) now its)"
    unfolding e4 by metis
  show thesis
    by (rule that [OF its(1) _ pre(3,2,1)])
       (use assms pre tree sp rt f disp fr its in \<open>auto simp: restore_to_checkpoint_def Let_def frame_simps\<close>)
qed


definition item_of :: "string \<Rightarrow> string \<Rightarrow> rollout_entry" where
  "item_of turn i = rollout_entry.Item ''t'' turn 0 (UserMessage (ItemId i) [])"

definition ab_to_vec :: "rollout_entry \<Rightarrow> string" where
  "ab_to_vec e = (if e = item_of ''u'' ''item:u/0'' then ''a'' else ''b'')"

definition ab_from_str :: "string \<Rightarrow> string + rollout_entry" where
  "ab_from_str s = (if s = ''a'' then Inr (item_of ''u'' ''item:u/0'') else Inr (item_of ''v'' ''item:v/0''))"

definition ab_world :: restore_world where
  "ab_world =
     \<lparr>rw_fork = \<lparr>fw_file = Some (written ab_to_vec ([item_of ''u'' ''item:u/0''] @ item_of ''v'' ''item:v/0'' # [])),
                 fw_from_str = ab_from_str, fw_os_text = [], fw_do_stream = (\<lambda>_. Inr []), fw_instruction = []\<rparr>,
      rw_repo = True, rw_snapshot_tree = Inr (Some ''tree''), rw_restore_to = (\<lambda>_. Inr (1, 0)), rw_checkpoints = Inr []\<rparr>"

lemma ab_blank: "\<not> blank ''a''" "\<not> blank ''b''"
  by (simp_all add: blank_def trim_def trim_chars_def is_whitespace_def is_continuation_def Let_def)

lemma ab_serde: "serde_ok ab_to_vec (fw_from_str (rw_fork ab_world)) ([item_of ''u'' ''item:u/0''] @ item_of ''v'' ''item:v/0'' # [])"
  by (simp add: serde_ok_def ab_world_def ab_to_vec_def ab_from_str_def ab_blank item_of_def newline_def
                carriage_return_def strip_cr_def)

lemma ab_turns: "turn_of_item (ItemId ''item:u/0'') = Some ''u''" "turn_of_item (ItemId ''item:v/0'') = Some ''v''"
  by (simp_all add: turn_of_item_def strip_prefix_def starts_with_def rsplit_once_def)


end
