(* ===== verification/Engine_Run.thy ===== *)
theory Engine_Run
  imports Restore Subagent_Spawn
begin

text \<open>
  Runs of the engine. The actor handles one submission at a time and turn tasks run beside it; a
  step is one handler or one action of a task, applied to the shared state. The actions whose effect
  on the phase is not undone are steps of their own kind, so that what holds along every run and
  what holds along the others can both be stated. The step \<open>internal\<close> stands for what a task does to
  the events, the storage queue, the permission map and the counters alone, the step \<open>queues\<close> for
  what it does to the queues of its thread.
\<close>

section \<open>The invariant\<close>

definition top_level :: "thread_store \<Rightarrow> thread_id \<Rightarrow> bool" where
  "top_level m tid \<longleftrightarrow> (\<exists>h. m tid = Some h \<and> hd_active_turn h \<noteq> None \<and> hd_parent h = None)"

definition store_ok :: "thread_store \<Rightarrow> bool" where
  "store_ok m \<longleftrightarrow> (\<forall>tid h. m tid = Some h \<longrightarrow> handle_inv h \<and> hd_id h = tid)"

definition tokens_ok :: "thread_store \<Rightarrow> cancellation_tree \<Rightarrow> bool" where
  "tokens_ok m t \<longleftrightarrow> tree_wf t \<and>
     (\<forall>tid h a. m tid = Some h \<longrightarrow> hd_active_turn h = Some a \<longrightarrow> at_cancel a \<le> length (ct_parents t))"

definition single :: "thread_store \<Rightarrow> bool" where
  "single m \<longleftrightarrow> (\<forall>a b. top_level m a \<longrightarrow> top_level m b \<longrightarrow> a = b)"

definition in_turn :: "engine_phase \<Rightarrow> bool" where
  "in_turn p = (p \<in> {Turn, Retry})"

definition engine_inv :: "'tx engine_inner \<Rightarrow> bool" where
  "engine_inv e \<longleftrightarrow>
     store_ok (ei_threads e) \<and> tokens_ok (ei_threads e) (ei_cancel_tree e) \<and> single (ei_threads e) \<and>
     ((\<exists>tid. top_level (ei_threads e) tid) \<longrightarrow> in_turn (ei_phase e))"

text \<open>The phase says no more than that: while it is a turn's, a top-level turn is running.\<close>

definition balanced :: "'tx engine_inner \<Rightarrow> bool" where
  "balanced e \<longleftrightarrow> (in_turn (ei_phase e) \<longrightarrow> (\<exists>tid. top_level (ei_threads e) tid))"

text \<open>The phase is a turn's although no top-level turn is running.\<close>

definition stuck :: "'tx engine_inner \<Rightarrow> bool" where
  "stuck e \<longleftrightarrow> in_turn (ei_phase e) \<and> (\<forall>tid. \<not> top_level (ei_threads e) tid)"

section \<open>Steps\<close>

datatype step_kind = Ordinary | EndInRetry | StartOnChild

definition is_child :: "thread_id \<Rightarrow> 'tx engine_inner \<Rightarrow> bool" where
  "is_child tid e = (hd_parent (handle_of tid e) \<noteq> None)"

definition running :: "thread_id \<Rightarrow> 'tx engine_inner \<Rightarrow> bool" where
  "running tid e = (hd_active_turn (handle_of tid e) \<noteq> None)"

inductive engine_step ::
    "('tx \<Rightarrow> bool) \<Rightarrow> step_kind \<Rightarrow> 'tx engine_inner \<Rightarrow> 'tx engine_inner \<Rightarrow> bool" for alive where
  start: "\<not> is_child tid e \<Longrightarrow>
     engine_step alive Ordinary e (snd (start_turn now tid input scope reasoning e))"
| start_child: "is_child tid e \<Longrightarrow>
     engine_step alive StartOnChild e (snd (start_turn now tid input scope reasoning e))"
| cancel: "is_child tid e \<or> \<not> running tid e \<or> ei_phase e \<noteq> Retry \<Longrightarrow>
     engine_step alive Ordinary e (fst (snd (cancel_turn alive now tid e)))"
| cancel_in_retry: "\<not> is_child tid e \<Longrightarrow> running tid e \<Longrightarrow> ei_phase e = Retry \<Longrightarrow>
     engine_step alive EndInRetry e (fst (snd (cancel_turn alive now tid e)))"
| inject: "engine_step alive Ordinary e (enqueue_injection tid behavior items e)"
| next_turn: "engine_step alive Ordinary e (enqueue_next_turn tid items e)"
| resolve: "engine_step alive Ordinary e (fst (snd (resume_permission alive request_id outcome e)))"
| delete: "engine_step alive Ordinary e (snd (delete_thread sql existed tid e))"
| rename: "engine_step alive Ordinary e (snd (rename_thread tid name e))"
| spawn: "ei_threads e (child_id_for p (ei_turn_counter e)) = None \<Longrightarrow>
     engine_step alive Ordinary e (snd (spawn_subagent_awaitable now tools p d e))"
| compact: "engine_step alive Ordinary e (fst (snd (compact_dispatch cw tid trigger e)))"
| compact_tail: "ei_threads e tid = Some h \<Longrightarrow> hd_active_turn h = None \<Longrightarrow>
     compact_tail cw now tid trigger items n (h, e) = (h', e') \<Longrightarrow>
     engine_step alive Ordinary e (put_handle tid h' e')"
| auto_compact: "ei_threads e tid = Some h \<Longrightarrow> hd_active_turn h = None \<Longrightarrow>
     run_compaction cw now tid trigger (h, e) = (r, h', e') \<Longrightarrow>
     engine_step alive Ordinary e (put_handle tid h' e')"
| fork: "engine_step alive Ordinary e (snd (fork_with_cut fw now ack source i hc s e))"
| restore: "engine_step alive Ordinary e (snd (restore_to_checkpoint rw now ack tid target e))"
| resume: "\<not> running tid e \<Longrightarrow>
     engine_step alive Ordinary e (fst (snd (resume_thread fw new_tx found now ack tid e)))"
| finish: "ei_threads e tid = Some h \<Longrightarrow> finish_turn now tid turn error (h, e) = (h', e') \<Longrightarrow>
     hd_parent h \<noteq> None \<or> \<not> owns h turn \<or> ei_phase e \<noteq> Retry \<Longrightarrow>
     engine_step alive Ordinary e (put_handle tid h' e')"
| finish_in_retry: "ei_threads e tid = Some h \<Longrightarrow> finish_turn now tid turn error (h, e) = (h', e') \<Longrightarrow>
     hd_parent h = None \<Longrightarrow> owns h turn \<Longrightarrow> ei_phase e = Retry \<Longrightarrow>
     engine_step alive EndInRetry e (put_handle tid h' e')"
| child_done: "is_child c e \<Longrightarrow>
     engine_step alive Ordinary e (snd (finish_child child c p error e))"
| push: "ei_threads e tid = Some h \<Longrightarrow>
     engine_step alive Ordinary e (put_handle tid (handle_push_item it h) e)"
| enter_retry: "engine_step alive Ordinary e (enter_retry_phase tid e)"
| leave_retry: "engine_step alive Ordinary e (leave_retry_phase tid e)"
| enroll: "engine_step alive Ordinary e
     (e\<lparr>ei_permission := snd (snd (enroll_with_context tx request ctx (ei_permission e)))\<rparr>)"
| internal: "ei_threads e' = ei_threads e \<Longrightarrow> ei_cancel_tree e' = ei_cancel_tree e \<Longrightarrow>
     ei_phase e' = ei_phase e \<Longrightarrow> engine_step alive Ordinary e e'"
| queues: "ei_threads e tid = Some h \<Longrightarrow>
     engine_step alive Ordinary e (put_handle tid (h\<lparr>hd_injection := q, hd_pending := p\<rparr>) e)"
| shut_down: "engine_step alive Ordinary e (shut_down e)"

inductive engine_run ::
    "('tx \<Rightarrow> bool) \<Rightarrow> step_kind set \<Rightarrow> 'tx engine_inner \<Rightarrow> 'tx engine_inner \<Rightarrow> bool" for alive kinds where
  refl: "engine_run alive kinds e e"
| step: "engine_run alive kinds e e' \<Longrightarrow> engine_step alive k e' e'' \<Longrightarrow> k \<in> kinds \<Longrightarrow>
         engine_run alive kinds e e''"

section \<open>What a change of one handle keeps\<close>

lemma top_level_upd:
  "top_level (m(tid \<mapsto> h)) x \<longleftrightarrow>
     (if x = tid then hd_active_turn h \<noteq> None \<and> hd_parent h = None else top_level m x)"
  by (auto simp: top_level_def)

lemma top_level_del: "top_level (m(tid := None)) x \<longleftrightarrow> x \<noteq> tid \<and> top_level m x"
  by (auto simp: top_level_def)

lemma store_ok_upd: "store_ok m \<Longrightarrow> handle_inv h \<Longrightarrow> hd_id h = tid \<Longrightarrow> store_ok (m(tid \<mapsto> h))"
  by (auto simp: store_ok_def)

lemma store_ok_del: "store_ok m \<Longrightarrow> store_ok (m(tid := None))"
  by (auto simp: store_ok_def)

lemma store_ok_handle: "store_ok m \<Longrightarrow> handle_inv (fst (get_or_init tid m)) \<and> hd_id (fst (get_or_init tid m)) = tid"
  using new_idle_inv [of tid]
  by (auto simp: store_ok_def get_or_init_def new_idle_def with_capacity_def Let_def split: option.split)

lemma tokens_ok_upd:
  "tokens_ok m t \<Longrightarrow> (\<And>a. hd_active_turn h = Some a \<Longrightarrow> at_cancel a \<le> length (ct_parents t)) \<Longrightarrow>
   tokens_ok (m(tid \<mapsto> h)) t"
  by (auto simp: tokens_ok_def)

lemma tokens_ok_del: "tokens_ok m t \<Longrightarrow> tokens_ok (m(tid := None)) t"
  by (auto simp: tokens_ok_def)

lemma tokens_ok_cancel: "tokens_ok m t \<Longrightarrow> tokens_ok m (cancel tok t)"
  by (auto simp: tokens_ok_def cancel_wf) (simp add: cancel_def)

lemma tokens_ok_child:
  "tokens_ok m t \<Longrightarrow> tokens_ok m (snd (child_for_turn t))"
  by (auto simp: tokens_ok_def child_for_turn_def root_def intro: child_token_wf)
     (auto simp: child_token_def le_Suc_eq)

lemma child_for_turn_range: "fst (child_for_turn t) \<le> length (ct_parents (snd (child_for_turn t)))"
  by (simp add: child_for_turn_def child_token_def)

text \<open>
  A handle replaced by one that is not more active, with the phase kept or given back with the turn.
\<close>

lemma engine_inv_put:
  assumes "engine_inv e" "ei_threads e' = (ei_threads e)(tid \<mapsto> h')" "handle_inv h'" "hd_id h' = tid"
    and "hd_active_turn h' = None \<or> (\<exists>h. ei_threads e tid = Some h \<and> hd_active_turn h' = hd_active_turn h \<and> hd_parent h' = hd_parent h)"
    and "ei_cancel_tree e' = ei_cancel_tree e \<or> (\<exists>tok. ei_cancel_tree e' = cancel tok (ei_cancel_tree e))"
    and "in_turn (ei_phase e') \<or> in_turn (ei_phase e) = in_turn (ei_phase e') \<or> (\<forall>x. \<not> top_level (ei_threads e') x)"
  shows "engine_inv e'"
proof -
  let ?m = "ei_threads e"
  have inv: "store_ok ?m" "tokens_ok ?m (ei_cancel_tree e)" "single ?m"
    "(\<exists>x. top_level ?m x) \<longrightarrow> in_turn (ei_phase e)"
    using assms(1) by (auto simp: engine_inv_def)
  have tops: "top_level (ei_threads e') x \<Longrightarrow> top_level ?m x" for x
    using assms(5) unfolding assms(2) by (auto simp: top_level_upd split: if_splits) (auto simp: top_level_def)
  have tok: "tokens_ok (ei_threads e') (ei_cancel_tree e)"
    unfolding assms(2) by (rule tokens_ok_upd [OF inv(2)]) (use assms(5) inv(2) in \<open>auto simp: tokens_ok_def\<close>)
  show ?thesis
    unfolding engine_inv_def
  proof (intro conjI)
    show "store_ok (ei_threads e')" unfolding assms(2) by (rule store_ok_upd) (use inv assms in auto)
    show "tokens_ok (ei_threads e') (ei_cancel_tree e')" using assms(6) tok tokens_ok_cancel by metis
    show "single (ei_threads e')" using inv(3) tops unfolding single_def by blast
    show "(\<exists>x. top_level (ei_threads e') x) \<longrightarrow> in_turn (ei_phase e')" using inv(4) tops assms(7) by blast
  qed
qed

lemma engine_inv_same:
  assumes "engine_inv e" "ei_threads e' = ei_threads e" "ei_cancel_tree e' = ei_cancel_tree e"
    and "in_turn (ei_phase e) \<longrightarrow> in_turn (ei_phase e')"
  shows "engine_inv e'"
  using assms by (auto simp: engine_inv_def)

lemma engine_inv_new: "engine_inv (engine_new limits tx threshold storage cwd)"
  by (auto simp: engine_inv_def engine_new_def store_ok_def tokens_ok_def single_def top_level_def cancel_new_wf)

lemma balanced_new: "balanced (engine_new limits tx threshold storage cwd)"
  by (simp add: balanced_def engine_new_def in_turn_def)

section \<open>The invariant along steps\<close>

lemma handle_of_cases:
  "handle_of tid e = (case ei_threads e tid of Some h \<Rightarrow> h | None \<Rightarrow> new_idle tid)"
  by (simp add: handle_of_def get_or_init_def Let_def split: option.split)

lemma engine_inv_handle:
  assumes "engine_inv e"
  shows "handle_inv (handle_of tid e)" "hd_id (handle_of tid e) = tid"
  using assms store_ok_handle [of "ei_threads e" tid] by (simp_all add: engine_inv_def handle_of_def)

lemma engine_inv_stored:
  "engine_inv e \<Longrightarrow> ei_threads e tid = Some h \<Longrightarrow> handle_inv h \<and> hd_id h = tid"
  by (simp add: engine_inv_def store_ok_def)

lemma start_turn_handle:
  assumes "ei_phase e = Idle"
  shows "\<exists>H. ei_threads (snd (start_turn now tid input scope reasoning e)) = (ei_threads e)(tid \<mapsto> H) \<and>
     (buffer_inv (hd_history (handle_of tid e)) \<longrightarrow> handle_inv H) \<and>
     hd_id H = hd_id (handle_of tid e) \<and> hd_parent H = hd_parent (handle_of tid e) \<and>
     map_option at_id (hd_active_turn H) = Some (turn_id_for tid (ei_turn_counter e)) \<and>
     map_option at_cancel (hd_active_turn H) = Some (fst (child_for_turn (ei_cancel_tree e))) \<and>
     iq_next_turn (hd_injection H) = [] \<and>
     handle_active_turn_items H =
       stamp (turn_id_for tid (ei_turn_counter e)) 0 (iq_next_turn (hd_injection (handle_of tid e)) @ input)"
proof -
  let ?h = "(handle_of tid e)\<lparr>hd_injection := (hd_injection (handle_of tid e))\<lparr>iq_next_turn := []\<rparr>\<rparr>"
  define H where "H = started now (turn_id_for tid (ei_turn_counter e)) (fst (child_for_turn (ei_cancel_tree e)))
              scope reasoning (iq_next_turn (hd_injection (handle_of tid e)) @ input) ?h"
  have 1: "ei_threads (snd (start_turn now tid input scope reasoning e)) = (ei_threads e)(tid \<mapsto> H)"
    unfolding H_def by (rule start_turn_ok(6) [OF assms])
  have 2: "buffer_inv (hd_history (handle_of tid e)) \<Longrightarrow> handle_inv H"
    unfolding H_def by (rule started_inv) simp
  have 3: "hd_id H = hd_id (handle_of tid e)" "hd_parent H = hd_parent (handle_of tid e)"
    "iq_next_turn (hd_injection H) = []"
    by (simp_all add: H_def started_fields(1-3))
  have 4: "map_option at_id (hd_active_turn H) = Some (turn_id_for tid (ei_turn_counter e))"
    "map_option at_cancel (hd_active_turn H) = Some (fst (child_for_turn (ei_cancel_tree e)))"
    unfolding H_def by (rule started_fields)+
  have 5: "handle_active_turn_items H =
       stamp (turn_id_for tid (ei_turn_counter e)) 0 (iq_next_turn (hd_injection (handle_of tid e)) @ input)"
    unfolding H_def by (rule started_items)
  from 1 2 3 4 5 show ?thesis by blast
qed

lemma inv_start:
  assumes "engine_inv e"
  shows "engine_inv (snd (start_turn now tid input scope reasoning e))"
proof (cases "ei_phase e = Idle")
  case False
  then show ?thesis
    by (intro engine_inv_same [OF assms]) (simp_all add: start_turn_busy frame_simps)
next
  case True
  have none: "\<not> top_level (ei_threads e) x" for x
    using assms True by (auto simp: engine_inv_def in_turn_def)
  obtain H where H: "ei_threads (snd (start_turn now tid input scope reasoning e)) = (ei_threads e)(tid \<mapsto> H)"
    "handle_inv H" "hd_id H = tid"
    "map_option at_cancel (hd_active_turn H) = Some (fst (child_for_turn (ei_cancel_tree e)))"
    using start_turn_handle [OF True, of now tid input scope reasoning] engine_inv_handle [OF assms, of tid]
    unfolding handle_inv_def [of "handle_of tid e"] by metis
  have "tokens_ok ((ei_threads e)(tid \<mapsto> H)) (snd (child_for_turn (ei_cancel_tree e)))"
  proof (rule tokens_ok_upd)
    show "tokens_ok (ei_threads e) (snd (child_for_turn (ei_cancel_tree e)))"
      using assms by (auto simp: engine_inv_def intro: tokens_ok_child)
    show "at_cancel a \<le> length (ct_parents (snd (child_for_turn (ei_cancel_tree e))))"
      if "hd_active_turn H = Some a" for a
      using H(4) that child_for_turn_range [of "ei_cancel_tree e"] by simp
  qed
  moreover have "store_ok ((ei_threads e)(tid \<mapsto> H))"
    by (rule store_ok_upd) (use assms H in \<open>auto simp: engine_inv_def\<close>)
  moreover have "single ((ei_threads e)(tid \<mapsto> H))"
    using none by (auto simp: single_def top_level_upd split: if_splits)
  ultimately show ?thesis
    by (simp add: engine_inv_def H(1) start_turn_ok(2,5) [OF True] in_turn_def)
qed

lemma inv_cancel:
  assumes "engine_inv e"
  shows "engine_inv (fst (snd (cancel_turn alive now tid e)))"
proof (cases "\<exists>h a. ei_threads e tid = Some h \<and> hd_active_turn h = Some a")
  case False
  then have "cancel_turn alive now tid e = (NoActiveTurn, e, [])"
    by (intro cancel_turn_none) (auto split: option.split)
  with assms show ?thesis by simp
next
  case True
  then obtain h a where h: "ei_threads e tid = Some h" "hd_active_turn h = Some a" by blast
  note c = cancel_turn_active [OF h, of alive now] cancelled_fields
  have h': "handle_inv h" "hd_id h = tid" using engine_inv_stored [OF assms h(1)] by auto
  have gone: "\<not> top_level ((ei_threads e)(tid \<mapsto> cancelled now a h)) x" if "hd_parent h = None" for x
  proof -
    have "top_level (ei_threads e) tid" using h that by (auto simp: top_level_def)
    then have "top_level (ei_threads e) x \<Longrightarrow> x = tid" for x
      using assms by (auto simp: engine_inv_def single_def)
    then show ?thesis by (auto simp: top_level_upd c)
  qed
  show ?thesis
    by (rule engine_inv_put [OF assms, of _ tid "cancelled now a h"])
       (use h' gone cancelled_inv [OF h'(1)] in \<open>auto simp: c\<close>)
qed

lemma inv_finish:
  assumes "engine_inv e" "ei_threads e tid = Some h" "finish_turn now tid turn error (h, e) = (h', e')"
  shows "engine_inv (put_handle tid h' e')"
proof (cases "owns h turn")
  case False
  with assms have "h' = h" "e' = e" by (auto simp: finish_not_owner)
  with assms have "ei_threads (put_handle tid h' e') = ei_threads e" by (auto simp: frame_simps)
  then show ?thesis
    by (intro engine_inv_same [OF assms(1)]) (simp_all add: frame_simps \<open>e' = e\<close>)
next
  case True
  have eq: "h' = fst (finish_turn now tid turn error (h, e))" "e' = snd (finish_turn now tid turn error (h, e))"
    using assms(3) by auto
  have h: "handle_inv h" "hd_id h = tid" using engine_inv_stored [OF assms(1,2)] by auto
  note f = finish_owner [OF True]
  have gone: "\<not> top_level ((ei_threads e)(tid \<mapsto> h')) x" if "hd_parent h = None" for x
  proof -
    have "hd_active_turn h \<noteq> None" using True by (auto simp: owns_def split: option.splits)
    then have "top_level (ei_threads e) tid" using assms(2) that by (auto simp: top_level_def)
    then have "top_level (ei_threads e) x \<Longrightarrow> x = tid" for x
      using assms(1) by (auto simp: engine_inv_def single_def)
    then show ?thesis by (auto simp: top_level_upd eq f)
  qed
  show ?thesis
    by (rule engine_inv_put [OF assms(1), of _ tid h'])
       (use h gone finish_inv [OF h(1)] in \<open>auto simp: eq f frame_simps\<close>)
qed

lemma inv_with_handle:
  assumes "engine_inv e"
    and "\<And>h. hd_history (f h) = hd_history h \<and> hd_active_turn (f h) = hd_active_turn h \<and>
             hd_status (f h) = hd_status h \<and> hd_id (f h) = hd_id h \<and> hd_parent (f h) = hd_parent h"
  shows "engine_inv (with_handle tid f e)"
proof (rule engine_inv_put [OF assms(1), of _ tid "f (handle_of tid e)"])
  show "ei_threads (with_handle tid f e) = (ei_threads e)(tid \<mapsto> f (handle_of tid e))"
    by (auto simp: with_handle_def handle_of_def case_prod_beta get_or_init_put)
  show "hd_active_turn (f (handle_of tid e)) = None \<or>
    (\<exists>h. ei_threads e tid = Some h \<and> hd_active_turn (f (handle_of tid e)) = hd_active_turn h \<and>
         hd_parent (f (handle_of tid e)) = hd_parent h)"
    by (auto simp: assms(2) handle_of_cases new_idle_def with_capacity_def split: option.split)
qed (use engine_inv_handle [OF assms(1), of tid] assms(2) in
      \<open>auto simp: handle_inv_def with_handle_def case_prod_beta\<close>)

text \<open>
  A step that starts or ends no top-level turn: the running top-level turns stay, and the phase stays
  on its side.
\<close>

definition quiet :: "'tx engine_inner \<Rightarrow> 'tx engine_inner \<Rightarrow> bool" where
  "quiet e e' \<longleftrightarrow>
     (\<forall>x. top_level (ei_threads e') x = top_level (ei_threads e) x) \<and>
     in_turn (ei_phase e') = in_turn (ei_phase e)"

lemma quiet_same: "ei_threads e' = ei_threads e \<Longrightarrow> in_turn (ei_phase e') = in_turn (ei_phase e) \<Longrightarrow> quiet e e'"
  by (simp add: quiet_def)

lemma quiet_put:
  assumes "ei_threads e' = (ei_threads e)(tid \<mapsto> h')" "in_turn (ei_phase e') = in_turn (ei_phase e)"
    and "(hd_active_turn h' \<noteq> None \<and> hd_parent h' = None) = top_level (ei_threads e) tid"
  shows "quiet e e'"
  using assms by (auto simp: quiet_def top_level_upd)

lemma idle_no_top: "engine_inv e \<Longrightarrow> \<not> in_turn (ei_phase e) \<Longrightarrow> \<not> top_level (ei_threads e) x"
  by (auto simp: engine_inv_def)

lemma in_turn_simps [simp]:
  "in_turn Turn" "in_turn Retry" "\<not> in_turn Idle" "\<not> in_turn engine_phase.Compaction"
  "\<not> in_turn BranchSummary" "\<not> in_turn engine_phase.Restore"
  by (simp_all add: in_turn_def)

lemma top_level_handle: "top_level (ei_threads e) tid \<longleftrightarrow> running tid e \<and> \<not> is_child tid e"
  by (auto simp: top_level_def running_def is_child_def handle_of_cases new_idle_def with_capacity_def
           split: option.splits)

text \<open>A handle whose update keeps the active slot, the parent and the identity.\<close>

lemma inv_quiet_put:
  assumes "engine_inv e" "ei_threads e' = (ei_threads e)(tid \<mapsto> h')" "handle_inv h'"
    and "hd_id h' = tid" "hd_active_turn h' = hd_active_turn (handle_of tid e)"
    and "hd_parent h' = hd_parent (handle_of tid e)"
    and "ei_cancel_tree e' = ei_cancel_tree e" "in_turn (ei_phase e') = in_turn (ei_phase e)"
  shows "engine_inv e' \<and> quiet e e'"
proof
  show "engine_inv e'"
    by (rule engine_inv_put [OF assms(1-4)])
       (use assms(5-8) in \<open>auto simp: handle_of_cases new_idle_def with_capacity_def split: option.splits\<close>)
  show "quiet e e'"
    by (rule quiet_put [OF assms(2,8)])
       (use assms(5,6) in \<open>auto simp: top_level_handle running_def is_child_def\<close>)
qed

lemma inv_idle_put:
  assumes "engine_inv e" "ei_phase e = Idle" "ei_threads e' = (ei_threads e)(tid \<mapsto> h')"
    and "handle_inv h'" "hd_id h' = tid" "hd_active_turn h' = None"
    and "ei_cancel_tree e' = ei_cancel_tree e" "\<not> in_turn (ei_phase e')"
  shows "engine_inv e' \<and> quiet e e'"
proof
  have none: "\<not> top_level (ei_threads e) x" for x using idle_no_top [OF assms(1)] assms(2) by simp
  show "engine_inv e'"
    by (rule engine_inv_put [OF assms(1,3-5)]) (use assms in auto)
  show "quiet e e'"
    by (rule quiet_put [OF assms(3)]) (use assms none in auto)
qed

lemma inv_quiet_same:
  assumes "engine_inv e" "ei_threads e' = ei_threads e" "ei_cancel_tree e' = ei_cancel_tree e"
    and "in_turn (ei_phase e') = in_turn (ei_phase e)"
  shows "engine_inv e' \<and> quiet e e'"
  using engine_inv_same [OF assms(1-3)] quiet_same [OF assms(2,4)] assms(4) by blast

lemma inv_quiet_with_handle:
  assumes "engine_inv e"
    and "\<And>h. hd_history (f h) = hd_history h \<and> hd_active_turn (f h) = hd_active_turn h \<and>
             hd_status (f h) = hd_status h \<and> hd_id (f h) = hd_id h \<and> hd_parent (f h) = hd_parent h"
  shows "engine_inv (with_handle tid f e) \<and> quiet e (with_handle tid f e)"
proof (rule inv_quiet_put [OF assms(1), of _ tid "f (handle_of tid e)"])
  show "ei_threads (with_handle tid f e) = (ei_threads e)(tid \<mapsto> f (handle_of tid e))"
    by (auto simp: with_handle_def handle_of_def case_prod_beta get_or_init_put)
  show "handle_inv (f (handle_of tid e))"
    using engine_inv_handle(1) [OF assms(1), of tid] assms(2) by (simp add: handle_inv_def)
qed (use engine_inv_handle(2) [OF assms(1), of tid] assms(2) in
      \<open>simp_all add: with_handle_def case_prod_beta\<close>)

lemma inv_quiet_removed:
  assumes "engine_inv e" "ei_threads e' = (ei_threads e)(tid := None)" "\<not> top_level (ei_threads e) tid"
    and "ei_cancel_tree e' = ei_cancel_tree e" "in_turn (ei_phase e') = in_turn (ei_phase e)"
  shows "engine_inv e' \<and> quiet e e'"
  using assms
  by (auto simp: engine_inv_def quiet_def top_level_del single_def store_ok_del tokens_ok_del)

section \<open>Quiet steps\<close>

lemma q_inject:
  "engine_inv e \<Longrightarrow> engine_inv (enqueue_injection tid b its e) \<and> quiet e (enqueue_injection tid b its e)"
  by (cases b) (simp_all add: enqueue_injection_def inv_quiet_with_handle)

lemma q_next_turn:
  "engine_inv e \<Longrightarrow> engine_inv (enqueue_next_turn tid its e) \<and> quiet e (enqueue_next_turn tid its e)"
  unfolding enqueue_next_turn_def by (rule inv_quiet_with_handle) auto

lemma resume_permission_fields:
  "ei_threads (fst (snd (resume_permission alive i out e))) = ei_threads e"
  "ei_phase (fst (snd (resume_permission alive i out e))) = ei_phase e"
  "ei_cancel_tree (fst (snd (resume_permission alive i out e))) = ei_cancel_tree e"
  "ei_turn_counter (fst (snd (resume_permission alive i out e))) = ei_turn_counter e"
  by (auto simp: resume_permission_def Let_def case_prod_beta frame_simps split: sum.split option.split)

lemma q_resolve:
  "engine_inv e \<Longrightarrow>
   engine_inv (fst (snd (resume_permission alive i out e))) \<and> quiet e (fst (snd (resume_permission alive i out e)))"
  by (rule inv_quiet_same) (simp_all add: resume_permission_fields)

lemma q_rename:
  "engine_inv e \<Longrightarrow> engine_inv (snd (rename_thread tid n e)) \<and> quiet e (snd (rename_thread tid n e))"
  by (rule inv_quiet_same) (simp_all add: rename_thread_def frame_simps)

lemma delete_cases:
  "snd (delete_thread sql x tid e) = e \<or>
   \<not> running tid e \<and> snd (delete_thread sql x tid e) = e\<lparr>ei_threads := (ei_threads e)(tid := None)\<rparr>"
  by (auto simp: delete_thread_def Let_def store_remove_def running_def handle_of_cases new_idle_def
                 with_capacity_def split: option.split sum.split)

lemma q_delete:
  assumes "engine_inv e"
  shows "engine_inv (snd (delete_thread sql x tid e)) \<and> quiet e (snd (delete_thread sql x tid e))"
  using delete_cases [of sql x tid e]
proof
  assume "snd (delete_thread sql x tid e) = e"
  with assms show ?thesis by (simp add: quiet_same)
next
  assume "\<not> running tid e \<and> snd (delete_thread sql x tid e) = e\<lparr>ei_threads := (ei_threads e)(tid := None)\<rparr>"
  then show ?thesis by (intro inv_quiet_removed [OF assms, of _ tid]) (auto simp: top_level_handle)
qed

lemma q_spawn:
  assumes "engine_inv e" "ei_threads e (child_id_for p (ei_turn_counter e)) = None"
  shows "engine_inv (snd (spawn_subagent_awaitable now tools p d e)) \<and>
         quiet e (snd (spawn_subagent_awaitable now tools p d e))"
proof (cases rule: spawn_cases [of now tools p d e])
  case (err x)
  have "engine_inv (e\<lparr>ei_turn_counter := n\<rparr>)" for n
    using assms(1) by (simp add: engine_inv_def)
  then show ?thesis
    by (intro inv_quiet_same [OF assms(1)]) (simp_all add: spawn_error_threads [OF err])
next
  case (ok parent cs)
  let ?e = "snd (spawn_subagent_awaitable now tools p d e)"
  let ?c = "child_id_for p (ei_turn_counter e)"
  obtain h where h: "ei_threads ?e = (ei_threads e)(?c \<mapsto> h)" "handle_inv h" "hd_id h = ?c" "hd_parent h = Some p"
    "map_option at_cancel (hd_active_turn h) = Some (fst (child_for_turn (ei_cancel_tree e)))"
    using spawn_ok(2) [OF ok, of now tools] child_handle_inv
    by (auto simp: child_handle_fields new_with_cancel_and_scope_def)
  have f: "ei_phase ?e = ei_phase e" "ei_cancel_tree ?e = snd (child_for_turn (ei_cancel_tree e))"
    using spawn_ok(3,5) [OF ok] by auto
  have "\<not> top_level (ei_threads e) ?c" using assms(2) by (simp add: top_level_def)
  then have tops: "top_level ((ei_threads e)(?c \<mapsto> h)) x = top_level (ei_threads e) x" for x
    using h(4) by (auto simp: top_level_upd)
  have "tokens_ok ((ei_threads e)(?c \<mapsto> h)) (snd (child_for_turn (ei_cancel_tree e)))"
  proof (rule tokens_ok_upd)
    show "tokens_ok (ei_threads e) (snd (child_for_turn (ei_cancel_tree e)))"
      using assms(1) by (auto simp: engine_inv_def intro: tokens_ok_child)
    show "at_cancel a \<le> length (ct_parents (snd (child_for_turn (ei_cancel_tree e))))"
      if "hd_active_turn h = Some a" for a
      using h(5) that child_for_turn_range [of "ei_cancel_tree e"] by simp
  qed
  moreover have "store_ok ((ei_threads e)(?c \<mapsto> h))"
    by (rule store_ok_upd) (use assms(1) h in \<open>auto simp: engine_inv_def\<close>)
  ultimately show ?thesis
    using assms(1) tops by (simp add: engine_inv_def quiet_def h(1) f single_def)
qed

lemma q_compact:
  "engine_inv e \<Longrightarrow>
   engine_inv (fst (snd (compact_dispatch w tid tr e))) \<and> quiet e (fst (snd (compact_dispatch w tid tr e)))"
proof -
  assume inv: "engine_inv e"
  have "fst (snd (compact_dispatch w tid tr e)) = e \<or>
        (\<exists>h. fst (snd (compact_dispatch w tid tr e)) = snd (compact_prelude w h tid tr e))"
    by (auto simp: compact_dispatch_def case_prod_beta split: option.split compact_start.split)
  moreover have "engine_inv (snd (compact_prelude w h tid tr e)) \<and> quiet e (snd (compact_prelude w h tid tr e))" for h
    by (rule inv_quiet_same [OF inv])
       (use compact_prelude_started [of w h tid tr e] in
         \<open>auto simp: compact_prelude_fields compact_prelude_phase split: compact_start.split\<close>)
  ultimately show ?thesis using inv by (auto simp: quiet_same)
qed

lemma q_compact_tail:
  assumes "engine_inv e" "ei_threads e tid = Some h" "hd_active_turn h = None"
    and "compact_tail w now tid tr its n (h, e) = (h', e')"
  shows "engine_inv (put_handle tid h' e') \<and> quiet e (put_handle tid h' e')"
proof -
  have eq: "h' = fst (compact_tail w now tid tr its n (h, e))" "e' = snd (compact_tail w now tid tr its n (h, e))"
    using assms(4) by auto
  have h: "handle_inv h" "hd_id h = tid" using engine_inv_stored [OF assms(1,2)] by auto
  have "handle_inv h'" unfolding eq by (rule compact_tail_inv [OF h(1) assms(3)])
  then show ?thesis
    by (intro inv_quiet_put [OF assms(1), of _ tid h'])
       (use h assms(2) in \<open>auto simp: eq frame_simps compact_tail_fields compact_tail_handle handle_of_cases\<close>)
qed

lemma q_auto_compact:
  assumes "engine_inv e" "ei_threads e tid = Some h" "hd_active_turn h = None"
    and "run_compaction w now tid tr (h, e) = (r, h', e')"
  shows "engine_inv (put_handle tid h' e') \<and> quiet e (put_handle tid h' e')"
proof -
  let ?p = "snd (compact_prelude w h tid tr e)"
  have p: "engine_inv ?p \<and> quiet e ?p"
    by (rule inv_quiet_same [OF assms(1)])
       (use compact_prelude_started [of w h tid tr e] in
         \<open>auto simp: compact_prelude_fields compact_prelude_phase split: compact_start.split\<close>)
  show ?thesis
  proof (cases "fst (compact_prelude w h tid tr e)")
    case (Done res)
    with assms(4) have "h' = h" "e' = ?p" by (auto simp: run_compaction_def case_prod_beta)
    with p assms(2) show ?thesis
      by (intro inv_quiet_same [OF assms(1)])
         (auto simp: frame_simps compact_prelude_fields quiet_def fun_upd_idem)
  next
    case (Started its n)
    then have t: "compact_tail w now tid tr its n (h, ?p) = (h', e')"
      using assms(4) by (auto simp: run_compaction_def case_prod_beta)
    have "engine_inv (put_handle tid h' e') \<and> quiet ?p (put_handle tid h' e')"
      by (rule q_compact_tail [OF _ _ assms(3) t]) (use p assms(2) in \<open>auto simp: compact_prelude_fields\<close>)
    with p show ?thesis by (auto simp: quiet_def)
  qed
qed

lemma fork_busy:
  "ei_phase e \<noteq> Idle \<Longrightarrow> ei_threads (snd (fork_with_cut w now ack source i hc s e)) = ei_threads e"
  by (simp add: fork_with_cut_def set_phase_def try_set_phase_atomic_def)

lemma q_fork:
  assumes "engine_inv e"
  shows "engine_inv (snd (fork_with_cut w now ack source i hc s e)) \<and>
         quiet e (snd (fork_with_cut w now ack source i hc s e))"
proof (cases "ei_threads (snd (fork_with_cut w now ack source i hc s e)) = ei_threads e")
  case True
  then show ?thesis by (intro inv_quiet_same [OF assms]) (simp_all add: fork_with_cut_fields)
next
  case False
  then have idle: "ei_phase e = Idle" using fork_busy by blast
  obtain turn its where upd: "ei_threads (snd (fork_with_cut w now ack source i hc s e)) =
      (ei_threads e)(fork_id_for source (ei_turn_counter e) \<mapsto>
         forked_handle (fork_id_for source (ei_turn_counter e)) turn now its)"
    using False fork_with_cut_threads [of w now ack source i hc s e] by blast
  show ?thesis
    by (rule inv_idle_put [OF assms idle upd forked_inv])
       (simp_all add: forked_fields fork_with_cut_fields idle)
qed

lemma q_trans: "quiet a b \<Longrightarrow> quiet b c \<Longrightarrow> quiet a c"
  by (simp add: quiet_def)

lemma q_restore:
  assumes "engine_inv e"
  shows "engine_inv (snd (restore_to_checkpoint w now ack tid target e)) \<and>
         quiet e (snd (restore_to_checkpoint w now ack tid target e))"
proof (cases "ei_phase e = Idle")
  case False
  have "ei_threads (snd (restore_to_checkpoint w now ack tid target e)) = ei_threads e"
    using False by (auto simp: restore_to_checkpoint_def set_phase_def try_set_phase_atomic_def Let_def
                         split: sum.split option.split)
  then show ?thesis by (intro inv_quiet_same [OF assms]) (simp_all add: restore_fields)
next
  case idle: True
  let ?r = "snd (restore_to_checkpoint w now ack tid target e)"
  define e4 where "e4 = leave_restore tid (enqueue_storage_op (storage_write_op.Flush tid (Some ack))
     (send (PhaseChanged (Some tid) Idle engine_phase.Restore) (e\<lparr>ei_phase := engine_phase.Restore\<rparr>)))"
  have e4: "ei_threads e4 = ei_threads e" by (simp add: e4_def leave_restore_def frame_simps)
  have "ei_threads ?r = ei_threads e \<or>
        (\<exists>i hc. ei_threads ?r = ei_threads (snd (fork_with_cut (rw_fork w) now ack tid i hc False e4)))"
    using idle
    by (auto simp: restore_to_checkpoint_def set_phase_def try_set_phase_atomic_def Let_def case_prod_beta
                   e4 e4_def [symmetric] fork_thread_def fork_thread_to_start_def frame_simps
             split: sum.split option.split rewind_bound.split fork_reply.split)
  then have "ei_threads ?r = ei_threads e \<or>
        (\<exists>new turn its. ei_threads ?r = (ei_threads e)(new \<mapsto> forked_handle new turn now its))"
    using fork_with_cut_threads [of "rw_fork w" now ack tid _ _ False e4] e4 by metis
  then show ?thesis
  proof
    assume "ei_threads ?r = ei_threads e"
    then show ?thesis by (intro inv_quiet_same [OF assms]) (simp_all add: restore_fields)
  next
    assume "\<exists>new turn its. ei_threads ?r = (ei_threads e)(new \<mapsto> forked_handle new turn now its)"
    then obtain new turn its where upd: "ei_threads ?r = (ei_threads e)(new \<mapsto> forked_handle new turn now its)"
      by blast
    show ?thesis
      by (rule inv_idle_put [OF assms idle upd forked_inv])
         (simp_all add: forked_fields restore_fields idle)
  qed
qed

lemma q_resume:
  assumes "engine_inv e" "\<not> running tid e"
  shows "engine_inv (fst (snd (resume_thread w new_tx g now ack tid e))) \<and>
         quiet e (fst (snd (resume_thread w new_tx g now ack tid e)))"
  using resume_thread_threads [of w new_tx g now ack tid e]
proof
  assume "ei_threads (fst (snd (resume_thread w new_tx g now ack tid e))) = ei_threads e"
  then show ?thesis by (intro inv_quiet_same [OF assms(1)]) (simp_all add: resume_thread_fields)
next
  assume "ei_phase e = Idle \<and>
   (\<exists>turns. ei_threads (fst (snd (resume_thread w new_tx g now ack tid e))) =
      (ei_threads e)(tid \<mapsto> (seed_history now turns (handle_of tid e))\<lparr>hd_status := thread_status.Idle\<rparr>))"
  then obtain turns where idle: "ei_phase e = Idle" and
    upd: "ei_threads (fst (snd (resume_thread w new_tx g now ack tid e))) =
      (ei_threads e)(tid \<mapsto> (seed_history now turns (handle_of tid e))\<lparr>hd_status := thread_status.Idle\<rparr>)"
    by blast
  have none: "hd_active_turn (handle_of tid e) = None" using assms(2) by (simp add: running_def)
  have "handle_inv (seed_history now turns (handle_of tid e))"
    by (rule seed_history_inv [OF engine_inv_handle(1) [OF assms(1)] none])
  then have "handle_inv ((seed_history now turns (handle_of tid e))\<lparr>hd_status := thread_status.Idle\<rparr>)"
    using none by (simp add: handle_inv_def seed_history_fields)
  then show ?thesis
    by (rule inv_idle_put [OF assms(1) idle upd])
       (use none engine_inv_handle(2) [OF assms(1), of tid] in
         \<open>simp_all add: seed_history_fields resume_thread_fields idle\<close>)
qed

lemma q_child_done:
  assumes "engine_inv e" "is_child c e"
  shows "engine_inv (snd (finish_child child c p err e)) \<and> quiet e (snd (finish_child child c p err e))"
  by (rule inv_quiet_removed [OF assms(1), of _ c])
     (use assms(2) in \<open>simp_all add: finish_child_fields top_level_handle\<close>)

lemma handle_of_stored: "ei_threads e tid = Some h \<Longrightarrow> handle_of tid e = h"
  by (simp add: handle_of_cases)

lemma q_push:
  assumes "engine_inv e" "ei_threads e tid = Some h"
  shows "engine_inv (put_handle tid (handle_push_item it h) e) \<and> quiet e (put_handle tid (handle_push_item it h) e)"
  by (rule inv_quiet_put [OF assms(1), of _ tid "handle_push_item it h"])
     (use engine_inv_stored [OF assms] in
       \<open>simp_all add: frame_simps handle_of_stored [OF assms(2)] handle_push_item_inv\<close>)

lemma q_enter_retry:
  "engine_inv e \<Longrightarrow> engine_inv (enter_retry_phase tid e) \<and> quiet e (enter_retry_phase tid e)"
  by (rule inv_quiet_same) (simp_all add: enter_leave_phase, simp_all add: enter_retry_phase_def frame_simps)

lemma q_leave_retry:
  "engine_inv e \<Longrightarrow> engine_inv (leave_retry_phase tid e) \<and> quiet e (leave_retry_phase tid e)"
  by (rule inv_quiet_same) (simp_all add: enter_leave_phase, simp_all add: leave_retry_phase_def frame_simps)

lemma q_enroll: "engine_inv e \<Longrightarrow> engine_inv (e\<lparr>ei_permission := r\<rparr>) \<and> quiet e (e\<lparr>ei_permission := r\<rparr>)"
  by (rule inv_quiet_same) simp_all

lemma q_internal:
  "engine_inv e \<Longrightarrow> ei_threads e' = ei_threads e \<Longrightarrow> ei_cancel_tree e' = ei_cancel_tree e \<Longrightarrow>
   ei_phase e' = ei_phase e \<Longrightarrow> engine_inv e' \<and> quiet e e'"
  by (rule inv_quiet_same) simp_all

lemma q_queues:
  assumes "engine_inv e" "ei_threads e tid = Some h"
  shows "engine_inv (put_handle tid (h\<lparr>hd_injection := q, hd_pending := p\<rparr>) e) \<and>
         quiet e (put_handle tid (h\<lparr>hd_injection := q, hd_pending := p\<rparr>) e)"
  by (rule inv_quiet_put [OF assms(1), of _ tid "h\<lparr>hd_injection := q, hd_pending := p\<rparr>"])
     (use engine_inv_stored [OF assms] in
       \<open>simp_all add: frame_simps handle_of_stored [OF assms(2)] handle_inv_def\<close>)

section \<open>Every run\<close>

text \<open>What a step that is not quiet does to the top-level turns and the phase.\<close>

lemma only_top:
  assumes "engine_inv e" "ei_threads e tid = Some h" "hd_active_turn h \<noteq> None" "hd_parent h = None"
    and "m = (ei_threads e)(tid \<mapsto> h')" "hd_active_turn h' = None"
  shows "top_level (ei_threads e) tid" "\<not> top_level m x"
proof -
  show t: "top_level (ei_threads e) tid" using assms(2-4) by (auto simp: top_level_def)
  have "top_level (ei_threads e) x \<Longrightarrow> x = tid" using assms(1) t by (auto simp: engine_inv_def single_def)
  with assms(5,6) show "\<not> top_level m x" by (auto simp: top_level_upd)
qed

lemma child_put_quiet:
  assumes "ei_threads e tid = Some h" "hd_parent h \<noteq> None" "hd_parent h' = hd_parent h"
    and "ei_threads e' = (ei_threads e)(tid \<mapsto> h')" "ei_phase e' = ei_phase e"
  shows "quiet e e'"
proof (rule quiet_put [OF assms(4)])
  have "\<not> top_level (ei_threads e) tid" using assms(1,2) by (auto simp: top_level_def)
  with assms(2,3) show "(hd_active_turn h' \<noteq> None \<and> hd_parent h' = None) = top_level (ei_threads e) tid"
    by simp
qed (simp add: assms(5))

definition ends :: "'tx engine_inner \<Rightarrow> thread_id \<Rightarrow> 'tx engine_inner \<Rightarrow> bool" where
  "ends e tid e' \<longleftrightarrow>
     top_level (ei_threads e) tid \<and> (\<forall>x. \<not> top_level (ei_threads e') x) \<and>
     ei_phase e' = (if ei_phase e = Turn then Idle else ei_phase e)"

lemma finish_effect:
  assumes "engine_inv e" "ei_threads e tid = Some h" "finish_turn now tid turn error (h, e) = (h', e')"
  shows "quiet e (put_handle tid h' e') \<or>
         owns h turn \<and> hd_parent h = None \<and> ends e tid (put_handle tid h' e')"
proof (cases "owns h turn")
  case False
  with assms(3) have "h' = h" "e' = e" by (auto simp: finish_not_owner)
  with assms(2) show ?thesis by (auto simp: quiet_def frame_simps fun_upd_idem)
next
  case True
  have active: "hd_active_turn h \<noteq> None" using True by (auto simp: owns_def split: option.splits)
  have f: "ei_threads (put_handle tid h' e') = (ei_threads e)(tid \<mapsto> h')" "hd_active_turn h' = None"
    "hd_parent h' = hd_parent h"
    "ei_phase (put_handle tid h' e') = (if hd_parent h = None \<and> ei_phase e = Turn then Idle else ei_phase e)"
    using finish_owner [OF True, of now tid error e] assms(3) by (simp_all add: frame_simps)
  show ?thesis
  proof (cases "hd_parent h = None")
    case top: True
    show ?thesis
      using only_top [OF assms(1,2) active top f(1,2)] f(4) True top by (simp add: ends_def)
  next
    case False
    then show ?thesis using child_put_quiet [OF assms(2) False f(3,1)] f(4) by simp
  qed
qed

lemma cancel_effect:
  assumes "engine_inv e"
  shows "quiet e (fst (snd (cancel_turn alive now tid e))) \<or> ends e tid (fst (snd (cancel_turn alive now tid e)))"
proof (cases "\<exists>h a. ei_threads e tid = Some h \<and> hd_active_turn h = Some a")
  case False
  then have "cancel_turn alive now tid e = (NoActiveTurn, e, [])"
    by (intro cancel_turn_none) (auto split: option.split)
  then show ?thesis by (simp add: quiet_def)
next
  case True
  then obtain h a where h: "ei_threads e tid = Some h" "hd_active_turn h = Some a" by blast
  let ?e = "fst (snd (cancel_turn alive now tid e))"
  note f = cancel_turn_active(2,3) [OF h, of alive now]
  have active: "hd_active_turn h \<noteq> None" using h(2) by simp
  show ?thesis
  proof (cases "hd_parent h = None")
    case top: True
    show ?thesis
      using only_top [OF assms h(1) active top f(1) cancelled_fields(3)] f(2) top by (simp add: ends_def)
  next
    case False
    then show ?thesis using child_put_quiet [OF h(1) False cancelled_fields(2) f(1)] f(2) by simp
  qed
qed

lemma start_effect:
  assumes "engine_inv e"
  shows "quiet e (snd (start_turn now tid input scope reasoning e)) \<or>
         ei_phase e = Idle \<and>
         ei_phase (snd (start_turn now tid input scope reasoning e)) = Turn \<and>
         (\<forall>x. top_level (ei_threads (snd (start_turn now tid input scope reasoning e))) x \<longleftrightarrow>
              x = tid \<and> \<not> is_child tid e)"
proof (cases "ei_phase e = Idle")
  case False
  then show ?thesis by (simp add: quiet_def start_turn_busy frame_simps)
next
  case True
  have none: "\<not> top_level (ei_threads e) x" for x using idle_no_top [OF assms] True by simp
  obtain H where "ei_threads (snd (start_turn now tid input scope reasoning e)) = (ei_threads e)(tid \<mapsto> H)"
    "hd_parent H = hd_parent (handle_of tid e)" "hd_active_turn H \<noteq> None"
    using start_turn_handle [OF True, of now tid input scope reasoning] by auto
  with True none show ?thesis
    by (auto simp: start_turn_ok(2) [OF True] top_level_upd is_child_def)
qed

section \<open>Every run\<close>

text \<open>
  A step keeps the invariant, and is quiet unless it starts a turn (of a child thread only in a step
  of that kind) or ends one (while the phase is \<open>Retry\<close> only in a step of that kind).
\<close>

definition step_shape :: "step_kind \<Rightarrow> 'tx engine_inner \<Rightarrow> 'tx engine_inner \<Rightarrow> bool" where
  "step_shape k e e' \<longleftrightarrow>
     quiet e e' \<or>
     ei_phase e = Idle \<and> ei_phase e' = Turn \<and> (k \<noteq> StartOnChild \<longrightarrow> (\<exists>x. top_level (ei_threads e') x)) \<or>
     (\<exists>tid. ends e tid e') \<and> (k = EndInRetry \<or> ei_phase e \<noteq> Retry)"

lemma quiet_shape: "engine_inv e' \<and> quiet e e' \<Longrightarrow> engine_inv e' \<and> step_shape k e e'"
  by (simp add: step_shape_def)

lemma shape_start:
  assumes "engine_inv e" "k = StartOnChild \<or> \<not> is_child tid e"
  shows "engine_inv (snd (start_turn now tid input scope reasoning e)) \<and>
         step_shape k e (snd (start_turn now tid input scope reasoning e))"
  using start_effect [OF assms(1), of now tid input scope reasoning] assms(2)
    inv_start [OF assms(1), of now tid input scope reasoning]
  unfolding step_shape_def by blast

lemma shape_cancel:
  assumes "engine_inv e" "k = EndInRetry \<or> is_child tid e \<or> \<not> running tid e \<or> ei_phase e \<noteq> Retry"
  shows "engine_inv (fst (snd (cancel_turn alive now tid e))) \<and>
         step_shape k e (fst (snd (cancel_turn alive now tid e)))"
proof -
  have "ends e tid e' \<Longrightarrow> running tid e \<and> \<not> is_child tid e" for e'
    by (simp add: ends_def top_level_handle)
  then show ?thesis
    using cancel_effect [OF assms(1), of alive now tid] inv_cancel [OF assms(1), of alive now tid] assms(2)
    unfolding step_shape_def by blast
qed

lemma shape_finish:
  assumes "engine_inv e" "ei_threads e tid = Some h" "finish_turn now tid turn error (h, e) = (h', e')"
    and "k = EndInRetry \<or> hd_parent h \<noteq> None \<or> \<not> owns h turn \<or> ei_phase e \<noteq> Retry"
  shows "engine_inv (put_handle tid h' e') \<and> step_shape k e (put_handle tid h' e')"
  using finish_effect [OF assms(1-3)] inv_finish [OF assms(1-3)] assms(4)
  unfolding step_shape_def by blast

lemma q_shut_down:
  assumes "engine_inv e"
  shows "engine_inv (shut_down e) \<and> quiet e (shut_down e)"
proof
  show "engine_inv (shut_down e)"
    using assms unfolding engine_inv_def shut_down_def cancel_all_def by (simp add: tokens_ok_cancel)
qed (rule quiet_same; simp add: shut_down_def)

lemma step_inv_shape:
  "engine_step alive k e e' \<Longrightarrow> engine_inv e \<Longrightarrow> engine_inv e' \<and> step_shape k e e'"
proof (induction rule: engine_step.induct)
  case (start tid e now input scope reasoning)
  show ?case by (rule shape_start) (use start in auto)
next
  case (start_child tid e now input scope reasoning)
  show ?case by (rule shape_start) (use start_child in auto)
next
  case (cancel tid e now)
  show ?case by (rule shape_cancel) (use cancel in auto)
next
  case (cancel_in_retry tid e now)
  show ?case by (rule shape_cancel) (use cancel_in_retry in auto)
next
  case (finish e tid h now turn error h' e')
  show ?case by (rule shape_finish [OF finish(4,1,2)]) (use finish(3) in auto)
next
  case (finish_in_retry e tid h now turn error h' e')
  show ?case by (rule shape_finish [OF finish_in_retry(6,1,2)]) simp
next
  case (spawn e p now tools d)
  show ?case by (rule quiet_shape, rule q_spawn [OF spawn(2,1)])
next
  case (compact_tail e tid h cw now trigger items n h' e')
  show ?case by (rule quiet_shape, rule q_compact_tail [OF compact_tail(4,1-3)])
next
  case (auto_compact e tid h cw now trigger r h' e')
  show ?case by (rule quiet_shape, rule q_auto_compact [OF auto_compact(4,1-3)])
next
  case (resume tid e fw new_tx found now ack)
  show ?case by (rule quiet_shape, rule q_resume [OF resume(2,1)])
next
  case (child_done c e child p error)
  show ?case by (rule quiet_shape, rule q_child_done [OF child_done(2,1)])
next
  case (push e tid h it)
  show ?case by (rule quiet_shape, rule q_push [OF push(2,1)])
next
  case (internal e' e)
  show ?case by (rule quiet_shape, rule q_internal [OF internal(4,1-3)])
next
  case (queues e tid h q p)
  show ?case by (rule quiet_shape, rule q_queues [OF queues(2,1)])
qed (rule quiet_shape, erule q_inject q_next_turn q_resolve q_delete q_rename q_compact
         q_fork q_restore q_enter_retry q_leave_retry q_enroll q_shut_down)+

lemma quiet_balanced: "quiet e e' \<Longrightarrow> balanced e \<Longrightarrow> balanced e'"
  by (auto simp: quiet_def balanced_def)

lemma quiet_stuck: "quiet e e' \<Longrightarrow> stuck e \<Longrightarrow> stuck e'"
  by (auto simp: quiet_def stuck_def)

lemma shape_balanced: "step_shape Ordinary e e' \<Longrightarrow> balanced e \<Longrightarrow> balanced e'"
  by (auto simp: step_shape_def balanced_def quiet_def ends_def in_turn_def split: if_splits)

lemma shape_stuck: "step_shape k e e' \<Longrightarrow> stuck e \<Longrightarrow> stuck e'"
  by (auto simp: step_shape_def stuck_def quiet_def ends_def in_turn_def)

lemma run_inv: "engine_run alive kinds e e' \<Longrightarrow> engine_inv e \<Longrightarrow> engine_inv e'"
  by (induction rule: engine_run.induct) (auto dest: step_inv_shape)

lemma run_balanced:
  "engine_run alive {Ordinary} e e' \<Longrightarrow> engine_inv e \<Longrightarrow> balanced e \<Longrightarrow> balanced e'"
proof (induction rule: engine_run.induct)
  case (step e e' k e'')
  then show ?case using run_inv [OF step(1)] step_inv_shape [OF step(2)] shape_balanced by blast
qed

lemma run_stuck: "engine_run alive kinds e e' \<Longrightarrow> engine_inv e \<Longrightarrow> stuck e \<Longrightarrow> stuck e'"
proof (induction rule: engine_run.induct)
  case (step e e' k e'')
  then show ?case using run_inv [OF step(1)] step_inv_shape [OF step(2)] shape_stuck by blast
qed

inductive_cases engine_runE: "engine_run alive kinds e e'"

section \<open>Properties\<close>


text \<open>A small engine for the examples: a started turn on a new thread.\<close>

definition sample_engine :: "unit engine_inner" where
  "sample_engine = engine_new None None None True ''/work''"

definition sample_started :: "unit engine_inner" where
  "sample_started = snd (start_turn 0 (ThreadId ''t'') [] None None sample_engine)"

lemma sample_idle [simp]: "ei_phase sample_engine = Idle" "ei_threads sample_engine = Map.empty"
  by (simp_all add: sample_engine_def engine_new_def)

lemma sample_handle [simp]: "handle_of tid sample_engine = new_idle tid"
  by (simp add: handle_of_cases)

lemma sample_run: "engine_run alive {Ordinary} sample_engine sample_started"
  unfolding sample_started_def
  by (rule engine_run.step [OF engine_run.refl], rule engine_step.start)
     (simp_all add: is_child_def new_idle_def with_capacity_def)

lemma sample_inv: "engine_inv sample_engine" "engine_inv sample_started"
proof -
  show e: "engine_inv sample_engine" by (simp add: sample_engine_def engine_inv_new)
  show "engine_inv sample_started" by (rule run_inv [OF sample_run e])
qed

lemma sample_started_facts:
  "ei_phase sample_started = Turn" "top_level (ei_threads sample_started) (ThreadId ''t'')"
proof -
  obtain H where "ei_threads sample_started = [ThreadId ''t'' \<mapsto> H]" "hd_parent H = None" "hd_active_turn H \<noteq> None"
    using start_turn_handle [OF sample_idle(1), of 0 "ThreadId ''t''" "[]" None None]
    unfolding sample_started_def [symmetric]
    by (auto simp: new_idle_def with_capacity_def)
  then show "top_level (ei_threads sample_started) (ThreadId ''t'')" by (auto simp: top_level_def)
qed (simp add: sample_started_def start_turn_ok(2))


text \<open>
  C2: while a top-level turn runs, it is the only one, and every attempt to start another one is
  rejected as busy without touching a thread.
\<close>

theorem one_turn_at_a_time:
  assumes "engine_run alive kinds (engine_new limits tx threshold storage cwd) e"
    and "top_level (ei_threads e) a"
  shows "{b. top_level (ei_threads e) b} = {a} \<and>
         fst (start_turn now tid input scope reasoning e) = Inl (start_turn_error.EngineBusy (ei_phase e)) \<and>
         ei_threads (snd (start_turn now tid input scope reasoning e)) = ei_threads e"
proof -
  have inv: "engine_inv e" by (rule run_inv [OF assms(1) engine_inv_new])
  then have "ei_phase e \<noteq> Idle" using assms(2) by (auto simp: engine_inv_def)
  moreover have "top_level (ei_threads e) b \<longleftrightarrow> b = a" for b
    using inv assms(2) by (auto simp: engine_inv_def single_def)
  ultimately show ?thesis by (simp add: start_turn_busy frame_simps)
qed

theorem one_turn_at_a_time_witness:
  "fst (start_turn 1 (ThreadId ''u'') [] None None sample_started) = Inl (start_turn_error.EngineBusy Turn)"
  using one_turn_at_a_time [OF sample_run [unfolded sample_engine_def] sample_started_facts(2),
                            of 1 "ThreadId ''u''" "[]" None None]
  by (simp add: sample_started_facts)

text \<open>
  C3: along runs that end no top-level turn during a retry back-off and start no turn on a subagent's
  thread, the phase goes back with the turn: when no top-level turn runs the engine is not in a
  turn's phase, and it accepts a new turn exactly when it is idle.
\<close>

theorem engine_available_again:
  assumes "engine_run alive {Ordinary} (engine_new limits tx threshold storage cwd) e"
    and "{a. top_level (ei_threads e) a} = {}"
  shows "ei_phase e \<noteq> Turn \<and> ei_phase e \<noteq> Retry \<and>
         (fst (start_turn now tid input scope reasoning e) = Inr (turn_id_for tid (ei_turn_counter e)) \<longleftrightarrow>
          ei_phase e = Idle)"
proof -
  have "balanced e" by (rule run_balanced [OF assms(1) engine_inv_new balanced_new])
  then have "\<not> in_turn (ei_phase e)" using assms(2) by (auto simp: balanced_def)
  then show ?thesis
    by (cases "ei_phase e = Idle") (auto simp: in_turn_def start_turn_ok start_turn_busy)
qed

theorem engine_available_again_witness:
  "fst (start_turn 0 (ThreadId ''t'') [] None None sample_engine) = Inr (turn_id_for (ThreadId ''t'') 0)"
  using engine_available_again [OF engine_run.refl, of None None None True "''/work''" 0 "ThreadId ''t''" "[]" None None]
  by (simp add: engine_new_def top_level_def sample_engine_def)

text \<open>
  C28: cancelling the running turn while it backs off between provider attempts leaves the engine in a
  turn's phase with no turn to end it: whatever happens afterwards, every later attempt to start a
  turn is rejected as busy.
\<close>

theorem cancel_in_retry_wedges:
  assumes "engine_inv e" "top_level (ei_threads e) tid" "ei_phase e = Retry"
    and "engine_run alive kinds (fst (snd (cancel_turn alive now tid e))) e'"
  shows "fst (start_turn now' tid' input scope reasoning e') = Inl (start_turn_error.EngineBusy (ei_phase e'))
         \<and> ei_phase e' \<in> {Turn, Retry}"
proof -
  let ?e = "fst (snd (cancel_turn alive now tid e))"
  have "\<not> quiet e ?e \<or> ends e tid ?e"
  proof -
    obtain h a where h: "ei_threads e tid = Some h" "hd_active_turn h = Some a"
      using assms(2) by (auto simp: top_level_def)
    have "\<not> top_level (ei_threads ?e) tid"
      by (simp add: cancel_turn_active [OF h] top_level_upd cancelled_fields)
    with assms(2) show ?thesis by (auto simp: quiet_def)
  qed
  then have "ends e tid ?e" using cancel_effect [OF assms(1), of alive now tid] by blast
  then have "stuck ?e" using assms(3) by (simp add: ends_def stuck_def)
  then have "stuck e'" by (rule run_stuck [OF assms(4) inv_cancel [OF assms(1)]])
  then show ?thesis by (auto simp: stuck_def in_turn_def start_turn_busy)
qed

theorem cancel_in_retry_wedges_witness:
  "fst (start_turn 9 (ThreadId ''u'') [] None None
         (leave_retry_phase (ThreadId ''t'')
           (fst (snd (cancel_turn (\<lambda>_. True) 1 (ThreadId ''t'')
             (enter_retry_phase (ThreadId ''t'') sample_started)))))) =
   Inl (start_turn_error.EngineBusy Turn)"
proof -
  let ?t = "ThreadId ''t''" and ?alive = "\<lambda>_ :: unit. True"
  let ?e = "enter_retry_phase ?t sample_started"
  have inv: "engine_inv ?e" using q_enter_retry [OF sample_inv(2)] by simp
  have top: "top_level (ei_threads ?e) ?t" "ei_phase ?e = Retry"
    using sample_started_facts by (simp_all add: enter_retry_phase_def frame_simps set_phase_broadcast_phase)
  let ?c = "fst (snd (cancel_turn ?alive 1 ?t ?e))"
  have run: "engine_run ?alive {Ordinary} ?c (leave_retry_phase ?t ?c)"
    by (rule engine_run.step [OF engine_run.refl engine_step.leave_retry]) simp
  have "ei_phase ?c \<in> {Turn, Retry}"
    using cancel_in_retry_wedges [OF inv top engine_run.refl, of 0 ?t "[]" None None ?alive 1] by simp
  then have "ei_phase (leave_retry_phase ?t ?c) = Turn" by (auto simp: enter_leave_phase)
  with cancel_in_retry_wedges [OF inv top run, of 9 "ThreadId ''u''" "[]" None None] show ?thesis by simp
qed

text \<open>
  a turn started on the thread of a subagent takes the engine's phase, and its end does not give
  it back: the engine is left in a turn's phase with no top-level turn running.
\<close>

theorem turn_on_child_wedges:
  assumes "engine_inv e" "ei_phase e = Idle" "is_child tid e"
    and "ei_threads (snd (start_turn now tid input scope reasoning e)) tid = Some h"
    and "finish_turn now' tid (turn_id_for tid (ei_turn_counter e)) error
           (h, snd (start_turn now tid input scope reasoning e)) = (h', e')"
  shows "hd_active_turn h' = None \<and> ei_phase (put_handle tid h' e') = Turn \<and> stuck (put_handle tid h' e')"
proof -
  let ?e = "snd (start_turn now tid input scope reasoning e)" and ?turn = "turn_id_for tid (ei_turn_counter e)"
  obtain H where H: "ei_threads ?e = (ei_threads e)(tid \<mapsto> H)" "hd_parent H = hd_parent (handle_of tid e)"
    "map_option at_id (hd_active_turn H) = Some ?turn"
    using start_turn_handle [OF assms(2), of now tid input scope reasoning] by blast
  then have h: "h = H" using assms(4) by simp
  have own: "owns h ?turn" "hd_parent h \<noteq> None"
    using H assms(3) by (auto simp: h owns_def is_child_def split: option.split)
  have f: "hd_active_turn h' = None" "hd_parent h' = hd_parent h" "ei_phase e' = Turn" "ei_threads e' = ei_threads ?e"
    using finish_owner [OF own(1), of now' tid error ?e] assms(5) own(2)
    by (simp_all add: start_turn_ok(2) [OF assms(2)])
  have "\<not> top_level (ei_threads e) x" for x using idle_no_top [OF assms(1)] assms(2) by simp
  then have "stuck (put_handle tid h' e')"
    using f H(1) own(2) by (simp add: stuck_def frame_simps top_level_upd)
  with f show ?thesis by (simp add: frame_simps)
qed

definition sample_child :: "unit engine_inner" where
  "sample_child = put_handle (ThreadId ''c'') (new_child (ThreadId ''c'') (ThreadId ''t'')) sample_engine"

theorem turn_on_child_wedges_witness:
  "ei_phase (snd (finish_turn 2 (ThreadId ''c'') (turn_id_for (ThreadId ''c'') 0) None
     (the (ei_threads (snd (start_turn 1 (ThreadId ''c'') [] None None sample_child)) (ThreadId ''c'')),
      snd (start_turn 1 (ThreadId ''c'') [] None None sample_child)))) = Turn"
proof -
  let ?c = "ThreadId ''c''"
  have e: "engine_inv sample_child" "ei_phase sample_child = Idle" "is_child ?c sample_child" "ei_turn_counter sample_child = 0"
  proof -
    show "engine_inv sample_child"
      by (rule engine_inv_put [OF sample_inv(1), of _ ?c "new_child ?c (ThreadId ''t'')"])
         (simp_all add: sample_child_def frame_simps new_child_inv, simp_all add: new_child_def)
  qed (simp_all add: sample_child_def frame_simps is_child_def handle_of_cases new_child_def sample_engine_def engine_new_def put_handle_def)
  obtain H where H: "ei_threads (snd (start_turn 1 ?c [] None None sample_child)) = (ei_threads sample_child)(?c \<mapsto> H)"
    using start_turn_handle [OF e(2), of 1 ?c "[]" None None] by blast
  obtain h' e' where f: "finish_turn 2 ?c (turn_id_for ?c (ei_turn_counter sample_child)) None
           (H, snd (start_turn 1 ?c [] None None sample_child)) = (h', e')"
    by (cases "finish_turn 2 ?c (turn_id_for ?c (ei_turn_counter sample_child)) None
           (H, snd (start_turn 1 ?c [] None None sample_child))")
  have "ei_phase (put_handle ?c h' e') = Turn"
    using turn_on_child_wedges [OF e(1-3) _ f] H by simp
  with f H e(4) show ?thesis by (simp add: frame_simps)
qed

end
