(* ===== verification/Stream_Fold.thy ===== *)
theory Stream_Fold
  imports Lifecycle Id_Allocator "HOL-Library.AList" "HOL-Library.Multiset"
begin

text \<open>
  The fold of a provider's stream into items (\<open>zhive-core/src/provider/stream_fold.rs\<close>). Text,
  reasoning and tool-input blocks are buffered under the provider's block id; each block gives one
  item, when it ends or when the stream is cut. The parts are those of the SDK the source matches
  on; its JSON parser and printer are the parameters \<open>from_str\<close> and \<open>display\<close>. A hash map is an
  association list, and the order in which it is drained, which the source leaves open, is a
  parameter of \<open>finish\<close>.
\<close>

section \<open>Parts and state\<close>

record usage =
  us_input_total :: "u64 option"
  us_output_total :: "u64 option"

datatype stream_part =
    TextStart string
  | TextDelta string string
  | TextEnd string
  | ReasoningStart string
  | ReasoningDelta string string
  | ReasoningEnd string
  | ToolInputStart string string
  | ToolInputDelta string string
  | ToolInputEnd string
  | ToolCall string string json
  | Error json
  | Finish usage
  | ToolResult
  | ToolApprovalRequest
  | StreamStart
  | ResponseMetadata
  | Source
  | File
  | ReasoningFile
  | Custom
  | Raw

datatype block_kind = Text | Reasoning

record block_buf =
  bb_item_id :: item_id
  bb_text :: string
  bb_tool_name :: "string option"
  bb_kind :: block_kind

record stream_fold =
  sf_prefix :: string
  sf_seq :: u64
  sf_text_bufs :: "(string \<times> block_buf) list"
  sf_tool_bufs :: "(string \<times> block_buf) list"
  sf_finalized_tool_ids :: "string set"
  sf_usage :: "usage option"

definition parse_tool_input :: "(string \<Rightarrow> json option) \<Rightarrow> string \<Rightarrow> json" where
  "parse_tool_input from_str text =
     (case from_str text of Some (Object kvs) \<Rightarrow> Object kvs | _ \<Rightarrow> Object [])"

definition fold_new :: "turn_id \<Rightarrow> stream_fold" where
  "fold_new turn =
     \<lparr>sf_prefix = turn_id_str turn, sf_seq = 0, sf_text_bufs = [], sf_tool_bufs = [],
      sf_finalized_tool_ids = {}, sf_usage = None\<rparr>"

definition resuming_at :: "turn_id \<Rightarrow> u64 \<Rightarrow> stream_fold" where
  "resuming_at turn start_seq = (fold_new turn)\<lparr>sf_seq := start_seq\<rparr>"

definition next_seq :: "stream_fold \<Rightarrow> u64" where
  "next_seq st = sf_seq st"

text \<open>\<open>next_item_id\<close>: \<open>item:\<close>, the prefix, a slash and the counter.\<close>

definition next_item_id :: "stream_fold \<Rightarrow> item_id \<times> stream_fold" where
  "next_item_id st =
     (seeded_id (TurnId (sf_prefix st)) (unat (sf_seq st)), st\<lparr>sf_seq := sf_seq st + 1\<rparr>)"

section \<open>One part\<close>

definition text_start :: "block_kind \<Rightarrow> string \<Rightarrow> stream_fold \<Rightarrow> stream_fold" where
  "text_start kind bid st =
     (let (iid, st') = next_item_id st
      in case map_of (sf_text_bufs st') bid of
           Some _ \<Rightarrow> st'
         | None \<Rightarrow>
             st'\<lparr>sf_text_bufs :=
               AList.update bid
                 \<lparr>bb_item_id = iid, bb_text = [], bb_tool_name = None, bb_kind = kind\<rparr> (sf_text_bufs st')\<rparr>)"

definition text_delta :: "block_kind \<Rightarrow> string \<Rightarrow> string \<Rightarrow> stream_fold \<Rightarrow> stream_fold" where
  "text_delta kind bid delta st =
     (case map_of (sf_text_bufs st) bid of
        Some b \<Rightarrow>
          st\<lparr>sf_text_bufs := AList.update bid (b\<lparr>bb_text := bb_text b @ delta\<rparr>) (sf_text_bufs st)\<rparr>
      | None \<Rightarrow>
          (let (iid, st') = next_item_id st
           in st'\<lparr>sf_text_bufs :=
                AList.update bid
                  \<lparr>bb_item_id = iid, bb_text = delta, bb_tool_name = None, bb_kind = kind\<rparr>
                  (sf_text_bufs st')\<rparr>))"

definition tool_item :: "item_id \<Rightarrow> string \<Rightarrow> json \<Rightarrow> string \<Rightarrow> item" where
  "tool_item iid name raw_input call_id =
     item.ToolCall iid name None tool_kind.Other tool_call_status.InProgress [] [] (Some raw_input)
       None (Some call_id)"

definition buf_name :: "block_buf \<Rightarrow> string" where
  "buf_name b = (case bb_tool_name b of Some n \<Rightarrow> n | None \<Rightarrow> [])"

definition notice :: "notice_level \<Rightarrow> string \<Rightarrow> stream_fold \<Rightarrow> item list \<times> stream_fold" where
  "notice level message st =
     (let (iid, st') = next_item_id st in ([SystemNotice iid level message], st'))"

definition TOOL_RESULT_NOTICE :: string where
  "TOOL_RESULT_NOTICE =
     ''provider sent a provider-executed tool result, which zhive does not consume in Phase 1 (the engine runs tools itself); the result was surfaced as a notice instead of being applied''"

definition TOOL_APPROVAL_NOTICE :: string where
  "TOOL_APPROVAL_NOTICE =
     ''provider sent a tool-approval request, which zhive does not handle in Phase 1; surfaced as a notice''"

fun fold_part ::
    "(string \<Rightarrow> json option) \<Rightarrow> (json \<Rightarrow> string) \<Rightarrow> stream_part \<Rightarrow> stream_fold \<Rightarrow> item list \<times> stream_fold" where
  "fold_part from_str display (TextStart bid) st = ([], text_start Text bid st)"
| "fold_part from_str display (ReasoningStart bid) st = ([], text_start Reasoning bid st)"
| "fold_part from_str display (TextDelta bid delta) st = ([], text_delta Text bid delta st)"
| "fold_part from_str display (TextEnd bid) st =
     (case map_of (sf_text_bufs st) bid of
        Some b \<Rightarrow> ([AgentMessage (bb_item_id b) (bb_text b)],
                   st\<lparr>sf_text_bufs := AList.delete bid (sf_text_bufs st)\<rparr>)
      | None \<Rightarrow> ([], st))"
| "fold_part from_str display (ReasoningDelta bid delta) st = ([], text_delta Reasoning bid delta st)"
| "fold_part from_str display (ReasoningEnd bid) st =
     (case map_of (sf_text_bufs st) bid of
        Some b \<Rightarrow> ([item.Reasoning (bb_item_id b) [bb_text b]],
                   st\<lparr>sf_text_bufs := AList.delete bid (sf_text_bufs st)\<rparr>)
      | None \<Rightarrow> ([], st))"
| "fold_part from_str display (ToolInputStart bid name) st =
     (case map_of (sf_tool_bufs st) bid of
        Some _ \<Rightarrow> ([], st)
      | None \<Rightarrow>
          (let (iid, st') = next_item_id st
           in ([], st'\<lparr>sf_tool_bufs :=
                  AList.update bid
                    \<lparr>bb_item_id = iid, bb_text = [], bb_tool_name = Some name, bb_kind = Text\<rparr>
                    (sf_tool_bufs st')\<rparr>)))"
| "fold_part from_str display (ToolInputDelta bid delta) st =
     (case map_of (sf_tool_bufs st) bid of
        Some b \<Rightarrow>
          ([], st\<lparr>sf_tool_bufs := AList.update bid (b\<lparr>bb_text := bb_text b @ delta\<rparr>) (sf_tool_bufs st)\<rparr>)
      | None \<Rightarrow> ([], st))"
| "fold_part from_str display (ToolInputEnd bid) st =
     (case map_of (sf_tool_bufs st) bid of
        Some b \<Rightarrow>
          ([tool_item (bb_item_id b) (buf_name b) (parse_tool_input from_str (bb_text b)) bid],
           st\<lparr>sf_tool_bufs := AList.delete bid (sf_tool_bufs st),
              sf_finalized_tool_ids := insert bid (sf_finalized_tool_ids st)\<rparr>)
      | None \<Rightarrow> ([], st))"
| "fold_part from_str display (ToolCall call_id name input) st =
     (if call_id \<in> sf_finalized_tool_ids st then ([], st)
      else (case map_of (sf_tool_bufs st) call_id of
              Some b \<Rightarrow>
                ([tool_item (bb_item_id b) name input call_id],
                 st\<lparr>sf_tool_bufs := AList.delete call_id (sf_tool_bufs st)\<rparr>)
            | None \<Rightarrow>
                (let (iid, st') = next_item_id st in ([tool_item iid name input call_id], st'))))"
| "fold_part from_str display (Error err) st =
     notice notice_level.Error
       (''provider error: '' @ (case err of String s \<Rightarrow> s | other \<Rightarrow> display other)) st"
| "fold_part from_str display (Finish u) st = ([], st\<lparr>sf_usage := Some u\<rparr>)"
| "fold_part from_str display ToolResult st = notice Warn TOOL_RESULT_NOTICE st"
| "fold_part from_str display ToolApprovalRequest st = notice Warn TOOL_APPROVAL_NOTICE st"
| "fold_part from_str display StreamStart st = ([], st)"
| "fold_part from_str display ResponseMetadata st = ([], st)"
| "fold_part from_str display Source st = ([], st)"
| "fold_part from_str display File st = ([], st)"
| "fold_part from_str display ReasoningFile st = ([], st)"
| "fold_part from_str display Custom st = ([], st)"
| "fold_part from_str display Raw st = ([], st)"

text \<open>\<open>finish\<close>: the blocks still open, in whatever order the maps are drained.\<close>

definition flush_text :: "string \<times> block_buf \<Rightarrow> item" where
  "flush_text entry =
     (case bb_kind (snd entry) of
        Text \<Rightarrow> AgentMessage (bb_item_id (snd entry)) (bb_text (snd entry))
      | Reasoning \<Rightarrow> item.Reasoning (bb_item_id (snd entry)) [bb_text (snd entry)])"

definition flush_tool :: "(string \<Rightarrow> json option) \<Rightarrow> string \<times> block_buf \<Rightarrow> item" where
  "flush_tool from_str entry =
     tool_item (bb_item_id (snd entry)) (buf_name (snd entry))
       (parse_tool_input from_str (bb_text (snd entry))) (fst entry)"

type_synonym drain_order = "(string \<times> block_buf) list \<Rightarrow> (string \<times> block_buf) list"

definition finish :: "(string \<Rightarrow> json option) \<Rightarrow> drain_order \<Rightarrow> stream_fold \<Rightarrow> item list \<times> stream_fold" where
  "finish from_str order st =
     (map flush_text (order (sf_text_bufs st)) @ map (flush_tool from_str) (order (sf_tool_bufs st)),
      st\<lparr>sf_text_bufs := [], sf_tool_bufs := []\<rparr>)"

text \<open>A whole stream: every part folded, then the open blocks flushed.\<close>

fun fold_parts ::
    "(string \<Rightarrow> json option) \<Rightarrow> (json \<Rightarrow> string) \<Rightarrow> stream_part list \<Rightarrow> stream_fold \<Rightarrow> item list \<times> stream_fold" where
  "fold_parts from_str display [] st = ([], st)"
| "fold_parts from_str display (p # ps) st =
     (let (its, st') = fold_part from_str display p st;
          (its', st'') = fold_parts from_str display ps st'
      in (its @ its', st''))"

definition fold_stream ::
    "(string \<Rightarrow> json option) \<Rightarrow> (json \<Rightarrow> string) \<Rightarrow> drain_order \<Rightarrow> stream_part list \<Rightarrow> stream_fold \<Rightarrow>
     item list \<times> stream_fold" where
  "fold_stream from_str display order ps st =
     (let (its, st') = fold_parts from_str display ps st; (rest, st'') = finish from_str order st'
      in (its @ rest, st''))"

section \<open>Properties\<close>

section \<open>Open blocks\<close>

lemma update_fresh: "map_of al k = None \<Longrightarrow> AList.update k v al = al @ [(k, v)]"
  by (induction al) (auto split: if_splits)

lemma update_ids:
  "map_of al k = Some b \<Longrightarrow> f (k, v) = f (k, b) \<Longrightarrow> map f (AList.update k v al) = map f al"
  by (induction al) (auto split: if_splits)

lemma delete_absent: "k \<notin> fst ` set al \<Longrightarrow> AList.delete k al = al"
  by (induction al) auto

lemma delete_ids:
  "distinct (map fst al) \<Longrightarrow> map_of al k = Some b \<Longrightarrow>
   mset (map f al) = add_mset (f (k, b)) (mset (map f (AList.delete k al)))"
proof (induction al)
  case (Cons x al)
  show ?case
  proof (cases "fst x = k")
    case True
    with Cons.prems have "AList.delete k al = al" by (intro delete_absent) auto
    with True Cons.prems show ?thesis by (cases x) auto
  next
    case False
    with Cons show ?thesis by (cases x) auto
  qed
qed simp

definition buf_id :: "string \<times> block_buf \<Rightarrow> item_id" where
  "buf_id entry = bb_item_id (snd entry)"

definition open_ids :: "stream_fold \<Rightarrow> item_id multiset" where
  "open_ids st = mset (map buf_id (sf_text_bufs st)) + mset (map buf_id (sf_tool_bufs st))"

definition fold_wf :: "stream_fold \<Rightarrow> bool" where
  "fold_wf st \<longleftrightarrow> distinct (map fst (sf_text_bufs st)) \<and> distinct (map fst (sf_tool_bufs st))"

definition minted :: "stream_fold \<Rightarrow> stream_fold \<Rightarrow> nat list" where
  "minted st st' = [unat (sf_seq st) ..< unat (sf_seq st')]"

abbreviation minted_ids :: "stream_fold \<Rightarrow> stream_fold \<Rightarrow> item_id multiset" where
  "minted_ids st st' \<equiv> mset (map (seeded_id (TurnId (sf_prefix st))) (minted st st'))"

text \<open>What one part does to the identifiers: an item leaves with the identifier of its block or with the new one.\<close>

definition accounted :: "item list \<times> stream_fold \<Rightarrow> stream_fold \<Rightarrow> bool" where
  "accounted r st \<longleftrightarrow>
     fold_wf (snd r) \<and> sf_prefix (snd r) = sf_prefix st \<and>
     unat (sf_seq st) \<le> unat (sf_seq (snd r)) \<and> unat (sf_seq (snd r)) \<le> Suc (unat (sf_seq st)) \<and>
     mset (map item_id_of (fst r)) + open_ids (snd r) \<subseteq># open_ids st + minted_ids st (snd r)"

lemma unat_next: "unat s < u64_max \<Longrightarrow> unat (s + 1 :: u64) = Suc (unat s)"
  by (simp add: unat_word_ariths u64_max_eq)

lemma accounted_same:
  "fold_wf st' \<Longrightarrow> sf_prefix st' = sf_prefix st \<Longrightarrow> sf_seq st' = sf_seq st \<Longrightarrow>
   mset (map item_id_of its) + open_ids st' = open_ids st \<Longrightarrow> accounted (its, st') st"
  by (simp add: accounted_def minted_def)

lemma accounted_mint:
  "unat (sf_seq st) < u64_max \<Longrightarrow> fold_wf st' \<Longrightarrow> sf_prefix st' = sf_prefix st \<Longrightarrow> sf_seq st' = sf_seq st + 1 \<Longrightarrow>
   mset (map item_id_of its) + open_ids st' \<subseteq>#
     add_mset (seeded_id (TurnId (sf_prefix st)) (unat (sf_seq st))) (open_ids st) \<Longrightarrow>
   accounted (its, st') st"
  by (simp add: accounted_def minted_def unat_next)

lemma distinct_update_fresh [simp]:
  "distinct (map fst al) \<Longrightarrow> distinct (map fst (AList.update k v al))"
  by (rule distinct_update)

lemma distinct_delete [simp]: "distinct (map fst al) \<Longrightarrow> distinct (map fst (AList.delete k al))"
  by (rule distinct_delete)

lemma accounted_text_start:
  assumes "fold_wf st" "unat (sf_seq st) < u64_max"
  shows "accounted ([], text_start kind bid st) st"
  by (rule accounted_mint [OF assms(2)])
     (use assms(1) in \<open>auto simp: text_start_def next_item_id_def fold_wf_def open_ids_def buf_id_def update_fresh
                           dest: weak_map_of_SomeI split: option.split\<close>)

lemma accounted_text_delta:
  assumes "fold_wf st" "unat (sf_seq st) < u64_max"
  shows "accounted ([], text_delta kind bid delta st) st"
proof (cases "map_of (sf_text_bufs st) bid")
  case None
  show ?thesis
    by (rule accounted_mint [OF assms(2)])
       (use assms(1) None in \<open>auto simp: text_delta_def next_item_id_def fold_wf_def open_ids_def buf_id_def update_fresh\<close>)
next
  case (Some b)
  show ?thesis
    by (rule accounted_same)
       (use assms(1) Some in \<open>auto simp: text_delta_def fold_wf_def open_ids_def update_ids buf_id_def\<close>)
qed

lemma fold_part_accounted:
  assumes "fold_wf st" "unat (sf_seq st) < u64_max"
  shows "accounted (fold_part from_str display p st) st"
proof -
  have same: "accounted ([], st) st" using assms(1) by (intro accounted_same) auto
  have notice: "accounted (notice level m st) st" for level m
    by (simp add: notice_def next_item_id_def)
       (rule accounted_mint [OF assms(2)], use assms(1) in \<open>auto simp: fold_wf_def open_ids_def\<close>)
  have text_end: "accounted ([it], st\<lparr>sf_text_bufs := AList.delete bid (sf_text_bufs st)\<rparr>) st"
    if "map_of (sf_text_bufs st) bid = Some b" "item_id_of it = bb_item_id b" for bid b it
    using assms(1) delete_ids [OF _ that(1), of buf_id] that(2)
    by (intro accounted_same) (simp_all add: fold_wf_def open_ids_def buf_id_def)
  have tool_end: "accounted ([it], st\<lparr>sf_tool_bufs := AList.delete bid (sf_tool_bufs st), sf_finalized_tool_ids := fin\<rparr>) st"
    if "map_of (sf_tool_bufs st) bid = Some b" "item_id_of it = bb_item_id b" for bid b it fin
    using assms(1) delete_ids [OF _ that(1), of buf_id] that(2)
    by (intro accounted_same) (simp_all add: fold_wf_def open_ids_def buf_id_def)
  have tool_call: "accounted ([it], st\<lparr>sf_tool_bufs := AList.delete bid (sf_tool_bufs st)\<rparr>) st"
    if "map_of (sf_tool_bufs st) bid = Some b" "item_id_of it = bb_item_id b" for bid b it
    using tool_end [OF that, of "sf_finalized_tool_ids st"] by simp
  have tool_delta: "accounted ([], st\<lparr>sf_tool_bufs := AList.update bid (b\<lparr>bb_text := x\<rparr>) (sf_tool_bufs st)\<rparr>) st"
    if "map_of (sf_tool_bufs st) bid = Some b" for bid b x
    by (rule accounted_same)
       (use that assms(1) in \<open>auto simp: fold_wf_def open_ids_def update_ids buf_id_def\<close>)
  have tool_start: "accounted ([], (st\<lparr>sf_seq := sf_seq st + 1\<rparr>)\<lparr>sf_tool_bufs := AList.update bid b (sf_tool_bufs st)\<rparr>) st"
    if "map_of (sf_tool_bufs st) bid = None" "bb_item_id b = seeded_id (TurnId (sf_prefix st)) (unat (sf_seq st))" for bid b
    by (rule accounted_mint [OF assms(2)])
       (use that assms(1) in \<open>auto simp: fold_wf_def open_ids_def update_fresh buf_id_def\<close>)
  have fresh_call: "accounted ([it], st\<lparr>sf_seq := sf_seq st + 1\<rparr>) st"
    if "item_id_of it = seeded_id (TurnId (sf_prefix st)) (unat (sf_seq st))" for it
    by (rule accounted_mint [OF assms(2)]) (use that assms(1) in \<open>auto simp: fold_wf_def open_ids_def\<close>)
  have usage: "accounted ([], st\<lparr>sf_usage := u\<rparr>) st" for u
    using assms(1) by (intro accounted_same) (auto simp: fold_wf_def open_ids_def)
  show ?thesis
    using same notice text_end tool_end tool_call tool_delta tool_start fresh_call usage
      accounted_text_start [OF assms] accounted_text_delta [OF assms]
    by (cases p) (auto simp: tool_item_def next_item_id_def split: option.split)
qed

section \<open>Identifiers of a whole stream\<close>

definition mint_step ::
    "(string \<Rightarrow> json option) \<Rightarrow> (json \<Rightarrow> string) \<Rightarrow> stream_part \<Rightarrow> stream_fold \<Rightarrow> stream_fold \<times> nat list" where
  "mint_step from_str display p st =
     (let st' = snd (fold_part from_str display p st) in (st', minted st st'))"

definition mint_ok :: "stream_part \<Rightarrow> stream_fold \<Rightarrow> bool" where
  "mint_ok p st \<longleftrightarrow> fold_wf st \<and> unat (sf_seq st) < u64_max"

interpretation stream_ids: id_allocator "mint_step from_str display" "\<lambda>st. unat (sf_seq st)" mint_ok
  for from_str display
proof
  fix p st i
  assume ok: "mint_ok p st"
  then have a: "accounted (fold_part from_str display p st) st" by (simp add: mint_ok_def fold_part_accounted)
  show "unat (sf_seq st) \<le> unat (sf_seq (fst (mint_step from_str display p st)))"
    using a by (simp add: mint_step_def Let_def accounted_def)
  show "sorted_wrt (<) (snd (mint_step from_str display p st))"
    by (simp add: mint_step_def Let_def minted_def)
  show "i \<in> set (snd (mint_step from_str display p st)) \<Longrightarrow>
        unat (sf_seq st) \<le> i \<and> i < unat (sf_seq (fst (mint_step from_str display p st)))"
    by (auto simp: mint_step_def Let_def minted_def)
qed

lemma mint_step_fst: "fst (mint_step from_str display p st) = snd (fold_part from_str display p st)"
  by (simp add: mint_step_def Let_def)

lemma fold_parts_accounted:
  assumes "fold_wf st" "unat (sf_seq st) + length ps \<le> u64_max"
  shows "all_ok (mint_step from_str display) mint_ok ps st \<and>
         fst (run_ids (mint_step from_str display) ps st) = snd (fold_parts from_str display ps st) \<and>
         fold_wf (snd (fold_parts from_str display ps st)) \<and>
         sf_prefix (snd (fold_parts from_str display ps st)) = sf_prefix st \<and>
         mset (map item_id_of (fst (fold_parts from_str display ps st))) + open_ids (snd (fold_parts from_str display ps st))
           \<subseteq># open_ids st + mset (map (seeded_id (TurnId (sf_prefix st))) (snd (run_ids (mint_step from_str display) ps st)))"
  using assms
proof (induction ps arbitrary: st)
  case (Cons p ps)
  let ?r = "fold_part from_str display p st"
  have ok: "mint_ok p st" using Cons.prems by (simp add: mint_ok_def)
  then have a: "accounted ?r st" by (simp add: mint_ok_def fold_part_accounted)
  have len: "unat (sf_seq (snd ?r)) + length ps \<le> u64_max" using a Cons.prems(2) by (simp add: accounted_def)
  have wf: "fold_wf (snd ?r)" using a by (simp add: accounted_def)
  note IH = Cons.IH [OF wf len]
  note ih = IH [THEN conjunct1] IH [THEN conjunct2, THEN conjunct1] IH [THEN conjunct2, THEN conjunct2, THEN conjunct1]
    IH [THEN conjunct2, THEN conjunct2, THEN conjunct2, THEN conjunct1] IH [THEN conjunct2, THEN conjunct2, THEN conjunct2, THEN conjunct2]
  have pre: "sf_prefix (snd ?r) = sf_prefix st" using a by (simp add: accounted_def)
  let ?X = "mset (map item_id_of (fst (fold_parts from_str display ps (snd ?r))))"
  let ?O = "open_ids (snd (fold_parts from_str display ps (snd ?r)))"
  let ?M = "mset (map (seeded_id (TurnId (sf_prefix st))) (snd (run_ids (mint_step from_str display) ps (snd ?r))))"
  have 1: "?X + ?O \<subseteq># open_ids (snd ?r) + ?M" using ih(5) unfolding pre .
  have 2: "mset (map item_id_of (fst ?r)) + open_ids (snd ?r) \<subseteq># open_ids st + minted_ids st (snd ?r)"
    using a unfolding accounted_def by blast
  have "mset (map item_id_of (fst ?r)) + (?X + ?O) \<subseteq># mset (map item_id_of (fst ?r)) + (open_ids (snd ?r) + ?M)"
    by (rule subset_mset.add_left_mono [OF 1])
  also have "\<dots> = (mset (map item_id_of (fst ?r)) + open_ids (snd ?r)) + ?M" by (rule add.assoc [symmetric])
  also have "\<dots> \<subseteq># (open_ids st + minted_ids st (snd ?r)) + ?M" by (rule subset_mset.add_right_mono [OF 2])
  finally have sub: "mset (map item_id_of (fst ?r)) + (?X + ?O) \<subseteq># (open_ids st + minted_ids st (snd ?r)) + ?M" .
  have run: "run_ids (mint_step from_str display) (p # ps) st =
      (fst (run_ids (mint_step from_str display) ps (snd ?r)),
       minted st (snd ?r) @ snd (run_ids (mint_step from_str display) ps (snd ?r)))"
    by (simp add: mint_step_def Let_def case_prod_beta)
  have fp: "fold_parts from_str display (p # ps) st =
      (fst ?r @ fst (fold_parts from_str display ps (snd ?r)), snd (fold_parts from_str display ps (snd ?r)))"
    by (simp add: Let_def case_prod_beta)
  have "all_ok (mint_step from_str display) mint_ok (p # ps) st"
    using ok ih(1) by (simp only: all_ok.simps mint_step_fst simp_thms)
  moreover have "mset (map item_id_of (fst (fold_parts from_str display (p # ps) st))) + ?O =
      mset (map item_id_of (fst ?r)) + (?X + ?O)" by (simp only: fp fst_conv map_append mset_append add.assoc)
  moreover have "open_ids st + mset (map (seeded_id (TurnId (sf_prefix st))) (snd (run_ids (mint_step from_str display) (p # ps) st))) =
      (open_ids st + minted_ids st (snd ?r)) + ?M" by (simp only: run snd_conv map_append mset_append add.assoc)
  moreover have "sf_prefix (snd (fold_parts from_str display ps (snd ?r))) = sf_prefix st" using ih(4) pre by simp
  ultimately show ?case
    using ih(2,3) sub by (simp only: run fp fst_conv snd_conv simp_thms)
qed (simp add: Let_def)

definition any_order :: "drain_order \<Rightarrow> bool" where
  "any_order order \<longleftrightarrow> (\<forall>xs. mset (order xs) = mset xs)"

lemma finish_ids:
  assumes "any_order order"
  shows "mset (map item_id_of (fst (finish from_str order st))) = open_ids st"
proof -
  have t: "item_id_of (flush_text e) = buf_id e" "item_id_of (flush_tool from_str e) = buf_id e" for e
    by (simp_all add: flush_text_def flush_tool_def tool_item_def buf_id_def split: block_kind.split)
  have o: "image_mset f (mset (order xs)) = image_mset f (mset xs)" for f :: "string \<times> block_buf \<Rightarrow> item_id" and xs
    using assms by (simp add: any_order_def)
  show ?thesis by (simp add: finish_def open_ids_def t o comp_def)
qed

lemma distinct_mset_part: "mset xs \<subseteq># mset ys \<Longrightarrow> distinct ys \<Longrightarrow> distinct xs"
proof -
  assume "mset xs \<subseteq># mset ys" "distinct ys"
  then obtain zs where "mset ys = mset (xs @ zs)" by (metis ex_mset mset_append subset_mset.le_iff_add)
  with \<open>distinct ys\<close> have "distinct (xs @ zs)" by (metis mset_eq_imp_distinct_iff)
  then show "distinct xs" by simp
qed

text \<open>
  no identifier is given to two items of a stream: the items a fold emits, those flushed at the
  end included, have distinct identifiers, all minted between the number the fold started at and the
  number the next iteration of the turn continues from.
\<close>

theorem stream_ids_unique:
  assumes "unat start + length ps \<le> u64_max" "any_order order"
    and "fold_stream from_str display order ps (resuming_at turn start) = (its, st)"
  shows "distinct (map item_id_of its) \<and>
         set (map item_id_of its) \<subseteq> seeded_id turn ` {unat start ..< unat (next_seq st)} \<and> unat start \<le> unat (next_seq st)"
proof -
  let ?s = "resuming_at turn start"
  let ?r = "fold_parts from_str display ps ?s"
  let ?ids = "snd (run_ids (mint_step from_str display) ps ?s)"
  have s: "fold_wf ?s" "sf_seq ?s = start" "sf_prefix ?s = turn_id_str turn" "open_ids ?s = {#}"
    by (simp_all add: resuming_at_def fold_new_def fold_wf_def open_ids_def)
  have T: "TurnId (turn_id_str turn) = turn" by (cases turn) simp
  note f = fold_parts_accounted [OF s(1), of ps from_str display, unfolded s, OF assms(1)]
  have its: "its = fst ?r @ fst (finish from_str order (snd ?r))" "next_seq st = sf_seq (snd ?r)"
    using assms(3) by (auto simp: fold_stream_def Let_def case_prod_beta finish_def next_seq_def)
  have "mset (map item_id_of its) = mset (map item_id_of (fst ?r)) + open_ids (snd ?r)"
    using finish_ids [OF assms(2), of from_str "snd ?r"] by (simp add: its(1))
  then have sub: "mset (map item_id_of its) \<subseteq># mset (map (seeded_id turn) ?ids)" using f T by simp
  have ok: "all_ok (mint_step from_str display) mint_ok ps ?s" using f by blast
  have "distinct (map (seeded_id turn) ?ids)"
    using stream_ids.run_ids_distinct [OF ok] by (simp add: distinct_map inj_on_def seeded_id_inj)
  then have "distinct (map item_id_of its)"
    using distinct_mset_part [OF sub] by blast
  moreover have "set (map item_id_of its) \<subseteq> seeded_id turn ` set ?ids"
    using set_mset_mono [OF sub] by simp
  moreover have "set ?ids \<subseteq> {unat start ..< unat (sf_seq (snd ?r))}"
    using stream_ids.run_ids_range [OF ok] f s by auto
  moreover have "unat start \<le> unat (sf_seq (snd ?r))" using stream_ids.run_counter [OF ok] f s by simp
  ultimately show ?thesis unfolding its(2) by blast
qed

lemma no_json_order: "any_order (\<lambda>xs. xs)" "any_order rev"
  by (simp_all add: any_order_def)

definition two_blocks :: "stream_part list" where
  "two_blocks = [TextStart ''a'', ReasoningStart ''b'', TextDelta ''a'' ''Hel'', ReasoningDelta ''b'' ''hm'',
                 TextDelta ''a'' ''lo'', TextEnd ''a'']"

theorem stream_ids_unique_witness:
  "distinct (map item_id_of (fst (fold_stream (\<lambda>_. None) (\<lambda>_. []) rev two_blocks (resuming_at (TurnId ''u'') 3)))) \<and>
   fst (fold_stream (\<lambda>_. None) (\<lambda>_. []) rev two_blocks (resuming_at (TurnId ''u'') 3)) =
     [AgentMessage (seeded_id (TurnId ''u'') 3) ''Hello'', item.Reasoning (seeded_id (TurnId ''u'') 4) [''hm'']]"
proof
  obtain its st where r: "fold_stream (\<lambda>_. None) (\<lambda>_. []) rev two_blocks (resuming_at (TurnId ''u'') 3) = (its, st)" by fastforce
  have "unat (3 :: u64) + length two_blocks \<le> u64_max" by (simp add: two_blocks_def u64_max_eq)
  from stream_ids_unique [OF this no_json_order(2) r]
  show "distinct (map item_id_of (fst (fold_stream (\<lambda>_. None) (\<lambda>_. []) rev two_blocks (resuming_at (TurnId ''u'') 3))))"
    by (simp add: r)
  show "fst (fold_stream (\<lambda>_. None) (\<lambda>_. []) rev two_blocks (resuming_at (TurnId ''u'') 3)) =
     [AgentMessage (seeded_id (TurnId ''u'') 3) ''Hello'', item.Reasoning (seeded_id (TurnId ''u'') 4) [''hm'']]"
    by (simp add: two_blocks_def fold_stream_def resuming_at_def fold_new_def text_start_def text_delta_def
                  next_item_id_def finish_def flush_text_def Let_def)
qed

section \<open>What a block gives\<close>

text \<open>The text that arrives for a block, and the parts that close one.\<close>

fun delta_of :: "string \<Rightarrow> stream_part \<Rightarrow> string" where
  "delta_of bid (TextDelta b d) = (if b = bid then d else [])"
| "delta_of bid (ReasoningDelta b d) = (if b = bid then d else [])"
| "delta_of bid _ = []"

fun closes :: "string \<Rightarrow> stream_part \<Rightarrow> bool" where
  "closes bid (TextEnd b) = (b = bid)"
| "closes bid (ReasoningEnd b) = (b = bid)"
| "closes bid _ = False"

definition deltas :: "string \<Rightarrow> stream_part list \<Rightarrow> string" where
  "deltas bid ps = concat (map (delta_of bid) ps)"

lemma text_bufs_notice [simp]: "sf_text_bufs (snd (notice l m st)) = sf_text_bufs st"
  "sf_tool_bufs (snd (notice l m st)) = sf_tool_bufs st"
  "sf_finalized_tool_ids (snd (notice l m st)) = sf_finalized_tool_ids st"
  by (simp_all add: notice_def next_item_id_def)

lemma open_block_step:
  "map_of (sf_text_bufs st) bid = Some b \<Longrightarrow> \<not> closes bid p \<Longrightarrow>
   map_of (sf_text_bufs (snd (fold_part from_str display p st))) bid =
     Some (b\<lparr>bb_text := bb_text b @ delta_of bid p\<rparr>)"
  by (cases p)
     (auto simp: text_start_def text_delta_def next_item_id_def Let_def update_conv' split: option.split)

lemma open_block_run:
  "map_of (sf_text_bufs st) bid = Some b \<Longrightarrow> list_all (\<lambda>p. \<not> closes bid p) ps \<Longrightarrow>
   map_of (sf_text_bufs (snd (fold_parts from_str display ps st))) bid =
     Some (b\<lparr>bb_text := bb_text b @ deltas bid ps\<rparr>)"
proof (induction ps arbitrary: st b)
  case (Cons p ps)
  have "map_of (sf_text_bufs (snd (fold_part from_str display p st))) bid = Some (b\<lparr>bb_text := bb_text b @ delta_of bid p\<rparr>)"
    using Cons.prems by (intro open_block_step) simp_all
  from Cons.IH [OF this] Cons.prems(2) show ?case by (simp add: deltas_def Let_def case_prod_beta)
qed (simp add: deltas_def)

lemma fold_parts_append:
  "fold_parts from_str display (ps @ qs) st =
     (fst (fold_parts from_str display ps st) @ fst (fold_parts from_str display qs (snd (fold_parts from_str display ps st))),
      snd (fold_parts from_str display qs (snd (fold_parts from_str display ps st))))"
  by (induction ps arbitrary: st) (simp_all add: Let_def case_prod_beta)

text \<open>
  a text block gives one message that holds, in order, every fragment that arrived for it,
  however the block is interleaved with others; a block the stream cut off gives the same text when
  the fold is finished.
\<close>

theorem block_text_complete:
  assumes "map_of (sf_text_bufs st) bid = None" "list_all (\<lambda>p. \<not> closes bid p) mid"
    and "st' = snd (fold_parts from_str display (TextStart bid # mid) st)" "any_order order"
  shows "fst (fold_part from_str display (TextEnd bid) st') =
           [AgentMessage (seeded_id (TurnId (sf_prefix st)) (unat (sf_seq st))) (deltas bid mid)] \<and>
         AgentMessage (seeded_id (TurnId (sf_prefix st)) (unat (sf_seq st))) (deltas bid mid)
           \<in> set (fst (finish from_str order st'))"
proof -
  let ?b = "\<lparr>bb_item_id = seeded_id (TurnId (sf_prefix st)) (unat (sf_seq st)), bb_text = [], bb_tool_name = None, bb_kind = Text\<rparr>"
  have "map_of (sf_text_bufs (text_start Text bid st)) bid = Some ?b"
    using assms(1) by (simp add: text_start_def next_item_id_def update_conv')
  from open_block_run [OF this assms(2)] have m: "map_of (sf_text_bufs st') bid = Some (?b\<lparr>bb_text := deltas bid mid\<rparr>)"
    by (simp add: assms(3) Let_def case_prod_beta)
  then have "(bid, ?b\<lparr>bb_text := deltas bid mid\<rparr>) \<in> set (order (sf_text_bufs st'))"
    using assms(4) map_of_SomeD by (metis any_order_def set_mset_mset)
  then have "flush_text (bid, ?b\<lparr>bb_text := deltas bid mid\<rparr>) \<in> set (fst (finish from_str order st'))"
    by (auto simp: finish_def)
  then show ?thesis using m by (simp add: flush_text_def)
qed

theorem block_text_complete_witness:
  "fst (fold_part (\<lambda>_. None) (\<lambda>_. []) (TextEnd ''a'')
     (snd (fold_parts (\<lambda>_. None) (\<lambda>_. [])
        [TextStart ''a'', TextDelta ''a'' ''Hel'', TextStart ''b'', TextDelta ''b'' ''x'', TextDelta ''a'' ''lo'']
        (resuming_at (TurnId ''u'') 0)))) =
   [AgentMessage (seeded_id (TurnId ''u'') 0) ''Hello'']"
  using block_text_complete [of "resuming_at (TurnId ''u'') 0" "''a''"
      "[TextDelta ''a'' ''Hel'', TextStart ''b'', TextDelta ''b'' ''x'', TextDelta ''a'' ''lo'']"
      _ "\<lambda>_. None" "\<lambda>_. []", OF _ _ refl no_json_order(1)]
  by (simp add: resuming_at_def fold_new_def deltas_def)

text \<open>The parts about a tool call, and its argument text.\<close>

fun about :: "string \<Rightarrow> stream_part \<Rightarrow> bool" where
  "about cid (ToolInputStart b _) = (b = cid)"
| "about cid (ToolInputEnd b) = (b = cid)"
| "about cid (stream_part.ToolCall b _ _) = (b = cid)"
| "about cid _ = False"

fun args_of :: "string \<Rightarrow> stream_part \<Rightarrow> string" where
  "args_of cid (ToolInputDelta b d) = (if b = cid then d else [])"
| "args_of cid _ = []"

fun for_call :: "string \<Rightarrow> item \<Rightarrow> bool" where
  "for_call cid (item.ToolCall _ _ _ _ _ _ _ _ _ call_id) = (call_id = Some cid)"
| "for_call cid _ = False"

lemma for_call_tool_item [simp]: "for_call cid (tool_item i n a c) = (c = cid)"
  by (simp add: tool_item_def)

lemma notice_items [simp]: "filter (for_call cid) (fst (notice l m st)) = []"
  by (simp add: notice_def next_item_id_def)

lemma text_ops_tools [simp]:
  "sf_tool_bufs (text_start k b st) = sf_tool_bufs st" "sf_tool_bufs (text_delta k b d st) = sf_tool_bufs st"
  "sf_finalized_tool_ids (text_start k b st) = sf_finalized_tool_ids st"
  "sf_finalized_tool_ids (text_delta k b d st) = sf_finalized_tool_ids st"
  by (auto simp: text_start_def text_delta_def next_item_id_def Let_def split: option.split)

lemma tool_block_step:
  assumes "\<not> about cid p"
  shows "filter (for_call cid) (fst (fold_part from_str display p st)) = []"
    and "cid \<in> sf_finalized_tool_ids (snd (fold_part from_str display p st)) \<longleftrightarrow> cid \<in> sf_finalized_tool_ids st"
    and "map_of (sf_tool_bufs (snd (fold_part from_str display p st))) cid =
           map_option (\<lambda>b. b\<lparr>bb_text := bb_text b @ args_of cid p\<rparr>) (map_of (sf_tool_bufs st) cid)"
proof -
  show "filter (for_call cid) (fst (fold_part from_str display p st)) = []"
    using assms by (cases p) (auto simp: next_item_id_def split: option.split)
  show "cid \<in> sf_finalized_tool_ids (snd (fold_part from_str display p st)) \<longleftrightarrow> cid \<in> sf_finalized_tool_ids st"
    using assms by (cases p) (auto simp: next_item_id_def split: option.split)
  have id: "map_option (\<lambda>b. b\<lparr>bb_text := bb_text b\<rparr>) x = x" for x :: "block_buf option" by (cases x) auto
  show "map_of (sf_tool_bufs (snd (fold_part from_str display p st))) cid =
           map_option (\<lambda>b. b\<lparr>bb_text := bb_text b @ args_of cid p\<rparr>) (map_of (sf_tool_bufs st) cid)"
    using assms by (cases p) (auto simp: next_item_id_def option.map_ident update_conv' split: option.split)
qed

lemma tool_block_run:
  assumes "list_all (\<lambda>p. \<not> about cid p) ps"
  shows "filter (for_call cid) (fst (fold_parts from_str display ps st)) = [] \<and>
         (cid \<in> sf_finalized_tool_ids (snd (fold_parts from_str display ps st)) \<longleftrightarrow> cid \<in> sf_finalized_tool_ids st) \<and>
         map_of (sf_tool_bufs (snd (fold_parts from_str display ps st))) cid =
           map_option (\<lambda>b. b\<lparr>bb_text := bb_text b @ concat (map (args_of cid) ps)\<rparr>) (map_of (sf_tool_bufs st) cid)"
  using assms
proof (induction ps arbitrary: st)
  case Nil
  have "map_option (\<lambda>b. b\<lparr>bb_text := bb_text b\<rparr>) x = x" for x :: "block_buf option" by (cases x) auto
  then show ?case by simp
next
  case (Cons p ps)
  have p: "\<not> about cid p" using Cons.prems by simp
  note st = tool_block_step [OF p, of from_str display st]
  from Cons.IH [of "snd (fold_part from_str display p st)"] Cons.prems st show ?case
    by (simp add: Let_def case_prod_beta option.map_comp comp_def)
qed

text \<open>
  a tool call whose arguments were streamed gives exactly one item: its arguments are the parsed
  concatenation of the fragments, or the empty object when that is not an object, and the atomic
  frame that repeats the call afterwards adds nothing.
\<close>

theorem one_item_per_tool_call:
  assumes "map_of (sf_tool_bufs st) cid = None" "cid \<notin> sf_finalized_tool_ids st"
    and "list_all (\<lambda>p. \<not> about cid p) mid" "list_all (\<lambda>p. \<not> about cid p) mid'"
  shows "filter (for_call cid) (fst (fold_parts from_str display
           (ToolInputStart cid name # mid @ ToolInputEnd cid # mid' @ [stream_part.ToolCall cid name' input]) st)) =
         [tool_item (seeded_id (TurnId (sf_prefix st)) (unat (sf_seq st))) name
            (parse_tool_input from_str (concat (map (args_of cid) mid))) cid]"
proof -
  let ?iid = "seeded_id (TurnId (sf_prefix st)) (unat (sf_seq st))"
  let ?b = "\<lparr>bb_item_id = ?iid, bb_text = [], bb_tool_name = Some name, bb_kind = Text\<rparr>"
  let ?s1 = "snd (fold_part from_str display (ToolInputStart cid name) st)"
  let ?s2 = "snd (fold_parts from_str display mid ?s1)"
  let ?s3 = "snd (fold_part from_str display (ToolInputEnd cid) ?s2)"
  let ?s4 = "snd (fold_parts from_str display mid' ?s3)"
  have s1: "fst (fold_part from_str display (ToolInputStart cid name) st) = []" "map_of (sf_tool_bufs ?s1) cid = Some ?b"
    using assms(1) by (simp_all add: next_item_id_def update_conv')
  have s2: "filter (for_call cid) (fst (fold_parts from_str display mid ?s1)) = []"
    "map_of (sf_tool_bufs ?s2) cid = Some (?b\<lparr>bb_text := concat (map (args_of cid) mid)\<rparr>)"
    using tool_block_run [OF assms(3), of from_str display ?s1] s1(2) by simp_all
  have s3: "fst (fold_part from_str display (ToolInputEnd cid) ?s2) =
      [tool_item ?iid name (parse_tool_input from_str (concat (map (args_of cid) mid))) cid]"
    "cid \<in> sf_finalized_tool_ids ?s3"
    using s2(2) by (simp_all add: buf_name_def)
  have s4: "filter (for_call cid) (fst (fold_parts from_str display mid' ?s3)) = []" "cid \<in> sf_finalized_tool_ids ?s4"
    using tool_block_run [OF assms(4), of from_str display ?s3] s3(2) by blast+
  have s5: "fst (fold_part from_str display (stream_part.ToolCall cid name' input) ?s4) = []" using s4(2) by simp
  show ?thesis
    using s1(1) s2(1) s3(1) s4(1) s5
    by (simp add: fold_parts_append Let_def case_prod_beta del: fold_part.simps)
qed

theorem one_item_per_tool_call_witness:
  "filter (for_call ''c'') (fst (fold_parts (\<lambda>_. Some (Object [(''path'', String ''x'')])) (\<lambda>_. [])
       (ToolInputStart ''c'' ''read'' # [ToolInputDelta ''c'' ''{''] @ ToolInputEnd ''c'' # [] @ [stream_part.ToolCall ''c'' ''read'' (Object [])])
       (resuming_at (TurnId ''u'') 1))) =
   [tool_item (seeded_id (TurnId ''u'') 1) ''read'' (Object [(''path'', String ''x'')]) ''c'']"
  using one_item_per_tool_call [of "resuming_at (TurnId ''u'') 1" "''c''" "[ToolInputDelta ''c'' ''{'']" "[]"
      "\<lambda>_. Some (Object [(''path'', String ''x'')])" "\<lambda>_. []" "''read''" "''read''" "Object []"]
  by (simp add: resuming_at_def fold_new_def parse_tool_input_def)

end
