(* ===== verification/Tool_Dispatch.thy ===== *)
theory Tool_Dispatch
  imports Engine Subagent
begin

text \<open>
  The two phases of a tool call (\<open>zhive-core/src/engine/tool_dispatch/mod.rs\<close> and
  \<open>helpers.rs\<close>, with the tool types of \<open>zhive-core/src/tools.rs\<close>): the permission of the call is
  resolved, then the approved call is executed. Hook processes, the schema validator, the tools
  themselves and the construction of typed hook events through serde are third-party or I/O: what
  they answer is given by two records of parameters. A wait is a list of the events the waiting
  task observes, in order; where the source's \<open>select!\<close> leaves a race open, the order of the list
  is the winner.
\<close>

section \<open>Tools\<close>

datatype tools_kind = Read | Edit | Execute | Other

fun tool_kind_from :: "tools_kind \<Rightarrow> tool_kind" where
  "tool_kind_from tools_kind.Read = tool_kind.Read"
| "tool_kind_from tools_kind.Edit = tool_kind.Edit"
| "tool_kind_from tools_kind.Execute = tool_kind.Execute"
| "tool_kind_from tools_kind.Other = tool_kind.Other"

record file_diff =
  fd_path :: string
  fd_old_text :: "string option"
  fd_new_text :: string

record tool_output =
  to_text :: string
  to_value :: "json option"
  to_diffs :: "file_diff list"

definition output_text :: "string \<Rightarrow> tool_output" where
  "output_text text = \<lparr>to_text = text, to_value = None, to_diffs = []\<rparr>"

definition output_with_value :: "string \<Rightarrow> json \<Rightarrow> tool_output" where
  "output_with_value text value = \<lparr>to_text = text, to_value = Some value, to_diffs = []\<rparr>"

definition with_diffs :: "file_diff list \<Rightarrow> tool_output \<Rightarrow> tool_output" where
  "with_diffs diffs out = out\<lparr>to_diffs := diffs\<rparr>"

datatype tool_error = Execution string | Cancelled

fun tool_error_text :: "tool_error \<Rightarrow> string" where
  "tool_error_text (Execution m) = ''tool execution failed: '' @ m"
| "tool_error_text tool_error.Cancelled = ''tool execution cancelled''"

text \<open>What a registered tool shows to the dispatcher: its title for given arguments, its kind.\<close>

record tool_view =
  tv_title :: "json \<Rightarrow> string option"
  tv_kind :: tools_kind

section \<open>Outcomes\<close>

datatype dispatch_outcome = Executed item bool | Blocked item bool

fun stop_loop :: "dispatch_outcome \<Rightarrow> bool" where
  "stop_loop (Executed _ s) = s"
| "stop_loop (dispatch_outcome.Blocked _ s) = s"

fun outcome_item :: "dispatch_outcome \<Rightarrow> item" where
  "outcome_item (Executed i _) = i"
| "outcome_item (dispatch_outcome.Blocked i _) = i"

datatype tool_resolution = Blocked dispatch_outcome | Approved json bool

definition text_content :: "string \<Rightarrow> item_tool_call_content" where
  "text_content text = Content (item_content.Text text None)"

definition blocked_outcome ::
    "item_id \<Rightarrow> string \<Rightarrow> json \<Rightarrow> string \<Rightarrow> string \<Rightarrow> bool \<Rightarrow> dispatch_outcome" where
  "blocked_outcome iid name raw_args tool_use_id reason stop =
     dispatch_outcome.Blocked
       (ToolCall iid name None tool_kind.Other tool_call_status.Failed [text_content reason] []
          (Some raw_args) None (Some tool_use_id)) stop"

definition cancelled_during_execution ::
    "item_id \<Rightarrow> string \<Rightarrow> json \<Rightarrow> string \<Rightarrow> bool \<Rightarrow> dispatch_outcome" where
  "cancelled_during_execution iid name raw_args tool_use_id stop =
     blocked_outcome iid name raw_args tool_use_id ''turn cancelled during tool execution'' stop"

section \<open>Permission requests\<close>

definition OPT_ALLOW_ONCE :: string where "OPT_ALLOW_ONCE = ''allow-once''"
definition OPT_ALLOW_ALWAYS :: string where "OPT_ALLOW_ALWAYS = ''allow-always''"
definition OPT_REJECT_ONCE :: string where "OPT_REJECT_ONCE = ''reject-once''"
definition OPT_REJECT_ALWAYS :: string where "OPT_REJECT_ALWAYS = ''reject-always''"

text \<open>The descriptions end in Chinese text, given by its UTF-8 bytes.\<close>

definition bytes :: "nat list \<Rightarrow> string" where
  "bytes ns = map char_of ns"

definition permission_options :: "permission_option list" where
  "permission_options =
     [\<lparr>po_id = OPT_ALLOW_ONCE, po_kind = AllowOnce,
       po_description = ''Allow once / '' @
         bytes [0xE5, 0x85, 0x81, 0xE8, 0xAE, 0xB8, 0xE4, 0xB8, 0x80, 0xE6, 0xAC, 0xA1]\<rparr>,
      \<lparr>po_id = OPT_ALLOW_ALWAYS, po_kind = AllowAlways,
       po_description = ''Always allow this tool / '' @
         bytes [0xE5, 0xA7, 0x8B, 0xE7, 0xBB, 0x88, 0xE5, 0x85, 0x81, 0xE8, 0xAE, 0xB8,
                0xE6, 0xAD, 0xA4, 0xE5, 0xB7, 0xA5, 0xE5, 0x85, 0xB7]\<rparr>,
      \<lparr>po_id = OPT_REJECT_ONCE, po_kind = RejectOnce,
       po_description = ''Reject once / '' @
         bytes [0xE6, 0x8B, 0x92, 0xE7, 0xBB, 0x9D, 0xE4, 0xB8, 0x80, 0xE6, 0xAC, 0xA1]\<rparr>,
      \<lparr>po_id = OPT_REJECT_ALWAYS, po_kind = RejectAlways,
       po_description = ''Always reject this tool / '' @
         bytes [0xE5, 0xA7, 0x8B, 0xE7, 0xBB, 0x88, 0xE6, 0x8B, 0x92, 0xE7, 0xBB, 0x9D,
                0xE6, 0xAD, 0xA4, 0xE5, 0xB7, 0xA5, 0xE5, 0x85, 0xB7]\<rparr>]"

text \<open>
  \<open>build_permission_request\<close>: the request is parsed from the JSON of these fields; the parser's
  error, should it refuse them, is the parameter \<open>refused\<close>.
\<close>

definition build_permission_request ::
    "string option \<Rightarrow> thread_id \<Rightarrow> string \<Rightarrow> string \<Rightarrow> (request_permission_request, string) rust_result" where
  "build_permission_request refused tid name tool_call_id =
     (case refused of
        Some err \<Rightarrow> Inl err
      | None \<Rightarrow>
          Inr \<lparr>rp_thread_id = tid, rp_resource_type = ''tool'', rp_name = name,
               rp_reason = ''agent wants to call tool: '' @ name,
               rp_options = permission_options, rp_tool_call_id = Some tool_call_id\<rparr>)"

definition classify_option_id :: "permission_option list \<Rightarrow> string \<Rightarrow> permission_option_kind option" where
  "classify_option_id options option_id =
     (case find (\<lambda>o'. po_id o' = option_id) options of
        Some opt \<Rightarrow> Some (po_kind opt)
      | None \<Rightarrow>
          (if option_id = OPT_ALLOW_ONCE \<or> option_id = ''allow_once'' then Some AllowOnce
           else if option_id = OPT_ALLOW_ALWAYS \<or> option_id = ''allow_always'' then Some AllowAlways
           else if option_id = OPT_REJECT_ONCE \<or> option_id = ''reject_once'' then Some RejectOnce
           else if option_id = OPT_REJECT_ALWAYS \<or> option_id = ''reject_always'' then Some RejectAlways
           else None))"

section \<open>The handshake of a subagent with its parent\<close>

datatype handshake_verdict = Allow | Deny

text \<open>
  What the child observes: the parent's channel closed at the send, its own turn cancelled first,
  a verdict, or the reply channel dropped.
\<close>

datatype handshake_event = ChannelClosed | ChildCancelled | Verdict parent_verdict | ReplyDropped

fun handshake_with_parent :: "handshake_event \<Rightarrow> handshake_verdict" where
  "handshake_with_parent ChannelClosed = handshake_verdict.Deny"
| "handshake_with_parent ChildCancelled = handshake_verdict.Deny"
| "handshake_with_parent (Verdict parent_verdict.Allow) = handshake_verdict.Allow"
| "handshake_with_parent (Verdict parent_verdict.Deny) = handshake_verdict.Deny"
| "handshake_with_parent ReplyDropped = handshake_verdict.Deny"

record subagent_decision_request =
  sr_tool_use_id :: string
  sr_tool_name :: string
  sr_raw_args :: json
  sr_child_decision :: permission_decision

definition handshake_request :: "string \<Rightarrow> string \<Rightarrow> json \<Rightarrow> permission_decision \<Rightarrow> subagent_decision_request" where
  "handshake_request tool_use_id name args d =
     \<lparr>sr_tool_use_id = tool_use_id, sr_tool_name = name, sr_raw_args = args, sr_child_decision = d\<rparr>"

section \<open>Resolving the permission of a call\<close>

datatype wait_obs = Waited wait_event | TurnCancelled

datatype perm_result = Outcome "(permission_outcome, reducer_error) rust_result" | Cancelled

text \<open>
  The world of one resolution: what building and dispatching the \<open>PreToolUse\<close> event gives, the
  schema validator, the parser's refusal of the request, the sender of the fresh channel, the time,
  what the other tasks do to the engine while this one waits, what the wait observes, and the
  parent's side of the handshake.
\<close>

record 'tx resolve_world =
  rw_event :: "(unit, string) rust_result"
  rw_hooks :: "(hook_output list, string) rust_result"
  rw_revalidate :: "json \<Rightarrow> (unit, string) rust_result"
  rw_refused :: "string option"
  rw_tx :: 'tx
  rw_now :: int
  rw_meanwhile :: "'tx engine_inner \<Rightarrow> 'tx engine_inner"
  rw_waits :: "wait_obs list"
  rw_parent :: "subagent_decision_request \<Rightarrow> handshake_event"

text \<open>One pass over the hook outputs: the decisions, the last rewritten input, the stop flag.\<close>

fun scan_hooks ::
    "hook_output list \<Rightarrow> permission_decision list \<times> json option \<times> bool \<Rightarrow>
     permission_decision list \<times> json option \<times> bool" where
  "scan_hooks [] acc = acc"
| "scan_hooks (out # outs) (decisions, updated, stop) =
     (let stop' = (stop \<or> ho_continue_loop out = Some False)
      in case ho_hook_specific_output out of
           Some (PreToolUse d _ maybe_input) \<Rightarrow>
             scan_hooks outs (decisions @ [d],
                              (case maybe_input of Some i \<Rightarrow> Some i | None \<Rightarrow> updated), stop')
         | _ \<Rightarrow> scan_hooks outs (decisions, updated, stop'))"

text \<open>
  The wait. A bounded wait ends at the deadline; an unbounded one has none. \<open>None\<close>: every
  observation has been used up and the task is still waiting.
\<close>

fun await_permission ::
    "bool \<Rightarrow> 'tx permission_reducer \<Rightarrow> wait_obs list \<Rightarrow> perm_result option" where
  "await_permission is_defer reducer [] = None"
| "await_permission is_defer reducer (TurnCancelled # obs) = Some perm_result.Cancelled"
| "await_permission is_defer reducer (Waited ev # obs) =
     (if is_defer
      then (case wait_unbounded ev of
              Some r \<Rightarrow> Some (Outcome r)
            | None \<Rightarrow> await_permission is_defer reducer obs)
      else Some (Outcome (wait reducer ev)))"

text \<open>What the answer to a prompt makes of the call: the reason it is blocked, or nothing.\<close>

definition answer_verdict ::
    "permission_option list \<Rightarrow> (permission_outcome, reducer_error) rust_result \<Rightarrow> string option" where
  "answer_verdict options outcome =
     (case outcome of
        Inr (permission_outcome.Selected option_id) \<Rightarrow>
          (case classify_option_id options option_id of
             Some AllowOnce \<Rightarrow> None
           | Some AllowAlways \<Rightarrow> None
           | Some RejectOnce \<Rightarrow> Some (''permission denied by user (option: '' @ option_id @ '')'')
           | Some RejectAlways \<Rightarrow> Some (''permission denied by user (option: '' @ option_id @ '')'')
           | None \<Rightarrow> Some (''permission denied (unrecognised option: '' @ option_id @ '')''))
      | Inr permission_outcome.Cancelled \<Rightarrow> Some ''permission request cancelled or timed out''
      | Inl _ \<Rightarrow> Some ''permission request cancelled or timed out''
      | Inr (permission_outcome.Defer _) \<Rightarrow> Some ''permission denied (unrecognised decision variant)'')"

definition records_always ::
    "permission_option list \<Rightarrow> (permission_outcome, reducer_error) rust_result \<Rightarrow> bool" where
  "records_always options outcome =
     (case outcome of
        Inr (permission_outcome.Selected option_id) \<Rightarrow>
          classify_option_id options option_id = Some AllowAlways
      | _ \<Rightarrow> False)"

text \<open>Enrolment of the prompt and, for a deferred one, its announcement and its durable record.\<close>

definition open_prompt ::
    "'tx resolve_world \<Rightarrow> bool \<Rightarrow> thread_id \<Rightarrow> turn_id \<Rightarrow> request_permission_request \<Rightarrow> 'tx engine_inner \<Rightarrow>
     permission_request_id \<times> 'tx engine_inner" where
  "open_prompt w is_defer tid turn request e =
     (let (key, req, reducer) =
            (if is_defer
             then enroll_with_context (rw_tx w) request
                    \<lparr>rc_thread_id = tid, rc_turn_id = turn\<rparr> (ei_permission e)
             else enroll (rw_tx w) request (ei_permission e));
          wire_id = to_wire key;
          e1 = send (PermissionRequested wire_id req) (e\<lparr>ei_permission := reducer\<rparr>)
      in (wire_id,
          if is_defer
          then enqueue_storage_op
                 (PermissionSuspended tid turn (rw_now w)
                    (case wire_id of PermissionRequestId s \<Rightarrow> s) req)
                 (send (TurnSuspended tid turn wire_id None) e1)
          else e1))"

text \<open>The branch of \<open>Ask\<close> and \<open>Defer\<close>; \<open>None\<close> while the call is still waiting.\<close>

definition prompt_user ::
    "'tx resolve_world \<Rightarrow> bool \<Rightarrow> thread_id \<Rightarrow> turn_id \<Rightarrow> item_id \<Rightarrow> string \<Rightarrow> json \<Rightarrow> string \<Rightarrow> json \<Rightarrow> bool \<Rightarrow>
     'tx engine_inner \<Rightarrow> tool_resolution option \<times> 'tx engine_inner" where
  "prompt_user w is_defer tid turn iid name raw_args tool_use_id args stop e =
     (let blocked = (\<lambda>reason. tool_resolution.Blocked
                       (blocked_outcome iid name raw_args tool_use_id reason stop))
      in if \<not> is_defer \<and> is_tool_allow_always (ei_permission e) name
         then (Some (Approved args stop), e)
         else
           (case build_permission_request (rw_refused w) tid name tool_use_id of
              Inl err \<Rightarrow> (Some (blocked (''failed to build permission request: '' @ err)), e)
            | Inr request \<Rightarrow>
                (let options = rp_options request;
                     (wire_id, e1) = open_prompt w is_defer tid turn request e;
                     e2 = rw_meanwhile w e1
                 in case await_permission is_defer (ei_permission e2) (rw_waits w) of
                      None \<Rightarrow> (None, e2)
                    | Some perm_result.Cancelled \<Rightarrow> (Some (blocked ''permission wait cancelled''), e2)
                    | Some (Outcome outcome) \<Rightarrow>
                        (let e3 = (if is_defer
                                   then enqueue_storage_op
                                          (PermissionResolved tid
                                             (case wire_id of PermissionRequestId s \<Rightarrow> s) (rw_now w)) e2
                                   else e2);
                             e4 = (if records_always options outcome
                                   then e3\<lparr>ei_permission := record_allow_always name (ei_permission e3)\<rparr>
                                   else e3)
                         in case answer_verdict options outcome of
                              Some reason \<Rightarrow> (Some (blocked reason), e4)
                            | None \<Rightarrow> (Some (Approved args stop), e4)))))"

text \<open>
  \<open>resolve_tool_permission\<close>. The flag \<open>child\<close> says whether the call runs in a subagent, which
  negotiates with its parent.
\<close>

definition resolve_tool_permission ::
    "'tx resolve_world \<Rightarrow> bool \<Rightarrow> thread_id \<Rightarrow> turn_id \<Rightarrow> item_id \<Rightarrow> string \<Rightarrow> json \<Rightarrow> string \<Rightarrow>
     permission_scope \<Rightarrow> 'tx engine_inner \<Rightarrow> tool_resolution option \<times> 'tx engine_inner" where
  "resolve_tool_permission w child tid turn iid name raw_args tool_use_id scope e =
     (let blocked = (\<lambda>reason stop. (Some (tool_resolution.Blocked
                       (blocked_outcome iid name raw_args tool_use_id reason stop)), e))
      in if \<not> permits scope name
         then blocked (''tool `'' @ name @ ''` is not permitted in the current permission scope'') False
         else
           (case rw_event w of
              Inl err \<Rightarrow> blocked (''failed to build PreToolUse hook event: '' @ err) False
            | Inr _ \<Rightarrow>
                (case rw_hooks w of
                   Inl err \<Rightarrow> blocked (''PreToolUse hook error: '' @ err) False
                 | Inr outputs \<Rightarrow>
                     (let (decisions, updated, stop) = scan_hooks outputs ([], None, False);
                          checked = (case updated of
                                       None \<Rightarrow> Inr raw_args
                                     | Some new_input \<Rightarrow>
                                         (case rw_revalidate w new_input of
                                            Inl err \<Rightarrow> Inl err | Inr _ \<Rightarrow> Inr new_input))
                      in case checked of
                           Inl err \<Rightarrow> blocked (''schema re-validation failed: '' @ err) stop
                         | Inr args \<Rightarrow>
                             (let decision = evaluate scope decisions
                              in if child
                                 then (if decision = permission_decision.Deny
                                       then blocked ''permission denied'' stop
                                       else (case handshake_with_parent
                                                    (rw_parent w (handshake_request tool_use_id name args decision)) of
                                               handshake_verdict.Allow \<Rightarrow> (Some (Approved args stop), e)
                                             | handshake_verdict.Deny \<Rightarrow>
                                                 blocked ''permission denied by parent agent'' stop))
                                 else (case decision of
                                         permission_decision.Allow \<Rightarrow> (Some (Approved args stop), e)
                                       | permission_decision.Deny \<Rightarrow> blocked ''permission denied'' stop
                                       | permission_decision.Ask \<Rightarrow>
                                           prompt_user w False tid turn iid name raw_args tool_use_id args stop e
                                       | permission_decision.Defer \<Rightarrow>
                                           prompt_user w True tid turn iid name raw_args tool_use_id args stop e))))))"

section \<open>Executing an approved call\<close>

datatype 'a raced = CancelledFirst | Finished 'a

record exec_world =
  xw_tools :: "string \<Rightarrow> tool_view option"
  xw_execute :: "string \<Rightarrow> json \<Rightarrow> (tool_output, tool_error) rust_result raced"
  xw_post_event :: "(unit, string) rust_result"
  xw_post_hooks :: "(hook_output list, string) rust_result raced"
  xw_display :: "json \<Rightarrow> string"

text \<open>The loop over the outputs of the hooks that ran after the tool.\<close>

fun scan_post ::
    "(json \<Rightarrow> string) \<Rightarrow> hook_output list \<Rightarrow> string \<times> bool \<Rightarrow> string \<times> bool" where
  "scan_post display [] acc = acc"
| "scan_post display (out # outs) (text, stop) =
     scan_post display outs
       (case ho_hook_specific_output out of
          Some (PostToolUse _ (Some new_out)) \<Rightarrow>
            (case new_out of String s \<Rightarrow> s | other \<Rightarrow> display other)
        | _ \<Rightarrow> text,
        stop \<or> ho_continue_loop out = Some False)"

definition diff_content :: "file_diff \<Rightarrow> item_tool_call_content" where
  "diff_content d = item_tool_call_content.Diff (fd_path d) (fd_old_text d) (fd_new_text d)"

definition execute_resolved_tool ::
    "exec_world \<Rightarrow> item_id \<Rightarrow> string \<Rightarrow> json \<Rightarrow> string \<Rightarrow> bool \<Rightarrow> dispatch_outcome" where
  "execute_resolved_tool x iid name args tool_use_id stop =
     (case xw_tools x name of
        None \<Rightarrow> blocked_outcome iid name args tool_use_id (''unknown tool: '' @ name) stop
      | Some tool \<Rightarrow>
          (case xw_execute x name args of
             CancelledFirst \<Rightarrow> cancelled_during_execution iid name args tool_use_id stop
           | Finished exec_result \<Rightarrow>
               (let (raw_output, succeeded, result_text, tool_diffs) =
                      (case exec_result of
                         Inr out \<Rightarrow>
                           (case to_value out of Some v \<Rightarrow> v | None \<Rightarrow> String (to_text out),
                            True, to_text out, to_diffs out)
                       | Inl err \<Rightarrow>
                           (String (tool_error_text err), False, tool_error_text err, []));
                    post_dispatch =
                      (case xw_post_event x of
                         Inr _ \<Rightarrow> xw_post_hooks x
                       | Inl _ \<Rightarrow> Finished (Inr []))
                in case post_dispatch of
                     CancelledFirst \<Rightarrow> cancelled_during_execution iid name args tool_use_id stop
                   | Finished post \<Rightarrow>
                       (let (result_text, stop) =
                              (case post of
                                 Inr post_outputs \<Rightarrow> scan_post (xw_display x) post_outputs (result_text, stop)
                               | Inl _ \<Rightarrow> (result_text, stop));
                            status = (if succeeded then tool_call_status.Completed else tool_call_status.Failed)
                        in Executed
                             (ToolCall iid name (tv_title tool args) (tool_kind_from (tv_kind tool)) status
                                (text_content result_text # map diff_content tool_diffs) []
                                (Some args) (Some raw_output) (Some tool_use_id)) stop))))"

text \<open>\<open>dispatch_tool_call\<close>: both phases in sequence.\<close>

definition dispatch_tool_call ::
    "'tx resolve_world \<Rightarrow> exec_world \<Rightarrow> thread_id \<Rightarrow> turn_id \<Rightarrow> item_id \<Rightarrow> string \<Rightarrow> json \<Rightarrow> string \<Rightarrow>
     permission_scope \<Rightarrow> 'tx engine_inner \<Rightarrow> dispatch_outcome option \<times> 'tx engine_inner" where
  "dispatch_tool_call w x tid turn iid name raw_args tool_use_id scope e =
     (case resolve_tool_permission w False tid turn iid name raw_args tool_use_id scope e of
        (None, e') \<Rightarrow> (None, e')
      | (Some (tool_resolution.Blocked outcome), e') \<Rightarrow> (Some outcome, e')
      | (Some (Approved args stop), e') \<Rightarrow>
          (Some (execute_resolved_tool x iid name args tool_use_id stop), e'))"

section \<open>Properties\<close>

subsection \<open>What the hooks say\<close>

text \<open>The decisions of a dispatch, its last rewritten input, and whether any output ends the loop.\<close>

fun pre_decision :: "hook_output \<Rightarrow> permission_decision list" where
  "pre_decision out = (case ho_hook_specific_output out of Some (PreToolUse d _ _) \<Rightarrow> [d] | _ \<Rightarrow> [])"

fun pre_input :: "hook_output \<Rightarrow> json list" where
  "pre_input out =
     (case ho_hook_specific_output out of Some (PreToolUse _ _ (Some i)) \<Rightarrow> [i] | _ \<Rightarrow> [])"

definition hook_decisions :: "hook_output list \<Rightarrow> permission_decision list" where
  "hook_decisions outs = concat (map pre_decision outs)"

definition hook_inputs :: "hook_output list \<Rightarrow> json list" where
  "hook_inputs outs = concat (map pre_input outs)"

definition hook_stops :: "hook_output list \<Rightarrow> bool" where
  "hook_stops outs = list_ex (\<lambda>out. ho_continue_loop out = Some False) outs"

lemma scan_hooks_eq:
  "scan_hooks outs (ds, u, s) =
     (ds @ hook_decisions outs,
      (if hook_inputs outs = [] then u else Some (last (hook_inputs outs))),
      s \<or> hook_stops outs)"
proof (induction outs arbitrary: ds u s)
  case (Cons out outs)
  show ?case
  proof (cases "ho_hook_specific_output out")
    case None
    then show ?thesis by (simp add: Cons hook_decisions_def hook_inputs_def hook_stops_def Let_def)
  next
    case (Some h)
    then show ?thesis
      by (cases h)
         (auto simp: Cons hook_decisions_def hook_inputs_def hook_stops_def Let_def split: option.splits)
  qed
qed (simp add: hook_decisions_def hook_inputs_def hook_stops_def)

subsection \<open>The wait\<close>

lemma await_bounded:
  "await_permission False r obs =
     (case obs of [] \<Rightarrow> None | TurnCancelled # _ \<Rightarrow> Some perm_result.Cancelled
      | Waited ev # _ \<Rightarrow> Some (Outcome (wait r ev)))"
  by (cases obs rule: list.exhaust) (auto split: wait_obs.splits simp: await_permission.simps)

lemma await_unbounded_Cons:
  "await_permission True r (ob # obs) =
     (case ob of TurnCancelled \<Rightarrow> Some perm_result.Cancelled
      | Waited (Received out) \<Rightarrow> Some (Outcome (Inr out))
      | Waited SenderDropped \<Rightarrow> Some (Outcome (Inl reducer_error.Abandoned))
      | Waited Elapsed \<Rightarrow> await_permission True r obs)"
  by (auto split: wait_obs.splits wait_event.splits)

text \<open>The first observation that can end a wait: a deferred one ignores the deadline.\<close>

definition first_word :: "bool \<Rightarrow> wait_obs list \<Rightarrow> wait_obs option" where
  "first_word is_defer obs =
     (case dropWhile (\<lambda>ob. is_defer \<and> ob = Waited Elapsed) obs of [] \<Rightarrow> None | ob # _ \<Rightarrow> Some ob)"

lemma await_first_word:
  "await_permission is_defer r obs =
     (case first_word is_defer obs of
        None \<Rightarrow> None
      | Some TurnCancelled \<Rightarrow> Some perm_result.Cancelled
      | Some (Waited ev) \<Rightarrow> Some (Outcome (wait r ev)))"
proof (cases is_defer)
  case True
  have "await_permission True r obs =
     (case first_word True obs of
        None \<Rightarrow> None
      | Some TurnCancelled \<Rightarrow> Some perm_result.Cancelled
      | Some (Waited ev) \<Rightarrow> Some (Outcome (wait r ev)))"
    by (induction obs) (auto simp: await_unbounded_Cons first_word_def split: wait_obs.splits wait_event.splits)
  with True show ?thesis by simp
next
  case False
  then show ?thesis
    by (simp add: await_bounded first_word_def split: list.splits wait_obs.splits)
qed

lemma first_word_None: "first_word True obs = None \<longleftrightarrow> set obs \<subseteq> {Waited Elapsed}"
  by (induction obs) (auto simp: first_word_def)

definition allows :: "permission_option_kind option \<Rightarrow> bool" where
  "allows k = (k = Some AllowOnce \<or> k = Some AllowAlways)"

lemma answer_verdict_None:
  "answer_verdict options (wait r ev) = None \<longleftrightarrow>
     (\<exists>opt. ev = Received (permission_outcome.Selected opt) \<and> allows (classify_option_id options opt))"
proof (cases ev)
  case (Received out)
  then show ?thesis
    by (cases out)
       (auto simp: answer_verdict_def allows_def split: option.splits permission_option_kind.splits)
qed (simp_all add: answer_verdict_def)

lemma open_prompt_reducer:
  "is_tool_allow_always (ei_permission (snd (open_prompt w d tid turn req e))) name =
     is_tool_allow_always (ei_permission e) name"
  by (simp add: open_prompt_def Let_def case_prod_beta enroll_with_context_def enroll_def frame_simps
                is_tool_allow_always_def)

lemma prompt_approved:
  assumes "prompt_user w d tid turn iid name raw use_id args stop e = (Some (Approved args' stop'), e')"
  shows "args' = args" "stop' = stop"
    and "(\<not> d \<and> is_tool_allow_always (ei_permission e) name) \<or>
         (\<exists>opt. first_word d (rw_waits w) = Some (Waited (Received (permission_outcome.Selected opt))) \<and>
                allows (classify_option_id permission_options opt))"
proof -
  have "args' = args \<and> stop' = stop \<and>
        ((\<not> d \<and> is_tool_allow_always (ei_permission e) name) \<or>
         (\<exists>opt. first_word d (rw_waits w) = Some (Waited (Received (permission_outcome.Selected opt))) \<and>
                allows (classify_option_id permission_options opt)))"
  proof (cases "\<not> d \<and> is_tool_allow_always (ei_permission e) name")
    case True
    with assms show ?thesis by (auto simp: prompt_user_def Let_def)
  next
    case False
    with assms obtain ob where "first_word d (rw_waits w) = Some ob"
      by (auto simp: prompt_user_def Let_def case_prod_beta await_first_word build_permission_request_def
               split: option.splits)
    with False assms show ?thesis
      by (cases ob)
         (auto simp: prompt_user_def Let_def case_prod_beta await_first_word build_permission_request_def
                     answer_verdict_None
               split: option.splits if_splits)
  qed
  then show "args' = args" "stop' = stop"
    and "(\<not> d \<and> is_tool_allow_always (ei_permission e) name) \<or>
         (\<exists>opt. first_word d (rw_waits w) = Some (Waited (Received (permission_outcome.Selected opt))) \<and>
                allows (classify_option_id permission_options opt))"
    by blast+
qed

lemma handshake_allow:
  "handshake_with_parent hv = handshake_verdict.Allow \<longleftrightarrow> hv = Verdict parent_verdict.Allow"
  by (cases hv rule: handshake_with_parent.cases) auto

text \<open>A call that passed the scope, the hooks and the schema check is settled by the decision.\<close>

lemma resolve_decided:
  assumes "permits scope name" "rw_event w = Inr ev" "rw_hooks w = Inr outs"
    and "(if hook_inputs outs = [] then Inr raw
          else case rw_revalidate w (last (hook_inputs outs)) of
                 Inl err \<Rightarrow> Inl err | Inr _ \<Rightarrow> Inr (last (hook_inputs outs))) = Inr a"
  shows "resolve_tool_permission w child tid turn iid name raw use_id scope e =
     (let d = evaluate scope (hook_decisions outs);
          stop = hook_stops outs;
          blocked = (\<lambda>reason. (Some (tool_resolution.Blocked
                       (blocked_outcome iid name raw use_id reason stop)), e))
      in if child
         then (if d = permission_decision.Deny then blocked ''permission denied''
               else (case handshake_with_parent (rw_parent w (handshake_request use_id name a d)) of
                       handshake_verdict.Allow \<Rightarrow> (Some (Approved a stop), e)
                     | handshake_verdict.Deny \<Rightarrow> blocked ''permission denied by parent agent''))
         else (case d of
                 permission_decision.Allow \<Rightarrow> (Some (Approved a stop), e)
               | permission_decision.Deny \<Rightarrow> blocked ''permission denied''
               | permission_decision.Ask \<Rightarrow> prompt_user w False tid turn iid name raw use_id a stop e
               | permission_decision.Defer \<Rightarrow> prompt_user w True tid turn iid name raw use_id a stop e))"
  using assms
  by (auto simp: resolve_tool_permission_def Let_def scan_hooks_eq split: sum.splits if_splits)

lemma approved_inputs:
  assumes "resolve_tool_permission w child tid turn iid name raw use_id scope e =
             (Some (Approved args stop), e')"
  obtains outs ev a where "permits scope name" "rw_event w = Inr ev" "rw_hooks w = Inr outs"
    "(if hook_inputs outs = [] then Inr raw
      else case rw_revalidate w (last (hook_inputs outs)) of
             Inl err \<Rightarrow> Inl err | Inr _ \<Rightarrow> Inr (last (hook_inputs outs))) = Inr a"
    "if hook_inputs outs = [] then a = raw else a = last (hook_inputs outs) \<and> rw_revalidate w a = Inr ()"
proof -
  have scope: "permits scope name"
    using assms by (auto simp: resolve_tool_permission_def Let_def split: if_splits)
  obtain outs where outs: "rw_hooks w = Inr outs"
    using assms scope by (auto simp: resolve_tool_permission_def Let_def split: sum.splits)
  obtain ev where ev: "rw_event w = Inr ev"
    using assms scope by (auto simp: resolve_tool_permission_def Let_def split: sum.splits)
  define checked where "checked = (if hook_inputs outs = [] then Inr raw
      else case rw_revalidate w (last (hook_inputs outs)) of
             Inl err \<Rightarrow> Inl err | Inr _ \<Rightarrow> Inr (last (hook_inputs outs)))"
  obtain a where a: "checked = Inr a"
  proof (cases checked)
    case (Inl err)
    then have "fst (resolve_tool_permission w child tid turn iid name raw use_id scope e) =
        Some (tool_resolution.Blocked (blocked_outcome iid name raw use_id
          (''schema re-validation failed: '' @ err) (hook_stops outs)))"
      using scope outs ev
      by (simp add: resolve_tool_permission_def Let_def scan_hooks_eq checked_def split: sum.splits if_splits)
    then show thesis using assms by simp
  qed
  have args: "if hook_inputs outs = [] then a = raw else a = last (hook_inputs outs) \<and> rw_revalidate w a = Inr ()"
    using a by (auto simp: checked_def split: sum.splits if_splits)
  show thesis by (rule that [OF scope ev outs a [unfolded checked_def] args])
qed

subsection \<open>Claims\<close>

text \<open>
  C30: a tool call is approved only when it was earned: the scope permits the tool, no hook denied it
  (unless the scope bypasses the hooks), the arguments are the model's own or the last rewritten ones
  after they passed the schema check, and then the hooks allow it, or the tool was allowed for good,
  or the user's first answer selects an option that allows, or, in a subagent, its parent allows it.
\<close>

theorem approval_is_earned:
  assumes "resolve_tool_permission w child tid turn iid name raw use_id scope e =
             (Some (Approved args stop), e')"
  shows "permits scope name \<and>
    (\<exists>outs d. rw_hooks w = Inr outs \<and> d = evaluate scope (hook_decisions outs) \<and>
       stop = hook_stops outs \<and>
       (if hook_inputs outs = [] then args = raw
        else args = last (hook_inputs outs) \<and> rw_revalidate w args = Inr ()) \<and>
       d \<noteq> permission_decision.Deny \<and>
       (if child then rw_parent w (handshake_request use_id name args d) = Verdict parent_verdict.Allow
        else d = permission_decision.Allow \<or>
             d = permission_decision.Ask \<and> is_tool_allow_always (ei_permission e) name \<or>
             (\<exists>opt. first_word (d = permission_decision.Defer) (rw_waits w) =
                       Some (Waited (Received (permission_outcome.Selected opt))) \<and>
                    allows (classify_option_id permission_options opt))))"
proof -
  obtain outs ev a where scope: "permits scope name" and ev: "rw_event w = Inr ev" and outs: "rw_hooks w = Inr outs"
    and a: "(if hook_inputs outs = [] then Inr raw
      else case rw_revalidate w (last (hook_inputs outs)) of
             Inl err \<Rightarrow> Inl err | Inr _ \<Rightarrow> Inr (last (hook_inputs outs))) = Inr a"
    and args: "if hook_inputs outs = [] then a = raw else a = last (hook_inputs outs) \<and> rw_revalidate w a = Inr ()"
    using assms by (rule approved_inputs)
  let ?d = "evaluate scope (hook_decisions outs)"
  note r = resolve_decided [OF scope ev outs a, of child tid turn iid use_id e]
  have concl: "args = a \<and> stop = hook_stops outs \<and> ?d \<noteq> permission_decision.Deny \<and>
       (if child then rw_parent w (handshake_request use_id name a ?d) = Verdict parent_verdict.Allow
        else ?d = permission_decision.Allow \<or>
             ?d = permission_decision.Ask \<and> is_tool_allow_always (ei_permission e) name \<or>
             (\<exists>opt. first_word (?d = permission_decision.Defer) (rw_waits w) =
                       Some (Waited (Received (permission_outcome.Selected opt))) \<and>
                    allows (classify_option_id permission_options opt)))"
  proof (cases child)
    case True
    then show ?thesis
      using assms [unfolded r]
      by (cases "handshake_with_parent (rw_parent w (handshake_request use_id name a ?d))")
         (simp_all add: Let_def handshake_allow [symmetric] split: if_splits)
  next
    case False
    then show ?thesis
      using assms [unfolded r]
      by (cases ?d) (simp_all add: Let_def, (blast dest: prompt_approved)+)
  qed
  show ?thesis
    using scope outs args concl by (intro conjI exI [of _ outs] exI [of _ ?d]) (auto split: if_splits)
qed


definition ask_world :: "wait_obs list \<Rightarrow> hook_output list \<Rightarrow> unit resolve_world" where
  "ask_world obs outs =
     \<lparr>rw_event = Inr (), rw_hooks = Inr outs, rw_revalidate = (\<lambda>_. Inr ()), rw_refused = None,
      rw_tx = (), rw_now = 7, rw_meanwhile = id, rw_waits = obs, rw_parent = (\<lambda>_. ReplyDropped)\<rparr>"

definition hook_says :: "permission_decision \<Rightarrow> json option \<Rightarrow> hook_output" where
  "hook_says d input =
     \<lparr>ho_system_message = None, ho_continue_loop = None, ho_async_mode = None, ho_async_timeout = None,
      ho_hook_specific_output = Some (PreToolUse d None input)\<rparr>"

lemma evaluate_default: "evaluate default_turn_scope ds = reduce ds"
  by (simp add: evaluate_def default_turn_scope_def fold_decisions_def)

lemma default_permits [simp]: "permits default_turn_scope n"
  by (simp add: permits_def default_turn_scope_def)

lemma ask_result:
  "fst (resolve_tool_permission
     (ask_world [Waited (Received (permission_outcome.Selected ''allow-once''))] [hook_says Ask (Some Null)])
     False (ThreadId ''t'') (TurnId ''u'') (ItemId ''i'') ''bash'' (Object []) ''call-1''
     default_turn_scope (engine_new None None None True [])) = Some (Approved Null False)"
  by (simp add: resolve_tool_permission_def Let_def scan_hooks_eq evaluate_default reduce_def hook_decisions_def
                hook_inputs_def hook_stops_def ask_world_def hook_says_def prompt_user_def case_prod_beta
                is_tool_allow_always_def engine_new_def reducer_new_def build_permission_request_def
                answer_verdict_def classify_option_id_def permission_options_def OPT_ALLOW_ONCE_def
                OPT_ALLOW_ALWAYS_def)

theorem approval_is_earned_witness:
  "\<exists>e'. resolve_tool_permission
     (ask_world [Waited (Received (permission_outcome.Selected ''allow-once''))] [hook_says Ask (Some Null)])
     False (ThreadId ''t'') (TurnId ''u'') (ItemId ''i'') ''bash'' (Object []) ''call-1''
     default_turn_scope (engine_new None None None True []) = (Some (Approved Null False), e') \<and>
   permits default_turn_scope ''bash''"
proof -
  obtain e' where r: "resolve_tool_permission
     (ask_world [Waited (Received (permission_outcome.Selected ''allow-once''))] [hook_says Ask (Some Null)])
     False (ThreadId ''t'') (TurnId ''u'') (ItemId ''i'') ''bash'' (Object []) ''call-1''
     default_turn_scope (engine_new None None None True []) = (Some (Approved Null False), e')"
    using ask_result by (metis prod.collapse)
  show ?thesis using approval_is_earned [OF r] r by blast
qed

lemma blocked_item:
  "outcome_item (blocked_outcome iid name args use_id reason stop) =
     ToolCall iid name None tool_kind.Other tool_call_status.Failed [text_content reason] [] (Some args) None (Some use_id)"
  "\<exists>i s. blocked_outcome iid name args use_id reason stop = dispatch_outcome.Blocked i s"
  by (simp_all add: blocked_outcome_def)

text \<open>What a call leaves in the transcript, whichever branch it took.\<close>

definition call_settled :: "exec_world \<Rightarrow> item_id \<Rightarrow> string \<Rightarrow> string \<Rightarrow> dispatch_outcome \<Rightarrow> bool" where
  "call_settled x iid name use_id out \<longleftrightarrow>
     (case outcome_item out of
        ToolCall i n _ _ st _ _ ri _ p \<Rightarrow>
          i = iid \<and> n = name \<and> p = Some use_id \<and>
          (st = tool_call_status.Failed \<or>
           st = tool_call_status.Completed \<and>
           (\<exists>tool args o'. xw_tools x name = Some tool \<and> ri = Some args \<and>
              xw_execute x name args = Finished (Inr o')))
      | _ \<Rightarrow> False)"

lemma blocked_settled: "call_settled x iid name use_id (blocked_outcome iid name args use_id reason stop)"
  by (simp add: call_settled_def blocked_item)

lemma execute_settled: "call_settled x iid name use_id (execute_resolved_tool x iid name args use_id stop)"
proof (cases "xw_tools x name")
  case None
  then show ?thesis by (simp add: execute_resolved_tool_def blocked_settled)
next
  case (Some tool)
  show ?thesis
  proof (cases "xw_execute x name args")
    case CancelledFirst
    with Some show ?thesis by (simp add: execute_resolved_tool_def cancelled_during_execution_def blocked_settled)
  next
    case (Finished res)
    show ?thesis
    proof (cases "case xw_post_event x of Inr _ \<Rightarrow> xw_post_hooks x | Inl _ \<Rightarrow> Finished (Inr [])")
      case CancelledFirst
      with Some Finished show ?thesis
        by (cases res) (simp_all add: execute_resolved_tool_def cancelled_during_execution_def blocked_settled)
    next
      case post: (Finished p)
      with Some Finished show ?thesis
        by (cases res)
           (auto simp: execute_resolved_tool_def call_settled_def case_prod_beta Let_def)
    qed
  qed
qed

lemma prompt_blocked:
  "prompt_user w d tid turn iid name raw use_id args stop e = (Some (tool_resolution.Blocked out), e') \<Longrightarrow>
   \<exists>reason s. out = blocked_outcome iid name raw use_id reason s"
  by (auto simp: prompt_user_def Let_def case_prod_beta
           split: if_splits sum.splits option.splits perm_result.splits)

lemma resolve_blocked:
  assumes "resolve_tool_permission w child tid turn iid name raw use_id scope e =
             (Some (tool_resolution.Blocked out), e')"
  shows "\<exists>reason s. out = blocked_outcome iid name raw use_id reason s"
  using assms
  by (auto simp: resolve_tool_permission_def Let_def case_prod_beta dest!: prompt_blocked
           split: if_splits sum.splits option.splits handshake_verdict.splits permission_decision.splits)

text \<open>
  a dispatched call that is no longer waiting leaves exactly one tool-call item: it keeps the item
  identifier, the tool's name and the provider's call identifier, is never left in progress, and is
  completed only if a registered tool ran on the recorded arguments and succeeded.
\<close>

theorem dispatched_call_settles:
  "case dispatch_tool_call w x tid turn iid name raw use_id scope e of
     (None, _) \<Rightarrow> True
   | (Some out, _) \<Rightarrow> call_settled x iid name use_id out"
proof -
  obtain r e' where res: "resolve_tool_permission w False tid turn iid name raw use_id scope e = (r, e')"
    by fastforce
  show ?thesis
  proof (cases r)
    case None
    then show ?thesis by (simp add: dispatch_tool_call_def res)
  next
    case (Some tr)
    then show ?thesis
      using resolve_blocked [of w False tid turn iid name raw use_id scope e _ e'] res
      by (cases tr) (auto simp: dispatch_tool_call_def execute_settled blocked_settled)
  qed
qed

lemma prompt_waiting:
  assumes "rw_refused w = None" "d \<or> \<not> is_tool_allow_always (ei_permission e) name"
  shows "fst (prompt_user w d tid turn iid name raw use_id args stop e) = None \<longleftrightarrow>
           first_word d (rw_waits w) = None"
  using assms
  by (auto simp: prompt_user_def Let_def case_prod_beta build_permission_request_def await_first_word
           split: option.splits wait_obs.splits)

lemma first_word_bounded: "first_word False obs = None \<longleftrightarrow> obs = []"
  by (simp add: first_word_def split: list.splits)

text \<open>
  a deferred permission has no deadline: the call keeps waiting for exactly as long as nothing but
  the deadline passes, so only an answer, a dropped sender or a cancelled turn ends it; a call that
  merely asks is settled by the first thing that happens.
\<close>

theorem deferred_waits_without_deadline:
  assumes "rw_refused w = None" "\<not> is_tool_allow_always (ei_permission e) name"
  shows "(fst (prompt_user w True tid turn iid name raw use_id args stop e) = None) =
           (set (rw_waits w) \<subseteq> {Waited Elapsed}) \<and>
         (fst (prompt_user w False tid turn iid name raw use_id args stop e) = None) = (rw_waits w = [])"
  using assms by (simp add: prompt_waiting first_word_None first_word_bounded)

theorem deferred_waits_without_deadline_witness:
  "fst (prompt_user (ask_world [Waited Elapsed, Waited Elapsed] []) True (ThreadId ''t'') (TurnId ''u'') (ItemId ''i'')
     ''bash'' Null ''call-1'' Null False (engine_new None None None True [])) = None"
  using deferred_waits_without_deadline [of "ask_world [Waited Elapsed, Waited Elapsed] []" "engine_new None None None True []" "''bash''"
      "ThreadId ''t''" "TurnId ''u''" "ItemId ''i''" Null "''call-1''" Null False]
  by (simp add: ask_world_def is_tool_allow_always_def engine_new_def reducer_new_def)

text \<open>The prompt of a deferred call: the key it takes and the engine it leaves.\<close>

lemma open_deferred:
  assumes "ei_storage_writer e = Some ch" "length (sc_queue ch) < sc_capacity ch"
  defines "key \<equiv> RequestKey (pp_next (pr_pending (ei_permission e)))"
  shows "fst (open_prompt w True tid turn req e) = to_wire key"
    and "ei_storage_writer (snd (open_prompt w True tid turn req e)) =
           Some (ch\<lparr>sc_queue := sc_queue ch @
             [PermissionSuspended tid turn (rw_now w) (case to_wire key of PermissionRequestId s \<Rightarrow> s) req]\<rparr>)"
    and "pp_lookup (pr_pending (ei_permission (snd (open_prompt w True tid turn req e)))) key =
           Some \<lparr>pe_tx = rw_tx w, pe_context = Some \<lparr>rc_thread_id = tid, rc_turn_id = turn\<rparr>\<rparr>"
  using assms(1,2)
  by (simp_all add: open_prompt_def enroll_with_context_def insert_with_context_def Let_def key_def
                    enqueue_storage_op_def send_def pp_lookup_def update_conv')

text \<open>
  the durable record of a deferred prompt is closed by every answer, but not by a cancelled wait:
  when the turn is cancelled while the prompt is open, the call is blocked, the log holds the
  suspension without its resolution, and the request stays in the pending map with nobody waiting.
\<close>

theorem cancelled_defer_leaves_prompt:
  assumes "rw_refused w = None" "rw_meanwhile w = id" "ei_storage_writer e = Some ch"
    and "length (sc_queue ch) + 1 < sc_capacity ch"
    and "rw_waits w = replicate n (Waited Elapsed) @ ob # obs" "ob \<noteq> Waited Elapsed"
  shows "\<exists>r e' key req.
           prompt_user w True tid turn iid name raw use_id args stop e = (Some r, e') \<and>
           (let suspended = PermissionSuspended tid turn (rw_now w) key req;
                resolved = PermissionResolved tid key (rw_now w)
            in map_option sc_queue (ei_storage_writer e') =
                 Some (sc_queue ch @ suspended #
                       (if ob = TurnCancelled then [] else [resolved])) \<and>
               (ob = TurnCancelled) =
                 (r = tool_resolution.Blocked
                        (blocked_outcome iid name raw use_id ''permission wait cancelled'' stop)) \<and>
               rp_tool_call_id req = Some use_id \<and>
               pp_lookup (pr_pending (ei_permission e')) (RequestKey (pp_next (pr_pending (ei_permission e)))) \<noteq> None)"
proof -
  let ?key = "RequestKey (pp_next (pr_pending (ei_permission e)))"
  obtain req where req: "build_permission_request (rw_refused w) tid name use_id = Inr req" "rp_tool_call_id req = Some use_id"
    using assms(1) by (simp add: build_permission_request_def)
  obtain wire e1 where o': "open_prompt w True tid turn req e = (wire, e1)" by fastforce
  have room: "length (sc_queue ch) < sc_capacity ch" using assms(4) by simp
  note opened = open_deferred [OF assms(3) room, of w tid turn req, unfolded o' fst_conv snd_conv]
  obtain key where key: "wire = PermissionRequestId key" by (cases wire)
  have k: "to_wire ?key = PermissionRequestId key" using opened(1) key by simp
  have first: "first_word True (rw_waits w) = Some ob"
  proof -
    have "dropWhile (\<lambda>x. x = Waited Elapsed) (replicate n (Waited Elapsed) @ ob # obs) = ob # obs"
      using assms(6) by (induction n) auto
    then show ?thesis by (simp add: first_word_def assms(5))
  qed
  show ?thesis
  proof (cases ob)
    case TurnCancelled
    then have "prompt_user w True tid turn iid name raw use_id args stop e =
       (Some (tool_resolution.Blocked (blocked_outcome iid name raw use_id ''permission wait cancelled'' stop)), e1)"
      by (simp add: prompt_user_def Let_def case_prod_beta req o' assms(2) await_first_word first)
    with TurnCancelled opened(2,3) req k show ?thesis by (auto simp: Let_def)
  next
    case (Waited ev)
    let ?out = "wait (ei_permission e1) ev"
    define e3 where "e3 = enqueue_storage_op (PermissionResolved tid key (rw_now w)) e1"
    define e4 where "e4 = (if records_always (rp_options req) ?out
       then e3\<lparr>ei_permission := record_allow_always name (ei_permission e3)\<rparr> else e3)"
    define r where "r = (case answer_verdict (rp_options req) ?out of
        Some reason \<Rightarrow> tool_resolution.Blocked (blocked_outcome iid name raw use_id reason stop)
      | None \<Rightarrow> Approved args stop)"
    have run: "prompt_user w True tid turn iid name raw use_id args stop e = (Some r, e4)"
      by (simp add: prompt_user_def Let_def case_prod_beta req o' assms(2) await_first_word first Waited key
                    e3_def e4_def r_def split: option.splits)
    have r: "r \<noteq> tool_resolution.Blocked (blocked_outcome iid name raw use_id ''permission wait cancelled'' stop)"
      by (auto simp: r_def answer_verdict_def blocked_outcome_def text_content_def
               split: option.splits sum.splits permission_outcome.splits permission_option_kind.splits)
    have "map_option sc_queue (ei_storage_writer e4) = Some (sc_queue ch @
        [PermissionSuspended tid turn (rw_now w) key req, PermissionResolved tid key (rw_now w)])"
      using assms(4) by (simp add: e4_def e3_def enqueue_storage_op_def opened(2) k)
    moreover have "pp_lookup (pr_pending (ei_permission e4)) ?key \<noteq> None"
      using opened(3) by (simp add: e4_def e3_def frame_simps record_allow_always_def)
    ultimately show ?thesis using run r req Waited by (auto simp: Let_def)
  qed
qed

definition deferring_engine :: "unit engine_inner" where
  "deferring_engine = engine_new None (Some \<lparr>sc_capacity = 8, sc_queue = []\<rparr>) None True []"

theorem cancelled_defer_leaves_prompt_witness:
  "\<exists>r e' key req.
     prompt_user (ask_world [Waited Elapsed, TurnCancelled] []) True (ThreadId ''t'') (TurnId ''u'') (ItemId ''i'')
       ''bash'' Null ''call-1'' Null False deferring_engine = (Some r, e') \<and>
     map_option sc_queue (ei_storage_writer e') = Some [PermissionSuspended (ThreadId ''t'') (TurnId ''u'') 7 key req]"
  using cancelled_defer_leaves_prompt [of "ask_world [Waited Elapsed, TurnCancelled] []" deferring_engine
      "\<lparr>sc_capacity = 8, sc_queue = []\<rparr>" 1 TurnCancelled "[]" "ThreadId ''t''" "TurnId ''u''" "ItemId ''i''"
      "''bash''" Null "''call-1''" Null False]
  by (fastforce simp: ask_world_def deferring_engine_def engine_new_def Let_def)

end
