(* ===== verification/Subagent_Spawner.thy ===== *)
theory Subagent_Spawner
  imports Subagent_Spawn Tool_Dispatch
begin

text \<open>
  The parent's side of a subagent (\<open>zhive-core/src/engine/subagent_spawn/spawner.rs\<close>): the tool
  that starts a child thread waits for its final event and meanwhile answers the child's permission
  requests by a second fold under the parent's scope and hooks. Hook dispatch, the construction of
  typed values from JSON and the passing of time are the fields of \<open>fold_world\<close>; the two channels
  of the loop are the list of the messages it takes from them.
\<close>

section \<open>The second fold\<close>

record 'tx fold_world =
  fw_event_built :: bool
  fw_hooks :: "(hook_output list, string) rust_result"
  fw_request_built :: bool
  fw_tx :: 'tx
  fw_now :: int
  fw_meanwhile :: "'tx engine_inner \<Rightarrow> 'tx engine_inner"
  fw_waits :: "wait_event list"

definition parent_turn_context :: "thread_id \<Rightarrow> 'tx engine_inner \<Rightarrow> permission_scope \<times> turn_id option" where
  "parent_turn_context parent_tid e =
     (case ei_threads e parent_tid of
        Some h \<Rightarrow> (case hd_active_turn h of
                     None \<Rightarrow> (default_turn_scope, None)
                   | Some a \<Rightarrow> (at_scope a, Some (at_id a)))
      | None \<Rightarrow> (default_turn_scope, None))"

fun collect_decisions :: "hook_output list \<Rightarrow> permission_decision list \<Rightarrow> permission_decision list" where
  "collect_decisions [] acc = acc"
| "collect_decisions (out # outs) acc =
     collect_decisions outs
       (case ho_hook_specific_output out of Some (PreToolUse d _ _) \<Rightarrow> acc @ [d] | _ \<Rightarrow> acc)"

definition dispatch_parent_pre_hooks :: "'tx fold_world \<Rightarrow> (permission_decision list, unit) rust_result" where
  "dispatch_parent_pre_hooks w =
     (if \<not> fw_event_built w then Inl ()
      else (case fw_hooks w of Inl _ \<Rightarrow> Inl () | Inr outputs \<Rightarrow> Inr (collect_decisions outputs [])))"

definition parent_options :: "permission_option list" where
  "parent_options =
     [\<lparr>po_id = ''allow-once'', po_kind = AllowOnce, po_description = ''Allow once''\<rparr>,
      \<lparr>po_id = ''allow-always'', po_kind = AllowAlways, po_description = ''Always allow''\<rparr>,
      \<lparr>po_id = ''reject-once'', po_kind = RejectOnce, po_description = ''Reject once''\<rparr>,
      \<lparr>po_id = ''reject-always'', po_kind = RejectAlways, po_description = ''Always reject''\<rparr>]"

definition build_parent_request :: "bool \<Rightarrow> thread_id \<Rightarrow> string \<Rightarrow> request_permission_request option" where
  "build_parent_request built tid name =
     (if built then
        Some \<lparr>rp_thread_id = tid, rp_resource_type = ''tool'', rp_name = name,
              rp_reason = ''subagent wants to call tool: '' @ name,
              rp_options = parent_options, rp_tool_call_id = None\<rparr>
      else None)"

definition classify_option :: "permission_option list \<Rightarrow> string \<Rightarrow> permission_option_kind option" where
  "classify_option options option_id =
     (case find (\<lambda>o'. po_id o' = option_id) options of
        Some opt \<Rightarrow> Some (po_kind opt)
      | None \<Rightarrow>
          (if option_id = ''allow-once'' \<or> option_id = ''allow_once'' then Some AllowOnce
           else if option_id = ''allow-always'' \<or> option_id = ''allow_always'' then Some AllowAlways
           else if option_id = ''reject-once'' \<or> option_id = ''reject_once'' then Some RejectOnce
           else if option_id = ''reject-always'' \<or> option_id = ''reject_always'' then Some RejectAlways
           else None))"

text \<open>The wait for the user: \<open>None\<close> while nothing has ended it.\<close>

fun await_answer ::
    "bool \<Rightarrow> 'tx permission_reducer \<Rightarrow> wait_event list \<Rightarrow> (permission_outcome, reducer_error) rust_result option" where
  "await_answer defer reducer [] = None"
| "await_answer defer reducer (ev # evs) =
     (if defer
      then (case wait_unbounded ev of Some r \<Rightarrow> Some r | None \<Rightarrow> await_answer defer reducer evs)
      else Some (wait reducer ev))"

definition verdict_of_answer ::
    "permission_option list \<Rightarrow> (permission_outcome, reducer_error) rust_result \<Rightarrow> parent_verdict" where
  "verdict_of_answer options outcome =
     (case outcome of
        Inr (permission_outcome.Selected option_id) \<Rightarrow>
          (case classify_option options option_id of
             Some AllowOnce \<Rightarrow> parent_verdict.Allow
           | Some AllowAlways \<Rightarrow> parent_verdict.Allow
           | _ \<Rightarrow> parent_verdict.Deny)
      | _ \<Rightarrow> parent_verdict.Deny)"

definition parent_reverse_rpc ::
    "'tx fold_world \<Rightarrow> thread_id \<Rightarrow> string \<Rightarrow> turn_id option \<Rightarrow> bool \<Rightarrow> 'tx engine_inner \<Rightarrow>
     parent_verdict option \<times> 'tx engine_inner" where
  "parent_reverse_rpc w parent_tid name parent_turn defer e =
     (case build_parent_request (fw_request_built w) parent_tid name of
        None \<Rightarrow> (Some parent_verdict.Deny, e)
      | Some request \<Rightarrow>
          (let options = rp_options request;
               (key, req, reducer) =
                 (case (defer, parent_turn) of
                    (True, Some turn) \<Rightarrow>
                      enroll_with_context (fw_tx w) request
                        \<lparr>rc_thread_id = parent_tid, rc_turn_id = turn\<rparr> (ei_permission e)
                  | _ \<Rightarrow> enroll (fw_tx w) request (ei_permission e));
               wire_id = to_wire key;
               wire = (case wire_id of PermissionRequestId s \<Rightarrow> s);
               e1 = send (PermissionRequested wire_id req) (e\<lparr>ei_permission := reducer\<rparr>);
               e2 = (case (defer, parent_turn) of
                       (True, Some turn) \<Rightarrow>
                         enqueue_storage_op (PermissionSuspended parent_tid turn (fw_now w) wire req)
                           (send (TurnSuspended parent_tid turn wire_id None) e1)
                     | _ \<Rightarrow> e1);
               e3 = fw_meanwhile w e2
           in case await_answer defer (ei_permission e3) (fw_waits w) of
                None \<Rightarrow> (None, e3)
              | Some outcome \<Rightarrow>
                  (Some (verdict_of_answer options outcome),
                   if defer then enqueue_storage_op (PermissionResolved parent_tid wire (fw_now w)) e3
                   else e3)))"

definition parent_second_fold ::
    "'tx fold_world \<Rightarrow> thread_id \<Rightarrow> subagent_decision_request \<Rightarrow> 'tx engine_inner \<Rightarrow>
     parent_verdict option \<times> 'tx engine_inner" where
  "parent_second_fold w parent_tid req e =
     (let (parent_scope, parent_turn) = parent_turn_context parent_tid e
      in case dispatch_parent_pre_hooks w of
           Inl _ \<Rightarrow> (Some parent_verdict.Deny, e)
         | Inr decisions \<Rightarrow>
             (case evaluate parent_scope (decisions @ [sr_child_decision req]) of
                permission_decision.Allow \<Rightarrow> (Some parent_verdict.Allow, e)
              | permission_decision.Ask \<Rightarrow>
                  parent_reverse_rpc w parent_tid (sr_tool_name req) parent_turn False e
              | permission_decision.Defer \<Rightarrow>
                  parent_reverse_rpc w parent_tid (sr_tool_name req) parent_turn True e
              | permission_decision.Deny \<Rightarrow> (Some parent_verdict.Deny, e)))"

section \<open>Spawning and awaiting\<close>

definition final_message_text :: "item option \<Rightarrow> string" where
  "final_message_text final_message =
     (case final_message of
        Some (AgentMessage _ text) \<Rightarrow> text
      | Some (SystemNotice _ _ message) \<Rightarrow> message
      | _ \<Rightarrow> [])"

definition forward_child_suspended :: "thread_id \<Rightarrow> string \<Rightarrow> 'tx engine_inner \<Rightarrow> 'tx engine_inner" where
  "forward_child_suspended parent_tid child_request_id e =
     (case snd (parent_turn_context parent_tid e) of
        Some turn \<Rightarrow> send (TurnSuspended parent_tid turn (PermissionRequestId child_request_id) None) e
      | None \<Rightarrow> e)"

datatype 'tx child_message =
    DecisionRequest subagent_decision_request "'tx fold_world"
  | FinalEvent subagent_final_event
  | FinalChannelClosed

text \<open>
  The loop of \<open>spawn_and_await\<close> over the messages in the order it takes them: the result, or \<open>None\<close>
  while the loop still waits, the verdicts sent back to the child, and the engine.
\<close>

fun await_child ::
    "thread_id \<Rightarrow> 'tx child_message list \<Rightarrow> parent_verdict list \<Rightarrow> 'tx engine_inner \<Rightarrow>
     (string, string) rust_result option \<times> parent_verdict list \<times> 'tx engine_inner" where
  "await_child parent_tid [] sent e = (None, sent, e)"
| "await_child parent_tid (DecisionRequest req w # ms) sent e =
     (case parent_second_fold w parent_tid req e of
        (None, e') \<Rightarrow> (None, sent, e')
      | (Some verdict, e') \<Rightarrow> await_child parent_tid ms (sent @ [verdict]) e')"
| "await_child parent_tid (FinalEvent (subagent_final_event.Completed _ final_message) # ms) sent e =
     (Some (Inr (final_message_text final_message)), sent, e)"
| "await_child parent_tid (FinalEvent (subagent_final_event.Errored _ err) # ms) sent e =
     (Some (Inl (te_message err)), sent, e)"
| "await_child parent_tid (FinalEvent (subagent_final_event.Suspended _ child_request_id) # ms) sent e =
     await_child parent_tid ms sent (forward_child_suspended parent_tid child_request_id e)"
| "await_child parent_tid (FinalChannelClosed # ms) sent e =
     (Some (Inl ''subagent channel closed without result''), sent, e)"

fun spawn_error_text :: "subagent_spawn_error \<Rightarrow> string" where
  "spawn_error_text ParentNotFound = ''parent thread not found''"
| "spawn_error_text subagent_spawn_error.RecursionForbidden =
     ''subagent recursion forbidden (parent is already a subagent)''"
| "spawn_error_text subagent_spawn_error.ChildSpawnRequested =
     ''subagent definition requested allow_subagent_spawn=true; recursion forbidden''"
| "spawn_error_text ScopeWideningRejected =
     ''child scope widens the parent scope; narrowing required''"

text \<open>
  The definition is parsed from its three fields, the others take their defaults; a refusal of the
  parser is the parameter \<open>refused\<close>.
\<close>

definition spawn_and_await ::
    "string option \<Rightarrow> int \<Rightarrow> (string \<times> bool) list \<Rightarrow> thread_id \<Rightarrow> string \<Rightarrow> string \<Rightarrow> string \<Rightarrow>
     'tx child_message list \<Rightarrow> 'tx engine_inner \<Rightarrow>
     (string, string) rust_result option \<times> parent_verdict list \<times> 'tx engine_inner" where
  "spawn_and_await refused now tools parent_tid name description prompt ms e =
     (case refused of
        Some err \<Rightarrow> (Some (Inl (''failed to build subagent definition: '' @ err)), [], e)
      | None \<Rightarrow>
          (let d = \<lparr>sd_name = name, sd_description = description, sd_prompt = prompt, sd_tools = None,
                    sd_disallowed_tools = [], sd_permission_mode = None, sd_allow_subagent_spawn = False\<rparr>
           in case spawn_subagent_awaitable now tools parent_tid d e of
                (Inl err, e') \<Rightarrow> (Some (Inl (spawn_error_text err)), [], e')
              | (Inr _, e') \<Rightarrow> await_child parent_tid ms [] e'))"

section \<open>What the parent's fold grants\<close>

lemma collect_decisions_eq: "collect_decisions outs acc = acc @ hook_decisions outs"
proof (induction outs arbitrary: acc)
  case (Cons out outs)
  show ?case
  proof (cases "ho_hook_specific_output out")
    case None
    then show ?thesis by (simp add: Cons hook_decisions_def)
  next
    case (Some h)
    then show ?thesis by (cases h) (simp_all add: Cons hook_decisions_def)
  qed
qed (simp add: hook_decisions_def)

text \<open>The two option tables agree: an answer means the same to the dispatcher and to the parent.\<close>

lemma classify_option_eq: "classify_option = classify_option_id"
  by (intro ext) (simp add: classify_option_def classify_option_id_def OPT_ALLOW_ONCE_def
    OPT_ALLOW_ALWAYS_def OPT_REJECT_ONCE_def OPT_REJECT_ALWAYS_def)

lemma verdict_of_answer_Allow:
  "verdict_of_answer options (wait r ev) = parent_verdict.Allow \<longleftrightarrow>
     (\<exists>opt. ev = Received (permission_outcome.Selected opt) \<and> allows (classify_option options opt))"
proof (cases ev)
  case (Received out)
  then show ?thesis
    by (cases out)
       (auto simp: verdict_of_answer_def allows_def split: option.splits permission_option_kind.splits)
qed (simp_all add: verdict_of_answer_def)

lemma await_answer_first_word:
  "await_answer d r evs =
     (case first_word d (map Waited evs) of
        Some (Waited ev) \<Rightarrow> Some (wait r ev) | _ \<Rightarrow> None)"
proof (cases d)
  case True
  have "await_answer True r evs =
     (case first_word True (map Waited evs) of Some (Waited ev) \<Rightarrow> Some (wait r ev) | _ \<Rightarrow> None)"
  proof (induction evs)
    case (Cons a evs)
    then show ?case by (cases a) (simp_all add: first_word_def)
  qed (simp add: first_word_def)
  with True show ?thesis by simp
next
  case False
  then show ?thesis by (cases evs) (simp_all add: first_word_def)
qed

lemma rpc_answer:
  assumes "fw_request_built w"
  shows "\<exists>e3 e4. parent_reverse_rpc w p name t d e =
           (case await_answer d (ei_permission e3) (fw_waits w) of
              None \<Rightarrow> (None, e3)
            | Some outcome \<Rightarrow> (Some (verdict_of_answer parent_options outcome), e4))"
  unfolding parent_reverse_rpc_def build_parent_request_def Let_def case_prod_beta if_P [OF assms] option.case
    request_permission_request.select_convs
  by (intro exI) (rule refl)

lemma rpc_allows:
  assumes "parent_reverse_rpc w p name t d e = (Some parent_verdict.Allow, e')"
  shows "\<exists>opt. first_word d (map Waited (fw_waits w)) =
                 Some (Waited (Received (permission_outcome.Selected opt))) \<and>
               allows (classify_option parent_options opt)"
proof -
  have "fw_request_built w"
    using assms by (rule contrapos_pp) (simp add: parent_reverse_rpc_def build_parent_request_def)
  then obtain e3 e4 where "parent_reverse_rpc w p name t d e =
           (case await_answer d (ei_permission e3) (fw_waits w) of
              None \<Rightarrow> (None, e3)
            | Some outcome \<Rightarrow> (Some (verdict_of_answer parent_options outcome), e4))"
    using rpc_answer by blast
  with assms obtain outcome where "await_answer d (ei_permission e3) (fw_waits w) = Some outcome"
    "verdict_of_answer parent_options outcome = parent_verdict.Allow"
    by (auto split: option.splits)
  then show ?thesis
    by (auto simp: await_answer_first_word verdict_of_answer_Allow split: option.splits wait_obs.splits)
qed

text \<open>The fold is as strict as each of its votes, unless the parent bypasses permissions.\<close>

lemma evaluate_ge:
  "permission_mode s \<noteq> Some BypassPermissions \<Longrightarrow> d \<in> set ds \<Longrightarrow> d \<le> evaluate s ds"
  by (simp add: evaluate_def fold_decisions_def reduce_ge)

definition parent_votes :: "'tx fold_world \<Rightarrow> permission_decision list \<Rightarrow> bool" where
  "parent_votes w ds = (fw_event_built w \<and> (\<exists>outs. fw_hooks w = Inr outs \<and> ds = hook_decisions outs))"

lemma dispatch_parent_ok: "dispatch_parent_pre_hooks w = Inr ds \<longleftrightarrow> parent_votes w ds"
  by (auto simp: dispatch_parent_pre_hooks_def parent_votes_def collect_decisions_eq split: sum.splits)

lemma second_fold_allows:
  assumes "parent_second_fold w p req e = (Some parent_verdict.Allow, e')"
  obtains ds where "parent_votes w ds"
    "evaluate (fst (parent_turn_context p e)) (ds @ [sr_child_decision req]) \<noteq> permission_decision.Deny"
    "evaluate (fst (parent_turn_context p e)) (ds @ [sr_child_decision req]) = permission_decision.Allow \<or>
      (\<exists>opt. first_word (evaluate (fst (parent_turn_context p e)) (ds @ [sr_child_decision req]) = permission_decision.Defer)
                 (map Waited (fw_waits w)) = Some (Waited (Received (permission_outcome.Selected opt))) \<and>
             allows (classify_option parent_options opt))"
proof -
  obtain s t where ctx: "parent_turn_context p e = (s, t)" by fastforce
  obtain ds where ds: "dispatch_parent_pre_hooks w = Inr ds"
    using assms by (auto simp: parent_second_fold_def ctx split: sum.splits)
  let ?d = "evaluate s (ds @ [sr_child_decision req])"
  have "?d \<noteq> permission_decision.Deny" using assms by (auto simp: parent_second_fold_def ctx ds)
  moreover have "?d = permission_decision.Allow \<or>
      (\<exists>opt. first_word (?d = permission_decision.Defer) (map Waited (fw_waits w)) =
                Some (Waited (Received (permission_outcome.Selected opt))) \<and>
             allows (classify_option parent_options opt))"
    using assms by (cases ?d) (auto simp: parent_second_fold_def ctx ds dest: rpc_allows)
  ultimately show thesis
    using that [of ds] ds by (simp add: ctx dispatch_parent_ok)
qed

lemma reduce_single: "reduce [d] = d"
  by (simp add: reduce_eq_Max)

lemma reduce_Defer_iff:
  "reduce ds = permission_decision.Defer \<longleftrightarrow>
     permission_decision.Deny \<notin> set ds \<and> permission_decision.Defer \<in> set ds"
proof -
  have "permission_decision.Defer \<in> set ds \<Longrightarrow> permission_decision.Defer \<le> reduce ds" by (rule reduce_ge)
  then show ?thesis
    using reduce_in [of ds] reduce_Deny_iff [of ds]
    by (cases "reduce ds") (auto simp: less_eq_permission_decision_def)
qed

text \<open>
  the parent's verdict on a call of its subagent is \<open>Allow\<close> only when its own hooks were
  dispatched and the fold of their decisions and the child's allows, or asks and the user's first
  answer selects an option that allows; outside bypass mode neither a hook nor the child denied.
\<close>

theorem parent_verdict_earned:
  assumes "parent_second_fold w p req e = (Some parent_verdict.Allow, e')"
  shows "\<exists>ds d. parent_votes w ds \<and>
     d = evaluate (fst (parent_turn_context p e)) (ds @ [sr_child_decision req]) \<and>
     (d = permission_decision.Allow \<or>
      (\<exists>opt. first_word (d = permission_decision.Defer) (map Waited (fw_waits w)) =
                Some (Waited (Received (permission_outcome.Selected opt))) \<and>
             allows (classify_option parent_options opt))) \<and>
     (permission_mode (fst (parent_turn_context p e)) = Some BypassPermissions \<or>
      permission_decision.Deny \<notin> set ds \<and> sr_child_decision req \<noteq> permission_decision.Deny)"
proof -
  obtain ds where "parent_votes w ds"
    "evaluate (fst (parent_turn_context p e)) (ds @ [sr_child_decision req]) \<noteq> permission_decision.Deny"
    "evaluate (fst (parent_turn_context p e)) (ds @ [sr_child_decision req]) = permission_decision.Allow \<or>
      (\<exists>opt. first_word (evaluate (fst (parent_turn_context p e)) (ds @ [sr_child_decision req]) = permission_decision.Defer)
                 (map Waited (fw_waits w)) = Some (Waited (Received (permission_outcome.Selected opt))) \<and>
             allows (classify_option parent_options opt))"
    using assms by (rule second_fold_allows)
  then show ?thesis
    by (intro exI [of _ ds] exI [of _ "evaluate (fst (parent_turn_context p e)) (ds @ [sr_child_decision req])"])
       (auto simp: evaluate_Deny_iff)
qed

definition fold_ask :: "wait_event list \<Rightarrow> hook_output list \<Rightarrow> unit fold_world" where
  "fold_ask evs outs =
     \<lparr>fw_event_built = True, fw_hooks = Inr outs, fw_request_built = True, fw_tx = (), fw_now = 7,
      fw_meanwhile = id, fw_waits = evs\<rparr>"

abbreviation bare_engine :: "unit engine_inner" where
  "bare_engine \<equiv> engine_new None None None True []"

lemma bare_context: "parent_turn_context p bare_engine = (default_turn_scope, None)"
  by (simp add: parent_turn_context_def engine_new_def)

lemma fold_ask_result:
  "fst (parent_second_fold (fold_ask [Received (permission_outcome.Selected ''allow-once'')] [hook_says Ask None])
     p (handshake_request i n a permission_decision.Allow) bare_engine) = Some parent_verdict.Allow"
proof -
  let ?fw = "fold_ask [Received (permission_outcome.Selected ''allow-once'')] [hook_says Ask None]"
  have ds: "dispatch_parent_pre_hooks ?fw = Inr [Ask]"
    by (simp add: dispatch_parent_pre_hooks_def fold_ask_def hook_says_def)
  have built: "fw_request_built ?fw" "fw_waits ?fw = [Received (permission_outcome.Selected ''allow-once'')]"
    by (simp_all add: fold_ask_def)
  have answer: "verdict_of_answer parent_options (Inr (permission_outcome.Selected ''allow-once'')) = parent_verdict.Allow"
    by (simp add: verdict_of_answer_def classify_option_def parent_options_def)
  have "fst (parent_reverse_rpc ?fw p n None False bare_engine) = Some parent_verdict.Allow"
    using rpc_answer [OF built(1), of p n None False bare_engine] by (auto simp: built(2) answer)
  then show ?thesis
    by (simp add: parent_second_fold_def bare_context ds evaluate_default reduce_def handshake_request_def)
qed

theorem parent_verdict_earned_witness:
  "\<exists>e' ds. parent_second_fold (fold_ask [Received (permission_outcome.Selected ''allow-once'')] [hook_says Ask None])
     (ThreadId ''t'') (handshake_request ''call-1'' ''bash'' Null permission_decision.Allow) bare_engine =
       (Some parent_verdict.Allow, e') \<and> permission_decision.Deny \<notin> set ds"
proof -
  obtain e' where e': "parent_second_fold (fold_ask [Received (permission_outcome.Selected ''allow-once'')] [hook_says Ask None])
     (ThreadId ''t'') (handshake_request ''call-1'' ''bash'' Null permission_decision.Allow) bare_engine =
       (Some parent_verdict.Allow, e')"
    using fold_ask_result [of "ThreadId ''t''" "''call-1''" "''bash''" Null] by (metis prod.collapse)
  show ?thesis
    using parent_verdict_earned [OF e'] e' by (auto simp: bare_context default_turn_scope_def)
qed

text \<open>How a verdict of the parent reaches the waiting child; a parent that never answers leaves the channel.\<close>

definition verdict_event :: "parent_verdict option \<Rightarrow> handshake_event" where
  "verdict_event v = (case v of Some verdict \<Rightarrow> Verdict verdict | None \<Rightarrow> ReplyDropped)"

lemma verdict_event_Allow: "verdict_event v = Verdict parent_verdict.Allow \<longleftrightarrow> v = Some parent_verdict.Allow"
  by (simp add: verdict_event_def split: option.splits)

text \<open>
  a subagent's call runs only with the consent of both sides: when the child's resolution meets the
  parent's second fold and neither scope bypasses permissions, an approved call is permitted by the
  child's scope, denied by no hook of the child and by no hook of the parent, and if any of those hooks
  asked or deferred, the user's first answer to the parent's prompt selects an option that allows.
\<close>

theorem child_call_needs_both:
  assumes "resolve_tool_permission w True ctid turn iid name raw use_id scope ec = (Some (Approved args stop), ec')"
    and "\<And>req. rw_parent w req = verdict_event (fst (parent_second_fold fw p req e))"
    and "permission_mode scope \<noteq> Some BypassPermissions"
    and "permission_mode (fst (parent_turn_context p e)) \<noteq> Some BypassPermissions"
  shows "permits scope name \<and>
    (\<exists>outs pouts. rw_hooks w = Inr outs \<and> fw_hooks fw = Inr pouts \<and>
       (let votes = set (hook_decisions pouts) \<union> set (hook_decisions outs)
        in permission_decision.Deny \<notin> votes \<and>
           (votes \<subseteq> {permission_decision.Allow} \<or>
            (\<exists>opt. first_word (permission_decision.Defer \<in> votes) (map Waited (fw_waits fw)) =
                      Some (Waited (Received (permission_outcome.Selected opt))) \<and>
                   allows (classify_option parent_options opt)))))"
proof -
  obtain outs ev a where scope: "permits scope name" and ev: "rw_event w = Inr ev" and outs: "rw_hooks w = Inr outs"
    and a: "(if hook_inputs outs = [] then Inr raw
      else case rw_revalidate w (last (hook_inputs outs)) of
             Inl err \<Rightarrow> Inl err | Inr _ \<Rightarrow> Inr (last (hook_inputs outs))) = Inr a"
    using assms(1) by (rule approved_inputs) blast
  let ?d = "reduce (hook_decisions outs)"
  let ?req = "handshake_request use_id name a ?d"
  have d: "evaluate scope (hook_decisions outs) = ?d"
    using assms(3) by (simp add: evaluate_def fold_decisions_def)
  note r = resolve_decided [OF scope ev outs a, of True ctid turn iid use_id ec, unfolded d]
  have "rw_parent w ?req = Verdict parent_verdict.Allow"
    using assms(1) [unfolded r]
    by (cases "handshake_with_parent (rw_parent w ?req)")
       (simp_all add: Let_def handshake_allow [symmetric] split: if_splits)
  then have "fst (parent_second_fold fw p ?req e) = Some parent_verdict.Allow"
    by (simp add: assms(2) verdict_event_Allow)
  then obtain e' where "parent_second_fold fw p ?req e = (Some parent_verdict.Allow, e')"
    by (metis prod.collapse)
  then obtain ds where ds: "parent_votes fw ds"
    and v: "evaluate (fst (parent_turn_context p e)) (ds @ [sr_child_decision ?req]) \<noteq> permission_decision.Deny"
      "evaluate (fst (parent_turn_context p e)) (ds @ [sr_child_decision ?req]) = permission_decision.Allow \<or>
      (\<exists>opt. first_word (evaluate (fst (parent_turn_context p e)) (ds @ [sr_child_decision ?req]) = permission_decision.Defer)
                 (map Waited (fw_waits fw)) = Some (Waited (Received (permission_outcome.Selected opt))) \<and>
             allows (classify_option parent_options opt))"
    by (rule second_fold_allows)
  have "evaluate (fst (parent_turn_context p e)) (ds @ [sr_child_decision ?req]) = reduce (ds @ hook_decisions outs)"
    using assms(4)
    by (simp add: evaluate_def fold_decisions_def reduce_append reduce_single handshake_request_def)
  with v ds scope outs show ?thesis
    by (auto simp: Let_def reduce_Deny_iff reduce_Allow_iff reduce_Defer_iff parent_votes_def)
qed

definition child_world :: "unit fold_world \<Rightarrow> unit resolve_world" where
  "child_world fw = (ask_world [] [hook_says permission_decision.Allow None])
     \<lparr>rw_parent := \<lambda>req. verdict_event (fst (parent_second_fold fw (ThreadId ''p'') req bare_engine))\<rparr>"

lemma child_world_result:
  fixes fw :: "unit fold_world"
  defines "fw \<equiv> fold_ask [Received (permission_outcome.Selected ''allow-once'')] [hook_says Ask None]"
  shows "resolve_tool_permission (child_world fw) True (ThreadId ''c'') (TurnId ''u'') (ItemId ''i'') ''bash'' Null ''call-1''
     default_turn_scope bare_engine = (Some (Approved Null False), bare_engine)"
proof -
  have "fst (parent_second_fold fw (ThreadId ''p'') (handshake_request ''call-1'' ''bash'' Null permission_decision.Allow) bare_engine) =
      Some parent_verdict.Allow"
    unfolding fw_def by (simp add: fold_ask_result)
  then show ?thesis
    by (simp add: resolve_tool_permission_def Let_def scan_hooks_eq evaluate_default hook_decisions_def reduce_single
                  hook_inputs_def hook_stops_def ask_world_def child_world_def hook_says_def verdict_event_def)
qed

theorem child_call_needs_both_witness:
  "permits default_turn_scope ''bash'' \<and>
   allows (classify_option parent_options ''allow-once'')"
proof -
  let ?fw = "fold_ask [Received (permission_outcome.Selected ''allow-once'')] [hook_says Ask None]"
  have parent: "rw_parent (child_world ?fw) req =
      verdict_event (fst (parent_second_fold ?fw (ThreadId ''p'') req bare_engine))" for req
    by (simp add: child_world_def)
  from child_call_needs_both [OF child_world_result parent] show ?thesis
    by (auto simp: bare_context default_turn_scope_def Let_def fold_ask_def hook_says_def hook_decisions_def
                   child_world_def ask_world_def first_word_def)
qed

end
