(* ===== verification/Turn_Loop.thy ===== *)
theory Turn_Loop
  imports Engine_Run Stream_Fold Tool_Dispatch
begin

text \<open>
  The agent loop of a turn (\<open>run_turn\<close> of \<open>zhive-core/src/engine/turn.rs\<close>): take steering items,
  call the provider, fold its stream, resolve and execute the tool calls, and go round again until
  the model stops calling tools, the turn is cancelled or fails, or the iteration limit is reached.
  What a round meets is the record \<open>round_world\<close>: the provider's answers, what the stream loop
  observes, the hooks and tools of each call, and what the other tasks do to the engine at the points
  where this one awaits. The turn's handle is read and written in the engine's store, where it stays
  while the turn runs; the request built for the provider is a parameter of the provider's answer.
\<close>

section \<open>The world of a round\<close>

datatype 'tx stream_obs =
    Arrived stream_part
  | StreamError sdk_error
  | SawCancel
  | Elsewhere "'tx engine_inner \<Rightarrow> 'tx engine_inner"

record 'tx round_world =
  ow_provider :: "('tx stream_obs list, 'tx) provider_world"
  ow_order :: drain_order
  ow_snapshot :: "string option option"
  ow_resolve :: "nat \<Rightarrow> 'tx resolve_world"
  ow_between :: "nat \<Rightarrow> 'tx engine_inner \<Rightarrow> 'tx engine_inner"
  ow_exec :: "nat \<Rightarrow> exec_world"
  ow_during_exec :: "'tx engine_inner \<Rightarrow> 'tx engine_inner"

record 'tx turn_world =
  tw_round :: "nat \<Rightarrow> 'tx round_world"
  tw_from_str :: "string \<Rightarrow> json option"
  tw_display :: "json \<Rightarrow> string"
  tw_now :: int
  tw_compaction :: compaction_world

section \<open>Recording items\<close>

definition on_handle ::
    "thread_id \<Rightarrow> (thread_handle \<Rightarrow> thread_handle) \<Rightarrow> 'tx engine_inner \<Rightarrow> 'tx engine_inner" where
  "on_handle tid f e =
     (case ei_threads e tid of Some h \<Rightarrow> put_handle tid (f h) e | None \<Rightarrow> e)"

definition read_handle :: "thread_id \<Rightarrow> (thread_handle \<Rightarrow> 'a) \<Rightarrow> 'a \<Rightarrow> 'tx engine_inner \<Rightarrow> 'a" where
  "read_handle tid f d e = (case ei_threads e tid of Some h \<Rightarrow> f h | None \<Rightarrow> d)"

definition record_item ::
    "thread_id \<Rightarrow> turn_id \<Rightarrow> item \<Rightarrow> int \<times> 'tx engine_inner \<Rightarrow> int \<times> 'tx engine_inner" where
  "record_item tid turn it st =
     (let (seq, e) = st;
          e1 = on_handle tid (handle_push_item it) e;
          e2 = send (engine_event.ItemAppended tid turn it) e1
      in (seq + 1, enqueue_storage_op (storage_write_op.ItemAppended tid turn seq it) e2))"

text \<open>The loop that persists the input items of the turn.\<close>

fun persist_input ::
    "thread_id \<Rightarrow> turn_id \<Rightarrow> item list \<Rightarrow> int \<times> 'tx engine_inner \<Rightarrow> int \<times> 'tx engine_inner" where
  "persist_input tid turn [] st = st"
| "persist_input tid turn (it # its) (seq, e) =
     persist_input tid turn its
       (seq + 1, enqueue_storage_op (storage_write_op.ItemAppended tid turn seq it) e)"

definition take_injected ::
    "thread_id \<Rightarrow> queue_target \<Rightarrow> 'tx engine_inner \<Rightarrow> item list \<times> 'tx engine_inner" where
  "take_injected tid target e =
     (case ei_threads e tid of
        None \<Rightarrow> ([], e)
      | Some h \<Rightarrow>
          (let (its, q) = drain target (hd_injection h)
           in (its, put_handle tid (h\<lparr>hd_injection := q\<rparr>) e)))"

definition flush_writes :: "thread_id \<Rightarrow> 'tx engine_inner \<Rightarrow> 'tx engine_inner" where
  "flush_writes tid e =
     (case ei_threads e tid of
        None \<Rightarrow> e
      | Some h \<Rightarrow> (let (_, h', e') = flush_pending_session_writes h e in put_handle tid h' e'))"

definition end_turn ::
    "int \<Rightarrow> thread_id \<Rightarrow> turn_id \<Rightarrow> turn_error option \<Rightarrow> 'tx engine_inner \<Rightarrow> 'tx engine_inner" where
  "end_turn now tid turn error e =
     (case ei_threads e tid of
        None \<Rightarrow> e
      | Some h \<Rightarrow> (let (h', e') = finish_turn now tid turn error (h, e) in put_handle tid h' e'))"

definition cancelled_now :: "cancel_token \<Rightarrow> 'tx engine_inner \<Rightarrow> bool" where
  "cancelled_now tok e = token_is_cancelled (ei_cancel_tree e) tok"

section \<open>The stream\<close>

fun is_tool_call :: "item \<Rightarrow> bool" where
  "is_tool_call (item.ToolCall _ _ _ _ _ _ _ _ _ _) = True"
| "is_tool_call _ = False"

text \<open>The part of the stream loop and of the flush that sorts the folded items.\<close>

fun place_items ::
    "thread_id \<Rightarrow> turn_id \<Rightarrow> item list \<Rightarrow> item list \<times> int \<times> 'tx engine_inner \<Rightarrow>
     item list \<times> int \<times> 'tx engine_inner" where
  "place_items tid turn [] st = st"
| "place_items tid turn (it # its) (calls, seq, e) =
     (if is_tool_call it then place_items tid turn its (calls @ [it], seq, e)
      else place_items tid turn its (calls, record_item tid turn it (seq, e)))"

definition live_delta :: "stream_part \<Rightarrow> (string \<times> item_delta_kind) option" where
  "live_delta part =
     (case part of
        stream_part.TextDelta _ delta \<Rightarrow>
          (if delta \<noteq> [] then Some (delta, item_delta_kind.Text) else None)
      | ReasoningDelta _ delta \<Rightarrow>
          (if delta \<noteq> [] then Some (delta, item_delta_kind.Reasoning) else None)
      | _ \<Rightarrow> None)"

definition send_delta :: "thread_id \<Rightarrow> turn_id \<Rightarrow> stream_part \<Rightarrow> 'tx engine_inner \<Rightarrow> 'tx engine_inner" where
  "send_delta tid turn part e =
     (case live_delta part of
        Some (delta, kind) \<Rightarrow> send (ItemDelta tid turn delta kind) e
      | None \<Rightarrow> e)"

text \<open>
  The loop over the stream, until it ends, fails, or the cancellation is seen: the failure, the fold
  and the sorted items.
\<close>

fun stream_loop ::
    "'tx turn_world \<Rightarrow> thread_id \<Rightarrow> turn_id \<Rightarrow> cancel_token \<Rightarrow> 'tx stream_obs list \<Rightarrow>
     stream_fold \<times> item list \<times> int \<times> 'tx engine_inner \<Rightarrow>
     turn_error option \<times> stream_fold \<times> item list \<times> int \<times> 'tx engine_inner" where
  "stream_loop w tid turn tok [] st = (None, st)"
| "stream_loop w tid turn tok (Elsewhere f # obs) (sf, calls, seq, e) =
     stream_loop w tid turn tok obs (sf, calls, seq, f e)"
| "stream_loop w tid turn tok (SawCancel # obs) (sf, calls, seq, e) =
     (if cancelled_now tok e then (None, sf, calls, seq, e)
      else stream_loop w tid turn tok obs (sf, calls, seq, e))"
| "stream_loop w tid turn tok (Arrived part # obs) (sf, calls, seq, e) =
     (let (its, sf') = fold_part (tw_from_str w) (tw_display w) part sf
      in stream_loop w tid turn tok obs
           (sf', place_items tid turn its (calls, seq, send_delta tid turn part e)))"
| "stream_loop w tid turn tok (StreamError err # obs) (sf, calls, seq, e) =
     (let turn_error = \<lparr>te_message = provider_error_text (from_llmsdk err), te_additional_details = None\<rparr>
      in (Some turn_error, sf, calls, seq, send (engine_event.TurnFailed tid turn turn_error) e))"

definition or_zero :: "u64 option \<Rightarrow> u64" where
  "or_zero n = (case n of Some x \<Rightarrow> x | None \<Rightarrow> 0)"

definition report_usage :: "thread_id \<Rightarrow> turn_id \<Rightarrow> stream_fold \<Rightarrow> 'tx engine_inner \<Rightarrow> 'tx engine_inner" where
  "report_usage tid turn sf e =
     (case sf_usage sf of
        None \<Rightarrow> e
      | Some us \<Rightarrow>
          (let input_tokens = or_zero (us_input_total us); output_tokens = or_zero (us_output_total us)
           in set_last_input_tokens input_tokens (send (Usage tid turn input_tokens output_tokens) e)))"

section \<open>Tool calls\<close>

datatype resolved =
    Blocked dispatch_outcome
  | Approved item_id string json string bool

datatype 'tx calls_resolved =
    StillWaiting "'tx engine_inner"
  | CutShort "'tx engine_inner"
  | AllResolved u64 bool "resolved list" "'tx engine_inner"

text \<open>The pattern of the loop: a tool call with its arguments; its id, name, arguments, provider id.\<close>

fun call_of :: "item \<Rightarrow> (item_id \<times> string \<times> json \<times> string option) option" where
  "call_of (item.ToolCall iid name _ _ _ _ _ (Some raw_args) _ pid) = Some (iid, name, raw_args, pid)"
| "call_of _ = None"

definition tool_use_id_for :: "string option \<Rightarrow> u64 \<Rightarrow> string \<times> u64" where
  "tool_use_id_for pid fallback =
     (case pid of
        Some (c # cs) \<Rightarrow> (c # cs, fallback)
      | _ \<Rightarrow> (''tc-fallback-'' @ show_nat (unat (fallback + 1)), fallback + 1))"

fun announce :: "string \<Rightarrow> item \<Rightarrow> item" where
  "announce tool_use_id (item.ToolCall iid name title kind _ content locs raw_in raw_out _) =
     item.ToolCall iid name title kind tool_call_status.InProgress content locs raw_in raw_out (Some tool_use_id)"
| "announce tool_use_id it = it"

text \<open>The loop that announces each call and resolves its permission, one after the other.\<close>

fun resolve_calls ::
    "'tx round_world \<Rightarrow> thread_id \<Rightarrow> turn_id \<Rightarrow> cancel_token \<Rightarrow> permission_scope \<Rightarrow> nat \<Rightarrow> item list \<Rightarrow>
     u64 \<times> bool \<times> resolved list \<times> 'tx engine_inner \<Rightarrow> 'tx calls_resolved" where
  "resolve_calls r tid turn tok scope i [] (fallback, stop, acc, e) = AllResolved fallback stop acc e"
| "resolve_calls r tid turn tok scope i (it # its) (fallback, stop, acc, e) =
     (case call_of it of
        None \<Rightarrow> resolve_calls r tid turn tok scope (Suc i) its (fallback, stop, acc, e)
      | Some (iid, name, raw_args, pid) \<Rightarrow>
          (let (tool_use_id, fallback') = tool_use_id_for pid fallback;
               e1 = send (engine_event.ItemAppended tid turn (announce tool_use_id it)) e
           in case resolve_tool_permission (ow_resolve r i) (read_handle tid hd_decision_tx False e1) tid turn
                     iid name raw_args tool_use_id scope e1 of
                (None, e2) \<Rightarrow> StillWaiting e2
              | (Some resolution, e2) \<Rightarrow>
                  (let e3 = ow_between r i e2
                   in if cancelled_now tok e3 then CutShort e3
                      else (case resolution of
                              tool_resolution.Blocked outcome \<Rightarrow>
                                resolve_calls r tid turn tok scope (Suc i) its
                                  (fallback', stop \<or> stop_loop outcome, acc @ [resolved.Blocked outcome], e3)
                            | tool_resolution.Approved args s \<Rightarrow>
                                resolve_calls r tid turn tok scope (Suc i) its
                                  (fallback', stop \<or> s, acc @ [resolved.Approved iid name args tool_use_id s], e3)))))"

text \<open>\<open>join_all\<close> returns the outcomes in the order of the calls, whatever order they end in.\<close>

fun execute_calls :: "'tx round_world \<Rightarrow> nat \<Rightarrow> resolved list \<Rightarrow> dispatch_outcome list" where
  "execute_calls r i [] = []"
| "execute_calls r i (resolved.Blocked outcome # rs) = outcome # execute_calls r (Suc i) rs"
| "execute_calls r i (resolved.Approved iid name args tool_use_id stop # rs) =
     execute_resolved_tool (ow_exec r i) iid name args tool_use_id stop # execute_calls r (Suc i) rs"

fun record_all ::
    "thread_id \<Rightarrow> turn_id \<Rightarrow> item list \<Rightarrow> int \<times> 'tx engine_inner \<Rightarrow> int \<times> 'tx engine_inner" where
  "record_all tid turn [] st = st"
| "record_all tid turn (it # its) st = record_all tid turn its (record_item tid turn it st)"

section \<open>A round\<close>

record loop_state =
  ls_item_seq :: int
  ls_fallback :: u64
  ls_item_id_seq :: u64
  ls_snapshot :: bool

datatype round_exit =
    Again
  | BreakLoop
  | Return "turn_error option"
  | Waiting

definition limit_notice :: "string \<Rightarrow> string \<Rightarrow> turn_id \<Rightarrow> u32 \<Rightarrow> item" where
  "limit_notice tag what turn n =
     SystemNotice (ItemId (''item:'' @ turn_id_str turn @ tag)) notice_level.Warn
       (''max '' @ what @ '' iterations reached ('' @ show_nat (unat n) @ ''); turn ended'')"

text \<open>The round after a stream without tool calls: follow-up items or the end of the loop.\<close>

definition follow_up_round ::
    "thread_id \<Rightarrow> turn_id \<Rightarrow> u32 \<Rightarrow> nat \<Rightarrow> loop_state \<Rightarrow> 'tx engine_inner \<Rightarrow>
     round_exit \<times> loop_state \<times> 'tx engine_inner" where
  "follow_up_round tid turn max_iterations i ls e =
     (let (its, e1) = take_injected tid queue_target.FollowUp e
      in if its = [] then (BreakLoop, ls, e1)
         else (let (seq, e2) = record_all tid turn its (ls_item_seq ls, e1)
               in if i + 1 \<ge> unat max_iterations
                  then (BreakLoop, ls\<lparr>ls_item_seq := seq\<rparr>,
                        snd (record_item tid turn (limit_notice ''/max-iter-fu'' ''turn'' turn max_iterations) (seq, e2)))
                  else (Again, ls\<lparr>ls_item_seq := seq\<rparr>, e2)))"

text \<open>The snapshot before the first tool call of a top-level turn.\<close>

definition before_tools ::
    "'tx turn_world \<Rightarrow> thread_id \<Rightarrow> turn_id \<Rightarrow> bool \<Rightarrow> nat \<Rightarrow> loop_state \<Rightarrow> 'tx engine_inner \<Rightarrow>
     loop_state \<times> 'tx engine_inner" where
  "before_tools w tid turn is_top i ls e =
     (if is_top \<and> \<not> ls_snapshot ls
      then (ls\<lparr>ls_snapshot := True\<rparr>,
            capture_turn_snapshot (ow_snapshot (tw_round w i)) (tw_now w) tid turn
              (derive_preview_from_items (read_handle tid handle_active_turn_items [] e)) e)
      else (ls, e))"

text \<open>Execution of the resolved calls, in parallel, and the record of their outcomes.\<close>

definition execute_round ::
    "'tx turn_world \<Rightarrow> thread_id \<Rightarrow> turn_id \<Rightarrow> cancel_token \<Rightarrow> u32 \<Rightarrow> nat \<Rightarrow> bool \<Rightarrow> resolved list \<Rightarrow> loop_state \<Rightarrow>
     'tx engine_inner \<Rightarrow> round_exit \<times> loop_state \<times> 'tx engine_inner" where
  "execute_round w tid turn tok max_iterations i stop rs ls e =
     (let outcomes = execute_calls (tw_round w i) 0 rs;
          e2 = ow_during_exec (tw_round w i) e
      in if cancelled_now tok e2 then (Return None, ls, end_turn (tw_now w) tid turn None e2)
         else (let (seq, e3) = record_all tid turn (map outcome_item outcomes) (ls_item_seq ls, e2);
                   ls2 = ls\<lparr>ls_item_seq := seq\<rparr>
               in if stop \<or> list_ex stop_loop outcomes then (BreakLoop, ls2, e3)
                  else if i + 1 \<ge> unat max_iterations
                  then (BreakLoop, ls2,
                        snd (record_item tid turn (limit_notice ''/max-iter'' ''tool'' turn max_iterations) (seq, e3)))
                  else (Again, ls2, e3)))"

definition tool_round ::
    "'tx turn_world \<Rightarrow> thread_id \<Rightarrow> turn_id \<Rightarrow> cancel_token \<Rightarrow> permission_scope \<Rightarrow> bool \<Rightarrow> u32 \<Rightarrow> nat \<Rightarrow>
     item list \<Rightarrow> loop_state \<Rightarrow> 'tx engine_inner \<Rightarrow> round_exit \<times> loop_state \<times> 'tx engine_inner" where
  "tool_round w tid turn tok scope is_top max_iterations i calls ls e =
     (let (ls0, e0) = before_tools w tid turn is_top i ls e
      in case resolve_calls (tw_round w i) tid turn tok scope 0 calls (ls_fallback ls0, False, [], e0) of
           StillWaiting e1 \<Rightarrow> (Waiting, ls0, e1)
         | CutShort e1 \<Rightarrow> (Return None, ls0, end_turn (tw_now w) tid turn None e1)
         | AllResolved fallback stop rs e1 \<Rightarrow>
             execute_round w tid turn tok max_iterations i stop rs (ls0\<lparr>ls_fallback := fallback\<rparr>) e1)"

text \<open>A round up to the provider call: steering items are recorded, deferred writes flushed.\<close>

definition before_call :: "thread_id \<Rightarrow> turn_id \<Rightarrow> loop_state \<Rightarrow> 'tx engine_inner \<Rightarrow> int \<times> 'tx engine_inner" where
  "before_call tid turn ls e =
     (let (steer, e1) = take_injected tid queue_target.Steer e;
          (seq1, e2) = record_all tid turn steer (ls_item_seq ls, e1)
      in (seq1, flush_writes tid e2))"

text \<open>What a round does once the stream loop is left.\<close>

definition after_stream ::
    "'tx turn_world \<Rightarrow> thread_id \<Rightarrow> turn_id \<Rightarrow> cancel_token \<Rightarrow> permission_scope \<Rightarrow> bool \<Rightarrow> u32 \<Rightarrow> nat \<Rightarrow> loop_state \<Rightarrow>
     turn_error option \<times> stream_fold \<times> item list \<times> int \<times> 'tx engine_inner \<Rightarrow>
     round_exit \<times> loop_state \<times> 'tx engine_inner" where
  "after_stream w tid turn tok scope is_top max_iterations i ls1 st =
     (let (failure, sf, calls, seq2, e5) = st;
          e6 = report_usage tid turn sf e5;
          (rest, sf') = finish (tw_from_str w) (ow_order (tw_round w i)) sf;
          (calls', seq3, e7) = place_items tid turn rest (calls, seq2, e6);
          ls2 = ls1\<lparr>ls_item_seq := seq3, ls_item_id_seq := next_seq sf'\<rparr>;
          e8 = (if \<not> cancelled_now tok e7 then flush_writes tid e7 else e7)
      in if failure \<noteq> None \<or> cancelled_now tok e8
         then (Return failure, ls2, end_turn (tw_now w) tid turn failure e8)
         else if calls' = [] then follow_up_round tid turn max_iterations i ls2 e8
         else tool_round w tid turn tok scope is_top max_iterations i calls' ls2 e8)"

definition run_round ::
    "'tx turn_world \<Rightarrow> thread_id \<Rightarrow> turn_id \<Rightarrow> cancel_token \<Rightarrow> permission_scope \<Rightarrow> bool \<Rightarrow> u32 \<Rightarrow> nat \<Rightarrow>
     loop_state \<Rightarrow> 'tx engine_inner \<Rightarrow> round_exit \<times> loop_state \<times> 'tx engine_inner" where
  "run_round w tid turn tok scope is_top max_iterations i ls e =
     (let (seq1, e3) = before_call tid turn ls e;
          (called, _, e4) = call_provider_with_retry (ow_provider (tw_round w i)) tid tok 0 e3;
          ls1 = ls\<lparr>ls_item_seq := seq1\<rparr>
      in case called of
           Inl None \<Rightarrow> (Return None, ls1, end_turn (tw_now w) tid turn None e4)
         | Inl (Some err) \<Rightarrow>
             (Return (Some err), ls1,
              end_turn (tw_now w) tid turn (Some err) (send (engine_event.TurnFailed tid turn err) e4))
         | Inr obs \<Rightarrow>
             after_stream w tid turn tok scope is_top max_iterations i ls1
               (stream_loop w tid turn tok obs (resuming_at turn (ls_item_id_seq ls), [], seq1, e4)))"

section \<open>The turn\<close>

text \<open>
  The rounds from number \<open>i\<close> on, at most \<open>n\<close> of them: how the loop was left (\<open>Again\<close> when the range
  is used up) and the number of rounds begun.
\<close>

fun run_rounds ::
    "'tx turn_world \<Rightarrow> thread_id \<Rightarrow> turn_id \<Rightarrow> cancel_token \<Rightarrow> permission_scope \<Rightarrow> bool \<Rightarrow> u32 \<Rightarrow>
     nat \<Rightarrow> nat \<Rightarrow> loop_state \<Rightarrow> 'tx engine_inner \<Rightarrow> round_exit \<times> nat \<times> loop_state \<times> 'tx engine_inner" where
  "run_rounds w tid turn tok scope is_top max_iterations 0 i ls e = (Again, i, ls, e)"
| "run_rounds w tid turn tok scope is_top max_iterations (Suc n) i ls e =
     (case run_round w tid turn tok scope is_top max_iterations i ls e of
        (Again, ls', e') \<Rightarrow> run_rounds w tid turn tok scope is_top max_iterations n (Suc i) ls' e'
      | (exit, ls', e') \<Rightarrow> (exit, Suc i, ls', e'))"

text \<open>The compaction a top-level turn may start after it has finished.\<close>

definition token_budget :: "'tx engine_inner \<Rightarrow> u64" where
  "token_budget e =
     (case ei_compact_token_threshold e of
        Some n \<Rightarrow> n
      | None \<Rightarrow>
          (case context_window e of
             Some window \<Rightarrow> threshold_for_context_window window
           | None \<Rightarrow> default_compact_threshold))"

definition auto_compact ::
    "'tx turn_world \<Rightarrow> thread_id \<Rightarrow> 'tx engine_inner \<Rightarrow> 'tx engine_inner" where
  "auto_compact w tid e =
     (case ei_threads e tid of
        None \<Rightarrow> e
      | Some h \<Rightarrow>
          (if hd_parent h \<noteq> None then e
           else (let token_estimate = (if ei_last_input_tokens e > 0 then ei_last_input_tokens e
                                       else estimate_tokens (items_snapshot h))
                 in if token_estimate \<ge> token_budget e \<or> handle_item_count h \<ge> AUTO_COMPACT_ITEM_THRESHOLD
                    then (let (_, h', e') = run_compaction (tw_compaction w) (tw_now w) tid compact_trigger.Auto (h, e)
                          in put_handle tid h' e')
                    else e)))"

text \<open>\<open>run_turn\<close>: the error it returns, or \<open>None\<close> while it waits for a permission; rounds; engine.\<close>

definition run_turn ::
    "'tx turn_world \<Rightarrow> thread_id \<Rightarrow> turn_id \<Rightarrow> cancel_token \<Rightarrow> bool \<Rightarrow> 'tx engine_inner \<Rightarrow>
     turn_error option option \<times> nat \<times> 'tx engine_inner" where
  "run_turn w tid turn tok is_top e =
     (let scope = read_handle tid (\<lambda>h. case hd_active_turn h of
                                         Some a \<Rightarrow> at_scope a | None \<Rightarrow> default_turn_scope) default_turn_scope e;
          (seq, e1) = persist_input tid turn (read_handle tid handle_active_turn_items [] e) (0, e);
          max_iterations = max_turn_iterations e1;
          ls = \<lparr>ls_item_seq = seq, ls_fallback = 0, ls_item_id_seq = of_int seq, ls_snapshot = False\<rparr>;
          (exit, rounds, ls', e2) =
            run_rounds w tid turn tok scope is_top max_iterations (unat max_iterations) 0 ls e1
      in case exit of
           Waiting \<Rightarrow> (None, rounds, e2)
         | Return failure \<Rightarrow> (Some failure, rounds, e2)
         | _ \<Rightarrow> (Some None, rounds, auto_compact w tid (end_turn (tw_now w) tid turn None e2)))"

section \<open>Properties\<close>

subsection \<open>The turn as a run of the engine\<close>

abbreviation reaches :: "('tx \<Rightarrow> bool) \<Rightarrow> 'tx engine_inner \<Rightarrow> 'tx engine_inner \<Rightarrow> bool" where
  "reaches alive \<equiv> engine_run alive UNIV"

named_theorems reach_intros "an operation of the turn task is a run of the engine"

lemma reaches_trans: "reaches alive b c \<Longrightarrow> reaches alive a b \<Longrightarrow> reaches alive a c"
  by (induction rule: engine_run.induct) (auto intro: engine_run.step)

lemma reaches_step: "engine_step alive k a b \<Longrightarrow> reaches alive a b"
  by (rule engine_run.step [OF engine_run.refl]) auto

lemma reaches_internal:
  "ei_threads b = ei_threads a \<Longrightarrow> ei_cancel_tree b = ei_cancel_tree a \<Longrightarrow> ei_phase b = ei_phase a \<Longrightarrow> reaches alive a b"
  by (rule reaches_step, rule engine_step.internal)

lemma reaches_send [reach_intros]: "reaches alive a b \<Longrightarrow> reaches alive a (send ev b)"
  by (rule reaches_trans [OF reaches_internal]) (simp_all add: frame_simps)

lemma reaches_enqueue [reach_intros]: "reaches alive a b \<Longrightarrow> reaches alive a (enqueue_storage_op op b)"
  by (rule reaches_trans [OF reaches_internal]) (simp_all add: frame_simps)

lemma reaches_on_push [reach_intros]: "reaches alive a b \<Longrightarrow> reaches alive a (on_handle tid (handle_push_item it) b)"
proof (cases "ei_threads b tid")
  case (Some h)
  assume "reaches alive a b"
  then show ?thesis
    using reaches_trans [OF reaches_step [OF engine_step.push [OF Some]]] Some by (simp add: on_handle_def)
qed (simp add: on_handle_def)

lemma reaches_record [reach_intros]: "reaches alive a (snd st) \<Longrightarrow> reaches alive a (snd (record_item tid turn it st))"
  by (simp add: record_item_def case_prod_beta Let_def reach_intros)

lemma reaches_record_all [reach_intros]:
  "reaches alive a (snd st) \<Longrightarrow> reaches alive a (snd (record_all tid turn its st))"
  by (induction its arbitrary: st) (simp_all add: reach_intros)

lemma reaches_persist [reach_intros]:
  "reaches alive a (snd st) \<Longrightarrow> reaches alive a (snd (persist_input tid turn its st))"
proof (induction its arbitrary: st)
  case (Cons it its)
  then show ?case by (cases st) (simp add: reach_intros)
qed simp

lemma reaches_take [reach_intros]:
  "reaches alive a b \<Longrightarrow> reaches alive a (snd (take_injected tid target b))"
proof (cases "ei_threads b tid")
  case (Some h)
  assume "reaches alive a b"
  then have "reaches alive a (put_handle tid (h\<lparr>hd_injection := q, hd_pending := hd_pending h\<rparr>) b)" for q
    by (rule reaches_trans [OF reaches_step [OF engine_step.queues [OF Some]]])
  then show ?thesis by (simp add: take_injected_def case_prod_beta Some)
qed (simp add: take_injected_def)

lemma reaches_fold_enqueue: "reaches alive a b \<Longrightarrow> reaches alive a (fold enqueue_storage_op ops b)"
  by (induction ops arbitrary: b) (simp_all add: reach_intros)

lemma reaches_flush [reach_intros]:
  assumes "reaches alive a b" shows "reaches alive a (flush_writes tid b)"
proof (cases "ei_threads b tid")
  case (Some h)
  let ?b = "fold enqueue_storage_op (durable_ops (hd_pending h)) b"
  have "ei_threads ?b tid = Some h" by (simp add: frame_simps Some)
  from reaches_trans [OF reaches_step [OF engine_step.queues [OF this]] reaches_fold_enqueue [OF assms]]
  have "reaches alive a (put_handle tid (h\<lparr>hd_injection := hd_injection h, hd_pending := []\<rparr>) ?b)" .
  then show ?thesis by (simp add: flush_writes_def Some flush_pending_eq)
qed (simp add: flush_writes_def assms)

lemma reaches_end_turn [reach_intros]:
  assumes "reaches alive a b" shows "reaches alive a (end_turn now tid turn err b)"
proof (cases "ei_threads b tid")
  case (Some h)
  obtain h' b' where f: "finish_turn now tid turn err (h, b) = (h', b')" by fastforce
  have "\<exists>k. engine_step alive k b (put_handle tid h' b')"
    using engine_step.finish [OF Some f] engine_step.finish_in_retry [OF Some f] by blast
  with assms show ?thesis by (auto simp: end_turn_def Some f intro: reaches_trans reaches_step)
qed (simp add: end_turn_def assms)

lemma reaches_place [reach_intros]:
  "reaches alive a (snd (snd st)) \<Longrightarrow> reaches alive a (snd (snd (place_items tid turn its st)))"
proof (induction its arbitrary: st)
  case (Cons it its)
  obtain calls seq e where "st = (calls, seq, e)" by (cases st)
  with Cons show ?case
    using reaches_record [of alive a "(seq, e)" tid turn it]
    by (cases "record_item tid turn it (seq, e)") simp
qed simp

lemma reaches_usage [reach_intros]: "reaches alive a b \<Longrightarrow> reaches alive a (report_usage tid turn sf b)"
  by (rule reaches_trans [OF reaches_internal])
     (simp_all add: report_usage_def set_last_input_tokens_def frame_simps Let_def split: option.split)

lemma reaches_delta [reach_intros]: "reaches alive a b \<Longrightarrow> reaches alive a (send_delta tid turn part b)"
  by (simp add: send_delta_def reach_intros split: option.split)

lemma reaches_snapshot [reach_intros]:
  "reaches alive a b \<Longrightarrow> reaches alive a (capture_turn_snapshot repo now tid turn preview b)"
  by (simp add: capture_turn_snapshot_def reach_intros split: option.split)

text \<open>What the others do while the task awaits is itself a run of the engine.\<close>

definition harmless :: "('tx \<Rightarrow> bool) \<Rightarrow> ('tx engine_inner \<Rightarrow> 'tx engine_inner) \<Rightarrow> bool" where
  "harmless alive f = (\<forall>e. reaches alive e (f e))"

lemma harmlessD: "harmless alive f \<Longrightarrow> reaches alive a b \<Longrightarrow> reaches alive a (f b)"
  by (auto simp: harmless_def intro: reaches_trans)

lemma reaches_retry:
  assumes "\<And>k. harmless alive (pw_during_call w k)" "\<And>k. harmless alive (pw_during_sleep w k)"
  shows "reaches alive a e \<Longrightarrow> reaches alive a (snd (snd (call_provider_with_retry w tid tok attempt e)))"
proof (induction attempt e rule: retry_induct)
  case (1 attempt e)
  let ?e2 = "pw_during_sleep w attempt (enter_retry_phase tid (pw_during_call w attempt e))"
  have e1: "reaches alive a (pw_during_call w attempt e)" using harmlessD [OF assms(1) 1(2)] .
  have "reaches alive a ?e2"
    by (rule harmlessD [OF assms(2)], rule reaches_trans [OF reaches_step [OF engine_step.enter_retry] e1])
  then have "reaches alive a (leave_retry_phase tid ?e2)"
    by (rule reaches_trans [OF reaches_step [OF engine_step.leave_retry]])
  with 1 e1 show ?case
    by (subst call_provider_with_retry.simps) (auto simp: Let_def case_prod_beta split: sum.split)
qed

lemma reaches_stream:
  assumes "\<And>f. Elsewhere f \<in> set obs \<Longrightarrow> harmless alive f" "reaches alive a (snd (snd (snd st)))"
  shows "reaches alive a (snd (snd (snd (snd (stream_loop w tid turn tok obs st)))))"
  using assms
proof (induction w tid turn tok obs st rule: stream_loop.induct)
  case (2 w tid turn tok f obs sf calls seq e)
  then have "reaches alive a (f e)" by (intro harmlessD [of alive f]) auto
  with 2 show ?case by simp
next
  case (4 w tid turn tok part obs sf calls seq e)
  obtain its sf' where f: "fold_part (tw_from_str w) (tw_display w) part sf = (its, sf')" by fastforce
  have "reaches alive a (snd (snd (place_items tid turn its (calls, seq, send_delta tid turn part e))))"
    using 4(3) by (simp add: reach_intros)
  then show ?case using 4(1) [OF _ f [symmetric]] 4(2) by (simp add: f)
qed (auto simp: Let_def reach_intros)

lemma reaches_open_prompt [reach_intros]:
  "reaches alive a b \<Longrightarrow> reaches alive a (snd (open_prompt w d tid turn req b))"
  by (rule reaches_trans [OF reaches_internal])
     (simp_all add: open_prompt_def Let_def case_prod_beta frame_simps)

lemma reaches_permission [reach_intros]: "reaches alive a b \<Longrightarrow> reaches alive a (b\<lparr>ei_permission := r\<rparr>)"
  by (rule reaches_trans [OF reaches_internal]) simp_all

lemma reaches_prompt:
  assumes "harmless alive (rw_meanwhile w)" "reaches alive a e"
  shows "reaches alive a (snd (prompt_user w d tid turn iid name raw use_id args stop e))"
proof -
  have m: "reaches alive a (rw_meanwhile w (snd (open_prompt w d tid turn req e)))" for req
    by (rule harmlessD [OF assms(1)]) (simp add: reach_intros assms(2))
  then show ?thesis
    using assms(2)
    by (auto simp: prompt_user_def Let_def case_prod_beta reach_intros split: sum.split option.split perm_result.split)
qed

lemma reaches_resolve:
  assumes "harmless alive (rw_meanwhile w)" "reaches alive a e"
  shows "reaches alive a (snd (resolve_tool_permission w child tid turn iid name raw use_id scope e))"
  using assms reaches_prompt [OF assms]
  by (auto simp: resolve_tool_permission_def Let_def case_prod_beta
           split: sum.split option.split handshake_verdict.split permission_decision.split)

fun engine_after :: "'tx calls_resolved \<Rightarrow> 'tx engine_inner" where
  "engine_after (StillWaiting e) = e"
| "engine_after (CutShort e) = e"
| "engine_after (AllResolved _ _ _ e) = e"

lemma reaches_resolve_calls:
  assumes "\<And>i. harmless alive (rw_meanwhile (ow_resolve r i))" "\<And>i. harmless alive (ow_between r i)"
  shows "reaches alive a (snd (snd (snd st))) \<Longrightarrow>
         reaches alive a (engine_after (resolve_calls r tid turn tok scope i its st))"
proof (induction its arbitrary: i st)
  case Nil
  then show ?case by (cases st) simp
next
  case (Cons it its)
  obtain fb stop acc e where st: "st = (fb, stop, acc, e)" by (cases st)
  show ?case
  proof (cases "call_of it")
    case None
    with Cons show ?thesis by (simp add: st)
  next
    case (Some call)
    then obtain iid name raw pid where it: "call_of it = Some (iid, name, raw, pid)" by (cases call) auto
    obtain use_id fb' where u: "tool_use_id_for pid fb = (use_id, fb')" by fastforce
    define e1 where "e1 = send (engine_event.ItemAppended tid turn (announce use_id it)) e"
    obtain res e2 where r: "resolve_tool_permission (ow_resolve r i) (read_handle tid hd_decision_tx False e1) tid turn
                iid name raw use_id scope e1 = (res, e2)" by fastforce
    have "reaches alive a e1" using Cons.prems by (simp add: e1_def st reach_intros)
    from reaches_resolve [OF assms(1) this] have e2: "reaches alive a e2" using r by (metis snd_conv)
    then have "reaches alive a (ow_between r i e2)" by (rule harmlessD [OF assms(2)])
    with Cons.IH e2 show ?thesis
      by (auto simp: it st u e1_def [symmetric] r Let_def split: option.split tool_resolution.split)
  qed
qed

text \<open>A round in which every interference is a run of the engine.\<close>

definition fair_round :: "('tx \<Rightarrow> bool) \<Rightarrow> 'tx round_world \<Rightarrow> bool" where
  "fair_round alive r \<longleftrightarrow>
     (\<forall>k. harmless alive (pw_during_call (ow_provider r) k) \<and> harmless alive (pw_during_sleep (ow_provider r) k)) \<and>
     (\<forall>k obs f. pw_do_stream (ow_provider r) k = Inr obs \<longrightarrow> Elsewhere f \<in> set obs \<longrightarrow> harmless alive f) \<and>
     (\<forall>i. harmless alive (rw_meanwhile (ow_resolve r i)) \<and> harmless alive (ow_between r i)) \<and>
     harmless alive (ow_during_exec r)"

lemma reaches_follow_up:
  "reaches alive a e \<Longrightarrow> reaches alive a (snd (snd (follow_up_round tid turn m i ls e)))"
  by (simp add: follow_up_round_def Let_def case_prod_beta reach_intros)

lemma reaches_execute:
  assumes "fair_round alive (tw_round w i)" "reaches alive a e"
  shows "reaches alive a (snd (snd (execute_round w tid turn tok m i stop rs ls e)))"
proof -
  have "reaches alive a (ow_during_exec (tw_round w i) e)"
    using assms by (auto simp: fair_round_def intro: harmlessD)
  then show ?thesis by (simp add: execute_round_def Let_def case_prod_beta reach_intros)
qed

lemma reaches_tool_round:
  assumes "fair_round alive (tw_round w i)" "reaches alive a e"
  shows "reaches alive a (snd (snd (tool_round w tid turn tok scope t m i calls ls e)))"
proof -
  obtain ls0 e0 where b: "before_tools w tid turn t i ls e = (ls0, e0)" by fastforce
  have "reaches alive a e0"
    using arg_cong [OF b, of snd] assms(2) by (auto simp: before_tools_def reach_intros split: if_splits)
  then have "reaches alive a (engine_after (resolve_calls (tw_round w i) tid turn tok scope 0 calls (ls_fallback ls0, False, [], e0)))"
    using reaches_resolve_calls [of alive "tw_round w i"] assms(1) by (simp add: fair_round_def)
  then show ?thesis
    by (cases "resolve_calls (tw_round w i) tid turn tok scope 0 calls (ls_fallback ls0, False, [], e0)")
       (simp_all add: tool_round_def b reach_intros reaches_execute [OF assms(1)])
qed

lemma reaches_after_stream:
  assumes "fair_round alive (tw_round w i)" "reaches alive a (snd (snd (snd (snd st))))"
  shows "reaches alive a (snd (snd (after_stream w tid turn tok scope t m i ls1 st)))"
proof -
  obtain failure sf calls seq2 e5 where st: "st = (failure, sf, calls, seq2, e5)" by (cases st)
  obtain rest sf' where fin: "finish (tw_from_str w) (ow_order (tw_round w i)) sf = (rest, sf')" by fastforce
  obtain calls' seq3 e7 where pl: "place_items tid turn rest (calls, seq2, report_usage tid turn sf e5) = (calls', seq3, e7)"
    by (metis prod_cases3)
  have "reaches alive a e7"
    using reaches_place [of alive a "(calls, seq2, report_usage tid turn sf e5)" tid turn rest] assms(2)
    by (simp add: pl st reach_intros)
  then show ?thesis
    by (simp add: after_stream_def st fin pl Let_def reach_intros reaches_follow_up reaches_tool_round [OF assms(1)])
qed

lemma reaches_round:
  assumes "fair_round alive (tw_round w i)" "reaches alive a e"
  shows "reaches alive a (snd (snd (run_round w tid turn tok scope t m i ls e)))"
proof -
  let ?p = "ow_provider (tw_round w i)"
  obtain seq1 e3 where b: "before_call tid turn ls e = (seq1, e3)" by fastforce
  have e3: "reaches alive a e3"
    using arg_cong [OF b, of snd] assms(2) by (auto simp: before_call_def Let_def case_prod_beta reach_intros)
  obtain called ds e4 where c: "call_provider_with_retry ?p tid tok 0 e3 = (called, ds, e4)" by (metis prod_cases3)
  have e4: "reaches alive a e4"
    using reaches_retry [of alive ?p a e3 tid tok 0] assms(1) e3 by (simp add: c fair_round_def)
  show ?thesis
  proof (cases called)
    case (Inl err)
    then show ?thesis using e4 by (cases err) (simp_all add: run_round_def b c reach_intros)
  next
    case (Inr obs)
    then obtain k where "pw_do_stream ?p k = Inr obs"
      using retry_ok [of ?p tid tok 0 e3 obs] by (auto simp: c)
    then have "harmless alive f" if "Elsewhere f \<in> set obs" for f
      using assms(1) that by (auto simp: fair_round_def)
    then have "reaches alive a (snd (snd (snd (snd (stream_loop w tid turn tok obs (resuming_at turn (ls_item_id_seq ls), [], seq1, e4))))))"
      by (rule reaches_stream) (use e4 in simp_all)
    then show ?thesis
      by (simp add: run_round_def b c Inr reaches_after_stream [OF assms(1)])
  qed
qed

lemma reaches_rounds:
  assumes "\<And>i. fair_round alive (tw_round w i)"
  shows "reaches alive a e \<Longrightarrow> reaches alive a (snd (snd (snd (run_rounds w tid turn tok scope t m n i ls e))))"
proof (induction n arbitrary: i ls e)
  case (Suc n)
  obtain x ls' e' where r: "run_round w tid turn tok scope t m i ls e = (x, ls', e')" by (metis prod_cases3)
  have "reaches alive a e'" using reaches_round [OF assms Suc.prems, of tid turn tok scope t m i ls] by (simp add: r)
  with Suc.IH show ?case by (simp add: r split: round_exit.split)
qed simp

lemma reaches_auto_compact:
  assumes "engine_inv e" "reaches alive a e"
  shows "reaches alive a (auto_compact w tid e)"
proof (cases "ei_threads e tid")
  case (Some h)
  obtain r h' e' where c: "run_compaction (tw_compaction w) (tw_now w) tid compact_trigger.Auto (h, e) = (r, h', e')"
    by (metis prod_cases3)
  have "reaches alive a (put_handle tid h' e')" if "hd_parent h = None"
  proof (cases "hd_active_turn h = None")
    case True
    show ?thesis by (rule reaches_trans [OF reaches_step [OF engine_step.auto_compact [OF Some True c]] assms(2)])
  next
    case False
    then have "top_level (ei_threads e) tid" using Some that by (auto simp: top_level_def)
    then have "in_turn (ei_phase e)" using assms(1) by (auto simp: engine_inv_def)
    then have "ei_phase e \<noteq> Idle" by auto
    then have d: "\<exists>x. compact_prelude (tw_compaction w) h tid compact_trigger.Auto e = (Done x, e)"
      by (simp add: compact_prelude_def set_phase_def try_set_phase_atomic_def Let_def)
    with c have "h' = h" "e' = e" by (auto simp: run_compaction_def)
    then have "reaches alive e (put_handle tid h' e')"
      using Some by (intro reaches_internal) (auto simp: frame_simps)
    then show ?thesis using assms(2) by (rule reaches_trans)
  qed
  with Some assms(2) show ?thesis by (simp add: auto_compact_def Let_def c)
qed (simp add: auto_compact_def assms(2))


subsection \<open>Every exit releases the turn\<close>

definition released :: "thread_id \<Rightarrow> turn_id \<Rightarrow> 'tx engine_inner \<Rightarrow> bool" where
  "released tid turn e = (case ei_threads e tid of Some h \<Rightarrow> \<not> owns h turn | None \<Rightarrow> True)"

lemma end_turn_released: "released tid turn (end_turn now tid turn err e)"
proof (cases "ei_threads e tid")
  case (Some h)
  obtain h' e' where f: "finish_turn now tid turn err (h, e) = (h', e')" by fastforce
  have "\<not> owns h' turn"
  proof (cases "owns h turn")
    case True
    then show ?thesis using finish_owner(1) [OF True, of now tid err e] by (simp add: f owns_def)
  next
    case False
    then show ?thesis using finish_not_owner [OF False, of now tid err e] f by simp
  qed
  then show ?thesis by (simp add: released_def end_turn_def Some f frame_simps)
qed (simp add: released_def end_turn_def)

lemma execute_round_returns:
  "execute_round w tid turn tok m i stop rs ls e = (Return x, ls', e') \<Longrightarrow> released tid turn e'"
  by (auto simp: execute_round_def Let_def case_prod_beta end_turn_released split: if_splits)

lemma tool_round_returns:
  "tool_round w tid turn tok scope t m i calls ls e = (Return x, ls', e') \<Longrightarrow> released tid turn e'"
  by (auto simp: tool_round_def case_prod_beta Let_def end_turn_released execute_round_returns
           split: calls_resolved.splits)

lemma follow_up_not_return: "follow_up_round tid turn m i ls e \<noteq> (Return x, ls', e')"
  by (simp add: follow_up_round_def Let_def case_prod_beta)

lemma round_returns:
  assumes "run_round w tid turn tok scope t m i ls e = (Return x, ls', e')"
  shows "released tid turn e'"
proof -
  have "released tid turn e'"
    if "after_stream w tid turn tok scope t m i ls1 st = (Return x, ls', e')" for ls1 st
    using that
    by (auto simp: after_stream_def Let_def case_prod_beta end_turn_released follow_up_not_return
             split: if_splits dest: tool_round_returns)
  then show ?thesis
    using assms by (auto simp: run_round_def Let_def case_prod_beta end_turn_released split: sum.splits option.splits)
qed

lemma rounds_return:
  "run_rounds w tid turn tok scope t m n i ls e = (Return x, k, ls', e') \<Longrightarrow> released tid turn e'"
proof (induction n arbitrary: i ls e)
  case (Suc n)
  obtain y ls1 e1 where r: "run_round w tid turn tok scope t m i ls e = (y, ls1, e1)" by (metis prod_cases3)
  with Suc show ?case by (cases y) (auto dest: round_returns)
qed simp

lemma run_compaction_active:
  "run_compaction cw now tid trigger (h, e) = (r, h', e') \<Longrightarrow> hd_active_turn h' = hd_active_turn h"
  by (auto simp: run_compaction_def case_prod_beta compact_tail_handle split: compact_start.splits prod.splits)
     (metis compact_tail_handle(1) fst_conv)

lemma auto_compact_released:
  assumes "released tid turn e" shows "released tid turn (auto_compact w tid e)"
proof (cases "ei_threads e tid")
  case (Some h)
  obtain r h' e' where c: "run_compaction (tw_compaction w) (tw_now w) tid compact_trigger.Auto (h, e) = (r, h', e')"
    by (metis prod_cases3)
  have "released tid turn (put_handle tid h' e')"
    using assms run_compaction_active [OF c] by (simp add: released_def Some frame_simps owns_def)
  with Some assms show ?thesis by (simp add: auto_compact_def c Let_def)
qed (simp add: auto_compact_def assms)

text \<open>
  C18: however a turn ends, by the model's last word, an error of the provider, a cancellation at any of
  its awaits, a hook's request to stop or the iteration limit, its thread is not left with the turn
  in its active slot; the loop does not return otherwise than by waiting for a permission.
\<close>

theorem every_exit_releases_turn:
  "case run_turn w tid turn tok t e of
     (None, _, _) \<Rightarrow> True
   | (Some _, _, e') \<Rightarrow> released tid turn e'"
proof -
  obtain seq e1 where p: "persist_input tid turn (read_handle tid handle_active_turn_items [] e) (0, e) = (seq, e1)" by fastforce
  let ?s = "read_handle tid (\<lambda>h. case hd_active_turn h of Some a \<Rightarrow> at_scope a | None \<Rightarrow> default_turn_scope) default_turn_scope e"
  let ?ls = "\<lparr>ls_item_seq = seq, ls_fallback = 0, ls_item_id_seq = of_int seq, ls_snapshot = False\<rparr>"
  obtain x rounds ls' e2 where r: "run_rounds w tid turn tok ?s t (max_turn_iterations e1) (unat (max_turn_iterations e1)) 0 ?ls e1 = (x, rounds, ls', e2)"
    by (metis prod_cases4)
  show ?thesis
    using rounds_return [of w tid turn tok ?s t _ _ 0 ?ls e1 _ rounds ls' e2] r
    by (cases x) (simp_all add: run_turn_def p Let_def auto_compact_released [OF end_turn_released])
qed

subsection \<open>The number of rounds\<close>

lemma follow_up_last: "unat m \<le> i + 1 \<Longrightarrow> fst (follow_up_round tid turn m i ls e) \<noteq> Again"
  by (simp add: follow_up_round_def Let_def case_prod_beta)

lemma execute_last: "unat m \<le> i + 1 \<Longrightarrow> fst (execute_round w tid turn tok m i stop rs ls e) \<noteq> Again"
  by (simp add: execute_round_def Let_def case_prod_beta)

lemma tool_round_last: "unat m \<le> i + 1 \<Longrightarrow> fst (tool_round w tid turn tok scope t m i calls ls e) \<noteq> Again"
  by (simp add: tool_round_def case_prod_beta execute_last split: calls_resolved.split)

lemma after_stream_last: "unat m \<le> i + 1 \<Longrightarrow> fst (after_stream w tid turn tok scope t m i ls st) \<noteq> Again"
  by (simp add: after_stream_def Let_def case_prod_beta follow_up_last tool_round_last)

lemma last_round_not_again: "unat m \<le> i + 1 \<Longrightarrow> fst (run_round w tid turn tok scope t m i ls e) \<noteq> Again"
  by (simp add: run_round_def Let_def case_prod_beta after_stream_last split: sum.split option.split)

lemma rounds_end:
  "n + i = unat m \<Longrightarrow> 0 < n \<Longrightarrow>
   fst (run_rounds w tid turn tok scope t m n i ls e) \<noteq> Again \<and>
   i < fst (snd (run_rounds w tid turn tok scope t m n i ls e)) \<and>
   fst (snd (run_rounds w tid turn tok scope t m n i ls e)) \<le> unat m"
proof (induction n arbitrary: i ls e)
  case (Suc n)
  obtain y ls1 e1 where r: "run_round w tid turn tok scope t m i ls e = (y, ls1, e1)" by (metis prod_cases3)
  show ?case
  proof (cases y)
    case Again
    then have "unat m > i + 1" using last_round_not_again [of m i w tid turn tok scope t ls e] r by (metis fst_conv not_le)
    then have "n + Suc i = unat m" "0 < n" using Suc.prems by auto
    from Suc.IH [OF this, of ls1 e1] show ?thesis by (simp add: r Again)
  qed (use Suc.prems in \<open>auto simp: r\<close>)
qed simp

text \<open>
  C20: the agent loop ends: it begins at least one and at most \<open>max_turn_iterations\<close> rounds, never more
  than the safety ceiling of 1000 whatever is configured, and it is always left by an explicit exit,
  never by running out of rounds unnoticed.
\<close>

theorem turn_loop_terminates:
  "let m = max_turn_iterations e;
       (x, rounds, _, _) = run_rounds w tid turn tok scope t m (unat m) 0 ls e
   in x \<noteq> Again \<and> 1 \<le> rounds \<and> rounds \<le> unat m \<and> unat m \<le> 1000"
proof -
  let ?m = "max_turn_iterations e"
  have m: "1 \<le> unat ?m" "unat ?m \<le> 1000"
    by (auto simp: max_turn_iterations_def unat_effective_cap split: option.split)
  then show ?thesis
    using rounds_end [of "unat ?m" 0 ?m w tid turn tok scope t ls e] by (simp add: Let_def case_prod_beta)
qed

subsection \<open>Every call is answered\<close>

text \<open>What identifies the calls of a round: item, name, and the provider's id or a minted one.\<close>

fun call_keys :: "u64 \<Rightarrow> item list \<Rightarrow> (item_id \<times> string \<times> string) list" where
  "call_keys fb [] = []"
| "call_keys fb (it # its) =
     (case call_of it of
        None \<Rightarrow> call_keys fb its
      | Some (iid, name, _, pid) \<Rightarrow>
          (iid, name, fst (tool_use_id_for pid fb)) # call_keys (snd (tool_use_id_for pid fb)) its)"

fun for_key :: "item_id \<times> string \<times> string \<Rightarrow> resolved \<Rightarrow> bool" where
  "for_key (iid, name, use) (resolved.Blocked out) = (\<forall>x. call_settled x iid name use out)"
| "for_key (iid, name, use) (resolved.Approved iid' name' _ use' _) = (iid' = iid \<and> name' = name \<and> use' = use)"

lemma resolve_calls_keys:
  "resolve_calls r tid turn tok scope i its (fb, stop, acc, e) = AllResolved fb' stop' rs e' \<Longrightarrow>
   \<exists>rs'. rs = acc @ rs' \<and> list_all2 for_key (call_keys fb its) rs'"
proof (induction its arbitrary: i fb stop acc e)
  case (Cons it its)
  show ?case
  proof (cases "call_of it")
    case None
    with Cons show ?thesis by simp
  next
    case (Some call)
    then obtain iid name raw pid where it: "call_of it = Some (iid, name, raw, pid)" by (cases call) auto
    obtain use fb1 where u: "tool_use_id_for pid fb = (use, fb1)" by fastforce
    define e1 where "e1 = send (engine_event.ItemAppended tid turn (announce use it)) e"
    obtain res e2 where q: "resolve_tool_permission (ow_resolve r i) (read_handle tid hd_decision_tx False e1) tid turn
                iid name raw use scope e1 = (res, e2)" by fastforce
    obtain x where res: "res = Some x"
      using Cons.prems by (cases res) (simp_all add: it u e1_def [symmetric] q Let_def)
    obtain y s' where y: "resolve_calls r tid turn tok scope (Suc i) its
        (fb1, s', acc @ [y], ow_between r i e2) = AllResolved fb' stop' rs e'" "for_key (iid, name, use) y"
    proof (cases x)
      case (Blocked out)
      have "for_key (iid, name, use) (resolved.Blocked out)"
        using resolve_blocked [OF q [unfolded res Blocked]] by (auto simp: blocked_settled)
      with Cons.prems show thesis
        by (intro that) (auto simp: it u e1_def [symmetric] q res Blocked Let_def split: if_splits)
    next
      case (Approved args s)
      with Cons.prems show thesis
        by (intro that [of _ "resolved.Approved iid name args use s"])
           (auto simp: it u e1_def [symmetric] q res Let_def split: if_splits)
    qed
    from Cons.IH [OF y(1)] y(2) show ?thesis by (auto simp: it u)
  qed
qed simp

lemma execute_calls_keys:
  "list_all2 for_key keys rs \<Longrightarrow>
   length (execute_calls r i rs) = length keys \<and>
   (\<forall>k < length keys. case keys ! k of (iid, name, use) \<Rightarrow>
      call_settled (ow_exec r (i + k)) iid name use (execute_calls r i rs ! k))"
proof (induction arbitrary: i rule: list_all2_induct)
  case (Cons key keys x rs)
  obtain iid name use where key: "key = (iid, name, use)" by (cases key)
  have "call_settled (ow_exec r i) iid name use (hd (execute_calls r i (x # rs))) \<and>
        tl (execute_calls r i (x # rs)) = execute_calls r (Suc i) rs \<and> execute_calls r i (x # rs) \<noteq> []"
    using Cons(1) by (cases x) (simp_all add: key execute_settled)
  then obtain out where "execute_calls r i (x # rs) = out # execute_calls r (Suc i) rs"
    "call_settled (ow_exec r i) iid name use out" by (metis list.collapse)
  with Cons(3) [of "Suc i"] show ?case by (auto simp: key nth_Cons split: nat.split)
qed simp


definition quiet_round :: "unit round_world" where
  "quiet_round =
     \<lparr>ow_provider = \<lparr>pw_do_stream = (\<lambda>_. Inr []), pw_during_call = (\<lambda>_. id), pw_during_sleep = (\<lambda>_. id)\<rparr>,
      ow_order = id, ow_snapshot = None, ow_resolve = (\<lambda>_. ask_world [] [hook_says permission_decision.Allow None]),
      ow_between = (\<lambda>_. id),
      ow_exec = (\<lambda>_. \<lparr>xw_tools = (\<lambda>_. None), xw_execute = (\<lambda>_ _. CancelledFirst), xw_post_event = Inr (),
                       xw_post_hooks = Finished (Inr []), xw_display = (\<lambda>_. [])\<rparr>),
      ow_during_exec = id\<rparr>"

definition quiet_turn :: "unit turn_world" where
  "quiet_turn =
     \<lparr>tw_round = (\<lambda>_. quiet_round), tw_from_str = (\<lambda>_. None), tw_display = (\<lambda>_. []), tw_now = 9,
      tw_compaction = \<lparr>cw_do_stream = (\<lambda>_. Inr []), cw_instruction = [], cw_pre_hook = None, cw_post_hook = None\<rparr>\<rparr>"

lemma quiet_fair: "fair_round alive (tw_round quiet_turn i)"
  by (simp add: fair_round_def quiet_turn_def quiet_round_def harmless_def engine_run.refl ask_world_def)


lemma allowed_call:
  "resolve_tool_permission (ask_world [] [hook_says permission_decision.Allow None]) False tid turn iid name raw use
     default_turn_scope e = (Some (tool_resolution.Approved raw False), e)"
  by (simp add: resolve_tool_permission_def Let_def scan_hooks_eq evaluate_default reduce_def hook_decisions_def
                hook_inputs_def hook_stops_def ask_world_def hook_says_def)


subsection \<open>Text that arrives late\<close>

lemma push_inactive: "active_turn_id (hd_history h) = None \<Longrightarrow> handle_push_item it h = h"
  by (simp add: handle_push_item_def active_turn_id_def Turn_Buffer.push_item_def Let_def)

lemma has_active_push: "has_active (hd_history h) \<Longrightarrow> has_active (hd_history (fold handle_push_item its h))"
  by (induction its arbitrary: h) (auto simp: frame_simps has_active_def Turn_Buffer.push_item_def)

lemma started_has_active: "has_active (hd_history (started now turn tok scope r input h))"
  unfolding started_def
  by (rule has_active_push) (auto simp: frame_simps start_turn_buffer_def has_active_def Turn_Buffer.start_turn_def split: option.split)




end
