(* ===== verification/Prompt.thy ===== *)
theory Prompt
  imports Thread_State Preview "HOL-Library.AList" "HOL-Library.List_Lexorder" "HOL-Library.Multiset"
begin

text \<open>
  The request sent to the provider (\<open>zhive-core/src/engine/prompt.rs\<close>) and the tool registry it
  advertises (\<open>zhive-core/src/tools.rs\<close>). The messages are those of the provider SDK, with the
  fields the source sets; fields it leaves empty are left out. The SDK's check of a JSON schema and
  the printing of a JSON value are the parameters \<open>valid_schema\<close> and \<open>display\<close>. The registry's hash
  map is an association list: nothing depends on its order.
\<close>

section \<open>Tools\<close>

record tool_entry =
  te_name :: string
  te_description :: "string option"
  te_schema :: json

record tool_spec =
  ts_name :: string
  ts_description :: "string option"
  ts_schema :: json

type_synonym tool_registry = "(string \<times> tool_entry) list"

definition registry_new :: tool_registry where
  "registry_new = []"

definition register :: "tool_entry \<Rightarrow> tool_registry \<Rightarrow> tool_registry" where
  "register tool r = AList.update (te_name tool) tool r"

definition registry_get :: "tool_registry \<Rightarrow> string \<Rightarrow> tool_entry option" where
  "registry_get r name = map_of r name"

definition spec_of :: "tool_entry \<Rightarrow> tool_spec" where
  "spec_of tool = \<lparr>ts_name = te_name tool, ts_description = te_description tool, ts_schema = te_schema tool\<rparr>"

definition specs :: "tool_registry \<Rightarrow> tool_spec list" where
  "specs r = sort_key (\<lambda>s. byte_order (ts_name s)) (map spec_of (map snd r))"

section \<open>Messages\<close>

type_synonym provider_options = "string \<rightharpoonup> (string \<rightharpoonup> json)"

datatype user_part =
    Text string "provider_options option"
  | File string string "provider_options option"

datatype assistant_part =
    Text string
  | ToolCall string string json

datatype tool_result_output = ErrorText string | Text string

datatype tool_result = ToolResult string string tool_result_output

datatype message =
    System string "provider_options option"
  | User "user_part list" "provider_options option"
  | Assistant "assistant_part list" "provider_options option"
  | Tool "tool_result list" "provider_options option"

record function_tool =
  ft_name :: string
  ft_description :: "string option"
  ft_schema :: json
  ft_options :: "provider_options option"

datatype prompt_tool = Function function_tool | ProviderTool

datatype reasoning_effort = None | Minimal | Low | Medium | High | Xhigh | ProviderDefault

record call_options =
  co_prompt :: "message list"
  co_tools :: "prompt_tool list option"
  co_tool_choice_auto :: bool
  co_max_output_tokens :: "u32 option"
  co_reasoning :: "reasoning_effort option"
  co_options :: "provider_options option"

section \<open>Tool results\<close>

definition MAX_TOOL_RESULT_BYTES :: nat where
  "MAX_TOOL_RESULT_BYTES = 16 * 1024"

definition TOOL_RESULT_HEAD_BYTES :: nat where
  "TOOL_RESULT_HEAD_BYTES = 8 * 1024"

definition TOOL_RESULT_TAIL_BYTES :: nat where
  "TOOL_RESULT_TAIL_BYTES = 4 * 1024"

text \<open>\<open>str::is_char_boundary\<close>.\<close>

definition is_char_boundary :: "string \<Rightarrow> nat \<Rightarrow> bool" where
  "is_char_boundary s i = (i = 0 \<or> i = length s \<or> (i < length s \<and> \<not> is_continuation (s ! i)))"

fun floor_loop :: "string \<Rightarrow> nat \<Rightarrow> nat" where
  "floor_loop s 0 = 0"
| "floor_loop s (Suc b) = (if \<not> is_char_boundary s (Suc b) then floor_loop s b else Suc b)"

definition utf8_floor_boundary :: "string \<Rightarrow> nat \<Rightarrow> nat" where
  "utf8_floor_boundary s pos = floor_loop s (min pos (length s))"

function ceil_loop :: "string \<Rightarrow> nat \<Rightarrow> nat" where
  "ceil_loop s b = (if b < length s \<and> \<not> is_char_boundary s b then ceil_loop s (Suc b) else b)"
  by auto
termination by (relation "measure (\<lambda>(s, b). length s - b)") auto

declare ceil_loop.simps [simp del]

definition utf8_ceil_boundary :: "string \<Rightarrow> nat \<Rightarrow> nat" where
  "utf8_ceil_boundary s pos = (if pos \<ge> length s then length s else ceil_loop s pos)"

definition truncation_note :: "nat \<Rightarrow> nat \<Rightarrow> nat \<Rightarrow> nat \<Rightarrow> string" where
  "truncation_note omitted head_end tail_len len =
     [CHR 0x0A, CHR 0x0A] @ ''[... truncated '' @ show_nat omitted @ '' bytes; showing first '' @
     show_nat head_end @ '' + last '' @ show_nat tail_len @ '' of '' @ show_nat len @ '' bytes ...]'' @
     [CHR 0x0A, CHR 0x0A]"

definition truncate_tool_result :: "string \<Rightarrow> string" where
  "truncate_tool_result s =
     (if length s \<le> MAX_TOOL_RESULT_BYTES then s
      else (let head_end = utf8_floor_boundary s TOOL_RESULT_HEAD_BYTES;
                tail_raw = length s - TOOL_RESULT_TAIL_BYTES;
                tail_start = utf8_ceil_boundary s (max tail_raw head_end);
                omitted = tail_start - head_end
            in take head_end s @
               truncation_note omitted head_end (length s - tail_start) (length s) @
               drop tail_start s))"

fun content_text :: "item_tool_call_content \<Rightarrow> string option" where
  "content_text (Content (item_content.Text text _)) = Some text"
| "content_text _ = option.None"

definition tool_result_text ::
    "(json \<Rightarrow> string) \<Rightarrow> item_tool_call_content list \<Rightarrow> json option \<Rightarrow> string" where
  "tool_result_text display content raw_output =
     (let text = concat (List.map_filter content_text content);
          full = (if text = [] then
                    (case raw_output of
                       Some (String s) \<Rightarrow> s
                     | Some other \<Rightarrow> display other
                     | option.None \<Rightarrow> [])
                  else text)
      in truncate_tool_result full)"

section \<open>The prompt\<close>

fun user_block :: "item_content \<Rightarrow> user_part option" where
  "user_block (item_content.Text text _) =
     (if text \<noteq> [] then Some (user_part.Text text option.None) else option.None)"
| "user_block (Image data mime_type _) = Some (File data mime_type option.None)"
| "user_block _ = option.None"

definition object_or_empty :: "json option \<Rightarrow> json" where
  "object_or_empty raw = (case raw of Some (Object kvs) \<Rightarrow> Object kvs | _ \<Rightarrow> Object [])"

definition call_id :: "item_id \<Rightarrow> string option \<Rightarrow> string" where
  "call_id iid pid = (case pid of Some (c # cs) \<Rightarrow> c # cs | _ \<Rightarrow> item_id_str iid)"

text \<open>The messages one item of the transcript contributes.\<close>

fun item_messages :: "(json \<Rightarrow> string) \<Rightarrow> item \<Rightarrow> message list" where
  "item_messages display (UserMessage _ content) =
     (let parts = List.map_filter user_block content
      in [User (if parts = [] then [user_part.Text [] option.None] else parts) option.None])"
| "item_messages display (AgentMessage _ text) = [Assistant [assistant_part.Text text] option.None]"
| "item_messages display (item.ToolCall iid name _ _ status content _ raw_input raw_output pid) =
     (if status = tool_call_status.Completed \<or> status = tool_call_status.Failed
      then (let tool_call_id = call_id iid pid;
                result_value = tool_result_text display content raw_output
            in [Assistant [assistant_part.ToolCall tool_call_id name (object_or_empty raw_input)] option.None,
                Tool [ToolResult tool_call_id name
                        (if status = tool_call_status.Failed then ErrorText result_value
                         else tool_result_output.Text result_value)] option.None])
      else [])"
| "item_messages display _ = []"

definition system_messages :: "string option \<Rightarrow> message list" where
  "system_messages system_prompt =
     (case system_prompt of
        Some (c # cs) \<Rightarrow> [System (c # cs) option.None]
      | _ \<Rightarrow> [])"

definition build_tool_advertisements ::
    "(json \<Rightarrow> bool) \<Rightarrow> tool_registry \<Rightarrow> permission_scope \<Rightarrow> prompt_tool list" where
  "build_tool_advertisements valid_schema tools scope =
     map (\<lambda>spec. Function \<lparr>ft_name = ts_name spec, ft_description = ts_description spec,
                           ft_schema = ts_schema spec, ft_options = option.None\<rparr>)
       (filter (\<lambda>spec. permits scope (ts_name spec) \<and> valid_schema (ts_schema spec)) (specs tools))"

definition build_call_options ::
    "(json \<Rightarrow> string) \<Rightarrow> (json \<Rightarrow> bool) \<Rightarrow> thread_handle \<Rightarrow> tool_registry \<Rightarrow> string option \<Rightarrow>
     permission_scope \<Rightarrow> call_options" where
  "build_call_options display valid_schema h tools system_prompt scope =
     (let advertised = build_tool_advertisements valid_schema tools scope
      in \<lparr>co_prompt = system_messages system_prompt @ concat (map (item_messages display) (items_snapshot h)),
          co_tools = (if advertised = [] then option.None else Some advertised),
          co_tool_choice_auto = (advertised \<noteq> []),
          co_max_output_tokens = option.None, co_reasoning = option.None, co_options = option.None\<rparr>)"


section \<open>The registry\<close>

definition registry_ok :: "tool_registry \<Rightarrow> bool" where
  "registry_ok r = (distinct (map fst r) \<and> (\<forall>(n, t) \<in> set r. te_name t = n))"

definition registered :: "tool_entry list \<Rightarrow> tool_registry" where
  "registered ts = fold register ts registry_new"

lemma update_set: "x \<in> set (AList.update k v al) \<Longrightarrow> x = (k, v) \<or> x \<in> set al"
  by (induction al) (auto split: if_splits)

lemma registry_ok_register: "registry_ok r \<Longrightarrow> registry_ok (register t r)"
  unfolding registry_ok_def register_def by (auto simp: distinct_update dest: update_set)

lemma registry_get_register: "registry_get (register t r) n = (if n = te_name t then Some t else registry_get r n)"
  by (simp add: registry_get_def register_def update_conv')

lemma registered_ok: "registry_ok (registered ts)"
proof -
  have "registry_ok r \<Longrightarrow> registry_ok (fold register ts r)" for r
    by (induction ts arbitrary: r) (auto intro: registry_ok_register)
  moreover have "registry_ok registry_new" by (simp add: registry_ok_def registry_new_def)
  ultimately show ?thesis unfolding registered_def by blast
qed

text \<open>The last registration of a name wins.\<close>

lemma find_append: "find P (xs @ ys) = (case find P xs of Some x \<Rightarrow> Some x | option.None \<Rightarrow> find P ys)"
  by (induction xs) auto

lemma registry_get_fold:
  "registry_get (fold register ts r) n =
     (case find (\<lambda>t. te_name t = n) (rev ts) of Some t \<Rightarrow> Some t | option.None \<Rightarrow> registry_get r n)"
  by (induction ts arbitrary: r) (auto simp: registry_get_register find_append split: option.splits)

lemma registry_get_registered: "registry_get (registered ts) n = find (\<lambda>t. te_name t = n) (rev ts)"
  unfolding registered_def by (simp add: registry_get_fold) (simp add: registry_get_def registry_new_def split: option.split)

lemma registry_get_iff: "registry_ok r \<Longrightarrow> registry_get r n = Some t \<longleftrightarrow> (n, t) \<in> set r"
  by (simp add: registry_ok_def registry_get_def)

lemma registry_get_name: "registry_ok r \<Longrightarrow> registry_get r n = Some t \<Longrightarrow> te_name t = n"
  by (simp add: registry_get_iff) (auto simp: registry_ok_def)

lemma entry_names: "registry_ok r \<Longrightarrow> map ts_name (map spec_of (map snd r)) = map fst r"
  by (auto simp: registry_ok_def spec_of_def)

lemma specs_keys_distinct:
  assumes "registry_ok r"
  shows "distinct (map (\<lambda>s. byte_order (ts_name s)) (specs r))"
proof -
  let ?key = "\<lambda>s. byte_order (ts_name s)"
  have "mset (map ?key (specs r)) = mset (map byte_order (map ts_name (map spec_of (map snd r))))"
    by (simp only: specs_def mset_map mset_sort multiset.map_comp comp_def)
  moreover have "distinct (map byte_order (map ts_name (map spec_of (map snd r))))"
    unfolding entry_names [OF assms] using assms
    by (simp only: registry_ok_def distinct_map [of byte_order] inj_on_def byte_order_inj) simp
  ultimately show ?thesis using mset_eq_imp_distinct_iff by blast
qed

lemma specs_keys_sorted: "sorted (map (\<lambda>s. byte_order (ts_name s)) (specs r))"
  by (simp add: specs_def)

lemma specs_set: "registry_ok r \<Longrightarrow> set (specs r) = {s. \<exists>n t. registry_get r n = Some t \<and> s = spec_of t}"
  by (auto simp: specs_def registry_get_iff) force+

lemma specs_of_name:
  "registry_ok r \<Longrightarrow> s \<in> set (specs r) \<Longrightarrow> \<exists>t. registry_get r (ts_name s) = Some t \<and> s = spec_of t"
  by (auto simp: specs_set spec_of_def dest: registry_get_name)

lemma specs_determined:
  assumes "registry_ok r" "registry_ok r'" "\<And>n. registry_get r n = registry_get r' n"
  shows "specs r = specs r'"
proof (rule map_sorted_distinct_set_unique [where f = "\<lambda>s. byte_order (ts_name s)"])
  have same: "set (specs r) = set (specs r')" using assms by (simp add: specs_set)
  then show "set (specs r) = set (specs r')" .
  show "inj_on (\<lambda>s. byte_order (ts_name s)) (set (specs r) \<union> set (specs r'))"
    unfolding same [symmetric] Un_absorb inj_on_def byte_order_inj
    by (metis specs_of_name [OF assms(1)] option.inject)
qed (use assms in \<open>simp_all add: specs_keys_sorted specs_keys_distinct\<close>)

section \<open>Character boundaries\<close>

lemma floor_loop_le: "floor_loop s b \<le> b"
  by (induction b) auto

lemma floor_loop_boundary: "is_char_boundary s (floor_loop s b)"
  by (induction b) (auto simp: is_char_boundary_def)

lemma ceil_loop_bounds: "b \<le> length s \<Longrightarrow> b \<le> ceil_loop s b \<and> ceil_loop s b \<le> length s \<and> is_char_boundary s (ceil_loop s b)"
  by (induction s b rule: ceil_loop.induct) (subst (1 2 3) ceil_loop.simps, auto simp: is_char_boundary_def)

lemma floor_boundary: "is_char_boundary s (utf8_floor_boundary s p)" "utf8_floor_boundary s p \<le> p"
    "utf8_floor_boundary s p \<le> length s"
  using floor_loop_le [of s "min p (length s)"]
  by (simp_all add: utf8_floor_boundary_def floor_loop_boundary)

lemma ceil_boundary: "is_char_boundary s (utf8_ceil_boundary s p)" "min p (length s) \<le> utf8_ceil_boundary s p"
    "utf8_ceil_boundary s p \<le> length s"
  using ceil_loop_bounds [of p s] by (auto simp: utf8_ceil_boundary_def is_char_boundary_def)

lemma truncation_note_length:
  assumes "omitted \<le> n" "h \<le> n" "t \<le> n" "n < 2 ^ 64"
  shows "length (truncation_note omitted h t n) \<le> 200"
proof -
  have "length (show_nat m) \<le> 20" if "m \<le> n" for m
    using show_nat_length [of m 19] that assms(4) by simp
  from this [of omitted] this [of h] this [of t] this [of n] assms show ?thesis
    by (simp add: truncation_note_def)
qed

section \<open>Pairs of calls and results\<close>

fun calls_of_part :: "assistant_part \<Rightarrow> (string \<times> string) list" where
  "calls_of_part (assistant_part.ToolCall i n _) = [(i, n)]"
| "calls_of_part (assistant_part.Text _) = []"

fun calls_of :: "message \<Rightarrow> (string \<times> string) list" where
  "calls_of (Assistant parts _) = concat (map calls_of_part parts)"
| "calls_of _ = []"

fun result_of :: "tool_result \<Rightarrow> string \<times> string" where
  "result_of (ToolResult i n _) = (i, n)"

text \<open>
  Every message with tool calls is followed at once by one tool message with the results of exactly
  those calls, and there is no other tool message.
\<close>

fun paired :: "message list \<Rightarrow> bool" where
  "paired [] = True"
| "paired (m # ms) =
     (if calls_of m \<noteq> [] then
        (case ms of
           Tool results _ # rest \<Rightarrow> map result_of results = calls_of m \<and> paired rest
         | _ \<Rightarrow> False)
      else (\<forall>results opts. m \<noteq> Tool results opts) \<and> paired ms)"

fun settled_call :: "item \<Rightarrow> (string \<times> string) list" where
  "settled_call (item.ToolCall iid name _ _ status _ _ _ _ pid) =
     (if status = tool_call_status.Completed \<or> status = tool_call_status.Failed
      then [(call_id iid pid, name)] else [])"
| "settled_call _ = []"

lemma paired_item: "paired ms \<Longrightarrow> paired (item_messages display i @ ms)"
  by (cases i) (auto simp: Let_def)

lemma paired_items: "paired (concat (map (item_messages display) items))"
  by (induction items) (auto intro: paired_item)

lemma paired_system: "paired ms \<Longrightarrow> paired (system_messages p @ ms)"
  by (auto simp: system_messages_def split: option.split list.split)

lemma calls_of_system [simp]: "concat (map calls_of (system_messages p)) = []"
  by (auto simp: system_messages_def split: option.split list.split)

lemma calls_of_item: "concat (map calls_of (item_messages display i)) = settled_call i"
  by (cases i) (auto simp: Let_def)

lemma calls_of_items:
  "concat (map calls_of (concat (map (item_messages display) items))) = concat (map settled_call items)"
  by (induction items) (auto simp: calls_of_item)


section \<open>Advertised tools\<close>

fun tool_name :: "prompt_tool \<Rightarrow> string" where
  "tool_name (Function f) = ft_name f"
| "tool_name ProviderTool = []"

lemma advertised_names:
  "map tool_name (build_tool_advertisements vs r scope) =
   map ts_name (filter (\<lambda>s. permits scope (ts_name s) \<and> vs (ts_schema s)) (specs r))"
  by (simp add: build_tool_advertisements_def)

lemma strictly_sorted_specs: "registry_ok r \<Longrightarrow> sorted_wrt (<) (map (\<lambda>s. byte_order (ts_name s)) (specs r))"
  by (simp add: strict_sorted_iff specs_keys_sorted specs_keys_distinct)

lemma advertised_set:
  assumes "registry_ok r"
  shows "set (map tool_name (build_tool_advertisements vs r scope)) =
         {n. \<exists>t. registry_get r n = Some t \<and> permits scope n \<and> vs (te_schema t)}"
  unfolding advertised_names using assms
  by (auto simp: specs_set spec_of_def image_iff dest: registry_get_name) (metis registry_get_name tool_spec.select_convs(1,3))

section \<open>Properties\<close>

text \<open>
  C33: every tool call the prompt replays is followed at once by its result under the same id and
  name, no result stands alone, and the calls are those of the settled calls of the transcript, in
  its order.
\<close>
theorem prompt_pairs_calls:
  "paired (co_prompt (build_call_options display vs h tools sys scope)) \<and>
   concat (map calls_of (co_prompt (build_call_options display vs h tools sys scope))) =
     concat (map settled_call (items_snapshot h))"
  by (simp add: build_call_options_def Let_def paired_system paired_items calls_of_items)

text \<open>
  a tool result of at most 16 KiB reaches the model unchanged; a longer one is replaced by a
  text within the cap, made of at most its first 8 KiB, a note and at most its last 4 KiB, both cut
  between characters. Cutting again changes nothing.
\<close>
theorem tool_result_truncated:
  assumes "length s < 2 ^ 64"
  shows "if length s \<le> MAX_TOOL_RESULT_BYTES then truncate_tool_result s = s
         else length (truncate_tool_result s) \<le> MAX_TOOL_RESULT_BYTES \<and>
              (\<exists>h t omitted. truncate_tool_result s =
                 take h s @ truncation_note omitted h (length s - t) (length s) @ drop t s \<and>
                 omitted = t - h \<and> h \<le> TOOL_RESULT_HEAD_BYTES \<and> h \<le> t \<and>
                 length s - t \<le> TOOL_RESULT_TAIL_BYTES \<and> is_char_boundary s h \<and> is_char_boundary s t) \<and>
              truncate_tool_result (truncate_tool_result s) = truncate_tool_result s"
proof (cases "length s \<le> MAX_TOOL_RESULT_BYTES")
  case False
  define h where "h = utf8_floor_boundary s TOOL_RESULT_HEAD_BYTES"
  define t where "t = utf8_ceil_boundary s (max (length s - TOOL_RESULT_TAIL_BYTES) h)"
  note caps = MAX_TOOL_RESULT_BYTES_def TOOL_RESULT_HEAD_BYTES_def TOOL_RESULT_TAIL_BYTES_def
  have h: "h \<le> TOOL_RESULT_HEAD_BYTES" "h \<le> length s" "is_char_boundary s h"
    unfolding h_def by (rule floor_boundary)+
  have t: "max (length s - TOOL_RESULT_TAIL_BYTES) h \<le> t" "t \<le> length s" "is_char_boundary s t"
    using ceil_boundary [where s = s and p = "max (length s - TOOL_RESULT_TAIL_BYTES) h"] h(2) unfolding t_def by auto
  have eq: "truncate_tool_result s = take h s @ truncation_note (t - h) h (length s - t) (length s) @ drop t s"
    using False by (simp add: truncate_tool_result_def h_def t_def Let_def)
  have "length (truncation_note (t - h) h (length s - t) (length s)) \<le> 200"
    using h t assms by (intro truncation_note_length) auto
  then have within: "length (truncate_tool_result s) \<le> MAX_TOOL_RESULT_BYTES"
    using h t by (simp add: eq caps) linarith
  then have again: "truncate_tool_result (truncate_tool_result s) = truncate_tool_result s"
    by (simp add: truncate_tool_result_def [of "truncate_tool_result s"])
  have "length s - t \<le> TOOL_RESULT_TAIL_BYTES" using t(1) by linarith
  moreover have "h \<le> t" using t(1) by simp
  ultimately have "truncate_tool_result s = take h s @ truncation_note (t - h) h (length s - t) (length s) @ drop t s \<and>
      t - h = t - h \<and> h \<le> TOOL_RESULT_HEAD_BYTES \<and> h \<le> t \<and>
      length s - t \<le> TOOL_RESULT_TAIL_BYTES \<and> is_char_boundary s h \<and> is_char_boundary s t"
    using eq h(1,3) t(3) by blast
  then have "\<exists>h t omitted. truncate_tool_result s =
      take h s @ truncation_note omitted h (length s - t) (length s) @ drop t s \<and>
      omitted = t - h \<and> h \<le> TOOL_RESULT_HEAD_BYTES \<and> h \<le> t \<and>
      length s - t \<le> TOOL_RESULT_TAIL_BYTES \<and> is_char_boundary s h \<and> is_char_boundary s t"
    by (rule exI [of _ "t - h", THEN exI [of _ t, THEN exI [of _ h]]])
  with False within again show ?thesis by (simp only: if_False simp_thms)
qed (simp add: truncate_tool_result_def)

theorem tool_result_truncated_witness:
  "length (truncate_tool_result (replicate 20000 (CHR 0x61))) \<le> MAX_TOOL_RESULT_BYTES \<and>
   truncate_tool_result (truncate_tool_result (replicate 20000 (CHR 0x61))) =
     truncate_tool_result (replicate 20000 (CHR 0x61))"
  using tool_result_truncated [of "replicate 20000 (CHR 0x61)"]
  by (simp add: MAX_TOOL_RESULT_BYTES_def)

text \<open>
  the tools offered to the model are exactly the registered ones the scope of the turn permits
  and whose schema is valid, each once, in the byte order of their names; the list does not depend
  on the order in which the registry's hash map yields its entries.
\<close>
theorem advertised_exactly_permitted:
  "sorted_wrt (<) (map byte_order (map tool_name (build_tool_advertisements vs (registered ts) scope))) \<and>
   set (map tool_name (build_tool_advertisements vs (registered ts) scope)) =
     {n. \<exists>t. find (\<lambda>t. te_name t = n) (rev ts) = Some t \<and> permits scope n \<and> vs (te_schema t)} \<and>
   (registry_ok r \<and> (\<forall>n. registry_get r n = registry_get (registered ts) n) \<longrightarrow>
      build_tool_advertisements vs r scope = build_tool_advertisements vs (registered ts) scope)"
proof (intro conjI impI)
  have "sorted_wrt (<) (map (\<lambda>s. byte_order (ts_name s))
          (filter (\<lambda>s. permits scope (ts_name s) \<and> vs (ts_schema s)) (specs (registered ts))))"
    using strictly_sorted_specs [OF registered_ok] by (simp add: sorted_wrt_map sorted_wrt_filter)
  then show "sorted_wrt (<) (map byte_order (map tool_name (build_tool_advertisements vs (registered ts) scope)))"
    by (simp add: advertised_names comp_def)
next
  show "set (map tool_name (build_tool_advertisements vs (registered ts) scope)) =
     {n. \<exists>t. find (\<lambda>t. te_name t = n) (rev ts) = Some t \<and> permits scope n \<and> vs (te_schema t)}"
    by (simp only: advertised_set [OF registered_ok] registry_get_registered)
next
  assume "registry_ok r \<and> (\<forall>n. registry_get r n = registry_get (registered ts) n)"
  then have "specs r = specs (registered ts)" by (intro specs_determined registered_ok) auto
  then show "build_tool_advertisements vs r scope = build_tool_advertisements vs (registered ts) scope"
    by (simp add: build_tool_advertisements_def)
qed


definition sample_tool :: "string \<Rightarrow> tool_entry" where
  "sample_tool n = \<lparr>te_name = n, te_description = option.None, te_schema = Object []\<rparr>"

theorem advertised_exactly_permitted_witness:
  "build_tool_advertisements (\<lambda>_. True)
     [(''b'', sample_tool ''b''), (''a'', sample_tool ''a'')] default_turn_scope =
   build_tool_advertisements (\<lambda>_. True) (registered [sample_tool ''a'', sample_tool ''b'']) default_turn_scope"
proof -
  let ?r = "[(''b'', sample_tool ''b''), (''a'', sample_tool ''a'')]"
  have "registry_ok ?r" by (simp add: registry_ok_def sample_tool_def)
  moreover have "\<forall>n. registry_get ?r n = registry_get (registered [sample_tool ''a'', sample_tool ''b'']) n"
    by (simp add: registered_def registry_new_def register_def registry_get_def sample_tool_def)
  ultimately show ?thesis using advertised_exactly_permitted by blast
qed

end
