(* ===== verification/Request_Options.thy ===== *)
theory Request_Options
  imports Prompt
begin

text \<open>
  What a turn layers onto the request after the prompt is built: the output budget, the reasoning
  effort (\<open>zhive-core/src/engine/reasoning.rs\<close>) and the prompt-cache marks
  (\<open>zhive-core/src/engine/cache.rs\<close>), in the order of the turn loop (\<open>engine/turn.rs\<close>).
\<close>

section \<open>Reasoning\<close>

fun openai_reasoning_effort :: "thinking_effort \<Rightarrow> reasoning_effort" where
  "openai_reasoning_effort thinking_effort.Minimal = reasoning_effort.Minimal"
| "openai_reasoning_effort thinking_effort.Low = reasoning_effort.Low"
| "openai_reasoning_effort thinking_effort.Medium = reasoning_effort.Medium"
| "openai_reasoning_effort thinking_effort.Xhigh = reasoning_effort.Xhigh"
| "openai_reasoning_effort _ = reasoning_effort.High"

fun openai_effort_str :: "thinking_effort \<Rightarrow> string" where
  "openai_effort_str thinking_effort.Minimal = ''minimal''"
| "openai_effort_str thinking_effort.Low = ''low''"
| "openai_effort_str thinking_effort.Medium = ''medium''"
| "openai_effort_str thinking_effort.Xhigh = ''xhigh''"
| "openai_effort_str _ = ''high''"

fun effort_str :: "thinking_effort \<Rightarrow> string" where
  "effort_str thinking_effort.Low = ''low''"
| "effort_str thinking_effort.Medium = ''medium''"
| "effort_str thinking_effort.Xhigh = ''xhigh''"
| "effort_str MaxEffort = ''max''"
| "effort_str _ = ''high''"

fun to_reasoning_effort :: "thinking_effort \<Rightarrow> reasoning_effort" where
  "to_reasoning_effort Off = reasoning_effort.None"
| "to_reasoning_effort thinking_effort.Minimal = reasoning_effort.Minimal"
| "to_reasoning_effort thinking_effort.Low = reasoning_effort.Low"
| "to_reasoning_effort thinking_effort.Medium = reasoning_effort.Medium"
| "to_reasoning_effort thinking_effort.High = reasoning_effort.High"
| "to_reasoning_effort thinking_effort.Xhigh = reasoning_effort.Xhigh"
| "to_reasoning_effort MaxEffort = reasoning_effort.Xhigh"

definition anthropic_supports_effort :: "string \<Rightarrow> bool" where
  "anthropic_supports_effort model_id =
     list_ex (str_contains model_id)
       [''claude-opus-4-5'', ''claude-opus-4-6'', ''claude-opus-4-7'', ''claude-opus-4-8'',
        ''claude-sonnet-4-6'']"

definition defaults_to_omitted_thinking :: "string \<Rightarrow> bool" where
  "defaults_to_omitted_thinking model_id =
     (str_contains model_id ''claude-opus-4-7'' \<or> str_contains model_id ''claude-opus-4-8'')"

definition anthropic_provider_options :: "thinking_effort \<Rightarrow> string \<Rightarrow> provider_options" where
  "anthropic_provider_options level model_id =
     (let anthropic =
        (if is_enabled level then
           (let thinking =
              (if defaults_to_omitted_thinking model_id
               then Object [(''display'', String ''summarized''), (''type'', String ''adaptive'')]
               else Object [(''type'', String ''adaptive'')])
            in [''thinking'' \<mapsto> thinking, ''effort'' \<mapsto> String (effort_str level)])
         else [''thinking'' \<mapsto> Object [(''type'', String ''disabled'')]])
      in [''anthropic'' \<mapsto> anthropic])"

text \<open>
  Setting one key of one provider's options: the outer map is taken, the provider's map is removed
  from it or made, the key set, and both put back.
\<close>

definition set_provider_key ::
    "string \<Rightarrow> string \<Rightarrow> json \<Rightarrow> provider_options option \<Rightarrow> provider_options option" where
  "set_provider_key provider k v slot =
     (let options = (case slot of Some o' \<Rightarrow> o' | option.None \<Rightarrow> Map.empty);
          inner = (case options provider of Some m \<Rightarrow> m | option.None \<Rightarrow> Map.empty)
      in Some (options(provider \<mapsto> inner(k \<mapsto> v))))"

definition apply_openai_reasoning :: "call_options \<Rightarrow> thinking_effort \<Rightarrow> call_options" where
  "apply_openai_reasoning opts level =
     (if \<not> is_enabled level then opts
      else opts\<lparr>co_reasoning := Some (openai_reasoning_effort level),
                co_options := set_provider_key ''openai'' ''reasoningEffort''
                                (String (openai_effort_str level)) (co_options opts)\<rparr>)"

definition apply_reasoning ::
    "call_options \<Rightarrow> thinking_effort option \<Rightarrow> string \<Rightarrow> string \<Rightarrow> call_options" where
  "apply_reasoning opts reasoning provider model_id =
     (case reasoning of
        option.None \<Rightarrow> opts
      | Some level \<Rightarrow>
          (if provider = ''anthropic'' \<and> anthropic_supports_effort model_id
           then opts\<lparr>co_options := Some (anthropic_provider_options level model_id)\<rparr>
           else if provider = ''openai'' then apply_openai_reasoning opts level
           else if is_enabled level then opts\<lparr>co_reasoning := Some (to_reasoning_effort level)\<rparr>
           else opts))"

section \<open>Cache marks\<close>

definition ephemeral_breakpoint :: json where
  "ephemeral_breakpoint = Object [(''type'', String ''ephemeral'')]"

definition set_anthropic_cache_control ::
    "json \<Rightarrow> provider_options option \<Rightarrow> provider_options option" where
  "set_anthropic_cache_control hint slot = set_provider_key ''anthropic'' ''cacheControl'' hint slot"

text \<open>\<open>rposition\<close>: the index of the last element with the property.\<close>

fun rposition :: "('a \<Rightarrow> bool) \<Rightarrow> 'a list \<Rightarrow> nat option" where
  "rposition P [] = option.None"
| "rposition P (x # xs) =
     (case rposition P xs of
        Some i \<Rightarrow> Some (Suc i)
      | option.None \<Rightarrow> (if P x then Some 0 else option.None))"

definition update_at :: "nat option \<Rightarrow> ('a \<Rightarrow> 'a) \<Rightarrow> 'a list \<Rightarrow> 'a list" where
  "update_at i f xs = (case i of Some k \<Rightarrow> xs[k := f (xs ! k)] | option.None \<Rightarrow> xs)"

definition last_index :: "'a list \<Rightarrow> nat option" where
  "last_index xs = (if xs = [] then option.None else Some (length xs - 1))"

fun mark_part :: "json \<Rightarrow> user_part \<Rightarrow> user_part" where
  "mark_part hint (user_part.Text text opts) = user_part.Text text (set_anthropic_cache_control hint opts)"
| "mark_part hint (File data mime opts) = File data mime (set_anthropic_cache_control hint opts)"

fun is_text_part :: "user_part \<Rightarrow> bool" where
  "is_text_part (user_part.Text _ _) = True"
| "is_text_part _ = False"

definition mark_last_user_part :: "json \<Rightarrow> user_part list \<Rightarrow> user_part list" where
  "mark_last_user_part hint content =
     update_at (case rposition is_text_part content of Some i \<Rightarrow> Some i | option.None \<Rightarrow> last_index content)
       (mark_part hint) content"

fun mark_message_tail :: "json \<Rightarrow> message \<Rightarrow> message" where
  "mark_message_tail hint (User content opts) = User (mark_last_user_part hint content) opts"
| "mark_message_tail hint (Assistant content opts) =
     Assistant content (set_anthropic_cache_control hint opts)"
| "mark_message_tail hint (Tool content opts) = Tool content (set_anthropic_cache_control hint opts)"
| "mark_message_tail hint (System content opts) =
     System content (set_anthropic_cache_control hint opts)"

fun mark_tool :: "json \<Rightarrow> prompt_tool \<Rightarrow> prompt_tool" where
  "mark_tool hint (Function tool) =
     Function (tool\<lparr>ft_options := set_anthropic_cache_control hint (ft_options tool)\<rparr>)"
| "mark_tool hint ProviderTool = ProviderTool"

fun mark_system :: "json \<Rightarrow> message \<Rightarrow> message" where
  "mark_system hint (System content opts) =
     System content (set_anthropic_cache_control hint opts)"
| "mark_system hint m = m"

fun mark_user :: "json \<Rightarrow> message \<Rightarrow> message" where
  "mark_user hint (User content opts) = User (mark_last_user_part hint content) opts"
| "mark_user hint m = m"

fun is_function :: "prompt_tool \<Rightarrow> bool" where
  "is_function (Function _) = True"
| "is_function ProviderTool = False"

fun is_system :: "message \<Rightarrow> bool" where
  "is_system (System _ _) = True"
| "is_system _ = False"

fun is_user :: "message \<Rightarrow> bool" where
  "is_user (User _ _) = True"
| "is_user _ = False"

definition apply_anthropic_breakpoints :: "call_options \<Rightarrow> call_options" where
  "apply_anthropic_breakpoints opts =
     (let hint = ephemeral_breakpoint;
          tools = map_option (\<lambda>ts. update_at (rposition is_function ts) (mark_tool hint) ts) (co_tools opts);
          p1 = update_at (rposition is_system (co_prompt opts)) (mark_system hint) (co_prompt opts);
          latest_user = rposition is_user p1;
          p2 = update_at latest_user (mark_user hint) p1;
          tail = last_index p2;
          p3 = (if tail \<noteq> latest_user then update_at tail (mark_message_tail hint) p2 else p2)
      in opts\<lparr>co_tools := tools, co_prompt := p3\<rparr>)"

definition apply_openai_cache_key :: "call_options \<Rightarrow> string \<Rightarrow> call_options" where
  "apply_openai_cache_key opts session_id =
     (if session_id = [] then opts
      else opts\<lparr>co_options := set_provider_key ''openai'' ''promptCacheKey'' (String session_id)
                                (co_options opts)\<rparr>)"

definition apply_cache_control :: "call_options \<Rightarrow> string \<Rightarrow> string \<Rightarrow> call_options" where
  "apply_cache_control opts provider session_id =
     (if provider = ''anthropic'' then apply_anthropic_breakpoints opts
      else if provider = ''openai'' then apply_openai_cache_key opts session_id
      else opts)"

section \<open>The request of a round\<close>

text \<open>\<open>max_output_tokens\<close> of the engine: 0 in its atomic means no limit.\<close>

definition max_output_tokens :: "u64 \<Rightarrow> u64 option" where
  "max_output_tokens raw = (if raw = 0 then option.None else Some raw)"

definition output_budget :: "u64 \<Rightarrow> u32 option" where
  "output_budget raw = map_option (\<lambda>n. u32_of_len (unat n)) (max_output_tokens raw)"

text \<open>The request of a round: what the turn loop hands to the provider.\<close>

definition round_request ::
    "(json \<Rightarrow> string) \<Rightarrow> (json \<Rightarrow> bool) \<Rightarrow> thread_handle \<Rightarrow> tool_registry \<Rightarrow> string option \<Rightarrow>
     permission_scope \<Rightarrow> u64 \<Rightarrow> thinking_effort option \<Rightarrow> string \<Rightarrow> string \<Rightarrow> thread_id \<Rightarrow>
     call_options" where
  "round_request display vs h tools system_prompt scope raw_budget reasoning provider model_id tid =
     apply_cache_control
       (apply_reasoning
          ((build_call_options display vs h tools system_prompt scope)
             \<lparr>co_max_output_tokens := output_budget raw_budget\<rparr>)
          reasoning provider model_id)
       provider (thread_id_str tid)"

section \<open>Marks\<close>

definition has_mark :: "provider_options option \<Rightarrow> nat" where
  "has_mark slot =
     (case slot of
        option.None \<Rightarrow> 0
      | Some po \<Rightarrow>
          (case po ''anthropic'' of
             option.None \<Rightarrow> 0
           | Some m \<Rightarrow> (if m ''cacheControl'' = Some ephemeral_breakpoint then 1 else 0)))"

fun part_marks :: "user_part \<Rightarrow> nat" where
  "part_marks (user_part.Text _ slot) = has_mark slot"
| "part_marks (File _ _ slot) = has_mark slot"

fun message_marks :: "message \<Rightarrow> nat" where
  "message_marks (User parts slot) = sum_list (map part_marks parts) + has_mark slot"
| "message_marks (Assistant _ slot) = has_mark slot"
| "message_marks (Tool _ slot) = has_mark slot"
| "message_marks (System _ slot) = has_mark slot"

fun tool_marks :: "prompt_tool \<Rightarrow> nat" where
  "tool_marks (Function f) = has_mark (ft_options f)"
| "tool_marks ProviderTool = 0"

definition prompt_marks :: "message list \<Rightarrow> nat" where
  "prompt_marks ms = sum_list (map message_marks ms)"

definition tools_marks :: "prompt_tool list option \<Rightarrow> nat" where
  "tools_marks ts = (case ts of option.None \<Rightarrow> 0 | Some ts \<Rightarrow> sum_list (map tool_marks ts))"

definition breakpoints :: "call_options \<Rightarrow> nat" where
  "breakpoints opts = prompt_marks (co_prompt opts) + tools_marks (co_tools opts)"

text \<open>A message and a tool without the provider options: what the model reads.\<close>

fun bare_part :: "user_part \<Rightarrow> user_part" where
  "bare_part (user_part.Text text _) = user_part.Text text option.None"
| "bare_part (File data mime _) = File data mime option.None"

fun bare :: "message \<Rightarrow> message" where
  "bare (User parts _) = User (map bare_part parts) option.None"
| "bare (Assistant parts _) = Assistant parts option.None"
| "bare (Tool results _) = Tool results option.None"
| "bare (System text _) = System text option.None"

fun bare_tool :: "prompt_tool \<Rightarrow> prompt_tool" where
  "bare_tool (Function f) = Function (f\<lparr>ft_options := option.None\<rparr>)"
| "bare_tool ProviderTool = ProviderTool"

lemma update_at_map: "(\<And>x. g (f x) = g x) \<Longrightarrow> map g (update_at i f xs) = map g xs"
proof -
  assume same: "\<And>x. g (f x) = g x"
  have "map g (xs[k := f (xs ! k)]) = map g xs" for k
    using same by (induction xs arbitrary: k) (auto split: nat.split)
  then show ?thesis by (auto simp: update_at_def split: option.split)
qed

lemma update_at_sum:
  assumes "\<And>x. g (f x) \<le> g x + (1::nat)"
  shows "sum_list (map g (update_at i f xs)) \<le> sum_list (map g xs) + 1"
proof -
  have "sum_list (map g (xs[k := f (xs ! k)])) \<le> sum_list (map g xs) + 1" for k
    using assms by (induction xs arbitrary: k) (auto split: nat.split)
  then show ?thesis by (auto simp: update_at_def split: option.split)
qed

lemma update_at_length [simp]: "length (update_at i f xs) = length xs"
  by (simp add: update_at_def split: option.split)

lemma has_mark_set [simp]: "has_mark (set_anthropic_cache_control ephemeral_breakpoint slot) = 1"
  unfolding has_mark_def set_anthropic_cache_control_def set_provider_key_def Let_def
  by (simp only: option.case fun_upd_same if_True refl)

lemma part_marks_mark [simp]: "part_marks (mark_part ephemeral_breakpoint p) = 1"
  by (cases p) auto

lemma marks_last_part: "sum_list (map part_marks (mark_last_user_part ephemeral_breakpoint ps)) \<le>
    sum_list (map part_marks ps) + 1"
  unfolding mark_last_user_part_def by (rule update_at_sum) simp

lemma user_marks: "message_marks (User (mark_last_user_part ephemeral_breakpoint ps) slot) \<le>
    message_marks (User ps slot) + 1"
  using marks_last_part [of ps] by (simp only: message_marks.simps)

lemma tail_adds_one: "message_marks (mark_message_tail ephemeral_breakpoint m) \<le> message_marks m + 1"
  using user_marks by (cases m) (simp_all only: mark_message_tail.simps message_marks.simps has_mark_set le_add2)

lemma system_adds_one: "message_marks (mark_system ephemeral_breakpoint m) \<le> message_marks m + 1"
  by (cases m) (simp_all only: mark_system.simps message_marks.simps has_mark_set le_add2 le_add1)

lemma user_adds_one: "message_marks (mark_user ephemeral_breakpoint m) \<le> message_marks m + 1"
  using user_marks by (cases m) (simp_all only: mark_user.simps message_marks.simps le_add1)

lemma tool_mark_adds_one: "tool_marks (mark_tool ephemeral_breakpoint t) \<le> tool_marks t + 1"
  by (cases t) auto

lemma bare_marked_part [simp]: "bare_part (mark_part hint p) = bare_part p"
  by (cases p) auto

lemma bare_marked_parts [simp]: "map bare_part (mark_last_user_part hint ps) = map bare_part ps"
  unfolding mark_last_user_part_def by (rule update_at_map) simp

lemma bare_marked [simp]: "bare (mark_message_tail hint m) = bare m" "bare (mark_system hint m) = bare m"
    "bare (mark_user hint m) = bare m"
  by (cases m; simp)+

lemma bare_marked_tool [simp]: "bare_tool (mark_tool hint t) = bare_tool t"
  by (cases t) auto


text \<open>The request as the prompt leaves it carries no options at all.\<close>

lemma bare_item [simp]: "map bare (item_messages display i) = item_messages display i"
proof -
  have "map bare_part (List.map_filter user_block c) = List.map_filter user_block c" for c
  proof (induction c)
    case (Cons b c)
    then show ?case by (cases b) (auto simp: List.map_filter_simps)
  qed (simp add: List.map_filter_simps)
  then show ?thesis by (cases i) (auto simp: Let_def)
qed

lemma bare_items: "map bare (concat (map (item_messages display) items)) = concat (map (item_messages display) items)"
  by (induction items) auto

lemma built_bare: "map bare (co_prompt (build_call_options display vs h tools sys scope)) =
    co_prompt (build_call_options display vs h tools sys scope)"
  by (auto simp: build_call_options_def Let_def bare_items system_messages_def split: option.split list.split)

lemma built_tools_bare: "map_option (map bare_tool) (co_tools (build_call_options display vs h tools sys scope)) =
    co_tools (build_call_options display vs h tools sys scope)"
  by (simp add: build_call_options_def Let_def build_tool_advertisements_def)

lemma bare_unmarked: "message_marks (bare m) = 0"
proof -
  have "part_marks (bare_part p) = 0" for p by (cases p) (auto simp: has_mark_def)
  then show ?thesis by (cases m) (auto simp: has_mark_def comp_def)
qed

lemma bare_prompt_unmarked: "map bare ms = ms \<Longrightarrow> prompt_marks ms = 0"
  by (metis (no_types, lifting) prompt_marks_def bare_unmarked map_eq_conv list.map_comp comp_def sum_list_0)

lemma bare_tools_unmarked: "map_option (map bare_tool) ts = ts \<Longrightarrow> tools_marks ts = 0"
proof -
  assume same: "map_option (map bare_tool) ts = ts"
  have "tool_marks (bare_tool t) = 0" for t by (cases t) (auto simp: has_mark_def)
  then have "tools_marks (map_option (map bare_tool) ts) = 0"
    by (cases ts) (simp_all add: tools_marks_def comp_def)
  then show ?thesis unfolding same .
qed

lemma built_unmarked: "breakpoints (build_call_options display vs h tools sys scope) = 0"
  by (simp add: breakpoints_def bare_prompt_unmarked bare_tools_unmarked built_bare built_tools_bare)

text \<open>The three stages of the marks on the messages.\<close>

definition mark_systems :: "message list \<Rightarrow> message list" where
  "mark_systems ms = update_at (rposition is_system ms) (mark_system ephemeral_breakpoint) ms"

definition mark_users :: "message list \<Rightarrow> message list" where
  "mark_users ms = update_at (rposition is_user ms) (mark_user ephemeral_breakpoint) ms"

definition mark_tail :: "nat option \<Rightarrow> message list \<Rightarrow> message list" where
  "mark_tail latest ms =
     (if last_index ms \<noteq> latest then update_at (last_index ms) (mark_message_tail ephemeral_breakpoint) ms else ms)"

lemma anthropic_prompt:
  "co_prompt (apply_anthropic_breakpoints opts) =
   mark_tail (rposition is_user (mark_systems (co_prompt opts))) (mark_users (mark_systems (co_prompt opts)))"
  by (simp add: apply_anthropic_breakpoints_def Let_def mark_systems_def mark_users_def mark_tail_def)

lemma anthropic_tools:
  "co_tools (apply_anthropic_breakpoints opts) =
   map_option (\<lambda>ts. update_at (rposition is_function ts) (mark_tool ephemeral_breakpoint) ts) (co_tools opts)"
  by (simp add: apply_anthropic_breakpoints_def Let_def)

lemma stage_marks:
  "prompt_marks (mark_systems ms) \<le> prompt_marks ms + 1"
  "prompt_marks (mark_users ms) \<le> prompt_marks ms + 1"
  "prompt_marks (mark_tail i ms) \<le> prompt_marks ms + 1"
  unfolding prompt_marks_def mark_systems_def mark_users_def mark_tail_def
  by (auto intro!: update_at_sum system_adds_one user_adds_one tail_adds_one simp del: One_nat_def add_Suc_right)

lemma anthropic_marks: "breakpoints (apply_anthropic_breakpoints opts) \<le> breakpoints opts + 4"
proof -
  have "prompt_marks (co_prompt (apply_anthropic_breakpoints opts)) \<le> prompt_marks (co_prompt opts) + 3"
    unfolding anthropic_prompt
    using stage_marks(1) [of "co_prompt opts"] stage_marks(2) [of "mark_systems (co_prompt opts)"]
      stage_marks(3) [of "rposition is_user (mark_systems (co_prompt opts))" "mark_users (mark_systems (co_prompt opts))"]
    by linarith
  moreover have "tools_marks (co_tools (apply_anthropic_breakpoints opts)) \<le> tools_marks (co_tools opts) + 1"
    unfolding anthropic_tools tools_marks_def
    by (cases "co_tools opts") (use update_at_sum [where g = tool_marks, OF tool_mark_adds_one] in simp_all)
  ultimately show ?thesis by (simp add: breakpoints_def)
qed

lemma stage_bare [simp]:
  "map bare (mark_systems ms) = map bare ms" "map bare (mark_users ms) = map bare ms"
  "map bare (mark_tail i ms) = map bare ms"
  unfolding mark_systems_def mark_users_def mark_tail_def by (simp_all add: update_at_map)

lemma anthropic_bare:
  "map bare (co_prompt (apply_anthropic_breakpoints opts)) = map bare (co_prompt opts)"
  "map_option (map bare_tool) (co_tools (apply_anthropic_breakpoints opts)) =
   map_option (map bare_tool) (co_tools opts)"
  "co_options (apply_anthropic_breakpoints opts) = co_options opts"
  by (simp add: anthropic_prompt,
      simp add: anthropic_tools option.map_comp comp_def update_at_map,
      simp add: apply_anthropic_breakpoints_def Let_def)

text \<open>The last message ends in a mark.\<close>

fun tail_marked :: "message \<Rightarrow> bool" where
  "tail_marked (User parts _) = (1 \<le> sum_list (map part_marks parts))"
| "tail_marked m = (message_marks m = 1)"

fun has_parts :: "message \<Rightarrow> bool" where
  "has_parts (User parts _) = (parts \<noteq> [])"
| "has_parts _ = True"

lemma has_parts_bare [simp]: "has_parts (bare m) = has_parts m"
  by (cases m) auto

lemma has_parts_same: "map bare ms = map bare ms' \<Longrightarrow> list_all has_parts ms = list_all has_parts ms'"
  by (metis (mono_tags, lifting) comp_def has_parts_bare list.pred_cong list.pred_map)

lemma built_has_parts: "list_all has_parts (co_prompt (build_call_options display vs h tools sys scope))"
proof -
  have "list_all has_parts (item_messages display i)" for i by (cases i) (auto simp: Let_def)
  then have "list_all has_parts (concat (map (item_messages display) items))" for items
    by (induction items) auto
  then show ?thesis
    by (auto simp: build_call_options_def Let_def system_messages_def split: option.split list.split)
qed

lemma rposition_Some: "rposition P xs = Some i \<Longrightarrow> i < length xs \<and> P (xs ! i)"
  by (induction xs arbitrary: i) (auto split: option.splits if_splits)

lemma rposition_None: "rposition P xs = option.None \<Longrightarrow> x \<in> set xs \<Longrightarrow> \<not> P x"
  by (induction xs) (auto split: option.splits if_splits)

lemma user_tail_marked:
  assumes "parts \<noteq> []"
  shows "1 \<le> sum_list (map part_marks (mark_last_user_part ephemeral_breakpoint parts))"
proof -
  obtain k where k: "k < length parts" and
    eq: "mark_last_user_part ephemeral_breakpoint parts = parts[k := mark_part ephemeral_breakpoint (parts ! k)]"
  proof (cases "rposition is_text_part parts")
    case None
    then show ?thesis
      using assms by (intro that [of "length parts - 1"]) (auto simp: mark_last_user_part_def last_index_def update_at_def)
  next
    case (Some i)
    then show ?thesis
      using rposition_Some by (intro that [of i]) (auto simp: mark_last_user_part_def update_at_def)
  qed
  have "(1::nat) \<in> set (map part_marks (mark_last_user_part ephemeral_breakpoint parts))"
    unfolding eq set_map using k by (intro image_eqI [where x = "mark_part ephemeral_breakpoint (parts ! k)"])
      (simp_all only: part_marks_mark set_update_memI)
  then show ?thesis by (rule member_le_sum_list) simp
qed

lemma tail_marked_tail: "has_parts m \<Longrightarrow> tail_marked (mark_message_tail ephemeral_breakpoint m)"
  using user_tail_marked by (cases m) (simp_all only: mark_message_tail.simps tail_marked.simps has_parts.simps
      message_marks.simps has_mark_set)

lemma tail_marked_user: "has_parts m \<Longrightarrow> is_user m \<Longrightarrow> tail_marked (mark_user ephemeral_breakpoint m)"
  using user_tail_marked
  by (cases m) (simp_all only: mark_user.simps tail_marked.simps has_parts.simps is_user.simps)

lemma last_update_at: "xs \<noteq> [] \<Longrightarrow> last (update_at (last_index xs) f xs) = f (last xs)"
  by (simp add: update_at_def last_index_def last_conv_nth)

lemma anthropic_tail_marked:
  assumes "list_all has_parts (co_prompt opts)" "co_prompt opts \<noteq> []"
  shows "tail_marked (last (co_prompt (apply_anthropic_breakpoints opts)))"
proof -
  let ?m1 = "mark_systems (co_prompt opts)"
  let ?m2 = "mark_users ?m1"
  have len: "length ?m1 = length (co_prompt opts)" "length ?m2 = length (co_prompt opts)"
    by (simp_all add: mark_systems_def mark_users_def)
  then have ne: "?m1 \<noteq> []" "?m2 \<noteq> []" using assms(2) by auto
  have parts: "has_parts (last ?m1)" "has_parts (last ?m2)"
    using has_parts_same [of ?m1 "co_prompt opts"] has_parts_same [of ?m2 "co_prompt opts"] assms(1) ne
    by (simp_all add: list_all_iff)
  have index: "last_index ?m2 = last_index ?m1"
    using len ne by (simp add: last_index_def)
  show ?thesis
  proof (cases "rposition is_user ?m1 = last_index ?m1")
    case True
    then have "is_user (last ?m1)"
      using rposition_Some [of is_user ?m1] ne by (auto simp: last_index_def last_conv_nth)
    moreover have "mark_tail (rposition is_user ?m1) ?m2 = ?m2"
      using True index by (simp add: mark_tail_def)
    ultimately show ?thesis
      using True parts ne unfolding anthropic_prompt
      by (simp add: mark_users_def last_update_at tail_marked_user)
  next
    case False
    then have "mark_tail (rposition is_user ?m1) ?m2 =
        update_at (last_index ?m2) (mark_message_tail ephemeral_breakpoint) ?m2"
      unfolding index by (simp add: mark_tail_def index)
    then show ?thesis
      unfolding anthropic_prompt by (simp only: last_update_at [OF ne(2)] tail_marked_tail [OF parts(2)])
  qed
qed


lemma reasoning_keeps [simp]:
  "co_prompt (apply_reasoning opts reasoning provider model) = co_prompt opts"
  "co_tools (apply_reasoning opts reasoning provider model) = co_tools opts"
  by (auto simp: apply_reasoning_def apply_openai_reasoning_def split: option.split)

section \<open>Properties\<close>

text \<open>
  for Anthropic the request carries at most four cache marks, the provider's limit, and none for
  any other provider; the marks change no message and no tool; and the last message, so the whole
  conversation, always lies under one.
\<close>
theorem cache_marks_bounded:
  "let r = (\<lambda>provider. round_request display vs h tools sys scope budget reasoning provider model tid);
       p = build_call_options display vs h tools sys scope
   in breakpoints (r provider) \<le> (if provider = ''anthropic'' then 4 else 0) \<and>
         map bare (co_prompt (r provider)) = co_prompt p \<and>
         map_option (map bare_tool) (co_tools (r provider)) = co_tools p \<and>
         (co_prompt p \<noteq> [] \<longrightarrow> tail_marked (last (co_prompt (r ''anthropic''))))"
proof -
  define r where "r = (\<lambda>provider. round_request display vs h tools sys scope budget reasoning provider model tid)"
  define p where "p = build_call_options display vs h tools sys scope"
  define opts where "opts = (\<lambda>pr. apply_reasoning (p\<lparr>co_max_output_tokens := output_budget budget\<rparr>) reasoning pr model)"
  have opts: "co_prompt (opts pr) = co_prompt p" "co_tools (opts pr) = co_tools p" "breakpoints (opts pr) = 0" for pr
    using built_unmarked [of display vs h tools sys scope] by (simp_all add: opts_def breakpoints_def p_def)
  have r: "r pr = apply_cache_control (opts pr) pr (thread_id_str tid)" for pr
    by (simp add: r_def round_request_def opts_def p_def)
  have bare: "map bare (co_prompt p) = co_prompt p" "map_option (map bare_tool) (co_tools p) = co_tools p"
    unfolding p_def by (rule built_bare, rule built_tools_bare)
  have anthropic: "r ''anthropic'' = apply_anthropic_breakpoints (opts ''anthropic'')"
    unfolding r apply_cache_control_def by simp
  have other: "co_prompt (r pr) = co_prompt p \<and> co_tools (r pr) = co_tools p" if "pr \<noteq> ''anthropic''" for pr
    using that opts unfolding r apply_cache_control_def apply_openai_cache_key_def by simp
  have "breakpoints (r ''anthropic'') \<le> 4"
    using anthropic_marks [of "opts ''anthropic''"] opts(3) unfolding anthropic by simp
  moreover have "breakpoints (r pr) = 0" if "pr \<noteq> ''anthropic''" for pr
    using other [OF that] opts(3) [of pr] opts(1,2) by (simp add: breakpoints_def)
  moreover have "map bare (co_prompt (r pr)) = co_prompt p \<and>
      map_option (map bare_tool) (co_tools (r pr)) = co_tools p" for pr
    by (cases "pr = ''anthropic''") (simp_all add: anthropic anthropic_bare opts bare other)
  moreover have "co_prompt p \<noteq> [] \<longrightarrow> tail_marked (last (co_prompt (r ''anthropic'')))"
    unfolding anthropic using anthropic_tail_marked [of "opts ''anthropic''"] opts(1) built_has_parts
    unfolding p_def by metis
  ultimately show ?thesis unfolding r_def [symmetric] p_def [symmetric] Let_def by auto
qed

definition plain_request :: call_options where
  "plain_request = build_call_options (\<lambda>_. []) (\<lambda>_. True) (new_idle (ThreadId ''t'')) registry_new
     (Some ''be brief'') default_turn_scope"

theorem cache_marks_bounded_witness:
  "tail_marked (last (co_prompt (round_request (\<lambda>_. []) (\<lambda>_. True) (new_idle (ThreadId ''t'')) registry_new
     (Some ''be brief'') default_turn_scope 0 option.None ''anthropic'' ''m'' (ThreadId ''t''))))"
proof -
  have "co_prompt plain_request \<noteq> []"
    by (simp add: plain_request_def build_call_options_def Let_def system_messages_def)
  then show ?thesis
    using cache_marks_bounded [of "\<lambda>_. []" "\<lambda>_. True" "new_idle (ThreadId ''t'')" registry_new "Some ''be brief''"
      default_turn_scope 0 option.None "''m''" "ThreadId ''t''"]
    unfolding plain_request_def Let_def by blast
qed

text \<open>
  the effort the request names is the one the picker shows: for Anthropic and OpenAI every
  enabled level their model offers is sent under its own label.
\<close>
theorem effort_sent_is_effort_shown:
  assumes "level \<in> set (cycle_for ''anthropic'' model)" "is_enabled level"
    and "level' \<in> set (cycle_for ''openai'' model')" "is_enabled level'"
  shows "(\<exists>po m. co_options (apply_reasoning opts (Some level) ''anthropic'' model) = Some po \<and>
            po ''anthropic'' = Some m \<and> m ''effort'' = Some (String (label level))) \<and>
         (\<exists>po m. co_options (apply_reasoning opts (Some level') ''openai'' model') = Some po \<and>
            po ''openai'' = Some m \<and> m ''reasoningEffort'' = Some (String (label level')))"
proof -
  have "anthropic_supports_effort model" and a: "effort_str level = label level"
    using assms(1,2)
    by (auto simp: cycle_for_def anthropic_supports_effort_def is_enabled_def split: if_splits)
  then have "co_options (apply_reasoning opts (Some level) ''anthropic'' model) =
      Some (anthropic_provider_options level model)"
    by (simp add: apply_reasoning_def)
  with a assms(2) have "\<exists>po m. co_options (apply_reasoning opts (Some level) ''anthropic'' model) = Some po \<and>
            po ''anthropic'' = Some m \<and> m ''effort'' = Some (String (label level))"
    by (simp add: anthropic_provider_options_def)
  moreover have "openai_effort_str level' = label level'"
    using assms(3,4) by (auto simp: cycle_for_def is_enabled_def split: if_splits)
  with assms(4) have "\<exists>po m. co_options (apply_reasoning opts (Some level') ''openai'' model') = Some po \<and>
            po ''openai'' = Some m \<and> m ''reasoningEffort'' = Some (String (label level'))"
    by (simp add: apply_reasoning_def apply_openai_reasoning_def set_provider_key_def Let_def)
  ultimately show ?thesis by blast
qed

theorem effort_sent_is_effort_shown_witness:
  "effort_str MaxEffort = ''max'' \<and>
   (\<exists>po m. co_options (apply_reasoning plain_request (Some MaxEffort) ''anthropic'' ''claude-opus-4-8'') = Some po \<and>
      po ''anthropic'' = Some m \<and> m ''effort'' = Some (String (label MaxEffort)))"
  using effort_sent_is_effort_shown [of MaxEffort "''claude-opus-4-8''" thinking_effort.Minimal "''gpt-5''" plain_request]
  by (simp add: cycle_for_def is_enabled_def starts_with_def)

text \<open>
  the two things an OpenAI request carries in its options, the reasoning effort and the cache
  key of the session, are both there: layering one does not drop the other.
\<close>
theorem openai_options_share:
  assumes "is_enabled level" "thread_id_str tid \<noteq> []"
  shows "\<exists>po m. co_options (round_request display vs h tools sys scope budget (Some level) ''openai'' model tid) = Some po \<and>
           po ''openai'' = Some m \<and> m ''reasoningEffort'' = Some (String (openai_effort_str level)) \<and>
           m ''promptCacheKey'' = Some (String (thread_id_str tid))"
  using assms
  by (simp add: round_request_def apply_cache_control_def apply_openai_cache_key_def apply_reasoning_def
      apply_openai_reasoning_def set_provider_key_def Let_def)


theorem openai_options_share_witness:
  "\<exists>po m. co_options (round_request (\<lambda>_. []) (\<lambda>_. True) (new_idle (ThreadId ''t'')) registry_new
      (Some ''be brief'') default_turn_scope 0 (Some MaxEffort) ''openai'' ''gpt-5'' (ThreadId ''t'')) = Some po \<and>
     po ''openai'' = Some m \<and> m ''reasoningEffort'' = Some (String (openai_effort_str MaxEffort)) \<and>
     m ''promptCacheKey'' = Some (String ''t'')"
  using openai_options_share [of MaxEffort "ThreadId ''t''"] by (simp add: is_enabled_def)

end
