(* ===== verification/Framing.thy ===== *)
theory Framing
  imports Preview
begin

text \<open>
  Length-delimited frames over a byte stream (\<open>zhive-proto/src/framing.rs\<close>), and what a connection
  that reads frames and sends messages in one \<open>select!\<close> (\<open>zhive-core/src/server/serve_loop.rs\<close>) does to
  a frame that is still arriving. The JSON text of a message is third-party code: its writer
  \<open>to_vec\<close> and its parser \<open>from_slice\<close> are parameters.
\<close>

section \<open>Byte strings\<close>

abbreviation LF :: char where "LF \<equiv> CHR 0x0A"
abbreviation CR :: char where "CR \<equiv> CHR 0x0D"

text \<open>What \<open>read_line\<close> demands of a line: that it is UTF-8.\<close>

fun valid_bytes :: "nat list \<Rightarrow> bool" where
  "valid_bytes [] = True"
| "valid_bytes (a # bs) =
     (if a < 128 then valid_bytes bs
      else (case bs of
              [] \<Rightarrow> False
            | b # cs \<Rightarrow>
                if 194 \<le> a \<and> a \<le> 223 then 128 \<le> b \<and> b < 192 \<and> valid_bytes cs
                else (case cs of
                        [] \<Rightarrow> False
                      | c # ds \<Rightarrow>
                          if 224 \<le> a \<and> a \<le> 239
                          then (if a = 224 then 160 else 128) \<le> b \<and> b < (if a = 237 then 160 else 192) \<and>
                               128 \<le> c \<and> c < 192 \<and> valid_bytes ds
                          else (case ds of
                                  [] \<Rightarrow> False
                                | d # es \<Rightarrow>
                                    240 \<le> a \<and> a \<le> 244 \<and>
                                    (if a = 240 then 144 else 128) \<le> b \<and> b < (if a = 244 then 144 else 192) \<and>
                                    128 \<le> c \<and> c < 192 \<and> 128 \<le> d \<and> d < 192 \<and> valid_bytes es))))"

definition valid_utf8 :: "string \<Rightarrow> bool" where
  "valid_utf8 s = valid_bytes (map of_char s)"

text \<open>\<open>str::split_once\<close> at a byte, and \<open>eq_ignore_ascii_case\<close>.\<close>

fun split_once :: "char \<Rightarrow> string \<Rightarrow> (string \<times> string) option" where
  "split_once d [] = None"
| "split_once d (c # cs) =
     (if c = d then Some ([], cs) else map_option (\<lambda>(a, b). (c # a, b)) (split_once d cs))"

definition to_ascii_lowercase :: "char \<Rightarrow> char" where
  "to_ascii_lowercase c =
     (let n = (of_char c :: nat) in if 65 \<le> n \<and> n \<le> 90 then char_of (n + 32) else c)"

definition eq_ignore_ascii_case :: "string \<Rightarrow> string \<Rightarrow> bool" where
  "eq_ignore_ascii_case a b = (map to_ascii_lowercase a = map to_ascii_lowercase b)"

section \<open>Reading and writing a frame\<close>

definition MAX_HEADER_BYTES :: nat where
  "MAX_HEADER_BYTES = 16 * 1024"

definition MAX_BODY_BYTES :: nat where
  "MAX_BODY_BYTES = 16 * 1024 * 1024"

datatype io_kind = EofKind | InvalidData

datatype framing_error =
    Io io_kind
  | UnexpectedEof
  | InvalidHeader string
  | OverlongHeader
  | OversizeBody nat
  | JsonError

text \<open>
  \<open>read_message\<close> over the bytes that have arrived; \<open>eof\<close> says that no more will. \<open>Pending\<close>: the read
  waits for more, having taken every byte so far into its locals. A read that is continued with more
  bytes does what it does on all of them at once, since it takes them in order.
\<close>

datatype 'm read_result = Pending | Frame 'm string | Fail framing_error

datatype line_result = MoreLine | NoLine | Line string string

fun take_line :: "string \<Rightarrow> (string \<times> string) option" where
  "take_line [] = None"
| "take_line (c # cs) =
     (if c = LF then Some ([c], cs) else map_option (\<lambda>(l, r). (c # l, r)) (take_line cs))"

definition read_line :: "bool \<Rightarrow> string \<Rightarrow> line_result" where
  "read_line eof inp =
     (case take_line inp of
        Some (l, r) \<Rightarrow> Line l r
      | None \<Rightarrow> (if \<not> eof then MoreLine else if inp = [] then NoLine else Line inp []))"

definition trim_end_crlf :: "string \<Rightarrow> string" where
  "trim_end_crlf line = rev (dropWhile (\<lambda>c. c = CR \<or> c = LF) (rev line))"

definition read_body ::
    "(string \<Rightarrow> 'm option) \<Rightarrow> bool \<Rightarrow> nat option \<Rightarrow> string \<Rightarrow> 'm read_result" where
  "read_body from_slice eof content_length inp =
     (case content_length of
        None \<Rightarrow> Fail (InvalidHeader ''missing Content-Length'')
      | Some len \<Rightarrow>
          (if len > MAX_BODY_BYTES then Fail (OversizeBody len)
           else if length inp < len then (if eof then Fail (Io EofKind) else Pending)
           else (case from_slice (take len inp) of
                   None \<Rightarrow> Fail JsonError
                 | Some msg \<Rightarrow> Frame msg (drop len inp))))"

lemma take_line_shorter: "take_line inp = Some (l, r) \<Longrightarrow> inp = l @ r \<and> l \<noteq> []"
  by (induction inp arbitrary: l) (auto split: if_splits)

lemma read_line_shorter: "read_line eof inp = Line l r \<Longrightarrow> inp = l @ r \<and> l \<noteq> []"
  by (auto simp: read_line_def dest: take_line_shorter split: option.splits if_splits)

text \<open>One header line: an error, the blank line that ends the header, or a field.\<close>

datatype header_step = Bad framing_error | Blank | Field "nat option" nat

definition header_line :: "nat option \<Rightarrow> nat \<Rightarrow> string \<Rightarrow> header_step" where
  "header_line content_length header_bytes line =
     (if \<not> valid_utf8 line then Bad (Io InvalidData)
      else (let header_bytes = header_bytes + length line;
                trimmed = trim_end_crlf line
            in if header_bytes > MAX_HEADER_BYTES then Bad OverlongHeader
               else if trimmed = [] then Blank
               else (case split_once (CHR '':'') trimmed of
                       None \<Rightarrow> Bad (InvalidHeader trimmed)
                     | Some (name, val) \<Rightarrow>
                         (if eq_ignore_ascii_case name ''content-length'' then
                            (case parse_uint u64_max (trim val) of
                               None \<Rightarrow> Bad (InvalidHeader trimmed)
                             | Some n \<Rightarrow> Field (Some n) header_bytes)
                          else Field content_length header_bytes))))"

function header_loop ::
    "(string \<Rightarrow> 'm option) \<Rightarrow> bool \<Rightarrow> nat option \<Rightarrow> nat \<Rightarrow> string \<Rightarrow> 'm read_result" where
  "header_loop from_slice eof content_length header_bytes inp =
     (case read_line eof inp of
        MoreLine \<Rightarrow> Pending
      | NoLine \<Rightarrow> Fail UnexpectedEof
      | Line line rest \<Rightarrow>
          (case header_line content_length header_bytes line of
             Bad e \<Rightarrow> Fail e
           | Blank \<Rightarrow> read_body from_slice eof content_length rest
           | Field content_length' header_bytes' \<Rightarrow>
               header_loop from_slice eof content_length' header_bytes' rest))"
  by pat_completeness auto
termination
  by (relation "measure (\<lambda>(_, _, _, _, inp). length inp)") (auto dest!: read_line_shorter)

declare header_loop.simps [simp del]

definition read_message :: "(string \<Rightarrow> 'm option) \<Rightarrow> bool \<Rightarrow> string \<Rightarrow> 'm read_result" where
  "read_message from_slice eof inp = header_loop from_slice eof None 0 inp"

definition frame_header :: "nat \<Rightarrow> string" where
  "frame_header n = ''Content-Length: '' @ show_nat n @ [CR, LF, CR, LF]"

definition write_message :: "('m \<Rightarrow> string) \<Rightarrow> 'm \<Rightarrow> string" where
  "write_message to_vec msg = (let body = to_vec msg in frame_header (length body) @ body)"

text \<open>\<open>read_with_eof\<close> of \<open>server/transport.rs\<close>: a stream that ends is \<open>Ok(None)\<close>.\<close>

datatype 'm transport_read = Waiting | Got "'m option" string | Broken framing_error

definition read_with_eof :: "(string \<Rightarrow> 'm option) \<Rightarrow> bool \<Rightarrow> string \<Rightarrow> 'm transport_read" where
  "read_with_eof from_slice eof inp =
     (case read_message from_slice eof inp of
        Pending \<Rightarrow> Waiting
      | Frame msg rest \<Rightarrow> Got (Some msg) rest
      | Fail UnexpectedEof \<Rightarrow> Got None []
      | Fail (Io EofKind) \<Rightarrow> Got None []
      | Fail other \<Rightarrow> Broken other)"

section \<open>The reader inside the select\<close>

text \<open>
  \<open>unread\<close>: bytes that have arrived and nothing has taken. \<open>taken\<close>: bytes in the locals of the read the
  current \<open>select!\<close> polls. When another branch wins, that read is dropped with its locals.
\<close>

record reader =
  unread :: string
  taken :: string

datatype wake = Bytes string | Outbound

text \<open>
  Polling the read branch once: it takes what has arrived; a message ends this \<open>select!\<close> and leaves
  the bytes behind it unread.
\<close>

definition poll_read :: "(string \<Rightarrow> 'm option) \<Rightarrow> bool \<Rightarrow> reader \<Rightarrow> 'm transport_read \<times> reader" where
  "poll_read from_slice eof r =
     (case read_with_eof from_slice eof (taken r @ unread r) of
        Waiting \<Rightarrow> (Waiting, \<lparr>unread = [], taken = taken r @ unread r\<rparr>)
      | Got m rest \<Rightarrow> (Got m rest, \<lparr>unread = rest, taken = []\<rparr>)
      | Broken e \<Rightarrow> (Broken e, \<lparr>unread = [], taken = []\<rparr>))"

text \<open>The outbound branch wins: the message is sent and the next turn of the loop reads afresh.\<close>

definition outbound_wins :: "reader \<Rightarrow> reader" where
  "outbound_wins r = r\<lparr>taken := []\<rparr>"


lemma read_body_shorter: "read_body fs eof cl inp = Frame m rest \<Longrightarrow> length rest \<le> length inp"
  by (auto simp: read_body_def split: option.splits if_splits)

lemma header_loop_shorter: "header_loop fs eof cl hb inp = Frame m rest \<Longrightarrow> length rest < length inp"
proof (induction fs eof cl hb inp rule: header_loop.induct)
  case (1 fs eof cl hb inp)
  from "1.prems" obtain line r where l: "read_line eof inp = Line line r"
    unfolding header_loop.simps [of fs eof cl hb inp] by (auto split: line_result.splits)
  have shorter: "length r < length inp" using read_line_shorter [OF l] by auto
  show ?case
  proof (cases "header_line cl hb line")
    case Blank
    with "1.prems" l have "read_body fs eof cl r = Frame m rest"
      by (simp add: header_loop.simps [of fs eof cl hb inp])
    then show ?thesis using shorter read_body_shorter by fastforce
  next
    case (Field cl' hb')
    with "1.prems" l have "header_loop fs eof cl' hb' r = Frame m rest"
      by (simp add: header_loop.simps [of fs eof cl hb inp])
    from "1.IH" [OF l Field this] shorter show ?thesis by simp
  qed (use "1.prems" l in \<open>simp add: header_loop.simps [of fs eof cl hb inp]\<close>)
qed

lemma poll_read_shorter:
  "poll_read fs eof r = (Got (Some m) rest, r') \<Longrightarrow>
   length (taken r' @ unread r') < length (taken r @ unread r)"
  using header_loop_shorter
  by (fastforce simp: poll_read_def read_with_eof_def read_message_def
      split: read_result.splits framing_error.splits io_kind.splits transport_read.splits)

text \<open>The loop between two wakes: it reads messages until it has to wait; \<open>None\<close> is a closed connection.\<close>

function drain :: "(string \<Rightarrow> 'm option) \<Rightarrow> reader \<Rightarrow> 'm list \<times> reader option" where
  "drain fs r =
     (case poll_read fs False r of
        (Got (Some m) _, r') \<Rightarrow> (case drain fs r' of (ms, end) \<Rightarrow> (m # ms, end))
      | (Waiting, r') \<Rightarrow> ([], Some r')
      | (_, r') \<Rightarrow> ([], None))"
  by pat_completeness auto
termination
proof (relation "measure (\<lambda>(_, r). length (taken r @ unread r))", goal_cases)
  case (2 fs r x r' x21 rest m)
  then have "poll_read fs False r = (Got (Some m) rest, r')" by simp
  then show ?case unfolding in_measure prod.case by (rule poll_read_shorter)
qed simp

declare drain.simps [simp del]

fun connection :: "(string \<Rightarrow> 'm option) \<Rightarrow> wake list \<Rightarrow> reader \<Rightarrow> 'm list \<times> reader option" where
  "connection fs [] r = ([], Some r)"
| "connection fs (Outbound # ws) r = connection fs ws (outbound_wins r)"
| "connection fs (Bytes bs # ws) r =
     (case drain fs (r\<lparr>unread := unread r @ bs\<rparr>) of
        (ms, None) \<Rightarrow> (ms, None)
      | (ms, Some r') \<Rightarrow> (case connection fs ws r' of (ms', end) \<Rightarrow> (ms @ ms', end)))"


section \<open>More bytes\<close>

text \<open>What more bytes do to a read that already has its answer: they stay behind it.\<close>

fun extend :: "string \<Rightarrow> 'm read_result \<Rightarrow> 'm read_result" where
  "extend b Pending = Pending"
| "extend b (Frame m rest) = Frame m (rest @ b)"
| "extend b (Fail e) = Fail e"

lemma take_line_append: "take_line a = Some (l, r) \<Longrightarrow> take_line (a @ b) = Some (l, r @ b)"
  by (induction a arbitrary: l) (auto split: if_splits)

lemma read_line_append: "read_line False a = Line l r \<Longrightarrow> read_line eof (a @ b) = Line l (r @ b)"
  by (cases "take_line a") (auto simp: read_line_def take_line_append)

lemma read_body_append:
  "read_body fs False cl a \<noteq> Pending \<Longrightarrow> read_body fs eof cl (a @ b) = extend b (read_body fs False cl a)"
  by (auto simp: read_body_def split: option.splits)

lemma header_loop_append:
  "header_loop fs False cl hb a \<noteq> Pending \<Longrightarrow>
   header_loop fs eof cl hb (a @ b) = extend b (header_loop fs False cl hb a)"
proof (induction fs "False" cl hb a rule: header_loop.induct)
  case (1 fs cl hb a)
  show ?case
  proof (cases "read_line False a")
    case (Line l r)
    note lines = Line read_line_append [OF Line, of eof b]
    show ?thesis
    proof (cases "header_line cl hb l")
      case Blank
      with "1.prems" lines show ?thesis
        by (simp add: header_loop.simps [of fs False cl hb a] header_loop.simps [of fs eof cl hb "a @ b"]
            read_body_append)
    next
      case (Field cl' hb')
      with "1.prems" lines show ?thesis
        by (simp add: header_loop.simps [of fs False cl hb a] header_loop.simps [of fs eof cl hb "a @ b"]
            "1.hyps" [OF Line Field])
    qed (use lines in \<open>simp add: header_loop.simps [of fs False cl hb a] header_loop.simps [of fs eof cl hb "a @ b"]\<close>)
  qed (use "1.prems" in \<open>auto simp: header_loop.simps [of fs False cl hb a] read_line_def split: option.splits\<close>)
qed

lemma read_message_append:
  "read_message fs False a \<noteq> Pending \<Longrightarrow>
   read_message fs eof (a @ b) = extend b (read_message fs False a)"
  unfolding read_message_def by (rule header_loop_append)

text \<open>Without a line feed there is no line, so no limit is ever looked at.\<close>

lemma take_line_None: "LF \<notin> set inp \<Longrightarrow> take_line inp = None"
  by (induction inp) auto

lemma take_line_here: "LF \<notin> set l \<Longrightarrow> take_line (l @ LF # r) = Some (l @ [LF], r)"
  by (induction l) auto

lemma read_line_here: "LF \<notin> set l \<Longrightarrow> read_line eof (l @ LF # r) = Line (l @ [LF]) r"
  by (simp add: read_line_def take_line_here)

lemma no_line_pending: "LF \<notin> set inp \<Longrightarrow> header_loop fs False cl hb inp = Pending"
  by (simp add: header_loop.simps [of fs False cl hb inp] read_line_def take_line_None)

section \<open>The header the writer makes\<close>

definition ascii :: "string \<Rightarrow> bool" where
  "ascii s = list_all (\<lambda>c. (of_char c :: nat) < 128) s"

lemma ascii_valid: "ascii s \<Longrightarrow> valid_utf8 s"
  unfolding ascii_def valid_utf8_def by (induction s) auto

lemma ascii_chars: "ascii s \<Longrightarrow> chars s = map (\<lambda>c. [c]) s"
proof (induction s)
  case (Cons c s)
  then show ?case by (cases s) (auto simp: ascii_def is_continuation_def)
qed simp

lemma digit_char_code: "d < 10 \<Longrightarrow> (of_char (digit_char d) :: nat) = 48 + d"
  by (simp add: digit_char_def)

lemma show_nat_code: "c \<in> set (show_nat n) \<Longrightarrow> 48 \<le> (of_char c :: nat) \<and> (of_char c :: nat) < 58"
  using show_nat_digits [of c n] by (auto simp: digit_char_code)

lemma show_nat_ascii: "ascii (show_nat n)"
  using show_nat_code by (fastforce simp: ascii_def list_all_iff)

lemma show_nat_no: "of_char d < (48::nat) \<Longrightarrow> d \<notin> set (show_nat n)"
  using show_nat_code by fastforce

lemma trim_digits: "trim (CHR 0x20 # show_nat n) = show_nat n"
proof -
  have no_white: "\<not> is_whitespace [c]" if "c \<in> set (show_nat n)" for c
    using show_nat_code [OF that] by (simp add: is_whitespace_def)
  have stay: "dropWhile is_whitespace (map (\<lambda>c. [c]) cs) = map (\<lambda>c. [c]) cs"
    if "set cs \<subseteq> set (show_nat n)" for cs
    using that no_white by (cases cs) auto
  have "ascii (CHR 0x20 # show_nat n)" using show_nat_ascii by (simp add: ascii_def)
  then have "trim_chars (CHR 0x20 # show_nat n) = map (\<lambda>c. [c]) (show_nat n)"
    by (simp only: trim_chars_def ascii_chars) (simp add: rev_map stay is_whitespace_def)
  then show ?thesis by (simp add: trim_def concat_map_singleton)
qed

lemma content_length_line:
  assumes "n \<le> MAX_BODY_BYTES"
  shows "header_line None 0 (''Content-Length: '' @ show_nat n @ [CR, LF]) =
         Field (Some n) (length (''Content-Length: '' @ show_nat n @ [CR, LF]))"
proof -
  let ?l = "''Content-Length: '' @ show_nat n @ [CR, LF]"
  have "ascii ?l" using show_nat_ascii by (simp add: ascii_def)
  moreover have "length (show_nat n) \<le> 8"
    using show_nat_length [of n 7] assms by (simp add: MAX_BODY_BYTES_def)
  moreover have "trim_end_crlf ?l = ''Content-Length: '' @ show_nat n"
  proof -
    obtain c cs where r: "rev (show_nat n) = c # cs" by (cases "rev (show_nat n)") auto
    then have "c \<noteq> CR" "c \<noteq> LF" using show_nat_no [of CR n] show_nat_no [of LF n]
      by (auto simp: in_set_conv_decomp dest: arg_cong [of _ _ rev])
    with r show ?thesis by (simp add: trim_end_crlf_def)
  qed
  moreover have "split_once (CHR '':'') (''Content-Length: '' @ show_nat n) =
      Some (''Content-Length'', CHR 0x20 # show_nat n)" by simp
  moreover have "eq_ignore_ascii_case ''Content-Length'' ''content-length''"
    by code_simp
  moreover have "parse_uint u64_max (show_nat n) = Some n"
    using assms by (intro parse_uint_show_nat) (simp add: MAX_BODY_BYTES_def u64_max_eq)
  ultimately show ?thesis
    by (simp add: header_line_def ascii_valid trim_digits MAX_HEADER_BYTES_def Let_def)
qed

lemma blank_line: "hb \<le> 1000 \<Longrightarrow> header_line cl hb [CR, LF] = Blank"
  by (simp add: header_line_def valid_utf8_def trim_end_crlf_def MAX_HEADER_BYTES_def)

lemma read_after_header:
  assumes "n \<le> MAX_BODY_BYTES"
  shows "read_message fs eof (frame_header n @ inp) = read_body fs eof (Some n) inp"
proof -
  let ?l = "''Content-Length: '' @ show_nat n @ [CR]"
  have nolf: "LF \<notin> set ?l" using show_nat_no [of LF n] by simp
  have line: "read_line eof (frame_header n @ inp) = Line (?l @ [LF]) ([CR] @ LF # inp)"
    using read_line_here [OF nolf, of eof "[CR] @ LF # inp"] by (simp add: frame_header_def)
  have blank: "read_line eof ([CR] @ LF # inp) = Line [CR, LF] inp"
    using read_line_here [of "[CR]" eof inp] by simp
  have len: "length (?l @ [LF]) \<le> 1000"
    using show_nat_length [of n 7] assms by (simp add: MAX_BODY_BYTES_def)
  have "read_message fs eof (frame_header n @ inp) =
      header_loop fs eof (Some n) (length (?l @ [LF])) ([CR] @ LF # inp)"
    unfolding read_message_def header_loop.simps [of fs eof None 0] line
    using content_length_line [OF assms] by simp
  also have "\<dots> = read_body fs eof (Some n) inp"
    unfolding header_loop.simps [of fs eof "Some n" "length (?l @ [LF])"] blank
    by (simp only: line_result.case blank_line [OF len] header_step.case)
  finally show ?thesis .
qed


section \<open>What a connection delivers\<close>

lemma drain_wait: "read_message fs False (taken r @ unread r) = Pending \<Longrightarrow>
    drain fs r = ([], Some \<lparr>unread = [], taken = taken r @ unread r\<rparr>)"
  by (simp add: drain.simps [of fs r] poll_read_def read_with_eof_def)

lemma drain_frame: "read_message fs False (taken r @ unread r) = Frame m rest \<Longrightarrow>
    drain fs r = (case drain fs \<lparr>unread = rest, taken = []\<rparr> of (ms, end) \<Rightarrow> (m # ms, end))"
  by (simp add: drain.simps [of fs r] poll_read_def read_with_eof_def)

lemma drain_fail: "read_message fs False (taken r @ unread r) = Fail e \<Longrightarrow> drain fs r = ([], None)"
  by (simp add: drain.simps [of fs r] poll_read_def read_with_eof_def
      split: framing_error.split io_kind.split)

text \<open>Only the bytes matter to a reader that is not interrupted, not who holds them.\<close>

lemma drain_bytes:
  "taken r @ unread r = taken r' @ unread r' \<Longrightarrow> drain fs r = drain fs r'"
  by (cases "read_message fs False (taken r @ unread r)") (auto simp: drain_wait drain_frame drain_fail)

definition arrive :: "string \<Rightarrow> reader \<Rightarrow> reader" where
  "arrive bs r = r\<lparr>unread := unread r @ bs\<rparr>"

lemma arrive_bytes [simp]: "taken (arrive b r) @ unread (arrive b r) = (taken r @ unread r) @ b"
  by (simp add: arrive_def)

lemma drain_append:
  "drain fs (arrive b r) =
   (case drain fs r of
      (ms, None) \<Rightarrow> (ms, None)
    | (ms, Some r1) \<Rightarrow> (case drain fs (arrive b r1) of (ms', end) \<Rightarrow> (ms @ ms', end)))"
proof (induction fs r rule: drain.induct)
  case (1 fs r)
  let ?a = "taken r @ unread r"
  have more: "read_message fs False (?a @ b) = extend b (read_message fs False ?a)"
    if "read_message fs False ?a \<noteq> Pending" using that by (rule read_message_append)
  show ?case
  proof (cases "read_message fs False ?a")
    case Pending
    have "drain fs (arrive b r) = drain fs (arrive b \<lparr>unread = [], taken = ?a\<rparr>)"
      by (rule drain_bytes) simp
    then show ?thesis by (simp add: drain_wait [OF Pending] split: prod.split)
  next
    case (Frame m rest)
    let ?r' = "\<lparr>unread = rest, taken = []\<rparr>"
    have "drain fs (arrive b r) = (case drain fs (arrive b ?r') of (ms, end) \<Rightarrow> (m # ms, end))"
      using drain_frame [of fs "arrive b r" m "rest @ b"] more Frame by (simp add: arrive_def)
    moreover have "(Got (Some m) rest, ?r') = poll_read fs False r"
      using Frame by (simp add: poll_read_def read_with_eof_def)
    note "1.IH" [OF this refl refl]
    ultimately show ?thesis
      by (simp add: drain_frame [OF Frame] split: prod.splits option.splits)
  next
    case (Fail e)
    then show ?thesis using drain_fail [of fs "arrive b r" e] more by (simp add: drain_fail)
  qed
qed

lemma drain_settled: "drain fs r = (ms, Some r1) \<Longrightarrow> drain fs r1 = ([], Some r1)"
proof (induction fs r arbitrary: ms rule: drain.induct)
  case (1 fs r)
  show ?case
  proof (cases "read_message fs False (taken r @ unread r)")
    case Pending
    with "1.prems" show ?thesis by (auto simp: drain_wait)
  next
    case (Frame m rest)
    let ?r' = "\<lparr>unread = rest, taken = []\<rparr>"
    have "(Got (Some m) rest, ?r') = poll_read fs False r"
      using Frame by (simp add: poll_read_def read_with_eof_def)
    note "1.IH" [OF this refl refl]
    then show ?thesis using "1.prems" by (auto simp: drain_frame [OF Frame] split: prod.splits)
  qed (use "1.prems" in \<open>simp add: drain_fail\<close>)
qed

definition fresh :: reader where
  "fresh = \<lparr>unread = [], taken = []\<rparr>"

lemma drain_fresh: "drain fs fresh = ([], Some fresh)"
  using drain_wait [of fs fresh] no_line_pending [of "[]" fs None 0]
  by (simp add: fresh_def read_message_def)

text \<open>How the bytes are cut into pieces makes no difference.\<close>

lemma connection_bytes:
  "drain fs r = ([], Some r) \<Longrightarrow> connection fs (map Bytes chunks) r = drain fs (arrive (concat chunks) r)"
proof (induction chunks arbitrary: r)
  case (Cons c cs)
  have "arrive (c @ concat cs) r = arrive (concat cs) (arrive c r)" by (simp add: arrive_def)
  moreover have "connection fs (map Bytes (c # cs)) r =
      (case drain fs (arrive c r) of
        (ms, None) \<Rightarrow> (ms, None)
      | (ms, Some r') \<Rightarrow> (case connection fs (map Bytes cs) r' of (ms', end) \<Rightarrow> (ms @ ms', end)))"
    by (simp add: arrive_def)
  ultimately show ?case
    using Cons.IH drain_settled [of fs "arrive c r"]
    by (auto simp: drain_append [of fs "concat cs" "arrive c r"] split: prod.splits option.splits)
qed (simp add: arrive_def)

definition writable :: "('m \<Rightarrow> string) \<Rightarrow> (string \<Rightarrow> 'm option) \<Rightarrow> 'm \<Rightarrow> bool" where
  "writable to_vec from_slice m = (from_slice (to_vec m) = Some m \<and> length (to_vec m) \<le> MAX_BODY_BYTES)"

lemma read_written: "writable to_vec fs m \<Longrightarrow>
    read_message fs eof (write_message to_vec m @ rest) = Frame m rest"
  using read_after_header [of "length (to_vec m)" fs eof "to_vec m @ rest"]
  by (simp add: writable_def write_message_def Let_def read_body_def)

lemma drain_written:
  "list_all (writable to_vec fs) ms \<Longrightarrow>
   drain fs \<lparr>unread = concat (map (write_message to_vec) ms), taken = []\<rparr> = (ms, Some fresh)"
proof (induction ms)
  case Nil
  then show ?case using drain_fresh by (simp add: fresh_def)
next
  case (Cons m ms)
  then show ?case
    using drain_frame [of fs "\<lparr>unread = concat (map (write_message to_vec) (m # ms)), taken = []\<rparr>" m]
    by (simp add: read_written)
qed

lemma chunks_read:
  assumes "list_all (writable to_vec fs) ms"
    and "concat chunks = concat (map (write_message to_vec) ms)"
  shows "connection fs (map Bytes chunks) fresh = (ms, Some fresh)"
  using connection_bytes [OF drain_fresh, of fs chunks] drain_written [OF assms(1)] assms(2)
  by (simp add: arrive_def fresh_def)

section \<open>A frame whose header is gone\<close>

lemma trim_end_crlf_Cons: "c \<noteq> CR \<Longrightarrow> c \<noteq> LF \<Longrightarrow> trim_end_crlf (c # xs) = c # trim_end_crlf xs"
  unfolding trim_end_crlf_def by (induction xs rule: rev_induct) auto

text \<open>A line that starts with a brace is never the length of anything.\<close>

lemma brace_line:
  "(\<exists>e. header_line None 0 (CHR ''{'' # l) = Bad e) \<or> (\<exists>hb. header_line None 0 (CHR ''{'' # l) = Field None hb)"
proof -
  have "\<not> eq_ignore_ascii_case (CHR ''{'' # n) ''content-length''" for n
    by (simp add: eq_ignore_ascii_case_def to_ascii_lowercase_def)
  then show ?thesis
    by (auto simp: header_line_def Let_def trim_end_crlf_Cons split: option.split)
qed

lemma blank_after_nothing: "(\<exists>e. header_line None hb [CR, LF] = Bad e) \<or> header_line None hb [CR, LF] = Blank"
  by (simp add: header_line_def valid_utf8_def trim_end_crlf_def)

lemma orphan_body_fails:
  assumes "LF \<notin> set body" "body = CHR ''{'' # b"
  shows "\<exists>e. read_message fs False (body @ frame_header n @ inp) = Fail e"
proof -
  let ?l = "body @ ''Content-Length: '' @ show_nat n @ [CR]"
  have "LF \<notin> set ?l" using assms(1) show_nat_no [of LF n] by simp
  from read_line_here [OF this, of False "[CR] @ LF # inp"]
  have line: "read_line False (body @ frame_header n @ inp) = Line (?l @ [LF]) ([CR] @ LF # inp)"
    by (simp add: frame_header_def)
  have blank: "read_line False ([CR] @ LF # inp) = Line [CR, LF] inp"
    using read_line_here [of "[CR]" False inp] by simp
  have after: "\<exists>e. header_loop fs False None hb ([CR] @ LF # inp) = Fail e" for hb
    using blank_after_nothing [of hb] unfolding header_loop.simps [of fs False None hb] blank
    by (auto simp: read_body_def)
  have "?l @ [LF] = CHR ''{'' # (b @ ''Content-Length: '' @ show_nat n @ [CR, LF])" using assms(2) by simp
  then consider e where "header_line None 0 (?l @ [LF]) = Bad e"
    | hb where "header_line None 0 (?l @ [LF]) = Field None hb"
    using brace_line by metis
  then show ?thesis
    unfolding read_message_def header_loop.simps [of fs False None 0] line
    by cases (use after in simp_all)
qed

lemma header_waits: "0 < n \<Longrightarrow> n \<le> MAX_BODY_BYTES \<Longrightarrow> read_message fs False (frame_header n) = Pending"
  using read_after_header [of n fs False "[]"] by (simp add: read_body_def)

section \<open>Properties\<close>

text \<open>
  messages written to a connection are read back, all of them and in order, however the stream
  cuts their bytes into pieces, as long as no outbound message is sent in the middle of a frame.
\<close>
theorem frames_survive_chunking:
  assumes "list_all (writable to_vec fs) ms"
    and "concat chunks = concat (map (write_message to_vec) ms)"
  shows "connection fs (map Bytes chunks) fresh = (ms, Some fresh)"
  using assms by (rule chunks_read)

text \<open>A concrete message for the witnesses: a type with one value, printed as an empty object.\<close>

definition unit_text :: "unit \<Rightarrow> string" where
  "unit_text u = ''{}''"

definition unit_parse :: "string \<Rightarrow> unit option" where
  "unit_parse s = (if s = ''{}'' then Some () else None)"

lemma unit_writable: "writable unit_text unit_parse u"
  by (simp add: writable_def unit_text_def unit_parse_def MAX_BODY_BYTES_def)

theorem frames_survive_chunking_witness:
  "connection unit_parse (map Bytes [take 5 (write_message unit_text ()), drop 5 (write_message unit_text ())]) fresh =
   ([()], Some fresh)"
  using frames_survive_chunking [of unit_text unit_parse "[()]"
    "[take 5 (write_message unit_text ()), drop 5 (write_message unit_text ())]"]
  by (simp add: unit_writable)

text \<open>
  sending an outbound message while a frame is half read loses that frame and with it the
  connection (a defect): when the header of a message has arrived and its body has not, the outbound
  branch of the select drops the read with the header in its locals; the body is then taken for a
  header line, the message is never delivered, and the next message the client sends closes the
  connection as malformed. Without the outbound message both are delivered.
\<close>
theorem outbound_mid_frame_breaks:
  assumes "writable to_vec fs m" "writable to_vec fs m2"
    and "LF \<notin> set (to_vec m)" "to_vec m = CHR ''{'' # b"
  shows "connection fs [Bytes (frame_header (length (to_vec m))), Outbound,
                        Bytes (to_vec m), Bytes (write_message to_vec m2)] fresh = ([], None) \<and>
         connection fs [Bytes (frame_header (length (to_vec m))),
                        Bytes (to_vec m), Bytes (write_message to_vec m2)] fresh = ([m, m2], Some fresh)"
proof
  let ?h = "frame_header (length (to_vec m))"
  have "read_message fs False ?h = Pending"
    using assms(1,4) by (intro header_waits) (auto simp: writable_def)
  then have "drain fs (arrive ?h fresh) = ([], Some \<lparr>unread = [], taken = ?h\<rparr>)"
    by (simp add: drain_wait arrive_def fresh_def)
  moreover have "drain fs (arrive (to_vec m) fresh) = ([], Some \<lparr>unread = [], taken = to_vec m\<rparr>)"
    using no_line_pending [OF assms(3), of fs None 0]
    by (simp add: drain_wait arrive_def fresh_def read_message_def)
  moreover obtain e where "read_message fs False (to_vec m @ write_message to_vec m2) = Fail e"
    using orphan_body_fails [OF assms(3,4), of fs "length (to_vec m2)" "to_vec m2"]
    by (auto simp: write_message_def Let_def)
  then have "drain fs (arrive (write_message to_vec m2) \<lparr>unread = [], taken = to_vec m\<rparr>) = ([], None)"
    by (simp add: drain_fail arrive_def)
  ultimately show "connection fs [Bytes ?h, Outbound, Bytes (to_vec m), Bytes (write_message to_vec m2)] fresh = ([], None)"
    by (simp add: arrive_def outbound_wins_def fresh_def)
  have "connection fs (map Bytes [?h, to_vec m, write_message to_vec m2]) fresh =
      drain fs (arrive (concat [?h, to_vec m, write_message to_vec m2]) fresh)"
    by (rule connection_bytes [OF drain_fresh])
  also have "\<dots> = ([m, m2], Some fresh)"
    using drain_written [of to_vec fs "[m, m2]"] assms(1,2)
    by (simp add: arrive_def fresh_def write_message_def Let_def)
  finally show "connection fs [Bytes ?h, Bytes (to_vec m), Bytes (write_message to_vec m2)] fresh = ([m, m2], Some fresh)"
    by simp
qed

theorem outbound_mid_frame_breaks_witness:
  "connection unit_parse [Bytes (frame_header (length (unit_text ()))), Outbound, Bytes (unit_text ()),
     Bytes (write_message unit_text ())] fresh = ([], None)"
proof -
  have "LF \<notin> set (unit_text ())" "unit_text () = CHR ''{'' # ''}''" by (simp_all add: unit_text_def)
  from outbound_mid_frame_breaks [OF unit_writable unit_writable this] show ?thesis by blast
qed

text \<open>
  the limit on the size of a header is looked at only when a line has ended (a defect): bytes
  without a line feed are all kept, however many they are, and the connection waits for more.
\<close>
theorem header_limit_needs_newline:
  assumes "LF \<notin> set inp"
  shows "connection fs [Bytes inp] fresh = ([], Some \<lparr>unread = [], taken = inp\<rparr>)"
  using no_line_pending [OF assms, of fs None 0]
  by (simp add: drain_wait fresh_def read_message_def)

theorem header_limit_needs_newline_witness:
  "connection unit_parse [Bytes (replicate (100 * MAX_HEADER_BYTES) (CHR ''a''))] fresh =
   ([], Some \<lparr>unread = [], taken = replicate (100 * MAX_HEADER_BYTES) (CHR ''a'')\<rparr>)"
  using header_limit_needs_newline [of "replicate (100 * MAX_HEADER_BYTES) (CHR ''a'')" unit_parse] by simp

end
