(* ===== verification/Actor.thy ===== *)
theory Actor
  imports Engine_Run "HOL-Library.List_Lexorder"
begin

text \<open>
  The engine as its callers see it: the front end (\<open>zhive-core/src/engine.rs\<close>) sends a submission
  and waits for its reply, the actor (\<open>EngineInner::run\<close> in \<open>engine/inner.rs\<close>) takes one submission
  at a time, dispatches it to its handler and answers. What the outside contributes to one dispatch
  is collected in a world: the clock, the results of queries and file operations, the worlds of the
  handlers, and what other tasks did to the state since the last submission.
\<close>

section \<open>Replies\<close>

record rpc_tool_spec =
  rt_name :: string
  rt_description :: "string option"
  rt_kind :: tool_kind
  rt_schema :: json

datatype get_items_error = StorageUnavailable | ReadFailed string

datatype submission_reply =
    StartTurn "(turn_id, start_turn_error) rust_result"
  | CancelTurn cancel_turn_reply
  | ResumePermission resume_permission_reply
  | SpawnSubagent "(thread_id, subagent_spawn_error) rust_result"
  | Compact "(compact_reply, compact_error) rust_result"
  | Fork "(fork_reply, fork_error) rust_result"
  | ListThreads "thread list"
  | ResumeThread "(resume_reply, resume_error) rust_result"
  | GetItems "(item list, get_items_error) rust_result"
  | Shutdown
  | Delete "(bool, delete_error) rust_result"
  | Rename "(bool, rename_error) rust_result"
  | Search "thread list"
  | ListTools "rpc_tool_spec list"
  | ListCheckpoints "(checkpoint list, string option) rust_result"
  | Restore "(restore_reply, restore_error) rust_result"

section \<open>Dispatch\<close>

record 'tx actor_world =
  aw_now :: int
  aw_ack :: nat
  aw_new_tx :: "nat \<Rightarrow> 'tx"
  aw_compaction :: compaction_world
  aw_fork :: fork_world
  aw_restore :: restore_world
  aw_get_thread :: "(bool, string) rust_result"
  aw_sql_delete :: "(bool, string) rust_result"
  aw_rollout_existed :: bool
  aw_child_tools :: "(string \<times> bool) list"
  aw_tools :: "rpc_tool_spec list"
  aw_list :: "string option \<Rightarrow> (thread list, string) rust_result"
  aw_search :: "string \<Rightarrow> string option \<Rightarrow> (thread list, string) rust_result"
  aw_turn_items :: "turn_id \<Rightarrow> (item list, string) rust_result"
  aw_items_page :: "turn_id \<Rightarrow> int \<Rightarrow> int \<Rightarrow> (item list, string) rust_result"
  aw_checkpoints :: "(checkpoint list, string) rust_result"
  aw_changed :: "(string \<Rightarrow> nat option) option"
  aw_between :: "'tx engine_inner \<Rightarrow> 'tx engine_inner"

text \<open>The queries the persistence layer answers: an error is an empty list.\<close>

definition query_or_empty :: "'tx engine_inner \<Rightarrow> (thread list, string) rust_result \<Rightarrow> thread list" where
  "query_or_empty e q =
     (if \<not> ei_storage e then [] else (case q of Inr threads \<Rightarrow> threads | Inl _ \<Rightarrow> []))"

definition list_threads :: "'tx actor_world \<Rightarrow> string option \<Rightarrow> 'tx engine_inner \<Rightarrow> thread list" where
  "list_threads w cwd e = query_or_empty e (aw_list w cwd)"

definition search_threads ::
    "'tx actor_world \<Rightarrow> string \<Rightarrow> string option \<Rightarrow> 'tx engine_inner \<Rightarrow> thread list" where
  "search_threads w query cwd e = query_or_empty e (aw_search w query cwd)"

definition get_items ::
    "'tx actor_world \<Rightarrow> turn_id option \<Rightarrow> int option \<Rightarrow> int option \<Rightarrow> 'tx engine_inner \<Rightarrow>
     (item list, get_items_error) rust_result" where
  "get_items w turn offset limit e =
     (if \<not> ei_storage e then Inl StorageUnavailable
      else (case turn of
              Some t \<Rightarrow>
                (case (case (offset, limit) of
                         (Some off, Some lim) \<Rightarrow> aw_items_page w t off lim
                       | _ \<Rightarrow> aw_turn_items w t) of
                   Inl msg \<Rightarrow> Inl (ReadFailed msg)
                 | Inr items \<Rightarrow> Inr items)
            | None \<Rightarrow>
                (case replay_thread_items (fw_from_str (aw_fork w)) (fw_file (aw_fork w)) None of
                   Inl err \<Rightarrow> Inl (ReadFailed (storage_error_text (fw_os_text (aw_fork w)) err))
                 | Inr items \<Rightarrow> Inr items)))"

definition list_tools :: "rpc_tool_spec list \<Rightarrow> rpc_tool_spec list" where
  "list_tools tools = sort_key (\<lambda>t. byte_order (rt_name t)) tools"

text \<open>What a dispatch leaves to others: permission waiters it woke, and the tasks it spawned.\<close>

datatype 'tx effect =
    Woke "('tx \<times> permission_outcome) list"
  | TurnTask thread_id turn_id
  | CompactTail thread_id compact_trigger "item list" u32
  | WatchPending "(permission_request_id \<times> request_context) list"

definition dispatch_history ::
    "'tx actor_world \<Rightarrow> submission \<Rightarrow> 'tx engine_inner \<Rightarrow>
     submission_reply option \<times> 'tx effect list \<times> 'tx engine_inner" where
  "dispatch_history w sub e =
     (case sub of
        submission.ListThreads cwd \<Rightarrow> (Some (ListThreads (list_threads w cwd e)), [], e)
      | submission.ResumeThread tid \<Rightarrow>
          (case resume_thread (aw_fork w) (aw_new_tx w) (aw_get_thread w) (aw_now w) (aw_ack w) tid e of
             (r, e', tasks) \<Rightarrow> (Some (ResumeThread r), [WatchPending tasks], e'))
      | submission.GetItems tid turn offset limit \<Rightarrow>
          (Some (GetItems (get_items w turn offset limit e)), [], e)
      | _ \<Rightarrow> (None, [], e))"

definition dispatch_thread_admin ::
    "'tx actor_world \<Rightarrow> submission \<Rightarrow> 'tx engine_inner \<Rightarrow>
     submission_reply option \<times> 'tx effect list \<times> 'tx engine_inner" where
  "dispatch_thread_admin w sub e =
     (case sub of
        submission.Delete tid \<Rightarrow>
          (case delete_thread (aw_sql_delete w) (aw_rollout_existed w) tid e of
             (r, e') \<Rightarrow> (Some (Delete r), [], e'))
      | submission.Rename tid name \<Rightarrow>
          (case rename_thread tid name e of (r, e') \<Rightarrow> (Some (Rename r), [], e'))
      | submission.Search query cwd \<Rightarrow> (Some (Search (search_threads w query cwd e)), [], e)
      | submission.ListTools \<Rightarrow> (Some (ListTools (list_tools (aw_tools w))), [], e)
      | submission.ListCheckpoints tid \<Rightarrow>
          (Some (ListCheckpoints (list_checkpoints (ei_storage e) (aw_checkpoints w) (aw_changed w))), [], e)
      | submission.Restore tid target \<Rightarrow>
          (case restore_to_checkpoint (aw_restore w) (aw_now w) (aw_ack w) tid target e of
             (r, e') \<Rightarrow> (Some (Restore r), [], e'))
      | _ \<Rightarrow> (None, [], e))"

definition dispatch ::
    "('tx \<Rightarrow> bool) \<Rightarrow> 'tx actor_world \<Rightarrow> submission \<Rightarrow> 'tx engine_inner \<Rightarrow>
     submission_reply option \<times> 'tx effect list \<times> 'tx engine_inner" where
  "dispatch alive w sub e =
     (case sub of
        submission.StartTurn tid user_input scope reasoning \<Rightarrow>
          (case start_turn (aw_now w) tid user_input scope reasoning e of
             (r, e') \<Rightarrow> (Some (StartTurn r), (case r of Inr turn \<Rightarrow> [TurnTask tid turn] | Inl _ \<Rightarrow> []), e'))
      | submission.CancelTurn tid \<Rightarrow>
          (case cancel_turn alive (aw_now w) tid e of
             (r, e', woken) \<Rightarrow> (Some (CancelTurn r), [Woke woken], e'))
      | submission.ResumePermission request_id outcome \<Rightarrow>
          (case resume_permission alive request_id outcome e of
             (r, e', woken) \<Rightarrow> (Some (ResumePermission r), [Woke woken], e'))
      | submission.EnqueueInjection tid behavior items \<Rightarrow> (None, [], enqueue_injection tid behavior items e)
      | submission.EnqueueNextTurn tid items \<Rightarrow> (None, [], enqueue_next_turn tid items e)
      | submission.SpawnSubagent parent definition \<Rightarrow>
          (case spawn_subagent (aw_now w) (aw_child_tools w) parent definition e of
             (r, e') \<Rightarrow> (Some (SpawnSubagent r), [], e'))
      | submission.Compact tid trigger \<Rightarrow>
          (case compact_dispatch (aw_compaction w) tid trigger e of
             (r, e', tail) \<Rightarrow>
               (Some (Compact r),
                (case tail of Some (items, n) \<Rightarrow> [CompactTail tid trigger items n] | None \<Rightarrow> []), e'))
      | submission.Fork source up_to summary \<Rightarrow>
          (case fork_thread (aw_fork w) (aw_now w) (aw_ack w) source up_to summary e of
             (r, e') \<Rightarrow> (Some (Fork r), [], e'))
      | submission.ListThreads _ \<Rightarrow> dispatch_history w sub e
      | submission.ResumeThread _ \<Rightarrow> dispatch_history w sub e
      | submission.GetItems _ _ _ _ \<Rightarrow> dispatch_history w sub e
      | submission.Delete _ \<Rightarrow> dispatch_thread_admin w sub e
      | submission.Rename _ _ \<Rightarrow> dispatch_thread_admin w sub e
      | submission.Search _ _ \<Rightarrow> dispatch_thread_admin w sub e
      | submission.ListTools \<Rightarrow> dispatch_thread_admin w sub e
      | submission.ListCheckpoints _ \<Rightarrow> dispatch_thread_admin w sub e
      | submission.Restore _ _ \<Rightarrow> dispatch_thread_admin w sub e
      | submission.Shutdown \<Rightarrow> (None, [], e))"


section \<open>The actor's loop\<close>

record envelope =
  en_submission :: submission
  en_reply :: bool

definition fire_and_forget :: "submission \<Rightarrow> envelope" where
  "fire_and_forget sub = \<lparr>en_submission = sub, en_reply = False\<rparr>"

definition with_reply :: "submission \<Rightarrow> envelope" where
  "with_reply sub = \<lparr>en_submission = sub, en_reply = True\<rparr>"

definition answer :: "envelope \<Rightarrow> submission_reply option \<Rightarrow> submission_reply option" where
  "answer env r = (if en_reply env then r else None)"

text \<open>
  A run of the actor over the envelopes it receives, each with its world: the answer every envelope
  got (\<open>None\<close>: its reply channel was dropped, or it had none), the effects, the state, and whether
  the actor has stopped. What is queued behind a shutdown is dropped unseen.
\<close>

fun actor_run ::
    "('tx \<Rightarrow> bool) \<Rightarrow> ('tx actor_world \<times> envelope) list \<Rightarrow> 'tx engine_inner \<Rightarrow>
     submission_reply option list \<times> 'tx effect list \<times> 'tx engine_inner \<times> bool" where
  "actor_run alive [] e = ([], [], e, False)"
| "actor_run alive ((w, env) # rest) e =
     (let e = aw_between w e
      in if en_submission env = submission.Shutdown
         then (answer env (Some Shutdown) # map (\<lambda>_. None) rest, [], shut_down e, True)
         else (case dispatch alive w (en_submission env) e of
                 (r, fx, e') \<Rightarrow>
                   (case actor_run alive rest e' of
                      (rs, fxs, e'', stopped) \<Rightarrow> (answer env r # rs, fx @ fxs, e'', stopped))))"

section \<open>The front end\<close>

datatype model_catalog_error = List string | Switch string string | UnknownModel string

datatype engine_error =
    ActorStopped
  | EngineBusy engine_phase
  | ReplyDropped
  | ReplyTimedOut nat
  | SubagentSpawnFailed subagent_spawn_error
  | ModelManagementUnavailable
  | ModelCatalog model_catalog_error

text \<open>How the wait for a reply ends.\<close>

datatype arrival = Answered submission_reply | Dropped | Late

definition submit_with_reply :: "bool \<Rightarrow> nat \<Rightarrow> arrival \<Rightarrow> (submission_reply, engine_error) rust_result" where
  "submit_with_reply accepting timeout arrival =
     (if \<not> accepting then Inl ActorStopped
      else (case arrival of
              Answered r \<Rightarrow> Inr r
            | Dropped \<Rightarrow> Inl ReplyDropped
            | Late \<Rightarrow> Inl (ReplyTimedOut timeout)))"

definition submit :: "bool \<Rightarrow> (unit, engine_error) rust_result" where
  "submit accepting = (if accepting then Inr () else Inl ActorStopped)"

text \<open>Each method unwraps the reply of its own kind; another kind counts as dropped.\<close>

fun start_turn_with_reasoning ::
    "(submission_reply, engine_error) rust_result \<Rightarrow> (turn_id, engine_error) rust_result" where
  "start_turn_with_reasoning (Inl err) = Inl err"
| "start_turn_with_reasoning (Inr (StartTurn (Inr turn))) = Inr turn"
| "start_turn_with_reasoning (Inr (StartTurn (Inl (start_turn_error.EngineBusy current)))) = Inl (EngineBusy current)"
| "start_turn_with_reasoning (Inr _) = Inl ReplyDropped"

fun engine_cancel_turn ::
    "(submission_reply, engine_error) rust_result \<Rightarrow> (turn_id option, engine_error) rust_result" where
  "engine_cancel_turn (Inl err) = Inl err"
| "engine_cancel_turn (Inr (CancelTurn (Cancelled turn))) = Inr (Some turn)"
| "engine_cancel_turn (Inr (CancelTurn NoActiveTurn)) = Inr None"
| "engine_cancel_turn (Inr _) = Inl ReplyDropped"

fun engine_resume_permission ::
    "(submission_reply, engine_error) rust_result \<Rightarrow> (resume_permission_reply, engine_error) rust_result" where
  "engine_resume_permission (Inl err) = Inl err"
| "engine_resume_permission (Inr (ResumePermission r)) = Inr r"
| "engine_resume_permission (Inr _) = Inl ReplyDropped"

fun engine_compact ::
    "(submission_reply, engine_error) rust_result \<Rightarrow>
     ((compact_reply, compact_error) rust_result, engine_error) rust_result" where
  "engine_compact (Inl err) = Inl err"
| "engine_compact (Inr (Compact r)) = Inr r"
| "engine_compact (Inr _) = Inl ReplyDropped"

fun engine_fork_thread ::
    "(submission_reply, engine_error) rust_result \<Rightarrow>
     ((fork_reply, fork_error) rust_result, engine_error) rust_result" where
  "engine_fork_thread (Inl err) = Inl err"
| "engine_fork_thread (Inr (Fork r)) = Inr r"
| "engine_fork_thread (Inr _) = Inl ReplyDropped"

fun engine_list_checkpoints ::
    "(submission_reply, engine_error) rust_result \<Rightarrow>
     ((checkpoint list, string option) rust_result, engine_error) rust_result" where
  "engine_list_checkpoints (Inl err) = Inl err"
| "engine_list_checkpoints (Inr (ListCheckpoints r)) = Inr r"
| "engine_list_checkpoints (Inr _) = Inl ReplyDropped"

fun engine_restore ::
    "(submission_reply, engine_error) rust_result \<Rightarrow>
     ((restore_reply, restore_error) rust_result, engine_error) rust_result" where
  "engine_restore (Inl err) = Inl err"
| "engine_restore (Inr (Restore r)) = Inr r"
| "engine_restore (Inr _) = Inl ReplyDropped"

fun engine_shutdown :: "(submission_reply, engine_error) rust_result \<Rightarrow> (unit, engine_error) rust_result" where
  "engine_shutdown (Inl err) = Inl err"
| "engine_shutdown (Inr Shutdown) = Inr ()"
| "engine_shutdown (Inr _) = Inl ReplyDropped"

fun engine_spawn_subagent ::
    "(submission_reply, engine_error) rust_result \<Rightarrow> (thread_id, engine_error) rust_result" where
  "engine_spawn_subagent (Inl err) = Inl err"
| "engine_spawn_subagent (Inr (SpawnSubagent (Inr child))) = Inr child"
| "engine_spawn_subagent (Inr (SpawnSubagent (Inl err))) = Inl (SubagentSpawnFailed err)"
| "engine_spawn_subagent (Inr _) = Inl ReplyDropped"

fun engine_list_threads ::
    "(submission_reply, engine_error) rust_result \<Rightarrow> (thread list, engine_error) rust_result" where
  "engine_list_threads (Inl err) = Inl err"
| "engine_list_threads (Inr (ListThreads threads)) = Inr threads"
| "engine_list_threads (Inr _) = Inl ReplyDropped"

fun engine_resume_thread ::
    "(submission_reply, engine_error) rust_result \<Rightarrow>
     ((resume_reply, resume_error) rust_result, engine_error) rust_result" where
  "engine_resume_thread (Inl err) = Inl err"
| "engine_resume_thread (Inr (ResumeThread r)) = Inr r"
| "engine_resume_thread (Inr _) = Inl ReplyDropped"

fun engine_get_items ::
    "(submission_reply, engine_error) rust_result \<Rightarrow>
     ((item list, get_items_error) rust_result, engine_error) rust_result" where
  "engine_get_items (Inl err) = Inl err"
| "engine_get_items (Inr (GetItems r)) = Inr r"
| "engine_get_items (Inr _) = Inl ReplyDropped"

fun engine_delete_thread ::
    "(submission_reply, engine_error) rust_result \<Rightarrow>
     ((bool, delete_error) rust_result, engine_error) rust_result" where
  "engine_delete_thread (Inl err) = Inl err"
| "engine_delete_thread (Inr (Delete r)) = Inr r"
| "engine_delete_thread (Inr _) = Inl ReplyDropped"

fun engine_rename_thread ::
    "(submission_reply, engine_error) rust_result \<Rightarrow>
     ((bool, rename_error) rust_result, engine_error) rust_result" where
  "engine_rename_thread (Inl err) = Inl err"
| "engine_rename_thread (Inr (Rename r)) = Inr r"
| "engine_rename_thread (Inr _) = Inl ReplyDropped"

fun engine_search_threads ::
    "(submission_reply, engine_error) rust_result \<Rightarrow> (thread list, engine_error) rust_result" where
  "engine_search_threads (Inl err) = Inl err"
| "engine_search_threads (Inr (Search threads)) = Inr threads"
| "engine_search_threads (Inr _) = Inl ReplyDropped"

fun engine_list_tools ::
    "(submission_reply, engine_error) rust_result \<Rightarrow> (rpc_tool_spec list, engine_error) rust_result" where
  "engine_list_tools (Inl err) = Inl err"
| "engine_list_tools (Inr (ListTools specs)) = Inr specs"
| "engine_list_tools (Inr _) = Inl ReplyDropped"

section \<open>The model in use\<close>

record model_descriptor =
  md_id :: string
  md_display_name :: "string option"
  md_context_window :: "u64 option"
  md_max_output_tokens :: "u64 option"
  md_efforts :: "thinking_effort list"
  md_thinking_supported :: bool
  md_active :: bool

text \<open>The catalogue is an interface the host implements: what it lists and what a switch gives.\<close>

record 'p switched_model =
  sm_provider :: 'p
  sm_context_window :: "u64 option"
  sm_max_output_tokens :: "u64 option"

record 'p model_catalog =
  mc_list :: "(model_descriptor list, model_catalog_error) rust_result"
  mc_switch :: "string \<Rightarrow> u64 option \<Rightarrow> ('p switched_model, model_catalog_error) rust_result"

definition list_models ::
    "'p model_catalog option \<Rightarrow> string \<Rightarrow> (model_descriptor list, engine_error) rust_result" where
  "list_models catalog active_id =
     (case catalog of
        None \<Rightarrow> Inl ModelManagementUnavailable
      | Some c \<Rightarrow>
          (case mc_list c of
             Inl msg \<Rightarrow> Inl (ModelCatalog msg)
           | Inr models \<Rightarrow> Inr (map (\<lambda>m. m\<lparr>md_active := (md_id m = active_id)\<rparr>) models)))"

definition set_model ::
    "'p model_catalog option \<Rightarrow> string \<Rightarrow> u64 option \<Rightarrow> 'p \<times> 'tx engine_inner \<Rightarrow>
     (string \<times> u64 option, engine_error) rust_result \<times> 'p \<times> 'tx engine_inner" where
  "set_model catalog model_id hint = (\<lambda>(provider, e).
     (case catalog of
        None \<Rightarrow> (Inl ModelManagementUnavailable, provider, e)
      | Some c \<Rightarrow>
          (case mc_switch c model_id hint of
             Inl msg \<Rightarrow> (Inl (ModelCatalog msg), provider, e)
           | Inr switched \<Rightarrow>
               (Inr (model_id, sm_context_window switched), sm_provider switched,
                set_max_output_tokens (sm_max_output_tokens switched)
                  (set_context_window (sm_context_window switched) e)))))"


section \<open>Kinds of replies\<close>

text \<open>The kind of a reply, and the kind a submission asks for; injections are acknowledged by none.\<close>

datatype reply_kind =
    OfStartTurn | OfCancelTurn | OfResumePermission | OfSpawnSubagent | OfCompact | OfFork
  | OfListThreads | OfResumeThread | OfGetItems | OfShutdown | OfDelete
  | OfRename | OfSearch | OfListTools | OfListCheckpoints | OfRestore

fun kind_of :: "submission_reply \<Rightarrow> reply_kind" where
  "kind_of (StartTurn _) = OfStartTurn"
| "kind_of (CancelTurn _) = OfCancelTurn"
| "kind_of (ResumePermission _) = OfResumePermission"
| "kind_of (SpawnSubagent _) = OfSpawnSubagent"
| "kind_of (Compact _) = OfCompact"
| "kind_of (Fork _) = OfFork"
| "kind_of (ListThreads _) = OfListThreads"
| "kind_of (ResumeThread _) = OfResumeThread"
| "kind_of (GetItems _) = OfGetItems"
| "kind_of Shutdown = OfShutdown"
| "kind_of (Delete _) = OfDelete"
| "kind_of (Rename _) = OfRename"
| "kind_of (Search _) = OfSearch"
| "kind_of (ListTools _) = OfListTools"
| "kind_of (ListCheckpoints _) = OfListCheckpoints"
| "kind_of (Restore _) = OfRestore"

fun asks_for :: "submission \<Rightarrow> reply_kind option" where
  "asks_for (submission.StartTurn _ _ _ _) = Some OfStartTurn"
| "asks_for (submission.CancelTurn _) = Some OfCancelTurn"
| "asks_for (submission.ResumePermission _ _) = Some OfResumePermission"
| "asks_for (submission.SpawnSubagent _ _) = Some OfSpawnSubagent"
| "asks_for (submission.Compact _ _) = Some OfCompact"
| "asks_for (submission.Fork _ _ _) = Some OfFork"
| "asks_for (submission.ListThreads _) = Some OfListThreads"
| "asks_for (submission.ResumeThread _) = Some OfResumeThread"
| "asks_for (submission.GetItems _ _ _ _) = Some OfGetItems"
| "asks_for submission.Shutdown = Some OfShutdown"
| "asks_for (submission.Delete _) = Some OfDelete"
| "asks_for (submission.Rename _ _) = Some OfRename"
| "asks_for (submission.Search _ _) = Some OfSearch"
| "asks_for submission.ListTools = Some OfListTools"
| "asks_for (submission.ListCheckpoints _) = Some OfListCheckpoints"
| "asks_for (submission.Restore _ _) = Some OfRestore"
| "asks_for (submission.EnqueueInjection _ _ _) = None"
| "asks_for (submission.EnqueueNextTurn _ _) = None"

definition err_of :: "('a, engine_error) rust_result \<Rightarrow> engine_error option" where
  "err_of r = (case r of Inl err \<Rightarrow> Some err | Inr _ \<Rightarrow> None)"

text \<open>The error the method that makes a submission reports to its caller, if it reports one.\<close>

fun method_error :: "submission \<Rightarrow> (submission_reply, engine_error) rust_result \<Rightarrow> engine_error option" where
  "method_error (submission.StartTurn _ _ _ _) r = err_of (start_turn_with_reasoning r)"
| "method_error (submission.CancelTurn _) r = err_of (engine_cancel_turn r)"
| "method_error (submission.ResumePermission _ _) r = err_of (engine_resume_permission r)"
| "method_error (submission.SpawnSubagent _ _) r = err_of (engine_spawn_subagent r)"
| "method_error (submission.Compact _ _) r = err_of (engine_compact r)"
| "method_error (submission.Fork _ _ _) r = err_of (engine_fork_thread r)"
| "method_error (submission.ListThreads _) r = err_of (engine_list_threads r)"
| "method_error (submission.ResumeThread _) r = err_of (engine_resume_thread r)"
| "method_error (submission.GetItems _ _ _ _) r = err_of (engine_get_items r)"
| "method_error submission.Shutdown r = err_of (engine_shutdown r)"
| "method_error (submission.Delete _) r = err_of (engine_delete_thread r)"
| "method_error (submission.Rename _ _) r = err_of (engine_rename_thread r)"
| "method_error (submission.Search _ _) r = err_of (engine_search_threads r)"
| "method_error submission.ListTools r = err_of (engine_list_tools r)"
| "method_error (submission.ListCheckpoints _) r = err_of (engine_list_checkpoints r)"
| "method_error (submission.Restore _ _) r = err_of (engine_restore r)"
| "method_error (submission.EnqueueInjection _ _ _) r = None"
| "method_error (submission.EnqueueNextTurn _ _) r = None"

lemma dispatch_answers:
  assumes "dispatch alive w sub e = (r, fx, e')" "sub \<noteq> submission.Shutdown"
  shows "map_option kind_of r = asks_for sub"
  using assms
  by (cases sub) (auto simp: dispatch_def dispatch_history_def dispatch_thread_admin_def split: prod.splits)

lemma start_turn_unwrap: "err_of (start_turn_with_reasoning (Inr (StartTurn x))) \<noteq> Some ReplyDropped"
proof (cases x)
  case (Inl err)
  then show ?thesis by (cases err) (simp add: err_of_def)
qed (simp add: err_of_def)

lemma cancel_turn_unwrap: "err_of (engine_cancel_turn (Inr (CancelTurn x))) \<noteq> Some ReplyDropped"
  by (cases x) (auto simp: err_of_def)

lemma spawn_unwrap: "err_of (engine_spawn_subagent (Inr (SpawnSubagent x))) \<noteq> Some ReplyDropped"
  by (cases x) (auto simp: err_of_def)

lemma kind_unwrap: "asks_for sub = Some (kind_of rep) \<Longrightarrow> method_error sub (Inr rep) \<noteq> Some ReplyDropped"
  by (cases rep; cases sub; simp add: start_turn_unwrap cancel_turn_unwrap spawn_unwrap) (simp_all add: err_of_def)

section \<open>Dispatches as steps of the engine\<close>

lemma engine_run_trans: "engine_run alive K b c \<Longrightarrow> engine_run alive K a b \<Longrightarrow> engine_run alive K a c"
  by (induction rule: engine_run.induct) (auto intro: engine_run.step)

lemma engine_run_one: "engine_step alive k a b \<Longrightarrow> engine_run alive UNIV a b"
  by (rule engine_run.step [OF engine_run.refl]) auto

text \<open>
  What a submission may not find: a resume meets no running turn on its thread, and the identifier
  of a new subagent is free.
\<close>

fun submission_ok :: "submission \<Rightarrow> 'tx engine_inner \<Rightarrow> bool" where
  "submission_ok (submission.ResumeThread tid) e = (\<not> running tid e)"
| "submission_ok (submission.SpawnSubagent p _) e =
     (ei_threads e (child_id_for p (ei_turn_counter e)) = None)"
| "submission_ok _ e = True"

lemma start_turn_step: "engine_run alive UNIV e (snd (start_turn now tid input scope reasoning e))"
  by (cases "is_child tid e") (blast intro: engine_run_one engine_step.start engine_step.start_child)+

lemma cancel_turn_step: "engine_run alive UNIV e (fst (snd (cancel_turn alive now tid e)))"
  by (cases "is_child tid e \<or> \<not> running tid e \<or> ei_phase e \<noteq> Retry")
    (blast intro: engine_run_one engine_step.cancel engine_step.cancel_in_retry)+

lemma dispatch_steps:
  assumes "dispatch alive w sub e = (r, fx, e')" "submission_ok sub e"
  shows "engine_run alive UNIV e e'"
proof -
  note one = engine_run_one
  show ?thesis
  proof (cases sub)
    case (StartTurn tid input scope reasoning)
    with assms(1) start_turn_step [of alive e "aw_now w" tid input scope reasoning] show ?thesis
      by (auto simp: dispatch_def split: prod.splits)
  next
    case (CancelTurn tid)
    with assms(1) cancel_turn_step [of alive e "aw_now w" tid] show ?thesis
      by (auto simp: dispatch_def split: prod.splits)
  next
    case (EnqueueInjection tid b items)
    with assms(1) show ?thesis by (auto simp: dispatch_def intro: one engine_step.inject)
  next
    case (EnqueueNextTurn tid items)
    with assms(1) show ?thesis by (auto simp: dispatch_def intro: one engine_step.next_turn)
  next
    case (ResumePermission pid outcome)
    with assms(1) one [OF engine_step.resolve, of alive e pid outcome] show ?thesis
      by (auto simp: dispatch_def split: prod.splits)
  next
    case (SpawnSubagent p d)
    with assms one [OF engine_step.spawn, of e p alive "aw_now w" "aw_child_tools w" d] show ?thesis
      by (auto simp: dispatch_def spawn_subagent_def split: prod.splits sum.splits)
  next
    case (Compact tid trigger)
    with assms(1) one [OF engine_step.compact, of alive e "aw_compaction w" tid trigger] show ?thesis
      by (auto simp: dispatch_def split: prod.splits)
  next
    case (Fork source i s)
    with assms(1) one [OF engine_step.fork, of alive e "aw_fork w" "aw_now w" "aw_ack w" source i _ s] show ?thesis
      by (auto simp: dispatch_def fork_thread_def split: prod.splits) (metis snd_conv)
  next
    case (ResumeThread tid)
    with assms one [OF engine_step.resume, of tid e alive "aw_fork w" "aw_new_tx w" "aw_get_thread w" "aw_now w" "aw_ack w"]
    show ?thesis by (auto simp: dispatch_def dispatch_history_def split: prod.splits)
  next
    case (Delete tid)
    with assms(1) one [OF engine_step.delete, of alive e "aw_sql_delete w" "aw_rollout_existed w" tid] show ?thesis
      by (auto simp: dispatch_def dispatch_thread_admin_def split: prod.splits)
  next
    case (Rename tid name)
    with assms(1) one [OF engine_step.rename, of alive e tid name] show ?thesis
      by (auto simp: dispatch_def dispatch_thread_admin_def split: prod.splits)
  next
    case (Restore tid target)
    with assms(1) one [OF engine_step.restore, of alive e "aw_restore w" "aw_now w" "aw_ack w" tid target] show ?thesis
      by (auto simp: dispatch_def dispatch_thread_admin_def split: prod.splits)
  qed (use assms(1) in \<open>auto simp: dispatch_def dispatch_history_def dispatch_thread_admin_def intro: engine_run.refl\<close>)
qed

text \<open>The worlds of a run: between two submissions the other tasks run the engine on.\<close>

fun envelopes_ok :: "('tx \<Rightarrow> bool) \<Rightarrow> ('tx actor_world \<times> envelope) list \<Rightarrow> 'tx engine_inner \<Rightarrow> bool" where
  "envelopes_ok alive [] e = True"
| "envelopes_ok alive ((w, env) # rest) e =
     (engine_run alive UNIV e (aw_between w e) \<and>
      (en_submission env = submission.Shutdown \<or>
       submission_ok (en_submission env) (aw_between w e) \<and>
       envelopes_ok alive rest (snd (snd (dispatch alive w (en_submission env) (aw_between w e))))))"

lemma actor_run_steps: "envelopes_ok alive envs e \<Longrightarrow> engine_run alive UNIV e (fst (snd (snd (actor_run alive envs e))))"
proof (induction alive envs e rule: actor_run.induct)
  case (1 alive e)
  then show ?case by (simp add: engine_run.refl)
next
  case (2 alive w env rest e)
  let ?e = "aw_between w e"
  have before: "engine_run alive UNIV e ?e" using "2.prems" by simp
  show ?case
  proof (cases "en_submission env = submission.Shutdown")
    case True
    with engine_run_trans [OF engine_run_one [OF engine_step.shut_down] before] show ?thesis
      by (simp add: Let_def)
  next
    case False
    obtain r fx e' where d: "dispatch alive w (en_submission env) ?e = (r, fx, e')"
      by (cases "dispatch alive w (en_submission env) ?e") auto
    have "engine_run alive UNIV ?e e'" using "2.prems" False by (intro dispatch_steps [OF d]) auto
    moreover have "engine_run alive UNIV e' (fst (snd (snd (actor_run alive rest e'))))"
      using "2.IH" [of ?e r "(fx, e')" fx e'] "2.prems" False d by auto
    ultimately show ?thesis
      using before False d by (auto simp: Let_def split: prod.splits intro: engine_run_trans)
  qed
qed


lemma actor_run_length: "length (fst (actor_run alive envs e)) = length envs"
  by (induction alive envs e rule: actor_run.induct) (auto simp: Let_def split: prod.splits)

lemma actor_run_before:
  "list_all (\<lambda>(w, env). en_submission env \<noteq> submission.Shutdown) before \<Longrightarrow>
   actor_run alive before e = (rs, fx, e1, stopped) \<Longrightarrow>
   \<not> stopped \<and>
   actor_run alive (before @ envs) e =
     (case actor_run alive envs e1 of (rs', fx', e2, s) \<Rightarrow> (rs @ rs', fx @ fx', e2, s))"
proof (induction alive before e arbitrary: rs fx rule: actor_run.induct)
  case (1 alive e)
  then show ?case by (auto split: prod.splits)
next
  case (2 alive w env rest e)
  let ?e = "aw_between w e"
  have no: "en_submission env \<noteq> submission.Shutdown" using "2.prems"(1) by simp
  obtain r fx0 e' where d: "dispatch alive w (en_submission env) ?e = (r, fx0, e')"
    by (cases "dispatch alive w (en_submission env) ?e") auto
  obtain rs1 fx1 e3 s3 where rest: "actor_run alive rest e' = (rs1, fx1, e3, s3)"
    by (cases "actor_run alive rest e'") auto
  have out: "rs = answer env r # rs1" "fx = fx0 @ fx1" "e1 = e3" "stopped = s3"
    using "2.prems"(2) no d rest by (auto simp: Let_def)
  have "\<not> s3 \<and> actor_run alive (rest @ envs) e' =
      (case actor_run alive envs e3 of (rs', fx', e2, s) \<Rightarrow> (rs1 @ rs', fx1 @ fx', e2, s))"
    using "2.IH" [of ?e r "(fx0, e')" fx0 e'] no d rest "2.prems"(1) out by auto
  then show ?case using no d out by (auto simp: Let_def split: prod.splits)
qed

lemma all_cancelled:
  "tokens_ok m t \<Longrightarrow> tok \<le> length (ct_parents t) \<Longrightarrow> token_is_cancelled (cancel_all t) tok"
  by (auto simp: tokens_ok_def tree_wf_def cancel_all_def root_def cancelled_cancel intro: ancestors_root)

text \<open>A world for the examples: no storage, no model, and no other task.\<close>

definition calm_fork :: fork_world where
  "calm_fork = \<lparr>fw_file = None, fw_from_str = (\<lambda>_. Inl []), fw_os_text = [],
     fw_do_stream = (\<lambda>_. Inr []), fw_instruction = []\<rparr>"

definition calm_world :: "unit actor_world" where
  "calm_world = \<lparr>aw_now = 0, aw_ack = 0, aw_new_tx = (\<lambda>_. ()),
     aw_compaction = \<lparr>cw_do_stream = (\<lambda>_. Inr []), cw_instruction = [], cw_pre_hook = None, cw_post_hook = None\<rparr>,
     aw_fork = calm_fork,
     aw_restore = \<lparr>rw_fork = calm_fork, rw_repo = False, rw_snapshot_tree = Inr None,
                    rw_restore_to = (\<lambda>_. Inr (0, 0)), rw_checkpoints = Inr []\<rparr>,
     aw_get_thread = Inr False, aw_sql_delete = Inr False, aw_rollout_existed = False,
     aw_child_tools = [], aw_tools = [], aw_list = (\<lambda>_. Inr []), aw_search = (\<lambda>_ _. Inr []),
     aw_turn_items = (\<lambda>_. Inr []), aw_items_page = (\<lambda>_ _ _. Inr []), aw_checkpoints = Inr [],
     aw_changed = None, aw_between = (\<lambda>e. e)\<rparr>"

definition start_and_cancel :: "(unit actor_world \<times> envelope) list" where
  "start_and_cancel =
     [(calm_world, with_reply (submission.StartTurn (ThreadId ''t'') [] None None)),
      (calm_world, with_reply (submission.CancelTurn (ThreadId ''t'')))]"

lemma start_and_cancel_ok: "envelopes_ok alive start_and_cancel e"
  by (simp add: start_and_cancel_def with_reply_def calm_world_def engine_run.refl)

lemma start_and_cancel_runs: "\<exists>rs fx e'. actor_run alive start_and_cancel e = (rs, fx, e', False)"
  by (simp add: start_and_cancel_def with_reply_def Let_def split: prod.split)

section \<open>Properties\<close>

text \<open>
  C32: while the actor runs, every caller that waits gets one reply of the kind its method unwraps, in
  the order of the submissions, so that no method reports a dropped reply; an injection gets none.
\<close>
theorem replies_match_methods:
  assumes "actor_run alive envs e = (rs, fx, e', False)"
  shows "list_all2 (\<lambda>(w, env) r.
           if en_reply env
           then map_option kind_of r = asks_for (en_submission env) \<and>
                (\<forall>rep. r = Some rep \<longrightarrow>
                   method_error (en_submission env) (submit_with_reply True timeout (Answered rep)) \<noteq> Some ReplyDropped)
           else r = None) envs rs"
  using assms
proof (induction alive envs e arbitrary: rs fx rule: actor_run.induct)
  case (2 alive w env rest e)
  let ?e = "aw_between w e"
  have no: "en_submission env \<noteq> submission.Shutdown" using "2.prems" by (auto simp: Let_def)
  obtain r fx0 e1 where d: "dispatch alive w (en_submission env) ?e = (r, fx0, e1)"
    by (cases "dispatch alive w (en_submission env) ?e") auto
  obtain rs1 fx1 where rest: "actor_run alive rest e1 = (rs1, fx1, e', False)" "rs = answer env r # rs1"
    using "2.prems" no d by (auto simp: Let_def split: prod.splits)
  have kind: "map_option kind_of r = asks_for (en_submission env)" by (rule dispatch_answers [OF d no])
  have "method_error (en_submission env) (submit_with_reply True timeout (Answered rep)) \<noteq> Some ReplyDropped"
    if "r = Some rep" for rep
    using kind_unwrap [of "en_submission env" rep] kind that by (simp add: submit_with_reply_def)
  then show ?case
    using "2.IH" [of ?e r "(fx0, e1)" fx0 e1, OF HOL.refl no d [symmetric] HOL.refl rest(1)] d rest(2) kind by (simp add: answer_def)
qed simp

theorem replies_match_methods_witness:
  "\<exists>r1 r2. fst (actor_run (\<lambda>_. True) start_and_cancel sample_engine) = [r1, r2] \<and>
     map_option kind_of r1 = Some OfStartTurn \<and> map_option kind_of r2 = Some OfCancelTurn"
proof -
  obtain rs fx e' where run: "actor_run (\<lambda>_. True) start_and_cancel sample_engine = (rs, fx, e', False)"
    using start_and_cancel_runs by blast
  from replies_match_methods [OF run, of 30] run show ?thesis
    by (auto simp: start_and_cancel_def with_reply_def list_all2_Cons1)
qed



text \<open>
  a shutdown is the last thing the actor does: it is acknowledged, what is queued behind it is
  dropped without an answer, every token of a running turn is cancelled, and from then on nothing
  reaches the writer, so that the closing records of the turns it cancels are lost.
\<close>
theorem shutdown_is_final:
  assumes "list_all (\<lambda>(w, env). en_submission env \<noteq> submission.Shutdown) before"
    and "actor_run alive before e = (rs, fx, e1, s1)" "engine_inv (aw_between w e1)"
    and "actor_run alive (before @ (w, with_reply submission.Shutdown) # after) e = (rs', fx', e', stopped)"
  shows "stopped \<and> fx' = fx \<and> rs' = rs @ Some Shutdown # map (\<lambda>_. None) after \<and>
         (\<forall>tok \<le> length (ct_parents (ei_cancel_tree e')). token_is_cancelled (ei_cancel_tree e') tok) \<and>
         enqueue_storage_op op e' = e'"
proof -
  have run: "rs' = rs @ Some Shutdown # map (\<lambda>_. None) after" "fx' = fx" "e' = shut_down (aw_between w e1)" "stopped"
    using actor_run_before [OF assms(1,2), of "(w, with_reply submission.Shutdown) # after"] assms(4)
    by (auto simp: with_reply_def answer_def Let_def)
  have "ct_parents (ei_cancel_tree e') = ct_parents (ei_cancel_tree (aw_between w e1))"
    by (simp add: run(3) shut_down_def cancel_all_def cancel_def)
  then have "\<forall>tok \<le> length (ct_parents (ei_cancel_tree e')). token_is_cancelled (ei_cancel_tree e') tok"
    using assms(3) all_cancelled unfolding run(3) by (auto simp: engine_inv_def shut_down_def)
  then show ?thesis using run by (simp add: shut_down_def enqueue_storage_op_def)
qed

theorem shutdown_is_final_witness:
  "fst (actor_run (\<lambda>_. True) (start_and_cancel @ (calm_world, with_reply submission.Shutdown) # start_and_cancel)
     sample_engine) =
   fst (actor_run (\<lambda>_. True) start_and_cancel sample_engine) @ [Some Shutdown, None, None]"
proof -
  obtain rs fx e1 where run: "actor_run (\<lambda>_. True) start_and_cancel sample_engine = (rs, fx, e1, False)"
    using start_and_cancel_runs by blast
  obtain rs' fx' e' s' where more: "actor_run (\<lambda>_. True)
      (start_and_cancel @ (calm_world, with_reply submission.Shutdown) # start_and_cancel) sample_engine = (rs', fx', e', s')"
    by (cases "actor_run (\<lambda>_. True)
      (start_and_cancel @ (calm_world, with_reply submission.Shutdown) # start_and_cancel) sample_engine") auto
  have "engine_run (\<lambda>_. True) UNIV sample_engine e1"
    using actor_run_steps [OF start_and_cancel_ok, of "\<lambda>_. True" sample_engine] run by simp
  then have "engine_inv e1" by (rule run_inv) (simp add: sample_engine_def engine_inv_new)
  then have "engine_inv (aw_between calm_world e1)" by (simp add: calm_world_def)
  moreover have "list_all (\<lambda>(w, env). en_submission env \<noteq> submission.Shutdown) start_and_cancel"
    by (simp add: start_and_cancel_def with_reply_def)
  ultimately show ?thesis
    using shutdown_is_final [OF _ run _ more] run more by (simp add: start_and_cancel_def)
qed

end
