(* ===== verification/Rpc_Message.thy ===== *)
theory Rpc_Message
  imports Zhive_Prelude
begin

text \<open>
  The JSON-RPC messages of \<open>zhive-proto/src/lib.rs\<close>, and the error codes of the server
  (\<open>zhive-core/src/server/router.rs\<close>). The version marker of a message is a unit type whose only text
  is \<open>2.0\<close>, so it carries nothing.
\<close>

section \<open>Messages\<close>

datatype rpc_id = Number int | String string | Null

record error_object =
  eo_code :: int
  eo_message :: string
  eo_data :: "json option"

datatype response_outcome = Result json | Error error_object

record request =
  rq_id :: rpc_id
  rq_method :: string
  rq_params :: "json option"

record response =
  rs_id :: rpc_id
  rs_outcome :: response_outcome

record notification =
  nt_method :: string
  nt_params :: "json option"

datatype message = Request request | Response response | Notification notification

definition request_new :: "rpc_id \<Rightarrow> string \<Rightarrow> json option \<Rightarrow> request" where
  "request_new i method params = \<lparr>rq_id = i, rq_method = method, rq_params = params\<rparr>"

definition response_ok :: "rpc_id \<Rightarrow> json \<Rightarrow> response" where
  "response_ok i result = \<lparr>rs_id = i, rs_outcome = Result result\<rparr>"

definition response_err :: "rpc_id \<Rightarrow> error_object \<Rightarrow> response" where
  "response_err i err = \<lparr>rs_id = i, rs_outcome = Error err\<rparr>"

definition notification_new :: "string \<Rightarrow> json option \<Rightarrow> notification" where
  "notification_new method params = \<lparr>nt_method = method, nt_params = params\<rparr>"

section \<open>Error codes\<close>

datatype json_rpc_code =
    ParseError | InvalidRequest | MethodNotFound | InvalidParams | InternalError
  | ProtocolVersionUnsupported | ServerNotInitialized | AlreadyInitialized

fun as_i64 :: "json_rpc_code \<Rightarrow> int" where
  "as_i64 ParseError = -32700"
| "as_i64 InvalidRequest = -32600"
| "as_i64 MethodNotFound = -32601"
| "as_i64 InvalidParams = -32602"
| "as_i64 InternalError = -32603"
| "as_i64 ProtocolVersionUnsupported = -32001"
| "as_i64 ServerNotInitialized = -32002"
| "as_i64 AlreadyInitialized = -32003"

fun code_message :: "json_rpc_code \<Rightarrow> string" where
  "code_message ParseError = ''Parse error''"
| "code_message InvalidRequest = ''Invalid Request''"
| "code_message MethodNotFound = ''Method not found''"
| "code_message InvalidParams = ''Invalid params''"
| "code_message InternalError = ''Internal error''"
| "code_message ProtocolVersionUnsupported = ''Unsupported protocol version''"
| "code_message ServerNotInitialized = ''Server not initialized''"
| "code_message AlreadyInitialized = ''Already initialized''"

definition error_object_of :: "json_rpc_code \<Rightarrow> error_object" where
  "error_object_of code = \<lparr>eo_code = as_i64 code, eo_message = code_message code, eo_data = None\<rparr>"

text \<open>The error a request with undecodable parameters gets, here and in the handlers.\<close>

definition invalid_params :: "string \<Rightarrow> error_object" where
  "invalid_params msg =
     \<lparr>eo_code = as_i64 InvalidParams, eo_message = code_message InvalidParams, eo_data = Some (json.String msg)\<rparr>"

lemma as_i64_inj: "as_i64 a = as_i64 b \<longleftrightarrow> a = b"
  by (cases a; cases b) auto

text \<open>\<open>i64\<close> in JSON.\<close>

definition show_int :: "int \<Rightarrow> string" where
  "show_int i = (if i < 0 then CHR ''-'' # show_nat (nat (- i)) else show_nat (nat i))"

definition json_int :: "int \<Rightarrow> json" where
  "json_int i = json.Number (show_int i)"

definition json_nat :: "nat \<Rightarrow> json" where
  "json_nat n = json.Number (show_nat n)"

end
