(* ===== verification/Reverse_Rpc.thy ===== *)
theory Reverse_Rpc
  imports Rpc_Message Id_Allocator "HOL-Library.AList"
begin

text \<open>
  Requests the server sends to its client (\<open>zhive-core/src/server/reverse_rpc.rs\<close>): each is entered
  under a fresh identifier with the sender of a oneshot channel, and settled by the response with
  that identifier or by cancellation. As for permission requests, the senders are values of a type
  variable, \<open>alive\<close> says whether the receiving half still exists, and a delivery is the pair of a
  sender and what it was sent.
\<close>

datatype resolve_outcome = Delivered | AwaiterDropped | NoMatch

datatype reverse_rpc_error = Rpc error_object | Cancelled

type_synonym reverse_rpc_result = "(json, reverse_rpc_error) rust_result"

record 'tx reverse_rpc_tracker =
  rr_next_id :: u64
  rr_pending :: "(rpc_id \<times> 'tx) list"

definition tracker_new :: "'tx reverse_rpc_tracker" where
  "tracker_new = \<lparr>rr_next_id = 0, rr_pending = []\<rparr>"

definition reverse_id :: "u64 \<Rightarrow> rpc_id" where
  "reverse_id n = rpc_id.String (''rev:'' @ show_nat (unat n))"

definition issue ::
    "string \<Rightarrow> json option \<Rightarrow> 'tx \<Rightarrow> 'tx reverse_rpc_tracker \<Rightarrow> request \<times> 'tx reverse_rpc_tracker" where
  "issue method params tx t =
     (let i = reverse_id (rr_next_id t)
      in (request_new i method params,
          t\<lparr>rr_next_id := rr_next_id t + 1, rr_pending := AList.update i tx (rr_pending t)\<rparr>))"

definition outcome_of :: "response \<Rightarrow> reverse_rpc_result" where
  "outcome_of response = (case rs_outcome response of Result v \<Rightarrow> Inr v | Error e \<Rightarrow> Inl (Rpc e))"

definition rpc_resolve ::
    "('tx \<Rightarrow> bool) \<Rightarrow> response \<Rightarrow> 'tx reverse_rpc_tracker \<Rightarrow>
     resolve_outcome \<times> 'tx reverse_rpc_tracker \<times> ('tx \<times> reverse_rpc_result) list" where
  "rpc_resolve alive response t =
     (case map_of (rr_pending t) (rs_id response) of
        None \<Rightarrow> (NoMatch, t, [])
      | Some tx \<Rightarrow>
          (let t' = t\<lparr>rr_pending := AList.delete (rs_id response) (rr_pending t)\<rparr>;
               outcome = outcome_of response
           in if alive tx then (Delivered, t', [(tx, outcome)]) else (AwaiterDropped, t', [])))"

definition rpc_cancel_all ::
    "('tx \<Rightarrow> bool) \<Rightarrow> 'tx reverse_rpc_tracker \<Rightarrow> 'tx reverse_rpc_tracker \<times> ('tx \<times> reverse_rpc_result) list" where
  "rpc_cancel_all alive t =
     (t\<lparr>rr_pending := []\<rparr>, map (\<lambda>(i, tx). (tx, Inl Cancelled)) (filter (\<lambda>(i, tx). alive tx) (rr_pending t)))"

definition tracker_len :: "'tx reverse_rpc_tracker \<Rightarrow> nat" where
  "tracker_len t = length (rr_pending t)"

section \<open>Runs\<close>

datatype 'tx rpc_op = Issue string "json option" 'tx | Resolve response | CancelAll

fun rpc_step ::
    "('tx \<Rightarrow> bool) \<Rightarrow> 'tx rpc_op \<Rightarrow> 'tx reverse_rpc_tracker \<Rightarrow>
     'tx reverse_rpc_tracker \<times> request list \<times> ('tx \<times> reverse_rpc_result) list" where
  "rpc_step alive (Issue m p tx) t = (case issue m p tx t of (rq, t') \<Rightarrow> (t', [rq], []))"
| "rpc_step alive (Resolve r) t = (case rpc_resolve alive r t of (_, t', ds) \<Rightarrow> (t', [], ds))"
| "rpc_step alive CancelAll t = (case rpc_cancel_all alive t of (t', ds) \<Rightarrow> (t', [], ds))"

fun rpc_run ::
    "('tx \<Rightarrow> bool) \<Rightarrow> 'tx rpc_op list \<Rightarrow> 'tx reverse_rpc_tracker \<Rightarrow>
     'tx reverse_rpc_tracker \<times> request list \<times> ('tx \<times> reverse_rpc_result) list" where
  "rpc_run alive [] t = (t, [], [])"
| "rpc_run alive (x # xs) t =
     (case rpc_step alive x t of (t', rqs, ds) \<Rightarrow>
      case rpc_run alive xs t' of (t'', rqs', ds') \<Rightarrow> (t'', rqs @ rqs', ds @ ds'))"

fun sender_of :: "'tx rpc_op \<Rightarrow> 'tx list" where
  "sender_of (Issue _ _ tx) = [tx]"
| "sender_of _ = []"

definition senders :: "'tx rpc_op list \<Rightarrow> 'tx list" where
  "senders xs = concat (map sender_of xs)"

section \<open>The identifiers\<close>

text \<open>One step of the counter, for the contract of identifier allocators.\<close>

definition id_step ::
    "('tx \<Rightarrow> bool) \<Rightarrow> 'tx rpc_op \<Rightarrow> 'tx reverse_rpc_tracker \<Rightarrow> 'tx reverse_rpc_tracker \<times> nat list" where
  "id_step alive x t = (fst (rpc_step alive x t), map (\<lambda>_. unat (rr_next_id t)) (sender_of x))"

lemma reverse_id_inj: "reverse_id m = reverse_id n \<longleftrightarrow> m = n"
  by (auto simp: reverse_id_def show_nat_inj dest: unsigned_word_eqI)

lemma unat_bump: "unat (n :: u64) + 1 < 2 ^ 64 \<Longrightarrow> unat (n + 1) = unat n + 1"
  by (rule unat_add_lem [THEN iffD1, THEN trans]) auto

definition room :: "'tx rpc_op \<Rightarrow> 'tx reverse_rpc_tracker \<Rightarrow> bool" where
  "room x t = (unat (rr_next_id t) + 1 < 2 ^ 64)"

lemma next_id_step: "room x t \<Longrightarrow>
    unat (rr_next_id (fst (rpc_step alive x t))) = unat (rr_next_id t) + length (sender_of x)"
  by (cases x) (simp_all add: room_def issue_def rpc_resolve_def rpc_cancel_all_def Let_def unat_bump [simplified]
      split: option.split)

lemma fst_id_step: "fst (id_step alive x t) = fst (rpc_step alive x t)"
  by (simp add: id_step_def)

lemma snd_id_step: "snd (id_step alive x t) = map (\<lambda>_. unat (rr_next_id t)) (sender_of x)"
  by (simp add: id_step_def)

interpretation ids: id_allocator "id_step alive" "\<lambda>t. unat (rr_next_id t)" room for alive :: "'tx \<Rightarrow> bool"
proof
  fix x :: "'tx rpc_op" and t :: "'tx reverse_rpc_tracker" and i
  assume r: "room x t"
  show "unat (rr_next_id t) \<le> unat (rr_next_id (fst (id_step alive x t)))"
    by (simp add: fst_id_step next_id_step [OF r])
  show "sorted_wrt (<) (snd (id_step alive x t))" by (cases x) (simp_all add: snd_id_step)
  show "i \<in> set (snd (id_step alive x t)) \<Longrightarrow>
         unat (rr_next_id t) \<le> i \<and> i < unat (rr_next_id (fst (id_step alive x t)))"
    unfolding fst_id_step next_id_step [OF r] snd_id_step by (cases x) simp_all
qed

lemma unat_of_nat_u64: "n \<le> u64_max \<Longrightarrow> unat (of_nat n :: u64) = n"
  by (simp add: u64_max_eq unsigned_of_nat take_bit_nat_eq_self)

text \<open>A run of fewer than \<open>2 ^ 64\<close> operations has room at every step, and its requests carry those identifiers.\<close>

lemma run_room: "unat (rr_next_id t) + length xs < 2 ^ 64 \<Longrightarrow> all_ok (id_step alive) room xs t"
proof (induction xs arbitrary: t)
  case (Cons x xs)
  then have r: "room x t" by (simp add: room_def)
  have "length (sender_of x) \<le> 1" by (cases x) auto
  then have "unat (rr_next_id (fst (rpc_step alive x t))) + length xs < 2 ^ 64"
    using Cons.prems next_id_step [OF r, of alive] by simp
  from Cons.IH [OF this] show ?case by (simp add: r fst_id_step)
qed simp

lemma run_requests:
  "map rq_id (fst (snd (rpc_run alive xs t))) =
   map (\<lambda>n. reverse_id (of_nat n)) (snd (run_ids (id_step alive) xs t))"
proof (induction xs arbitrary: t)
  case (Cons x xs)
  have "map rq_id (fst (snd (rpc_step alive x t))) = map (\<lambda>n. reverse_id (of_nat n)) (snd (id_step alive x t))"
    by (cases x) (simp_all add: snd_id_step issue_def request_new_def Let_def split: prod.split)
  then show ?case
    using Cons.IH [of "fst (rpc_step alive x t)"] by (simp add: case_prod_beta Let_def fst_id_step)
qed simp

lemma run_requests_distinct:
  assumes "length xs < 2 ^ 64"
  shows "distinct (map rq_id (fst (snd (rpc_run alive xs tracker_new))))"
proof -
  let ?ids = "snd (run_ids (id_step alive) xs tracker_new)"
  have ok: "all_ok (id_step alive) room xs tracker_new"
    using assms by (intro run_room) (simp add: tracker_new_def)
  have "inj_on (\<lambda>n. reverse_id (of_nat n)) (set ?ids)"
  proof (rule inj_onI)
    fix a b assume "a \<in> set ?ids" "b \<in> set ?ids" and eq: "reverse_id (of_nat a) = reverse_id (of_nat b)"
    then have "a \<le> u64_max" "b \<le> u64_max"
      using ids.run_ids_range [OF ok] unat_u64_le order.strict_implies_order order.trans by metis+
    moreover have "(of_nat a :: u64) = of_nat b" using eq by (simp only: reverse_id_inj)
    ultimately show "a = b" by (metis unat_of_nat_u64)
  qed
  then show ?thesis
    using ids.run_ids_distinct [OF ok] by (simp add: run_requests distinct_map)
qed

section \<open>Every call is settled at most once\<close>

text \<open>What is waiting: identifiers the counter has passed, each once, as are the senders.\<close>

definition tracker_ok :: "'tx reverse_rpc_tracker \<Rightarrow> bool" where
  "tracker_ok t = (distinct (map fst (rr_pending t)) \<and>
     (\<forall>i \<in> set (map fst (rr_pending t)). \<exists>n. i = reverse_id n \<and> unat n < unat (rr_next_id t)))"

lemma update_fresh_key: "k \<notin> fst ` set al \<Longrightarrow> AList.update k v al = al @ [(k, v)]"
  by (induction al) auto

lemma issue_fresh:
  assumes "tracker_ok t"
  shows "rr_pending (snd (issue m p tx t)) = rr_pending t @ [(reverse_id (rr_next_id t), tx)]"
proof -
  have "reverse_id (rr_next_id t) \<notin> fst ` set (rr_pending t)"
    using assms by (fastforce simp: tracker_ok_def reverse_id_inj)
  then show ?thesis by (simp add: issue_def Let_def update_fresh_key)
qed

lemma step_ok:
  assumes "tracker_ok t" "unat (rr_next_id t) + 1 < 2 ^ 64"
  shows "tracker_ok (fst (rpc_step alive x t))"
proof (cases x)
  case (Issue m p tx)
  have "rr_next_id (snd (issue m p tx t)) = rr_next_id t + 1" by (simp add: issue_def Let_def)
  moreover have "reverse_id (rr_next_id t) \<notin> fst ` set (rr_pending t)"
    using assms(1) by (fastforce simp: tracker_ok_def reverse_id_inj)
  ultimately show ?thesis
    using Issue assms issue_fresh [OF assms(1), of m p tx] unat_bump [OF assms(2)]
    by (force simp: tracker_ok_def split: prod.split)
next
  case (Resolve r)
  then show ?thesis
    using assms(1)
    by (auto simp: rpc_resolve_def Let_def tracker_ok_def AList.delete_eq intro!: distinct_map_filter split: option.split)
next
  case CancelAll
  then show ?thesis by (simp add: rpc_cancel_all_def tracker_ok_def)
qed

text \<open>One operation: whom it answers, whom it leaves waiting, and with what.\<close>

definition settled ::
    "('tx \<Rightarrow> bool) \<Rightarrow> (rpc_id \<times> 'tx) list \<Rightarrow> 'tx rpc_op list \<Rightarrow>
     'tx reverse_rpc_tracker \<times> request list \<times> ('tx \<times> reverse_rpc_result) list \<Rightarrow> bool" where
  "settled alive pend xs = (\<lambda>(t', rqs, ds).
     let known = pend @ zip (map rq_id rqs) (senders xs)
     in length rqs = length (senders xs) \<and>
        distinct (map fst ds @ map snd (rr_pending t')) \<and>
        set (rr_pending t') \<subseteq> set known \<and> fst ` set ds \<subseteq> snd ` set known \<and>
        (\<forall>tx \<in> snd ` set known. alive tx \<longrightarrow> tx \<in> fst ` set ds \<union> snd ` set (rr_pending t')) \<and>
        (\<forall>(tx, r) \<in> set ds. alive tx \<and>
           (r = Inl Cancelled \<or>
            (\<exists>resp. Resolve resp \<in> set xs \<and> (rs_id resp, tx) \<in> set known \<and> r = outcome_of resp))))"

lemma settledD:
  assumes "settled alive pend xs (t', rqs, ds)"
  shows "length rqs = length (senders xs)"
    and "distinct (map fst ds @ map snd (rr_pending t'))"
    and "set (rr_pending t') \<subseteq> set pend \<union> set (zip (map rq_id rqs) (senders xs))"
    and "fst ` set ds \<subseteq> snd ` set pend \<union> snd ` set (zip (map rq_id rqs) (senders xs))"
    and "tx \<in> snd ` set pend \<union> snd ` set (zip (map rq_id rqs) (senders xs)) \<Longrightarrow> alive tx \<Longrightarrow>
         tx \<in> fst ` set ds \<union> snd ` set (rr_pending t')"
    and "(tx, r) \<in> set ds \<Longrightarrow> alive tx \<and> (r = Inl Cancelled \<or>
         (\<exists>resp. Resolve resp \<in> set xs \<and>
           (rs_id resp, tx) \<in> set pend \<union> set (zip (map rq_id rqs) (senders xs)) \<and> r = outcome_of resp))"
proof -
  note s = assms [unfolded settled_def Let_def prod.case set_append image_Un]
  show "length rqs = length (senders xs)" using s by (rule conjunct1)
  note s = conjunct2 [OF s]
  show "distinct (map fst ds @ map snd (rr_pending t'))" using s by (rule conjunct1)
  note s = conjunct2 [OF s]
  show "set (rr_pending t') \<subseteq> set pend \<union> set (zip (map rq_id rqs) (senders xs))" using s by (rule conjunct1)
  note s = conjunct2 [OF s]
  show "fst ` set ds \<subseteq> snd ` set pend \<union> snd ` set (zip (map rq_id rqs) (senders xs))" using s by (rule conjunct1)
  note s = conjunct2 [OF s]
  show "tx \<in> fst ` set ds \<union> snd ` set (rr_pending t')"
    if "tx \<in> snd ` set pend \<union> snd ` set (zip (map rq_id rqs) (senders xs))" "alive tx"
    using conjunct1 [OF s, rule_format, OF that] .
  note s = conjunct2 [OF s]
  show "alive tx \<and> (r = Inl Cancelled \<or> (\<exists>resp. Resolve resp \<in> set xs \<and>
           (rs_id resp, tx) \<in> set pend \<union> set (zip (map rq_id rqs) (senders xs)) \<and> r = outcome_of resp))"
    if "(tx, r) \<in> set ds"
    using bspec [OF s that] unfolding prod.case .
qed

lemma step_settled:
  assumes "tracker_ok t" "distinct (map snd (rr_pending t) @ sender_of x)"
  shows "settled alive (rr_pending t) [x] (rpc_step alive x t)"
proof (cases x)
  case (Issue m p tx)
  have "rq_id (fst (issue m p tx t)) = reverse_id (rr_next_id t)" by (simp add: issue_def request_new_def Let_def)
  with Issue assms issue_fresh [OF assms(1), of m p tx] show ?thesis
    by (auto simp: settled_def senders_def split: prod.split)
next
  case (Resolve resp)
  have keys: "distinct (map fst (rr_pending t))" using assms(1) by (simp add: tracker_ok_def)
  show ?thesis
  proof (cases "map_of (rr_pending t) (rs_id resp)")
    case None
    with Resolve assms(2) show ?thesis by (auto simp: settled_def senders_def rpc_resolve_def)
  next
    case (Some tx)
    then have mem: "(rs_id resp, tx) \<in> set (rr_pending t)" by (rule map_of_SomeD)
    let ?rest = "AList.delete (rs_id resp) (rr_pending t)"
    have pend: "distinct (map snd (rr_pending t))" using assms(2) by simp
    have rest: "set ?rest = {p \<in> set (rr_pending t). fst p \<noteq> rs_id resp}"
      by (auto simp: AList.delete_eq)
    have one: "rpc_step alive x t =
        (t\<lparr>rr_pending := ?rest\<rparr>, [], if alive tx then [(tx, outcome_of resp)] else [])"
      using Resolve Some by (simp add: rpc_resolve_def Let_def)
    have "distinct (map snd ?rest)"
      using pend by (auto simp: AList.delete_eq intro: distinct_map_filter)
    moreover have "tx \<notin> snd ` set ?rest"
    proof
      assume "tx \<in> snd ` set ?rest"
      then obtain k where k: "(k, tx) \<in> set (rr_pending t)" "k \<noteq> rs_id resp" unfolding rest by auto
      have "inj_on snd (set (rr_pending t))" using pend by (simp add: distinct_map)
      from inj_onD [OF this _ k(1) mem] k(2) show False by simp
    qed
    moreover have "snd ` set (rr_pending t) \<subseteq> insert tx (snd ` set ?rest)"
    proof clarify
      fix k tx' assume p: "(k, tx') \<in> set (rr_pending t)" "snd (k, tx') \<notin> snd ` set ?rest"
      then have "k = rs_id resp" unfolding rest by force
      then show "snd (k, tx') = tx" using p(1) Some map_of_is_SomeI [OF keys] by fastforce
    qed
    moreover have "set ?rest \<subseteq> set (rr_pending t)" unfolding rest by blast
    moreover have "tx \<in> snd ` set (rr_pending t)" using mem by force
    ultimately show ?thesis
      unfolding one settled_def Let_def prod.case using Resolve mem
      by (auto simp: senders_def)
  qed
next
  case CancelAll
  have "distinct (map fst (map (\<lambda>(i, tx). (tx, Inl Cancelled :: reverse_rpc_result)) (filter (\<lambda>(i, tx). alive tx) (rr_pending t))))"
    using assms(2) by (simp add: comp_def case_prod_beta distinct_map_filter)
  with CancelAll show ?thesis
    by (auto simp: settled_def senders_def rpc_cancel_all_def Let_def case_prod_beta image_iff) force+
qed

lemma run_settled:
  assumes "tracker_ok t" "unat (rr_next_id t) + length xs < 2 ^ 64"
    and "distinct (map snd (rr_pending t) @ senders xs)"
  shows "settled alive (rr_pending t) xs (rpc_run alive xs t)"
  using assms
proof (induction xs arbitrary: t)
  case (Cons x xs)
  obtain t1 rq1 ds1 where one: "rpc_step alive x t = (t1, rq1, ds1)" by (cases "rpc_step alive x t")
  obtain t2 rq2 ds2 where more: "rpc_run alive xs t1 = (t2, rq2, ds2)" by (cases "rpc_run alive xs t1")
  let ?old = "set (rr_pending t)" and ?z1 = "set (zip (map rq_id rq1) (sender_of x))"
  have room: "room x t" using Cons.prems(2) by (simp add: room_def)
  have first: "settled alive (rr_pending t) [x] (t1, rq1, ds1)"
    using step_settled [of t x alive] Cons.prems one by (auto simp: senders_def)
  have z1: "snd ` ?z1 \<subseteq> set (sender_of x)" by (auto dest: set_zip_rightD)
  have single: "senders [x] = sender_of x" by (simp add: senders_def)
  note one1 = settledD [OF first, unfolded single]
  note len1 = one1(1) and kept = one1(3)
  then have kept': "snd ` set (rr_pending t1) \<subseteq> snd ` ?old \<union> snd ` ?z1" by (metis image_Un image_mono)
  have split1: "distinct (map fst ds1)" "distinct (map snd (rr_pending t1))"
    "fst ` set ds1 \<inter> snd ` set (rr_pending t1) = {}"
    using one1(2) by simp_all
  have new: "set (senders xs) \<inter> (snd ` ?old \<union> set (sender_of x)) = {}" "distinct (senders xs)"
    using Cons.prems(3) by (auto simp: senders_def)
  have "length (sender_of x) \<le> 1" by (cases x) auto
  then have bound: "unat (rr_next_id t1) + length xs < 2 ^ 64"
    using Cons.prems(2) next_id_step [OF room, of alive] one by simp
  have ok: "tracker_ok t1"
    using step_ok [of t alive x] Cons.prems(1) room one by (simp add: room_def)
  have "distinct (map snd (rr_pending t1) @ senders xs)"
    using split1(2) kept' z1 new by (simp only: distinct_append set_map) blast
  from Cons.IH [OF ok bound this] have "settled alive (rr_pending t1) xs (rpc_run alive xs t1)" .
  then have rest: "settled alive (rr_pending t1) xs (t2, rq2, ds2)" by (simp only: more)
  have zip: "zip (map rq_id (rq1 @ rq2)) (senders (x # xs)) =
      zip (map rq_id rq1) (sender_of x) @ zip (map rq_id rq2) (senders xs)"
    using len1 by (simp add: senders_def)
  let ?z2 = "set (zip (map rq_id rq2) (senders xs))"
  have z2: "snd ` ?z2 \<subseteq> set (senders xs)" by (auto dest: set_zip_rightD)
  note two = settledD [OF rest]
  have "snd ` set (rr_pending t2) \<subseteq> snd ` set (rr_pending t1) \<union> snd ` ?z2"
    using two(3) by (metis image_Un image_mono)
  then have "fst ` set ds2 \<union> snd ` set (rr_pending t2) \<subseteq> snd ` set (rr_pending t1) \<union> set (senders xs)"
    using two(4) z2 by (meson Un_least order.trans Un_mono order.refl)
  moreover have "fst ` set ds1 \<subseteq> snd ` ?old \<union> set (sender_of x)"
    using one1(4) z1 by (meson order.trans Un_mono order.refl)
  then have "fst ` set ds1 \<inter> set (senders xs) = {}" using new(1) by auto
  ultimately have apart: "fst ` set ds1 \<inter> (fst ` set ds2 \<union> snd ` set (rr_pending t2)) = {}"
    using split1(3) by (metis (no_types, lifting) Int_Un_distrib Int_mono order.refl subset_empty sup_bot.right_neutral)
  show ?case
    unfolding settled_def Let_def prod.case rpc_run.simps one more zip set_append image_Un
  proof (intro conjI ballI impI)
    show "length (rq1 @ rq2) = length (senders (x # xs))" using len1 two(1) by (simp add: senders_def)
    show "distinct (map fst (ds1 @ ds2) @ map snd (rr_pending t2))" using split1(1) two(2) apart by auto
    show "set (rr_pending t2) \<subseteq> ?old \<union> (?z1 \<union> ?z2)" using two(3) kept by blast
    show "fst ` set ds1 \<union> fst ` set ds2 \<subseteq> snd ` ?old \<union> (snd ` ?z1 \<union> snd ` ?z2)"
      using one1(4) two(4) kept' by blast
  next
    fix tx assume "tx \<in> snd ` ?old \<union> (snd ` ?z1 \<union> snd ` ?z2)" "alive tx"
    then show "tx \<in> fst ` set ds1 \<union> fst ` set ds2 \<union> snd ` set (rr_pending t2)"
      using one1(5) [of tx] two(5) [of tx] by blast
  next
    fix d assume "d \<in> set ds1 \<union> set ds2"
    moreover obtain tx r where d: "d = (tx, r)" by (cases d)
    ultimately show "case d of (tx, r) \<Rightarrow> alive tx \<and>
           (r = Inl Cancelled \<or> (\<exists>resp. Resolve resp \<in> set (x # xs) \<and>
             (rs_id resp, tx) \<in> ?old \<union> (?z1 \<union> ?z2) \<and> r = outcome_of resp))"
    proof (elim UnE)
      assume "d \<in> set ds1"
      with one1(6) [of tx r] have "alive tx \<and> (r = Inl Cancelled \<or> (\<exists>resp. Resolve resp \<in> {x} \<and>
          (rs_id resp, tx) \<in> ?old \<union> ?z1 \<and> r = outcome_of resp))" by (simp add: d)
      then show ?thesis unfolding d prod.case by auto
    next
      assume "d \<in> set ds2"
      with two(6) [of tx r] have "alive tx \<and> (r = Inl Cancelled \<or> (\<exists>resp. Resolve resp \<in> set xs \<and>
          (rs_id resp, tx) \<in> set (rr_pending t1) \<union> ?z2 \<and> r = outcome_of resp))" by (simp add: d)
      then show ?thesis using kept unfolding d prod.case by auto
    qed
  qed
qed (simp add: settled_def senders_def)

section \<open>Properties\<close>

text \<open>
  the requests a server sends carry distinct identifiers, and no caller is answered twice: each is
  answered with the outcome of a response that carries the identifier of its own request, or told that
  it was cancelled, or still waits. Only callers that went away are left without one of these.
\<close>
theorem reverse_calls_settle_once:
  assumes "length ops < 2 ^ 64" "distinct (senders ops)"
    and "rpc_run alive ops tracker_new = (t, rqs, ds)"
  shows "distinct (map rq_id rqs) \<and> length rqs = length (senders ops) \<and>
         distinct (map fst ds @ map snd (rr_pending t)) \<and>
         {tx \<in> set (senders ops). alive tx} \<subseteq> fst ` set ds \<union> snd ` set (rr_pending t) \<and>
         (\<forall>(tx, r) \<in> set ds. r = Inl Cancelled \<or>
            (\<exists>resp. Resolve resp \<in> set ops \<and> r = outcome_of resp \<and>
               (rs_id resp, tx) \<in> set (zip (map rq_id rqs) (senders ops))))"
proof -
  have "settled alive (rr_pending (tracker_new :: 'a reverse_rpc_tracker)) ops (rpc_run alive ops tracker_new)"
    using assms(1,2) by (intro run_settled) (simp_all add: tracker_ok_def tracker_new_def)
  then have s: "settled alive [] ops (t, rqs, ds)" by (simp only: assms(3)) (simp add: tracker_new_def)
  note known = settledD [OF s, simplified]
  have "snd ` set (zip (map rq_id rqs) (senders ops)) = set (senders ops)"
    using known(1) by (metis length_map map_snd_zip set_map)
  then have "{tx \<in> set (senders ops). alive tx} \<subseteq> fst ` set ds \<union> snd ` set (rr_pending t)"
    using settledD(5) [OF s] by auto
  moreover have "distinct (map rq_id rqs)"
    using run_requests_distinct [OF assms(1), of alive] by (simp add: assms(3))
  moreover have "\<forall>(tx, r) \<in> set ds. r = Inl Cancelled \<or>
      (\<exists>resp. Resolve resp \<in> set ops \<and> r = outcome_of resp \<and>
         (rs_id resp, tx) \<in> set (zip (map rq_id rqs) (senders ops)))"
    using settledD(6) [OF s] by fastforce
  ultimately show ?thesis using known(1) settledD(2) [OF s] by blast
qed

theorem reverse_calls_settle_once_witness:
  "\<exists>t rqs ds. rpc_run (\<lambda>_. True)
     [Issue ''a'' None 0, Issue ''b'' None (1::nat), Resolve (response_ok (reverse_id 0) json.Null), CancelAll] tracker_new =
     (t, rqs, ds) \<and> distinct (map rq_id rqs) \<and> ds = [(0, Inr json.Null), (1, Inl Cancelled)]"
proof -
  let ?ops = "[Issue ''a'' None 0, Issue ''b'' None (1::nat), Resolve (response_ok (reverse_id 0) json.Null), CancelAll]"
  obtain t rqs ds where run: "rpc_run (\<lambda>_. True) ?ops tracker_new = (t, rqs, ds)"
    by (cases "rpc_run (\<lambda>_. True) ?ops tracker_new")
  then have "ds = [(0, Inr json.Null), (1, Inl Cancelled)]"
    by (auto simp: issue_def rpc_resolve_def rpc_cancel_all_def tracker_new_def Let_def response_ok_def
        outcome_of_def reverse_id_inj)
  moreover have "distinct (map rq_id rqs)"
    using reverse_calls_settle_once [of ?ops "\<lambda>_. True" t rqs ds] run by (simp add: senders_def)
  ultimately show ?thesis using run by blast
qed

end
