(* ===== verification/Event_Forward.thy ===== *)
theory Event_Forward
  imports Rpc_Message Engine_Event
begin

text \<open>
  Engine events on the wire (\<open>zhive-core/src/server/events.rs\<close>, payloads of \<open>zhive-proto/src/events.rs\<close>):
  the notification of an event, the filter of a connection, and the forwarder task that pushes the
  allowed notifications into the connection's outbound queue. Serialising a payload is serde's
  business: \<open>to_value\<close> is a parameter, and \<open>None\<close> is its error.
\<close>

section \<open>Payloads\<close>

datatype turn_rejected_reason = EngineBusy engine_phase

datatype event_payload =
    TurnStartedPayload thread_id turn_id
  | TurnRejectedPayload thread_id turn_rejected_reason
  | TurnCompletedPayload thread_id turn_id
  | TurnFailedPayload thread_id turn_id turn_error
  | ItemAppendedPayload thread_id turn_id item_id item
  | ItemDeltaPayload thread_id turn_id string item_delta_kind
  | PhaseChangedPayload "thread_id option" engine_phase engine_phase
  | SessionAbortedNotification session_aborted_notification
  | PermissionRequestedPayload string request_permission_request
  | UsagePayload thread_id turn_id u64 u64
  | TurnSuspendedNotification thread_id turn_id string "string option" int
  | TurnResumedNotification thread_id turn_id int
  | ThreadForkedPayload thread_id thread_id "item_id option"
  | SubagentStartedPayload thread_id thread_id "string option" "string option"
  | SubagentCompletedPayload thread_id thread_id bool
  | CompactionStartedPayload thread_id compact_trigger u32
  | CompactionDeltaPayload thread_id string
  | CompactionCompletedPayload thread_id u32
  | CompactionFailedPayload thread_id string

section \<open>The notification of an event\<close>

primrec request_id_str :: "permission_request_id \<Rightarrow> string" where
  "request_id_str (PermissionRequestId s) = s"

text \<open>\<open>now\<close> is the clock the notifications of a suspended turn carry.\<close>

definition event_payload_of :: "int \<Rightarrow> engine_event \<Rightarrow> (string \<times> event_payload) option" where
  "event_payload_of now event =
     (case event of
        TurnStarted t u \<Rightarrow> Some (''events/turn_started'', TurnStartedPayload t u)
      | TurnRejected t reason \<Rightarrow>
          (case reason of turn_rejection_reason.EngineBusy current \<Rightarrow>
             Some (''events/turn_rejected'', TurnRejectedPayload t (EngineBusy current)))
      | TurnCompleted t u \<Rightarrow> Some (''events/turn_completed'', TurnCompletedPayload t u)
      | TurnFailed t u err \<Rightarrow> Some (''events/turn_failed'', TurnFailedPayload t u err)
      | ItemAppended t u it \<Rightarrow> Some (''events/item_appended'', ItemAppendedPayload t u (item_id_of it) it)
      | ItemDelta t u delta kind \<Rightarrow> Some (''events/item_delta'', ItemDeltaPayload t u delta kind)
      | PhaseChanged t old new \<Rightarrow> Some (''events/phase_changed'', PhaseChangedPayload t old new)
      | SessionAborted n \<Rightarrow> Some (''events/session_aborted'', SessionAbortedNotification n)
      | PermissionRequested rid request \<Rightarrow>
          Some (''events/permission_requested'', PermissionRequestedPayload (request_id_str rid) request)
      | Usage t u i out \<Rightarrow> Some (''events/usage'', UsagePayload t u i out)
      | TurnSuspended t u rid reason \<Rightarrow>
          Some (''events/turn_suspended'', TurnSuspendedNotification t u (request_id_str rid) reason now)
      | TurnResumed t u \<Rightarrow> Some (''events/turn_resumed'', TurnResumedNotification t u now)
      | ThreadForked old new i \<Rightarrow> Some (''events/thread_forked'', ThreadForkedPayload old new i)
      | SubagentStarted p c agent_type description \<Rightarrow>
          Some (''events/subagent_started'', SubagentStartedPayload p c agent_type description)
      | SubagentCompleted p c final \<Rightarrow>
          Some (''events/subagent_completed'', SubagentCompletedPayload p c (final \<noteq> None))
      | CompactionStarted t trigger entries \<Rightarrow>
          Some (''events/compaction_started'', CompactionStartedPayload t trigger entries)
      | CompactionDelta t delta \<Rightarrow> Some (''events/compaction_delta'', CompactionDeltaPayload t delta)
      | CompactionCompleted t n \<Rightarrow> Some (''events/compaction_completed'', CompactionCompletedPayload t n)
      | CompactionFailed t reason \<Rightarrow> Some (''events/compaction_failed'', CompactionFailedPayload t reason)
      | SavePoint _ _ \<Rightarrow> None
      | Restored _ _ _ _ \<Rightarrow> None)"

definition engine_event_to_notification ::
    "(event_payload \<Rightarrow> json option) \<Rightarrow> int \<Rightarrow> engine_event \<Rightarrow> notification option" where
  "engine_event_to_notification to_value now event =
     (case event_payload_of now event of
        None \<Rightarrow> None
      | Some (method, payload) \<Rightarrow>
          (case to_value payload of
             None \<Rightarrow> None
           | Some params \<Rightarrow> Some (notification_new method (Some params))))"

section \<open>The filter of a connection\<close>

record event_filter =
  ef_allowed :: "string set option"

definition filter_new :: event_filter where
  "filter_new = \<lparr>ef_allowed = None\<rparr>"

definition set_methods :: "string list \<Rightarrow> event_filter \<Rightarrow> event_filter" where
  "set_methods methods f = f\<lparr>ef_allowed := (if set methods = {} then None else Some (set methods))\<rparr>"

definition for_methods :: "string list \<Rightarrow> event_filter" where
  "for_methods methods = (if set methods = {} then filter_new else \<lparr>ef_allowed = Some (set methods)\<rparr>)"

definition allows_method :: "event_filter \<Rightarrow> string \<Rightarrow> bool" where
  "allows_method f method = (case ef_allowed f of None \<Rightarrow> True | Some s \<Rightarrow> method \<in> s)"

definition filter_reset :: "event_filter \<Rightarrow> event_filter" where
  "filter_reset f = f\<lparr>ef_allowed := None\<rparr>"

lemma for_methods_eq: "for_methods methods = set_methods methods f"
  by (cases f) (simp add: for_methods_def set_methods_def filter_new_def)

lemma allows_set_methods: "allows_method (set_methods ms f) m \<longleftrightarrow> ms = [] \<or> m \<in> set ms"
  by (auto simp: allows_method_def set_methods_def)

lemma allows_reset: "allows_method (filter_reset f) m"
  by (simp add: allows_method_def filter_reset_def)

section \<open>The forwarder\<close>

text \<open>What the forwarder does with one event it received: what it pushes, if anything.\<close>

definition forward_event ::
    "(event_payload \<Rightarrow> json option) \<Rightarrow> int \<Rightarrow> event_filter \<Rightarrow> engine_event \<Rightarrow> notification option" where
  "forward_event to_value now f event =
     (case engine_event_to_notification to_value now event of
        None \<Rightarrow> None
      | Some notif \<Rightarrow> (if allows_method f (nt_method notif) then Some notif else None))"

text \<open>
  The loop over what it wakes up to: an event, with the filter at that time and whether the push
  succeeds (it waits while the queue is full, and fails when the connection has closed it); the
  broadcast telling that events were missed; its end; the shutdown.
\<close>

datatype forward_wake = Event event_filter int engine_event bool | Lagged nat | Closed | Stopped

fun event_forwarder :: "(event_payload \<Rightarrow> json option) \<Rightarrow> forward_wake list \<Rightarrow> notification list \<times> bool" where
  "event_forwarder to_value [] = ([], True)"
| "event_forwarder to_value (Lagged n # ws) = event_forwarder to_value ws"
| "event_forwarder to_value (Closed # ws) = ([], False)"
| "event_forwarder to_value (Stopped # ws) = ([], False)"
| "event_forwarder to_value (Event f now event open # ws) =
     (case forward_event to_value now f event of
        None \<Rightarrow> event_forwarder to_value ws
      | Some notif \<Rightarrow>
          (if open then (case event_forwarder to_value ws of (ns, running) \<Rightarrow> (notif # ns, running))
           else ([], False)))"

end
