(* ===== verification/Server.thy ===== *)
theory Server
  imports Reverse_Rpc Event_Forward Framing
begin

text \<open>
  A client connection of the JSON-RPC server: the method router (\<open>zhive-core/src/server/router.rs\<close>), the
  handshake (\<open>initialize.rs\<close>), the message loop (\<open>serve_loop.rs\<close>) and the event forwarder that shares
  the connection's filter and outbound queue with it (\<open>spawn_connection\<close> in \<open>server.rs\<close>). Handlers are
  functions on a shared state; what else they depend on is the world of their call. Decoding and
  encoding JSON values is serde's business and collected in a record of parameters.
\<close>

section \<open>Router\<close>

type_synonym ('w, 's) handler = "'w \<Rightarrow> json option \<Rightarrow> 's \<Rightarrow> (json, error_object) rust_result \<times> 's"

record ('w, 's) router =
  ro_handlers :: "string \<rightharpoonup> ('w, 's) handler"

definition router_new :: "('w, 's) router" where
  "router_new = \<lparr>ro_handlers = Map.empty\<rparr>"

definition router_register :: "string \<Rightarrow> ('w, 's) handler \<Rightarrow> ('w, 's) router \<Rightarrow> ('w, 's) router" where
  "router_register method handler r = r\<lparr>ro_handlers := (ro_handlers r)(method \<mapsto> handler)\<rparr>"

definition router_dispatch ::
    "('w, 's) router \<Rightarrow> 'w \<Rightarrow> string \<Rightarrow> json option \<Rightarrow> 's \<Rightarrow> (json, error_object) rust_result \<times> 's" where
  "router_dispatch r w method params s =
     (case ro_handlers r method of
        None \<Rightarrow> (Inl (error_object_of MethodNotFound), s)
      | Some handler \<Rightarrow> handler w params s)"

section \<open>Handshake\<close>

type_synonym protocol_version = "16 word"

definition V0 :: protocol_version where "V0 = 0"

definition LATEST :: protocol_version where "LATEST = 1"

record implementation =
  im_name :: string
  im_title :: "string option"
  im_version :: string

record streaming_capability =
  st_steer :: bool
  st_follow_up :: bool
  st_next_turn :: bool

record capabilities =
  ca_hooks :: bool
  ca_subagents :: bool
  ca_streaming :: streaming_capability
  ca_cancellation :: bool
  ca_permission :: bool
  ca_extension :: bool
  ca_experimental_api :: bool
  ca_opt_out_notification_methods :: "string list option"
  ca_meta :: "json option"

record initialize_request =
  ir_protocol_version :: protocol_version
  ir_client_capabilities :: capabilities
  ir_client_info :: implementation
  ir_meta :: "json option"

record initialize_response =
  ip_protocol_version :: protocol_version
  ip_server_capabilities :: capabilities
  ip_server_info :: implementation
  ip_meta :: "json option"

text \<open>The version of the package is set when the program is built.\<close>

definition server_identity :: "string \<Rightarrow> implementation" where
  "server_identity version =
     \<lparr>im_name = ''zhive'', im_title = Some ''Zhive Agent Runtime'', im_version = version\<rparr>"

definition server_capabilities :: capabilities where
  "server_capabilities =
     \<lparr>ca_hooks = True, ca_subagents = True,
      ca_streaming = \<lparr>st_steer = True, st_follow_up = True, st_next_turn = True\<rparr>,
      ca_cancellation = True, ca_permission = True, ca_extension = False, ca_experimental_api = False,
      ca_opt_out_notification_methods = None, ca_meta = None\<rparr>"

datatype init_result = Accept initialize_response | Reject error_object | AlreadyInitialized error_object

definition handle_initialize :: "string \<Rightarrow> initialize_request \<Rightarrow> bool \<Rightarrow> init_result" where
  "handle_initialize version req already_initialized =
     (if already_initialized
      then init_result.AlreadyInitialized (error_object_of json_rpc_code.AlreadyInitialized)
      else if ir_protocol_version req > LATEST
      then Reject (error_object_of ProtocolVersionUnsupported
             \<lparr>eo_data := Some (Object
                [(''supported'', Array [json_nat (unat V0), json_nat (unat LATEST)]),
                 (''requested'', json_nat (unat (ir_protocol_version req)))])\<rparr>)
      else Accept \<lparr>ip_protocol_version = min (ir_protocol_version req) LATEST,
                   ip_server_capabilities = server_capabilities,
                   ip_server_info = server_identity version, ip_meta = None\<rparr>)"

definition not_initialized_error :: error_object where
  "not_initialized_error = error_object_of ServerNotInitialized"

section \<open>Requests\<close>

text \<open>What the connection leaves to serde, and the version of the package.\<close>

record codec =
  co_initialize :: "json \<Rightarrow> (initialize_request, string) rust_result"
  co_init_response :: "initialize_response \<Rightarrow> json"
  co_subscribe :: "json \<Rightarrow> (string list option, string) rust_result"
  co_payload :: "event_payload \<Rightarrow> json option"
  co_version :: string

text \<open>
  A connection. \<open>cn_queue\<close> is the outbound channel, \<open>cn_busy\<close> the message the loop is dispatching,
  \<open>cn_forwarding\<close> whether the forwarder task still runs, \<open>cn_held\<close> the
  notification it is about to push, for which it may wait while the queue is full. What has passed is kept as history: the
  messages read and written, the events the forwarder took with the filter it saw, the answers handed
  to callers of reverse requests.
\<close>

record ('tx, 's) conn =
  cn_initialized :: bool
  cn_filter :: "event_filter option"
  cn_tracker :: "'tx reverse_rpc_tracker option"
  cn_state :: 's
  cn_queue :: "message list"
  cn_outbound :: bool
  cn_forwarding :: bool
  cn_held :: "notification option"
  cn_busy :: "message option"
  cn_open :: bool
  cn_received :: "message list"
  cn_sent :: "message list"
  cn_events :: "(event_filter \<times> int \<times> engine_event) list"
  cn_settled :: "('tx \<times> reverse_rpc_result) list"

definition build_initialize_response ::
    "codec \<Rightarrow> rpc_id \<Rightarrow> (initialize_request, string) rust_result \<Rightarrow> bool \<Rightarrow> response \<times> bool" where
  "build_initialize_response cd i parsed initialized =
     (case parsed of
        Inl msg \<Rightarrow> (response_err i (invalid_params msg), initialized)
      | Inr req \<Rightarrow>
          (case handle_initialize (co_version cd) req initialized of
             Accept resp \<Rightarrow> (response_ok i (co_init_response cd resp), True)
           | Reject err \<Rightarrow> (response_err i err, initialized)
           | init_result.AlreadyInitialized err \<Rightarrow> (response_err i err, initialized)))"

definition route ::
    "('w, 's) router \<Rightarrow> 'w \<Rightarrow> request \<Rightarrow> ('tx, 's) conn \<Rightarrow> response \<times> ('tx, 's) conn" where
  "route router w req c =
     (case router_dispatch router w (rq_method req) (rq_params req) (cn_state c) of
        (Inr val, s) \<Rightarrow> (response_ok (rq_id req) val, c\<lparr>cn_state := s\<rparr>)
      | (Inl err, s) \<Rightarrow> (response_err (rq_id req) err, c\<lparr>cn_state := s\<rparr>))"

definition dispatch_request ::
    "codec \<Rightarrow> ('w, 's) router \<Rightarrow> 'w \<Rightarrow> request \<Rightarrow> ('tx, 's) conn \<Rightarrow> response \<times> ('tx, 's) conn" where
  "dispatch_request cd router w req c =
     (let i = rq_id req
      in if rq_method req = ''initialize''
         then (case build_initialize_response cd i (co_initialize cd (case rq_params req of None \<Rightarrow> json.Null | Some v \<Rightarrow> v))
                      (cn_initialized c) of
                 (response, initialized) \<Rightarrow> (response, c\<lparr>cn_initialized := initialized\<rparr>))
         else if \<not> cn_initialized c then (response_err i not_initialized_error, c)
         else (case cn_filter c of
                 Some f \<Rightarrow>
                   (if rq_method req = ''events/subscribe''
                    then (case (case rq_params req of None \<Rightarrow> Inr None | Some v \<Rightarrow> co_subscribe cd v) of
                            Inl msg \<Rightarrow> (response_err i (invalid_params msg), c)
                          | Inr methods \<Rightarrow>
                              (response_ok i (Object []),
                               c\<lparr>cn_filter := Some (set_methods (case methods of None \<Rightarrow> [] | Some ms \<Rightarrow> ms) f)\<rparr>))
                    else if rq_method req = ''events/unsubscribe''
                    then (response_ok i (Object []), c\<lparr>cn_filter := Some (filter_reset f)\<rparr>)
                    else route router w req c)
               | None \<Rightarrow> route router w req c))"

definition dispatch_message ::
    "codec \<Rightarrow> ('w, 's) router \<Rightarrow> ('tx \<Rightarrow> bool) \<Rightarrow> 'w \<Rightarrow> message \<Rightarrow> ('tx, 's) conn \<Rightarrow>
     response option \<times> ('tx, 's) conn" where
  "dispatch_message cd router alive w msg c =
     (case msg of
        Request req \<Rightarrow> (case dispatch_request cd router w req c of (r, c') \<Rightarrow> (Some r, c'))
      | Notification n \<Rightarrow>
          (if nt_method n = ''initialized'' \<or> \<not> cn_initialized c then (None, c)
           else (case router_dispatch router w (nt_method n) (nt_params n) (cn_state c) of
                   (_, s) \<Rightarrow> (None, c\<lparr>cn_state := s\<rparr>)))
      | Response resp \<Rightarrow>
          (case cn_tracker c of
             None \<Rightarrow> (None, c)
           | Some t \<Rightarrow>
               (case rpc_resolve alive resp t of
                  (_, t', ds) \<Rightarrow> (None, c\<lparr>cn_tracker := Some t', cn_settled := cn_settled c @ ds\<rparr>))))"

section \<open>The loop and the forwarder\<close>

definition DEFAULT_OUTBOUND_QUEUE_CAP :: nat where
  "DEFAULT_OUTBOUND_QUEUE_CAP = 256"

text \<open>\<open>spawn_connection\<close>: with an engine there is a filter, an outbound queue and a forwarder.\<close>

definition connection_new :: "bool \<Rightarrow> 's \<Rightarrow> ('tx, 's) conn" where
  "connection_new with_events s =
     \<lparr>cn_initialized = False, cn_filter = (if with_events then Some filter_new else None),
      cn_tracker = None, cn_state = s, cn_queue = [], cn_outbound = with_events,
      cn_forwarding = with_events, cn_held = None, cn_busy = None, cn_open = True, cn_received = [], cn_sent = [],
      cn_events = [], cn_settled = []\<rparr>"

text \<open>
  What can happen next. The select of the loop prefers the shutdown, then the outbound queue, then the
  transport; between two selects the loop dispatches one message, while the forwarder goes on. The
  flag of a sending action says whether the transport took the message.
\<close>

datatype 'w action =
    Forward int engine_event
  | Missed nat
  | Push
  | ForwarderStops
  | Shutdown
  | OutboundClosed
  | SendOutbound bool
  | Read message
  | ReadEof
  | ReadFailed
  | Dispatch 'w bool

definition idle :: "('tx, 's) conn \<Rightarrow> bool" where
  "idle c = (cn_open c \<and> cn_busy c = None)"

definition write_out :: "message option \<Rightarrow> bool \<Rightarrow> ('tx, 's) conn \<Rightarrow> ('tx, 's) conn" where
  "write_out m ok c =
     (case m of
        None \<Rightarrow> c
      | Some m \<Rightarrow> (if ok then c\<lparr>cn_sent := cn_sent c @ [m]\<rparr> else c\<lparr>cn_open := False\<rparr>))"

text \<open>One step of a connection; \<open>None\<close>: the action cannot happen now.\<close>

fun conn_step ::
    "codec \<Rightarrow> ('w, 's) router \<Rightarrow> ('tx \<Rightarrow> bool) \<Rightarrow> 'w action \<Rightarrow> ('tx, 's) conn \<Rightarrow> ('tx, 's) conn option" where
  "conn_step cd router alive (Forward now event) c =
     (case cn_filter c of
        None \<Rightarrow> None
      | Some f \<Rightarrow>
          (if \<not> cn_forwarding c \<or> cn_held c \<noteq> None then None
           else Some (c\<lparr>cn_events := cn_events c @ [(f, now, event)],
                        cn_held := forward_event (co_payload cd) now f event\<rparr>)))"
| "conn_step cd router alive (Missed n) c =
     (if cn_forwarding c \<and> cn_held c = None then Some c else None)"
| "conn_step cd router alive Push c =
     (case cn_held c of
        None \<Rightarrow> None
      | Some n \<Rightarrow>
          (if \<not> cn_open c then Some (c\<lparr>cn_forwarding := False, cn_held := None\<rparr>)
           else if length (cn_queue c) < DEFAULT_OUTBOUND_QUEUE_CAP
           then Some (c\<lparr>cn_queue := cn_queue c @ [Notification n], cn_held := None\<rparr>)
           else None))"
| "conn_step cd router alive ForwarderStops c =
     (if cn_forwarding c \<and> cn_held c = None then Some (c\<lparr>cn_forwarding := False\<rparr>) else None)"
| "conn_step cd router alive Shutdown c =
     (if idle c then Some (c\<lparr>cn_open := False\<rparr>) else None)"
| "conn_step cd router alive OutboundClosed c =
     (if idle c \<and> cn_outbound c \<and> \<not> cn_forwarding c \<and> cn_queue c = []
      then Some (c\<lparr>cn_outbound := False\<rparr>) else None)"
| "conn_step cd router alive (SendOutbound ok) c =
     (if idle c \<and> cn_outbound c
      then (case cn_queue c of
              [] \<Rightarrow> None
            | m # ms \<Rightarrow> Some (write_out (Some m) ok (c\<lparr>cn_queue := ms\<rparr>)))
      else None)"
| "conn_step cd router alive (Read m) c =
     (if idle c \<and> cn_queue c = []
      then Some (c\<lparr>cn_busy := Some m, cn_received := cn_received c @ [m]\<rparr>) else None)"
| "conn_step cd router alive ReadEof c =
     (if idle c \<and> cn_queue c = [] then Some (c\<lparr>cn_open := False\<rparr>) else None)"
| "conn_step cd router alive ReadFailed c =
     (if idle c \<and> cn_queue c = [] then Some (c\<lparr>cn_open := False\<rparr>) else None)"
| "conn_step cd router alive (Dispatch w ok) c =
     (case cn_busy c of
        None \<Rightarrow> None
      | Some m \<Rightarrow>
          (case dispatch_message cd router alive w m (c\<lparr>cn_busy := None\<rparr>) of
             (r, c') \<Rightarrow> Some (write_out (map_option Response r) ok c')))"

fun conn_run ::
    "codec \<Rightarrow> ('w, 's) router \<Rightarrow> ('tx \<Rightarrow> bool) \<Rightarrow> 'w action list \<Rightarrow> ('tx, 's) conn \<Rightarrow> ('tx, 's) conn option" where
  "conn_run cd router alive [] c = Some c"
| "conn_run cd router alive (a # as) c =
     (case conn_step cd router alive a c of None \<Rightarrow> None | Some c' \<Rightarrow> conn_run cd router alive as c')"

lemma conn_run_inv:
  assumes "conn_run cd router alive as c = Some c'" "P c"
    and "\<And>a c c'. conn_step cd router alive a c = Some c' \<Longrightarrow> P c \<Longrightarrow> P c'"
  shows "P c'"
  using assms(1,2) by (induction as arbitrary: c) (auto split: option.splits intro: assms(3))

section \<open>One request\<close>

fun requests :: "message list \<Rightarrow> request list" where
  "requests [] = []"
| "requests (Request q # ms) = q # requests ms"
| "requests (_ # ms) = requests ms"

fun responses :: "message list \<Rightarrow> response list" where
  "responses [] = []"
| "responses (Response r # ms) = r # responses ms"
| "responses (_ # ms) = responses ms"

fun notifications :: "message list \<Rightarrow> notification list" where
  "notifications [] = []"
| "notifications (Notification n # ms) = n # notifications ms"
| "notifications (_ # ms) = notifications ms"

lemma requests_append [simp]: "requests (a @ b) = requests a @ requests b"
  by (induction a rule: requests.induct) auto

lemma responses_append [simp]: "responses (a @ b) = responses a @ responses b"
  by (induction a rule: responses.induct) auto

lemma notifications_append [simp]: "notifications (a @ b) = notifications a @ notifications b"
  by (induction a rule: notifications.induct) auto

text \<open>Dispatching touches the handshake flag, the filter, the tracker and the shared state only.\<close>

definition same_io :: "('tx, 's) conn \<Rightarrow> ('tx, 's) conn \<Rightarrow> bool" where
  "same_io c c' = (cn_queue c' = cn_queue c \<and> cn_outbound c' = cn_outbound c \<and>
     cn_forwarding c' = cn_forwarding c \<and> cn_held c' = cn_held c \<and> cn_busy c' = cn_busy c \<and>
     cn_open c' = cn_open c \<and> cn_received c' = cn_received c \<and> cn_sent c' = cn_sent c \<and>
     cn_events c' = cn_events c)"

lemma same_io_refl: "same_io c c"
  by (simp add: same_io_def)

lemma route_io: "route router w req c = (r, c') \<Longrightarrow> same_io c c' \<and> rs_id r = rq_id req \<and>
    cn_initialized c' = cn_initialized c"
  by (auto simp: route_def same_io_def response_ok_def response_err_def split: prod.splits sum.splits)

lemma build_initialize_id: "build_initialize_response cd i parsed b = (r, b') \<Longrightarrow> rs_id r = i"
  by (auto simp: build_initialize_response_def response_ok_def response_err_def split: sum.splits init_result.splits)

lemma dispatch_request_io:
  "dispatch_request cd router w req c = (r, c') \<Longrightarrow> same_io c c' \<and> rs_id r = rq_id req"
  by (auto simp: dispatch_request_def Let_def same_io_refl dest!: route_io build_initialize_id
      split: if_splits prod.splits option.splits sum.splits)
    (auto simp: same_io_def response_ok_def response_err_def)

lemma dispatch_message_io:
  "dispatch_message cd router alive w m c = (r, c') \<Longrightarrow>
   same_io c c' \<and> map rs_id (case r of None \<Rightarrow> [] | Some r \<Rightarrow> [r]) = map rq_id (requests [m])"
  by (auto simp: dispatch_message_def same_io_refl dest!: dispatch_request_io
      split: message.splits prod.splits option.splits if_splits)
    (auto simp: same_io_def)

section \<open>What has passed\<close>

text \<open>The requests in order, and the notifications in order; nothing is missing while the connection is open.\<close>

definition to_list :: "'a option \<Rightarrow> 'a list" where
  "to_list x = (case x of None \<Rightarrow> [] | Some y \<Rightarrow> [y])"

lemma to_list_simps [simp]: "to_list None = []" "to_list (Some x) = [x]"
  by (simp_all add: to_list_def)

definition forwarded :: "codec \<Rightarrow> (event_filter \<times> int \<times> engine_event) list \<Rightarrow> notification list" where
  "forwarded cd evs = concat (map (\<lambda>(f, now, ev). to_list (forward_event (co_payload cd) now f ev)) evs)"

lemma forwarded_snoc [simp]:
  "forwarded cd (evs @ [(f, now, ev)]) = forwarded cd evs @ to_list (forward_event (co_payload cd) now f ev)"
  by (simp add: forwarded_def)

definition io_inv :: "codec \<Rightarrow> ('tx, 's) conn \<Rightarrow> bool" where
  "io_inv cd c =
     (list_all (\<lambda>m. \<exists>n. m = Notification n) (cn_queue c) \<and>
      length (cn_queue c) \<le> DEFAULT_OUTBOUND_QUEUE_CAP \<and>
      (cn_open c \<or> cn_busy c = None) \<and>
      (\<forall>m. cn_busy c = Some m \<longrightarrow> (\<exists>before. cn_received c = before @ [m])) \<and>
      (\<exists>lost. map rq_id (requests (cn_received c)) =
          map rs_id (responses (cn_sent c)) @ lost @ map rq_id (requests (to_list (cn_busy c))) \<and>
          (cn_open c \<longrightarrow> lost = []) \<and> length lost \<le> 1) \<and>
      (\<exists>lost. forwarded cd (cn_events c) = notifications (cn_sent c) @ lost \<and>
          (cn_open c \<longrightarrow> lost = notifications (cn_queue c) @ to_list (cn_held c))))"

lemma io_inv_new: "io_inv cd (connection_new b s)"
  by (simp add: io_inv_def connection_new_def forwarded_def)

lemma io_inv_dispatch:
  assumes "io_inv cd c" "cn_busy c = Some m"
    and "dispatch_message cd router alive w m (c\<lparr>cn_busy := None\<rparr>) = (r, c')"
  shows "io_inv cd (write_out (map_option Response r) ok c')"
proof -
  have io: "same_io (c\<lparr>cn_busy := None\<rparr>) c'" and ids: "map rs_id (to_list r) = map rq_id (requests [m])"
    using dispatch_message_io [OF assms(3)] by (simp_all add: to_list_def split: option.splits)
  have "cn_open c" using assms(1,2) by (simp add: io_inv_def)
  then show ?thesis
    using assms(1,2) io ids by (cases r) (auto simp: io_inv_def same_io_def write_out_def)
qed

lemma io_inv_step: "conn_step cd router alive a c = Some c' \<Longrightarrow> io_inv cd c \<Longrightarrow> io_inv cd c'"
proof (cases a)
  case (Dispatch w ok)
  assume "conn_step cd router alive a c = Some c'" "io_inv cd c"
  with Dispatch show ?thesis
    by (auto split: option.splits prod.splits intro: io_inv_dispatch)
next
  case (SendOutbound ok)
  assume "conn_step cd router alive a c = Some c'" "io_inv cd c"
  with SendOutbound show ?thesis
    by (auto simp: io_inv_def idle_def write_out_def split: option.splits list.splits if_splits)
qed (auto simp: io_inv_def idle_def split: option.splits if_splits)

section \<open>The handshake\<close>

definition exchanges :: "('tx, 's) conn \<Rightarrow> (request \<times> response) list" where
  "exchanges c = zip (requests (cn_received c)) (responses (cn_sent c))"

definition accepted :: "('tx, 's) conn \<Rightarrow> (request \<times> response) list" where
  "accepted c = filter (\<lambda>(q, r). rq_method q = ''initialize'' \<and> (\<exists>v. rs_outcome r = Result v))
     (exchanges c)"

text \<open>The answer a request gets before the handshake is done.\<close>

definition gated :: "request \<times> response \<Rightarrow> bool" where
  "gated = (\<lambda>(q, r). \<exists>e. rs_outcome r = response_outcome.Error e \<and>
     (if rq_method q = ''initialize'' then eo_code e \<in> {-32602, -32001} else e = not_initialized_error))"

definition handshake_inv :: "'s \<Rightarrow> ('tx, 's) conn \<Rightarrow> bool" where
  "handshake_inv s0 c =
     (length (accepted c) \<le> (if cn_initialized c then 1 else 0) \<and>
      (\<not> cn_initialized c \<longrightarrow> cn_state c = s0 \<and>
         list_all gated (exchanges c)))"

lemma initialize_once:
  assumes "build_initialize_response cd i parsed b = (r, b')"
  shows "(if b' \<noteq> b then \<not> b \<and> b' \<and> (\<exists>v. rs_outcome r = Result v)
          else (\<exists>e. rs_outcome r = response_outcome.Error e \<and> (\<not> b \<longrightarrow> eo_code e \<in> {-32602, -32001})))"
  using assms
  by (auto simp: build_initialize_response_def response_ok_def response_err_def handle_initialize_def
      invalid_params_def error_object_of_def split: sum.splits if_splits)

lemma dispatch_request_gate:
  assumes "dispatch_request cd router w req c = (r, c')"
  shows "if cn_initialized c then cn_initialized c' \<and> \<not> (rq_method req = ''initialize'' \<and> (\<exists>v. rs_outcome r = Result v))
         else cn_state c' = cn_state c \<and>
              (if cn_initialized c' then rq_method req = ''initialize'' \<and> (\<exists>v. rs_outcome r = Result v)
               else gated (req, r))"
proof (cases "rq_method req = ''initialize''")
  case True
  with assms obtain params b' where b: "build_initialize_response cd (rq_id req) params (cn_initialized c) = (r, b')"
    and c': "c' = c\<lparr>cn_initialized := b'\<rparr>"
    by (auto simp: dispatch_request_def Let_def split: prod.splits)
  then have "cn_initialized c' = b'" "cn_state c' = cn_state c" by simp_all
  then show ?thesis
    using initialize_once [OF b] True by (auto simp: gated_def split: if_splits)
next
  case False
  show ?thesis
  proof (cases "cn_initialized c")
    case False
    with \<open>rq_method req \<noteq> _\<close> assms show ?thesis
      by (auto simp: dispatch_request_def Let_def gated_def response_err_def)
  next
    case True
    with False assms show ?thesis
      by (auto simp: dispatch_request_def Let_def dest!: route_io split: option.splits if_splits sum.splits)
  qed
qed

text \<open>Requests read and responses sent line up: at most the request being dispatched has none.\<close>

lemma answered_when_idle:
  assumes "io_inv cd c" "cn_open c" "cn_busy c = None"
  shows "length (requests (cn_received c)) = length (responses (cn_sent c))"
proof -
  have "map rq_id (requests (cn_received c)) = map rs_id (responses (cn_sent c))"
    using assms by (auto simp: io_inv_def)
  then show ?thesis by (metis length_map)
qed

lemma answered_when_busy:
  assumes "io_inv cd c" "cn_busy c = Some m"
  obtains before where "cn_received c = before @ [m]"
    and "length (requests before) = length (responses (cn_sent c))"
proof -
  obtain before where b: "cn_received c = before @ [m]" using assms by (auto simp: io_inv_def)
  have "cn_open c" using assms by (auto simp: io_inv_def)
  then have "map rq_id (requests before) = map rs_id (responses (cn_sent c))"
    using assms b by (cases m) (auto simp: io_inv_def)
  then have "length (requests before) = length (responses (cn_sent c))" by (metis length_map)
  with b that show ?thesis by blast
qed

lemma exchanges_read:
  "io_inv cd c \<Longrightarrow> idle c \<Longrightarrow>
   exchanges (c\<lparr>cn_busy := Some m, cn_received := cn_received c @ [m]\<rparr>) = exchanges c"
  using answered_when_idle [of cd c] by (simp add: exchanges_def idle_def zip_append1)

lemma exchanges_notify: "exchanges (c\<lparr>cn_sent := cn_sent c @ [Notification n]\<rparr>) = exchanges c"
  by (simp add: exchanges_def)

lemma exchanges_answer:
  assumes "io_inv cd c" "cn_busy c = Some (Request q)"
    and "cn_received c' = cn_received c" "cn_sent c' = cn_sent c @ [Response r]"
  shows "exchanges c' = exchanges c @ [(q, r)]"
proof -
  obtain before where "cn_received c = before @ [Request q]"
    and "length (requests before) = length (responses (cn_sent c))"
    by (rule answered_when_busy [OF assms(1,2)])
  then show ?thesis using assms(3,4) by (simp add: exchanges_def zip_append1)
qed

lemma gated_error: "gated (q, r) \<Longrightarrow> rs_outcome r \<noteq> Result v"
  by (auto simp: gated_def)

lemma handshake_dispatch:
  assumes "io_inv cd c" "handshake_inv s0 c" "cn_busy c = Some m"
    and d: "dispatch_message cd router alive w m (c\<lparr>cn_busy := None\<rparr>) = (r, c1)"
  shows "handshake_inv s0 (write_out (map_option Response r) ok c1)"
proof (cases m)
  case (Request q)
  then obtain resp where q: "dispatch_request cd router w q (c\<lparr>cn_busy := None\<rparr>) = (resp, c1)" "r = Some resp"
    using d by (auto simp: dispatch_message_def split: prod.splits)
  have io: "cn_received c1 = cn_received c" "cn_sent c1 = cn_sent c"
    using dispatch_request_io [OF q(1)] by (simp_all add: same_io_def)
  note gate = dispatch_request_gate [OF q(1), simplified]
  show ?thesis
  proof (cases ok)
    case True
    let ?c' = "c1\<lparr>cn_sent := cn_sent c @ [Response resp]\<rparr>"
    have "write_out (map_option Response r) ok c1 = ?c'" using True q(2) io by (simp add: write_out_def)
    moreover have "exchanges ?c' = exchanges c @ [(q, resp)]"
      by (rule exchanges_answer [OF assms(1)]) (use assms(3) Request io in simp_all)
    ultimately show ?thesis
      using assms(2) gate by (auto simp: handshake_inv_def accepted_def gated_error split: if_splits)
  next
    case False
    have "exchanges (c1\<lparr>cn_open := False\<rparr>) = exchanges c" using io by (simp add: exchanges_def)
    then show ?thesis
      using assms(2) gate False q(2)
      by (auto simp: handshake_inv_def accepted_def write_out_def split: if_splits)
  qed
next
  case (Notification n)
  then show ?thesis
    using assms(2) d
    by (auto simp: dispatch_message_def handshake_inv_def accepted_def exchanges_def write_out_def
        split: prod.splits if_splits)
next
  case (Response resp)
  then show ?thesis
    using assms(2) d
    by (auto simp: dispatch_message_def handshake_inv_def accepted_def exchanges_def write_out_def
        split: prod.splits option.splits)
qed

lemma handshake_step:
  assumes "conn_step cd router alive a c = Some c'" "io_inv cd c" "handshake_inv s0 c"
  shows "handshake_inv s0 c'"
proof -
  have same: "handshake_inv s0 d" if "exchanges d = exchanges c" "cn_initialized d = cn_initialized c"
    "cn_state d = cn_state c" for d
    using assms(3) that by (simp add: handshake_inv_def accepted_def)
  have outbound: "\<exists>n. m = Notification n" if "m \<in> set (cn_queue c)" for m
    using assms(2) that by (auto simp: io_inv_def list_all_iff)
  show ?thesis
  proof (cases a)
    case (Dispatch w ok)
    then obtain m where busy: "cn_busy c = Some m" using assms(1) by (auto split: option.splits)
    with Dispatch assms(1) show ?thesis
      by (auto split: prod.splits intro: handshake_dispatch [OF assms(2,3) busy])
  next
    case (SendOutbound ok)
    then obtain m ms where c': "cn_queue c = m # ms" "c' = write_out (Some m) ok (c\<lparr>cn_queue := ms\<rparr>)"
      using assms(1) by (auto split: list.splits if_splits)
    with outbound obtain n where "m = Notification n" by auto
    then show ?thesis using c'(2) by (auto simp: write_out_def exchanges_def intro!: same)
  next
    case (Read m)
    then show ?thesis using assms(1) exchanges_read [OF assms(2)]
      by (auto intro!: same split: if_splits)
  qed (use assms(1) in \<open>auto simp: exchanges_def intro!: same split: option.splits if_splits\<close>)
qed

lemma both_inv_run:
  assumes "conn_run cd router alive as (connection_new b s0) = Some c"
  shows "io_inv cd c \<and> handshake_inv s0 c"
proof (rule conn_run_inv [OF assms])
  show "io_inv cd (connection_new b s0) \<and> handshake_inv s0 (connection_new b s0)"
    using io_inv_new [of cd b s0]
    by (simp add: handshake_inv_def accepted_def exchanges_def connection_new_def)
next
  fix a c c' assume step: "conn_step cd router alive a c = Some c'" and inv: "io_inv cd c \<and> handshake_inv s0 c"
  show "io_inv cd c' \<and> handshake_inv s0 c'"
    using io_inv_step [OF step] handshake_step [OF step] inv by simp
qed

section \<open>A conversation\<close>

text \<open>The loop over a list of messages when nothing else happens on the connection.\<close>

definition converse :: "(message \<times> 'w) list \<Rightarrow> 'w action list" where
  "converse mws = concat (map (\<lambda>(m, w). [Read m, Dispatch w True]) mws)"

lemma converse_runs:
  "idle c \<Longrightarrow> cn_queue c = [] \<Longrightarrow>
   \<exists>c'. conn_run cd router alive (converse mws) c = Some c' \<and> idle c' \<and> cn_queue c' = [] \<and>
        cn_received c' = cn_received c @ map fst mws"
proof (induction mws arbitrary: c)
  case (Cons mw mws)
  obtain m w where mw: "mw = (m, w)" by (cases mw)
  obtain r c1 where d: "dispatch_message cd router alive w m (c\<lparr>cn_received := cn_received c @ [m], cn_busy := None\<rparr>) = (r, c1)"
    by (cases "dispatch_message cd router alive w m (c\<lparr>cn_received := cn_received c @ [m], cn_busy := None\<rparr>)")
  then have io: "same_io (c\<lparr>cn_received := cn_received c @ [m], cn_busy := None\<rparr>) c1"
    by (rule conjunct1 [OF dispatch_message_io])
  let ?c1 = "write_out (map_option Response r) True c1"
  have "idle ?c1" "cn_queue ?c1 = []" "cn_received ?c1 = cn_received c @ [m]"
    using io Cons.prems by (cases r; simp add: write_out_def same_io_def idle_def)+
  moreover from Cons.IH [OF this(1,2)] obtain c' where "conn_run cd router alive (converse mws) ?c1 = Some c'"
    "idle c'" "cn_queue c' = []" "cn_received c' = cn_received ?c1 @ map fst mws" by blast
  ultimately show ?case
    using Cons.prems d by (intro exI [of _ c']) (simp add: converse_def mw idle_def)
qed (simp add: converse_def)

section \<open>Properties\<close>

text \<open>
  C7: along any interleaving of the message loop, the event forwarder and the transport, the responses
  on a connection carry the identifiers of the requests read, one each and in their order; only the
  request being dispatched, or the one whose response the transport refused, has none yet.
\<close>
theorem requests_answered_in_order:
  assumes "conn_run cd router alive as (connection_new b s0) = Some c"
  shows "\<exists>open_ids. map rq_id (requests (cn_received c)) = map rs_id (responses (cn_sent c)) @ open_ids \<and>
           length open_ids \<le> 1 \<and> (idle c \<longrightarrow> open_ids = [])"
proof -
  have inv: "io_inv cd c" using both_inv_run [OF assms] by blast
  then obtain lost where l: "map rq_id (requests (cn_received c)) =
      map rs_id (responses (cn_sent c)) @ lost @ map rq_id (requests (to_list (cn_busy c)))"
    "cn_open c \<longrightarrow> lost = []" "length lost \<le> 1" by (auto simp: io_inv_def)
  moreover have "length (requests (to_list (cn_busy c))) \<le> 1"
    by (cases "cn_busy c"; simp; case_tac a; simp)
  moreover have "cn_busy c = None \<or> lost = []" using inv l(2) by (auto simp: io_inv_def)
  ultimately show ?thesis
    by (intro exI [of _ "lost @ map rq_id (requests (to_list (cn_busy c)))"]) (auto simp: idle_def)
qed

definition echo_codec :: codec where
  "echo_codec = \<lparr>co_initialize = (\<lambda>_. Inr \<lparr>ir_protocol_version = 1, ir_client_capabilities = server_capabilities,
       ir_client_info = server_identity [], ir_meta = None\<rparr>),
     co_init_response = (\<lambda>_. json.Null), co_subscribe = (\<lambda>_. Inr None), co_payload = (\<lambda>_. Some json.Null),
     co_version = []\<rparr>"

definition counting_router :: "(unit, nat) router" where
  "counting_router = router_register ''count'' (\<lambda>_ _ n. (Inr json.Null, n + 1)) router_new"

definition hello :: "message list" where
  "hello = [Request (request_new (rpc_id.Number 1) ''count'' None),
            Request (request_new (rpc_id.Number 2) ''initialize'' None),
            Request (request_new (rpc_id.Number 3) ''count'' None)]"

theorem requests_answered_in_order_witness:
  "\<exists>c. conn_run echo_codec counting_router (\<lambda>_ :: unit. True) (converse (map (\<lambda>m. (m, ())) hello))
        (connection_new False 0) = Some c \<and>
       map rs_id (responses (cn_sent c)) = [rpc_id.Number 1, rpc_id.Number 2, rpc_id.Number 3]"
proof -
  obtain c where c: "conn_run echo_codec counting_router (\<lambda>_ :: unit. True) (converse (map (\<lambda>m. (m, ())) hello))
        (connection_new False 0) = Some c" "idle c" "cn_received c = hello"
    using converse_runs [of "connection_new False 0" echo_codec counting_router "\<lambda>_ :: unit. True" "map (\<lambda>m. (m, ())) hello"]
    by (auto simp: idle_def connection_new_def comp_def)
  from requests_answered_in_order [OF c(1)] c(2)
  have "map rs_id (responses (cn_sent c)) = map rq_id (requests (cn_received c))" by auto
  with c show ?thesis by (auto simp: hello_def request_new_def)
qed

text \<open>
  C8: no handler runs on a connection before the handshake: until an \<open>initialize\<close> request has been
  accepted the shared state is untouched and every request is answered with the error of its gate; and
  at most one \<open>initialize\<close> is ever accepted.
\<close>
theorem handshake_gates_handlers:
  assumes "conn_run cd router alive as (connection_new b s0) = Some c"
  shows "length (accepted c) \<le> 1 \<and>
         (\<not> cn_initialized c \<longrightarrow> cn_state c = s0 \<and> accepted c = [] \<and>
            (\<forall>(q, r) \<in> set (zip (requests (cn_received c)) (responses (cn_sent c))).
               \<exists>e. rs_outcome r = response_outcome.Error e \<and>
                 (if rq_method q = ''initialize'' then eo_code e = as_i64 InvalidParams \<or> eo_code e = as_i64 ProtocolVersionUnsupported
                  else eo_code e = as_i64 ServerNotInitialized)))"
proof -
  have "handshake_inv s0 c" using both_inv_run [OF assms] by blast
  then show ?thesis
    by (fastforce simp: handshake_inv_def gated_def exchanges_def list_all_iff not_initialized_error_def
        error_object_of_def split: if_splits)
qed

theorem handshake_gates_handlers_witness:
  "\<exists>c. conn_run echo_codec counting_router (\<lambda>_ :: unit. True)
         (converse [(Request (request_new (rpc_id.Number 1) ''count'' None), ())]) (connection_new True 0) = Some c \<and>
       cn_state c = 0"
proof -
  obtain c where c: "conn_run echo_codec counting_router (\<lambda>_ :: unit. True)
         (converse [(Request (request_new (rpc_id.Number 1) ''count'' None), ())]) (connection_new True 0) = Some c"
    and "\<not> cn_initialized c"
    by (simp add: converse_def connection_new_def idle_def dispatch_message_def dispatch_request_def Let_def
        request_new_def write_out_def)
  then show ?thesis using handshake_gates_handlers [OF c] by auto
qed

text \<open>
  the notifications a client gets are those of the engine's events, in the order of the events,
  each let through by the filter at the time the forwarder took it; none is lost, doubled or reordered
  while the connection is open, and at most 256 wait in its queue.
\<close>
theorem events_forwarded_in_order:
  assumes "conn_run cd router alive as (connection_new b s0) = Some c"
  shows "\<exists>rest. concat (map (\<lambda>(f, now, ev). case forward_event (co_payload cd) now f ev of None \<Rightarrow> [] | Some n \<Rightarrow> [n])
             (cn_events c)) = notifications (cn_sent c) @ rest \<and>
           (cn_open c \<longrightarrow> rest = notifications (cn_queue c) @ (case cn_held c of None \<Rightarrow> [] | Some n \<Rightarrow> [n]) \<and>
              length rest \<le> DEFAULT_OUTBOUND_QUEUE_CAP + 1)"
proof -
  have inv: "io_inv cd c" using both_inv_run [OF assms] by blast
  then obtain rest where r: "forwarded cd (cn_events c) = notifications (cn_sent c) @ rest"
    "cn_open c \<longrightarrow> rest = notifications (cn_queue c) @ to_list (cn_held c)" by (auto simp: io_inv_def)
  have "length (notifications ms) \<le> length ms" for ms by (induction ms rule: notifications.induct) auto
  moreover have "length (cn_queue c) \<le> DEFAULT_OUTBOUND_QUEUE_CAP" using inv by (simp add: io_inv_def)
  ultimately have "length (notifications (cn_queue c)) \<le> DEFAULT_OUTBOUND_QUEUE_CAP" using le_trans by blast
  with r show ?thesis
    by (intro exI [of _ rest]) (auto simp: forwarded_def to_list_def split: option.splits)
qed

definition notify_codec :: codec where
  "notify_codec = echo_codec\<lparr>co_subscribe := (\<lambda>_. Inr (Some [''events/usage'']))\<rparr>"

theorem events_forwarded_in_order_witness:
  "\<exists>c. conn_run echo_codec counting_router (\<lambda>_ :: unit. True)
         [Forward 0 (CompactionDelta (ThreadId ''t'') ''x''), Push, SendOutbound True] (connection_new True 0) = Some c \<and>
       length (notifications (cn_sent c)) \<le> 1"
proof -
  let ?as = "[Forward 0 (CompactionDelta (ThreadId ''t'') ''x''), Push, SendOutbound True] :: unit action list"
  obtain c where c: "conn_run echo_codec counting_router (\<lambda>_ :: unit. True) ?as (connection_new True 0) = Some c"
    and ev: "cn_events c = [(filter_new, 0, CompactionDelta (ThreadId ''t'') ''x'')]"
    by (simp add: connection_new_def idle_def write_out_def forward_event_def engine_event_to_notification_def
        event_payload_of_def echo_codec_def allows_method_def filter_new_def DEFAULT_OUTBOUND_QUEUE_CAP_def)
  from events_forwarded_in_order [OF c] obtain rest where
    "(case forward_event (co_payload echo_codec) 0 filter_new (CompactionDelta (ThreadId ''t'') ''x'') of
        None \<Rightarrow> [] | Some n \<Rightarrow> [n]) = notifications (cn_sent c) @ rest" by (auto simp: ev)
  then have "length (notifications (cn_sent c)) \<le> 1" by (auto split: option.splits dest: arg_cong [of _ _ length])
  with c show ?thesis by blast
qed

text \<open>
  the gate covers requests only (a defect): the forwarder starts with the connection, so a client
  that has not initialized, nor sent anything, already gets the engine's events, transcript items and
  permission requests of every thread included.
\<close>
theorem events_bypass_handshake:
  assumes "engine_event_to_notification (co_payload cd) now ev = Some n"
  shows "\<exists>c. conn_run cd router alive [Forward now ev, Push, SendOutbound True] (connection_new True s0) = Some c \<and>
           cn_sent c = [Notification n] \<and> cn_received c = [] \<and> \<not> cn_initialized c"
  using assms
  by (simp add: connection_new_def idle_def write_out_def forward_event_def allows_method_def filter_new_def
      DEFAULT_OUTBOUND_QUEUE_CAP_def)

theorem events_bypass_handshake_witness:
  "\<exists>c. conn_run echo_codec counting_router (\<lambda>_ :: unit. True)
         [Forward 0 (ItemDelta (ThreadId ''t'') (TurnId ''u'') ''x'' Text), Push, SendOutbound True] (connection_new True 0) = Some c \<and>
       cn_sent c = [Notification (notification_new ''events/item_delta'' (Some json.Null))] \<and> \<not> cn_initialized c"
  using events_bypass_handshake [of echo_codec 0 "ItemDelta (ThreadId ''t'') (TurnId ''u'') ''x'' Text"
      "notification_new ''events/item_delta'' (Some json.Null)" counting_router "\<lambda>_ :: unit. True" 0]
  by (auto simp: engine_event_to_notification_def event_payload_of_def echo_codec_def)

text \<open>
  a subscription does not take effect at once, as its documentation says (a divergence): a
  notification outside the new subscription can follow its response, because the forwarder filters an
  event when it takes it and the loop sends what was queued meanwhile.
\<close>
theorem subscribe_leaves_stale_events:
  assumes "cn_initialized c" "idle c" "cn_queue c = []" "cn_outbound c" "cn_forwarding c" "cn_held c = None"
    and "cn_filter c = Some f" "forward_event (co_payload cd) now f ev = Some n"
    and "co_subscribe cd v = Inr (Some ms)" "ms \<noteq> []" "nt_method n \<notin> set ms"
  shows "\<exists>c'. conn_run cd router alive
             [Read (Request (request_new i ''events/subscribe'' (Some v))), Forward now ev, Push, Dispatch w True,
              SendOutbound True] c = Some c' \<and>
           cn_sent c' = cn_sent c @ [Response (response_ok i (Object [])), Notification n] \<and>
           cn_filter c' = Some (set_methods ms f) \<and> \<not> allows_method (set_methods ms f) (nt_method n)"
  using assms
  by (simp add: idle_def write_out_def DEFAULT_OUTBOUND_QUEUE_CAP_def dispatch_message_def dispatch_request_def
      Let_def request_new_def allows_set_methods)

theorem subscribe_leaves_stale_events_witness:
  "\<exists>c'. conn_run notify_codec counting_router (\<lambda>_ :: unit. True)
             [Read (Request (request_new rpc_id.Null ''events/subscribe'' (Some json.Null))),
              Forward 0 (CompactionDelta (ThreadId ''t'') ''x''), Push, Dispatch () True, SendOutbound True]
             ((connection_new True 0)\<lparr>cn_initialized := True\<rparr>) = Some c' \<and>
           length (cn_sent c') = 2"
proof -
  let ?c = "(connection_new True 0)\<lparr>cn_initialized := True\<rparr> :: (unit, nat) conn"
  let ?ev = "CompactionDelta (ThreadId ''t'') ''x''"
  let ?n = "notification_new ''events/compaction_delta'' (Some json.Null)"
  have "forward_event (co_payload notify_codec) 0 filter_new ?ev = Some ?n"
    by (simp add: forward_event_def engine_event_to_notification_def event_payload_of_def notify_codec_def
        echo_codec_def allows_method_def filter_new_def)
  moreover have "nt_method ?n \<notin> set [''events/usage'']" by (simp add: notification_new_def)
  moreover have "cn_initialized ?c" "idle ?c" "cn_queue ?c = []" "cn_outbound ?c" "cn_forwarding ?c"
    "cn_held ?c = None" "cn_filter ?c = Some filter_new" "cn_sent ?c = []"
    "co_subscribe notify_codec json.Null = Inr (Some [''events/usage''])"
    by (simp_all add: connection_new_def idle_def notify_codec_def)
  ultimately obtain c' where "conn_run notify_codec counting_router (\<lambda>_ :: unit. True)
      [Read (Request (request_new rpc_id.Null ''events/subscribe'' (Some json.Null))), Forward 0 ?ev, Push,
       Dispatch () True, SendOutbound True] ?c = Some c'"
    and "cn_sent c' = cn_sent ?c @ [Response (response_ok rpc_id.Null (Object [])), Notification ?n]"
    using subscribe_leaves_stale_events [of ?c filter_new notify_codec 0 ?ev ?n json.Null "[''events/usage'']"
        counting_router "\<lambda>_ :: unit. True" rpc_id.Null "()"] by blast
  then show ?thesis using \<open>cn_sent ?c = []\<close> by (intro exI [of _ c']) simp
qed



end
