(* ===== verification/Rpc_Types.thy ===== *)
theory Rpc_Types
  imports Rpc_Message Actor
begin

text \<open>
  The JSON-RPC surface of the engine: parameters and results of its methods (\<open>zhive-proto/src/rpc.rs\<close>) and
  the error objects of \<open>zhive-core/src/server/handlers.rs\<close> with the display texts they carry. Decoders and
  the encoders of nested domain types are serde's (a record of parameters); the results are written out
  as the objects their derived serialisers produce, where the order of fields carries no meaning.
\<close>

section \<open>Parameters and results\<close>

datatype start_turn_params =
  StartTurnParams thread_id "item list" "permission_scope option" "thinking_effort option"
datatype cancel_turn_params = CancelTurnParams thread_id
datatype resume_permission_params = ResumePermissionParams string resume_outcome
datatype compact_params = CompactParams thread_id compact_trigger
datatype fork_params = ForkParams thread_id "item_id option" bool
datatype list_checkpoints_params = ListCheckpointsParams thread_id
datatype restore_params = RestoreParams thread_id turn_id
datatype list_threads_params = ListThreadsParams "string option"
datatype resume_thread_params = ResumeThreadParams thread_id
datatype get_items_params = GetItemsParams thread_id "turn_id option" "int option" "int option"
datatype injection_params = InjectionParams thread_id "item list"
datatype session_cancel_params = SessionCancelParams thread_id
datatype delete_thread_params = DeleteThreadParams thread_id
datatype rename_thread_params = RenameThreadParams thread_id string
datatype search_threads_params = SearchThreadsParams string "string option"
datatype set_model_params = SetModelParams string "u64 option"

type_synonym 'a decoder = "json \<Rightarrow> ('a, string) rust_result"

record rpc_codec =
  de_start_turn :: "start_turn_params decoder"
  de_cancel_turn :: "cancel_turn_params decoder"
  de_resume_permission :: "resume_permission_params decoder"
  de_compact :: "compact_params decoder"
  de_fork :: "fork_params decoder"
  de_list_checkpoints :: "list_checkpoints_params decoder"
  de_restore :: "restore_params decoder"
  de_list_threads :: "list_threads_params decoder"
  de_resume_thread :: "resume_thread_params decoder"
  de_get_items :: "get_items_params decoder"
  de_injection :: "injection_params decoder"
  de_session_cancel :: "session_cancel_params decoder"
  de_delete_thread :: "delete_thread_params decoder"
  de_rename_thread :: "rename_thread_params decoder"
  de_search_threads :: "search_threads_params decoder"
  de_set_model :: "set_model_params decoder"
  en_checkpoint :: "checkpoint \<Rightarrow> json"
  en_thread :: "thread \<Rightarrow> json"
  en_item :: "item \<Rightarrow> json"
  en_tool :: "rpc_tool_spec \<Rightarrow> json"
  en_model :: "model_descriptor \<Rightarrow> json"
  debug_duration :: "nat \<Rightarrow> string"
  debug_str :: "string \<Rightarrow> string"

definition decode_params :: "'a decoder \<Rightarrow> json option \<Rightarrow> ('a, error_object) rust_result" where
  "decode_params de params =
     (case de (case params of None \<Rightarrow> json.Null | Some v \<Rightarrow> v) of
        Inl msg \<Rightarrow> Inl (invalid_params msg)
      | Inr p \<Rightarrow> Inr p)"

definition json_u32 :: "u32 \<Rightarrow> json" where
  "json_u32 n = json_nat (unat n)"

definition start_turn_result :: "turn_id \<Rightarrow> json" where
  "start_turn_result turn = Object [(''turnId'', json.String (turn_id_str turn))]"

definition cancel_turn_result :: "turn_id option \<Rightarrow> json" where
  "cancel_turn_result turn =
     Object [(''turnId'', case turn of None \<Rightarrow> json.Null | Some t \<Rightarrow> json.String (turn_id_str t))]"

fun resume_permission_status :: "resume_permission_reply \<Rightarrow> string" where
  "resume_permission_status resume_permission_reply.Resolved = ''resolved''"
| "resume_permission_status resume_permission_reply.UnknownRequest = ''unknown_request''"
| "resume_permission_status resume_permission_reply.InvalidRequestId = ''invalid_request_id''"
| "resume_permission_status resume_permission_reply.Abandoned = ''abandoned''"

definition resume_permission_result :: "resume_permission_reply \<Rightarrow> json" where
  "resume_permission_result reply = Object [(''status'', json.String (resume_permission_status reply))]"

fun compact_result :: "compact_reply \<Rightarrow> json" where
  "compact_result (compact_reply.Compacted n) =
     Object [(''status'', json.String ''compacted''), (''entriesCompacted'', json_u32 n)]"
| "compact_result compact_reply.NothingToCompact =
     Object [(''status'', json.String ''nothing_to_compact''), (''entriesCompacted'', json_u32 0)]"
| "compact_result compact_reply.Started =
     Object [(''status'', json.String ''started''), (''entriesCompacted'', json_u32 0)]"

fun fork_result :: "fork_reply \<Rightarrow> json" where
  "fork_result (Forked new items summarized) =
     Object [(''newThreadId'', json.String (thread_id_str new)), (''itemsReplayed'', json_u32 items),
             (''summarized'', json.Bool summarized)]"

definition list_checkpoints_result :: "rpc_codec \<Rightarrow> checkpoint list \<Rightarrow> json" where
  "list_checkpoints_result rc cps = Object [(''checkpoints'', Array (map (en_checkpoint rc) cps))]"

fun restore_result :: "restore_reply \<Rightarrow> json" where
  "restore_result (restore_reply.Restored new reverted deleted items) =
     Object [(''newThreadId'', json.String (thread_id_str new)), (''reverted'', json_u32 reverted),
             (''deleted'', json_u32 deleted), (''itemsReplayed'', json_u32 items)]"

definition threads_result :: "rpc_codec \<Rightarrow> thread list \<Rightarrow> json" where
  "threads_result rc threads = Object [(''threads'', Array (map (en_thread rc) threads))]"

definition resume_thread_result :: "resume_reply \<Rightarrow> json" where
  "resume_thread_result r =
     Object [(''threadId'', json.String (thread_id_str (resume_reply.rr_thread_id r))),
             (''itemsRestored'', json_u32 (rr_items_restored r)),
             (''turnsRestored'', json_u32 (rr_turns_restored r))]"

definition get_items_result :: "rpc_codec \<Rightarrow> item list \<Rightarrow> json" where
  "get_items_result rc items = Object [(''items'', Array (map (en_item rc) items))]"

definition delete_thread_result :: "bool \<Rightarrow> json" where
  "delete_thread_result deleted = Object [(''deleted'', json.Bool deleted)]"

definition rename_thread_result :: "bool \<Rightarrow> json" where
  "rename_thread_result renamed = Object [(''renamed'', json.Bool renamed)]"

definition tool_list_result :: "rpc_codec \<Rightarrow> rpc_tool_spec list \<Rightarrow> json" where
  "tool_list_result rc specs = Object [(''tools'', Array (map (en_tool rc) specs))]"

definition list_models_result :: "rpc_codec \<Rightarrow> model_descriptor list \<Rightarrow> json" where
  "list_models_result rc models = Object [(''models'', Array (map (en_model rc) models))]"

definition set_model_result :: "string \<times> u64 option \<Rightarrow> json" where
  "set_model_result r =
     Object ((''modelId'', json.String (fst r)) #
             (case snd r of None \<Rightarrow> [] | Some n \<Rightarrow> [(''contextWindow'', json_nat (unat n))]))"

definition injection_ack :: json where
  "injection_ack = Object [(''accepted'', json.Bool True)]"

section \<open>Error objects\<close>

definition ENGINE_ERROR_CODE :: int where
  "ENGINE_ERROR_CODE = -32000"

fun phase_debug :: "engine_phase \<Rightarrow> string" where
  "phase_debug engine_phase.Idle = ''Idle''"
| "phase_debug engine_phase.Turn = ''Turn''"
| "phase_debug engine_phase.Compaction = ''Compaction''"
| "phase_debug engine_phase.BranchSummary = ''BranchSummary''"
| "phase_debug engine_phase.Retry = ''Retry''"
| "phase_debug engine_phase.Restore = ''Restore''"

fun phase_json :: "engine_phase \<Rightarrow> json" where
  "phase_json engine_phase.Idle = json.String ''idle''"
| "phase_json engine_phase.Turn = json.String ''turn''"
| "phase_json engine_phase.Compaction = json.String ''compaction''"
| "phase_json engine_phase.BranchSummary = json.String ''branch_summary''"
| "phase_json engine_phase.Retry = json.String ''retry''"
| "phase_json engine_phase.Restore = json.String ''restore''"

definition kind_only :: "string \<Rightarrow> json" where
  "kind_only k = Object [(''kind'', json.String k)]"

definition busy_json :: "engine_phase \<Rightarrow> json" where
  "busy_json current = Object [(''kind'', json.String ''engine_busy''), (''currentPhase'', phase_json current)]"

definition kind_reason :: "string \<Rightarrow> string \<Rightarrow> json" where
  "kind_reason k reason = Object [(''kind'', json.String k), (''reason'', json.String reason)]"

definition engine_failure :: "string \<Rightarrow> json \<Rightarrow> error_object" where
  "engine_failure msg data = \<lparr>eo_code = ENGINE_ERROR_CODE, eo_message = msg, eo_data = Some data\<rparr>"

definition busy_text :: "engine_phase \<Rightarrow> string \<Rightarrow> string" where
  "busy_text current what = ''engine busy (phase '' @ phase_debug current @ ''); '' @ what @ '' requires Idle''"

fun spawn_error_text :: "subagent_spawn_error \<Rightarrow> string" where
  "spawn_error_text subagent_spawn_error.ParentNotFound = ''parent thread not found''"
| "spawn_error_text subagent_spawn_error.RecursionForbidden = ''subagent recursion forbidden (parent is already a subagent)''"
| "spawn_error_text subagent_spawn_error.ChildSpawnRequested =
     ''subagent definition requested allow_subagent_spawn=true; recursion forbidden''"
| "spawn_error_text subagent_spawn_error.ScopeWideningRejected = ''child scope widens the parent scope; narrowing required''"

fun catalog_error_text :: "rpc_codec \<Rightarrow> model_catalog_error \<Rightarrow> string" where
  "catalog_error_text rc (model_catalog_error.List msg) = ''listing models failed: '' @ msg"
| "catalog_error_text rc (model_catalog_error.Switch m reason) =
     ''switching to model '' @ debug_str rc m @ '' failed: '' @ reason"
| "catalog_error_text rc (UnknownModel m) = ''unknown model id: '' @ debug_str rc m"

text \<open>A duration is counted in nanoseconds.\<close>

fun engine_error_object :: "rpc_codec \<Rightarrow> engine_error \<Rightarrow> error_object" where
  "engine_error_object rc (engine_error.EngineBusy current) =
     engine_failure (''engine busy in phase '' @ phase_debug current @ ''; cannot start a new turn'') (busy_json current)"
| "engine_error_object rc ActorStopped =
     engine_failure ''engine actor has stopped accepting submissions'' (kind_only ''actor_stopped'')"
| "engine_error_object rc ReplyDropped =
     engine_failure ''engine actor dropped the reply channel without answering'' (kind_only ''reply_dropped'')"
| "engine_error_object rc (ReplyTimedOut d) =
     engine_failure (''engine reply timed out after '' @ debug_duration rc d)
       (Object [(''kind'', json.String ''reply_timed_out''), (''timeoutSecs'', json_nat (d div 10 ^ 9))])"
| "engine_error_object rc (SubagentSpawnFailed reason) =
     engine_failure (''subagent spawn rejected: '' @ spawn_error_text reason)
       (kind_reason ''subagent_spawn_failed'' (spawn_error_text reason))"
| "engine_error_object rc ModelManagementUnavailable =
     engine_failure ''model management is unavailable: no model catalogue is configured''
       (kind_only ''model_management_unavailable'')"
| "engine_error_object rc (ModelCatalog reason) =
     engine_failure (''model catalogue error: '' @ catalog_error_text rc reason)
       (kind_reason ''model_catalog'' (catalog_error_text rc reason))"

fun compact_error_object :: "compact_error \<Rightarrow> error_object" where
  "compact_error_object compact_error.ThreadNotFound =
     engine_failure ''thread not found'' (kind_only ''thread_not_found'')"
| "compact_error_object (compact_error.EngineBusy current) =
     engine_failure (busy_text current ''compaction'') (busy_json current)"
| "compact_error_object (compact_error.SummarizationFailed msg) =
     engine_failure (''summarization failed: '' @ msg) (kind_reason ''summarization_failed'' msg)"
| "compact_error_object (compact_error.BlockedByHook reason) =
     engine_failure
       (case reason of Some r \<Rightarrow> ''compaction blocked by PreCompact hook: '' @ r
                     | None \<Rightarrow> ''compaction blocked by PreCompact hook'')
       (Object [(''kind'', json.String ''blocked_by_hook''),
                (''reason'', case reason of Some r \<Rightarrow> json.String r | None \<Rightarrow> json.Null)])"

fun fork_error_object :: "fork_error \<Rightarrow> error_object" where
  "fork_error_object SourceNotFound =
     engine_failure ''source thread not found (no history to fork)'' (kind_only ''source_not_found'')"
| "fork_error_object (fork_error.EngineBusy current) =
     engine_failure (busy_text current ''fork'') (busy_json current)"
| "fork_error_object (fork_error.ReplayFailed msg) =
     engine_failure (''fork replay failed: '' @ msg) (kind_reason ''replay_failed'' msg)"
| "fork_error_object (fork_error.SummarizationFailed msg) =
     engine_failure (''branch summary failed: '' @ msg) (kind_reason ''summarization_failed'' msg)"

fun restore_error_object :: "restore_error \<Rightarrow> error_object" where
  "restore_error_object Unavailable =
     engine_failure ''file revert is unavailable (no storage or git)'' (kind_only ''unavailable'')"
| "restore_error_object CheckpointNotFound =
     engine_failure ''checkpoint not found for the requested turn'' (kind_only ''checkpoint_not_found'')"
| "restore_error_object (restore_error.EngineBusy current) =
     engine_failure (busy_text current ''restore'') (busy_json current)"
| "restore_error_object (SnapshotFailed msg) =
     engine_failure (''file revert failed: '' @ msg) (kind_reason ''snapshot_failed'' msg)"
| "restore_error_object (restore_error.ReplayFailed msg) =
     engine_failure (''conversation rewind failed: '' @ msg) (kind_reason ''replay_failed'' msg)"

text \<open>\<open>None\<close> is \<open>StorageUnavailable\<close>, \<open>Some\<close> the message of \<open>ReadFailed\<close>.\<close>

fun list_checkpoints_error_object :: "string option \<Rightarrow> error_object" where
  "list_checkpoints_error_object None =
     engine_failure ''no storage configured; no checkpoints'' (kind_only ''storage_unavailable'')"
| "list_checkpoints_error_object (Some msg) =
     engine_failure (''reading checkpoints failed: '' @ msg) (kind_reason ''read_failed'' msg)"

fun resume_error_object :: "resume_error \<Rightarrow> error_object" where
  "resume_error_object resume_error.StorageUnavailable =
     engine_failure ''no persistent storage configured; cannot resume a thread'' (kind_only ''storage_unavailable'')"
| "resume_error_object resume_error.ThreadNotFound =
     engine_failure ''thread not found (no persisted history to resume)'' (kind_only ''thread_not_found'')"
| "resume_error_object (resume_error.EngineBusy current) =
     engine_failure (busy_text current ''resume'') (busy_json current)"
| "resume_error_object (resume_error.ReplayFailed msg) =
     engine_failure (''resume replay failed: '' @ msg) (kind_reason ''replay_failed'' msg)"

fun delete_error_object :: "delete_error \<Rightarrow> error_object" where
  "delete_error_object delete_error.StorageUnavailable =
     engine_failure ''no persistent storage configured; cannot delete thread'' (kind_only ''storage_unavailable'')"
| "delete_error_object ThreadHasActiveTurn =
     engine_failure ''cannot delete a thread with an active turn in progress'' (kind_only ''thread_has_active_turn'')"
| "delete_error_object (DeleteFailed msg) =
     engine_failure (''thread deletion failed: '' @ msg) (kind_reason ''delete_failed'' msg)"

fun rename_error_object :: "rename_error \<Rightarrow> error_object" where
  "rename_error_object rename_error.StorageUnavailable =
     engine_failure ''no persistent storage configured; cannot rename thread'' (kind_only ''storage_unavailable'')"
| "rename_error_object (RenameFailed msg) =
     engine_failure (''thread rename failed: '' @ msg) (kind_reason ''rename_failed'' msg)"

fun get_items_error_object :: "get_items_error \<Rightarrow> error_object" where
  "get_items_error_object get_items_error.StorageUnavailable =
     engine_failure ''no persistent storage configured; cannot read items'' (kind_only ''storage_unavailable'')"
| "get_items_error_object (get_items_error.ReadFailed msg) =
     engine_failure (''reading items failed: '' @ msg) (kind_reason ''read_failed'' msg)"

end
