(* ===== verification/Engine_Rpc.thy ===== *)
theory Engine_Rpc
  imports Server Rpc_Types
begin

text \<open>
  The JSON-RPC methods of the engine (\<open>zhive-core/src/server/handlers.rs\<close>): parameters decoded, the
  engine's front end called, the result or the error put into JSON. The shared state of a connection's
  router is the engine with its actor, so a session of a client is a run of the engine.
\<close>

section \<open>The engine behind the router\<close>

record ('tx, 'p) served =
  sv_engine :: "'tx engine_inner"
  sv_accepting :: bool
  sv_provider :: 'p

text \<open>
  The world of a call: that of the actor when it takes the submission, whether the reply comes too
  late and the timeout, the host's catalogue and the identifier of the provider's model.
\<close>

record ('tx, 'p) call_world =
  kw_actor :: "'tx actor_world"
  kw_late :: bool
  kw_timeout :: nat
  kw_catalog :: "'p model_catalog option"
  kw_model_id :: "'p \<Rightarrow> string"

definition call_engine ::
    "('tx \<Rightarrow> bool) \<Rightarrow> ('tx, 'p) call_world \<Rightarrow> submission \<Rightarrow> ('tx, 'p) served \<Rightarrow>
     (submission_reply, engine_error) rust_result \<times> ('tx, 'p) served" where
  "call_engine alive w sub s =
     (if \<not> sv_accepting s then (submit_with_reply False (kw_timeout w) Dropped, s)
      else (case actor_run alive [(kw_actor w, with_reply sub)] (sv_engine s) of
              (replies, _, e, stopped) \<Rightarrow>
                (submit_with_reply True (kw_timeout w)
                   (if kw_late w then Late
                    else (case replies of [Some r] \<Rightarrow> Answered r | _ \<Rightarrow> Dropped)),
                 s\<lparr>sv_engine := e, sv_accepting := \<not> stopped\<rparr>)))"

definition tell_engine ::
    "('tx \<Rightarrow> bool) \<Rightarrow> ('tx, 'p) call_world \<Rightarrow> submission \<Rightarrow> ('tx, 'p) served \<Rightarrow>
     (unit, engine_error) rust_result \<times> ('tx, 'p) served" where
  "tell_engine alive w sub s =
     (if \<not> sv_accepting s then (submit False, s)
      else (case actor_run alive [(kw_actor w, fire_and_forget sub)] (sv_engine s) of
              (_, _, e, stopped) \<Rightarrow> (submit True, s\<lparr>sv_engine := e, sv_accepting := \<not> stopped\<rparr>)))"

text \<open>How a handler turns the engine's answer into its own.\<close>

definition respond ::
    "rpc_codec \<Rightarrow> ('a \<Rightarrow> json) \<Rightarrow> ('a, engine_error) rust_result \<Rightarrow> (json, error_object) rust_result" where
  "respond rc to_json r =
     (case r of Inr x \<Rightarrow> Inr (to_json x) | Inl err \<Rightarrow> Inl (engine_error_object rc err))"

definition respond_domain ::
    "rpc_codec \<Rightarrow> ('a \<Rightarrow> json) \<Rightarrow> ('d \<Rightarrow> error_object) \<Rightarrow> (('a, 'd) rust_result, engine_error) rust_result \<Rightarrow>
     (json, error_object) rust_result" where
  "respond_domain rc to_json domain_error r =
     (case r of
        Inr (Inr x) \<Rightarrow> Inr (to_json x)
      | Inr (Inl domain) \<Rightarrow> Inl (domain_error domain)
      | Inl err \<Rightarrow> Inl (engine_error_object rc err))"

section \<open>Handlers\<close>

type_synonym ('tx, 'p) rpc_handler = "(('tx, 'p) call_world, ('tx, 'p) served) handler"

text \<open>Decode the parameters, or answer that they are invalid; then the body of the handler.\<close>

definition with_params ::
    "'a decoder \<Rightarrow> json option \<Rightarrow> ('a \<Rightarrow> 's \<Rightarrow> (json, error_object) rust_result \<times> 's) \<Rightarrow> 's \<Rightarrow>
     (json, error_object) rust_result \<times> 's" where
  "with_params de params body s =
     (case decode_params de params of Inl err \<Rightarrow> (Inl err, s) | Inr p \<Rightarrow> body p s)"

definition start_turn_handler :: "('tx \<Rightarrow> bool) \<Rightarrow> rpc_codec \<Rightarrow> ('tx, 'p) rpc_handler" where
  "start_turn_handler alive rc w params = with_params (de_start_turn rc) params (\<lambda>p s.
     case p of StartTurnParams tid user_input scope reasoning \<Rightarrow>
       apfst (\<lambda>r. respond rc start_turn_result (start_turn_with_reasoning r))
         (call_engine alive w (submission.StartTurn tid user_input scope reasoning) s))"

definition cancel_turn_handler :: "('tx \<Rightarrow> bool) \<Rightarrow> rpc_codec \<Rightarrow> ('tx, 'p) rpc_handler" where
  "cancel_turn_handler alive rc w params = with_params (de_cancel_turn rc) params (\<lambda>p s.
     case p of CancelTurnParams tid \<Rightarrow>
       apfst (\<lambda>r. respond rc cancel_turn_result (engine_cancel_turn r))
         (call_engine alive w (submission.CancelTurn tid) s))"

definition resume_permission_handler :: "('tx \<Rightarrow> bool) \<Rightarrow> rpc_codec \<Rightarrow> ('tx, 'p) rpc_handler" where
  "resume_permission_handler alive rc w params = with_params (de_resume_permission rc) params (\<lambda>p s.
     case p of ResumePermissionParams request_id outcome \<Rightarrow>
       apfst (\<lambda>r. respond rc resume_permission_result (engine_resume_permission r))
         (call_engine alive w
            (submission.ResumePermission (PermissionRequestId request_id) (permission_outcome_from outcome)) s))"

definition compact_handler :: "('tx \<Rightarrow> bool) \<Rightarrow> rpc_codec \<Rightarrow> ('tx, 'p) rpc_handler" where
  "compact_handler alive rc w params = with_params (de_compact rc) params (\<lambda>p s.
     case p of CompactParams tid trigger \<Rightarrow>
       apfst (\<lambda>r. respond_domain rc compact_result compact_error_object (engine_compact r))
         (call_engine alive w (submission.Compact tid trigger) s))"

definition fork_handler :: "('tx \<Rightarrow> bool) \<Rightarrow> rpc_codec \<Rightarrow> ('tx, 'p) rpc_handler" where
  "fork_handler alive rc w params = with_params (de_fork rc) params (\<lambda>p s.
     case p of ForkParams source up_to with_summary \<Rightarrow>
       apfst (\<lambda>r. respond_domain rc fork_result fork_error_object (engine_fork_thread r))
         (call_engine alive w (submission.Fork source up_to with_summary) s))"

definition list_checkpoints_handler :: "('tx \<Rightarrow> bool) \<Rightarrow> rpc_codec \<Rightarrow> ('tx, 'p) rpc_handler" where
  "list_checkpoints_handler alive rc w params = with_params (de_list_checkpoints rc) params (\<lambda>p s.
     case p of ListCheckpointsParams tid \<Rightarrow>
       apfst (\<lambda>r. respond_domain rc (list_checkpoints_result rc) list_checkpoints_error_object
                     (engine_list_checkpoints r))
         (call_engine alive w (submission.ListCheckpoints tid) s))"

definition restore_handler :: "('tx \<Rightarrow> bool) \<Rightarrow> rpc_codec \<Rightarrow> ('tx, 'p) rpc_handler" where
  "restore_handler alive rc w params = with_params (de_restore rc) params (\<lambda>p s.
     case p of RestoreParams tid target \<Rightarrow>
       apfst (\<lambda>r. respond_domain rc restore_result restore_error_object (engine_restore r))
         (call_engine alive w (submission.Restore tid target) s))"

text \<open>Listing takes its parameters when there are any, and none otherwise.\<close>

definition list_threads_handler :: "('tx \<Rightarrow> bool) \<Rightarrow> rpc_codec \<Rightarrow> ('tx, 'p) rpc_handler" where
  "list_threads_handler alive rc w params s =
     (case (case params of
              Some v \<Rightarrow> (case decode_params (de_list_threads rc) (Some v) of
                           Inl err \<Rightarrow> Inl err
                         | Inr (ListThreadsParams cwd) \<Rightarrow> Inr cwd)
            | None \<Rightarrow> Inr None) of
        Inl err \<Rightarrow> (Inl err, s)
      | Inr cwd \<Rightarrow>
          apfst (\<lambda>r. respond rc (threads_result rc) (engine_list_threads r))
            (call_engine alive w (submission.ListThreads cwd) s))"

definition resume_thread_handler :: "('tx \<Rightarrow> bool) \<Rightarrow> rpc_codec \<Rightarrow> ('tx, 'p) rpc_handler" where
  "resume_thread_handler alive rc w params = with_params (de_resume_thread rc) params (\<lambda>p s.
     case p of ResumeThreadParams tid \<Rightarrow>
       apfst (\<lambda>r. respond_domain rc resume_thread_result resume_error_object (engine_resume_thread r))
         (call_engine alive w (submission.ResumeThread tid) s))"

definition get_items_handler :: "('tx \<Rightarrow> bool) \<Rightarrow> rpc_codec \<Rightarrow> ('tx, 'p) rpc_handler" where
  "get_items_handler alive rc w params = with_params (de_get_items rc) params (\<lambda>p s.
     case p of GetItemsParams tid turn offset limit \<Rightarrow>
       apfst (\<lambda>r. respond_domain rc (get_items_result rc) get_items_error_object (engine_get_items r))
         (call_engine alive w (submission.GetItems tid turn offset limit) s))"

definition shutdown_handler :: "('tx \<Rightarrow> bool) \<Rightarrow> rpc_codec \<Rightarrow> ('tx, 'p) rpc_handler" where
  "shutdown_handler alive rc w params s =
     apfst (\<lambda>r. respond rc (\<lambda>_. json.Null) (engine_shutdown r)) (call_engine alive w submission.Shutdown s)"

definition session_cancel_handler :: "('tx \<Rightarrow> bool) \<Rightarrow> rpc_codec \<Rightarrow> ('tx, 'p) rpc_handler" where
  "session_cancel_handler alive rc w params = with_params (de_session_cancel rc) params (\<lambda>p s.
     case p of SessionCancelParams tid \<Rightarrow>
       apfst (\<lambda>r. respond rc (\<lambda>_. json.Null) (engine_cancel_turn r))
         (call_engine alive w (submission.CancelTurn tid) s))"

definition delete_thread_handler :: "('tx \<Rightarrow> bool) \<Rightarrow> rpc_codec \<Rightarrow> ('tx, 'p) rpc_handler" where
  "delete_thread_handler alive rc w params = with_params (de_delete_thread rc) params (\<lambda>p s.
     case p of DeleteThreadParams tid \<Rightarrow>
       apfst (\<lambda>r. respond_domain rc delete_thread_result delete_error_object (engine_delete_thread r))
         (call_engine alive w (submission.Delete tid) s))"

definition rename_thread_handler :: "('tx \<Rightarrow> bool) \<Rightarrow> rpc_codec \<Rightarrow> ('tx, 'p) rpc_handler" where
  "rename_thread_handler alive rc w params = with_params (de_rename_thread rc) params (\<lambda>p s.
     case p of RenameThreadParams tid name \<Rightarrow>
       apfst (\<lambda>r. respond_domain rc rename_thread_result rename_error_object (engine_rename_thread r))
         (call_engine alive w (submission.Rename tid name) s))"

definition search_threads_handler :: "('tx \<Rightarrow> bool) \<Rightarrow> rpc_codec \<Rightarrow> ('tx, 'p) rpc_handler" where
  "search_threads_handler alive rc w params = with_params (de_search_threads rc) params (\<lambda>p s.
     case p of SearchThreadsParams query cwd \<Rightarrow>
       apfst (\<lambda>r. respond rc (threads_result rc) (engine_search_threads r))
         (call_engine alive w (submission.Search query cwd) s))"

definition tools_list_handler :: "('tx \<Rightarrow> bool) \<Rightarrow> rpc_codec \<Rightarrow> ('tx, 'p) rpc_handler" where
  "tools_list_handler alive rc w params s =
     apfst (\<lambda>r. respond rc (tool_list_result rc) (engine_list_tools r)) (call_engine alive w submission.ListTools s)"

definition list_models_handler :: "rpc_codec \<Rightarrow> ('tx, 'p) rpc_handler" where
  "list_models_handler rc w params s =
     (respond rc (list_models_result rc) (list_models (kw_catalog w) (kw_model_id w (sv_provider s))), s)"

definition set_model_handler :: "rpc_codec \<Rightarrow> ('tx, 'p) rpc_handler" where
  "set_model_handler rc w params = with_params (de_set_model rc) params (\<lambda>p s.
     case p of SetModelParams model_id window \<Rightarrow>
       (case set_model (kw_catalog w) model_id window (sv_provider s, sv_engine s) of
          (r, provider, e) \<Rightarrow>
            (respond rc set_model_result r, s\<lparr>sv_provider := provider, sv_engine := e\<rparr>)))"

definition injection_handler ::
    "(thread_id \<Rightarrow> item list \<Rightarrow> submission) \<Rightarrow> ('tx \<Rightarrow> bool) \<Rightarrow> rpc_codec \<Rightarrow> ('tx, 'p) rpc_handler" where
  "injection_handler mk alive rc w params = with_params (de_injection rc) params (\<lambda>p s.
     case p of InjectionParams tid items \<Rightarrow>
       apfst (\<lambda>r. respond rc (\<lambda>_. injection_ack) r) (tell_engine alive w (mk tid items) s))"

definition enqueue_steer_handler :: "('tx \<Rightarrow> bool) \<Rightarrow> rpc_codec \<Rightarrow> ('tx, 'p) rpc_handler" where
  "enqueue_steer_handler = injection_handler (\<lambda>tid items. submission.EnqueueInjection tid streaming_behavior.Steer items)"

definition enqueue_follow_up_handler :: "('tx \<Rightarrow> bool) \<Rightarrow> rpc_codec \<Rightarrow> ('tx, 'p) rpc_handler" where
  "enqueue_follow_up_handler = injection_handler (\<lambda>tid items. submission.EnqueueInjection tid streaming_behavior.FollowUp items)"

definition enqueue_next_turn_handler :: "('tx \<Rightarrow> bool) \<Rightarrow> rpc_codec \<Rightarrow> ('tx, 'p) rpc_handler" where
  "enqueue_next_turn_handler = injection_handler submission.EnqueueNextTurn"

text \<open>\<open>register_engine_handlers\<close>, in the order of the code.\<close>

definition engine_handlers ::
    "('tx \<Rightarrow> bool) \<Rightarrow> rpc_codec \<Rightarrow> (string \<times> ('tx, 'p) rpc_handler) list" where
  "engine_handlers alive rc =
     [(''engine/start_turn'', start_turn_handler alive rc),
      (''engine/cancel_turn'', cancel_turn_handler alive rc),
      (''engine/resume_permission'', resume_permission_handler alive rc),
      (''session/resume_permission'', resume_permission_handler alive rc),
      (''engine/compact'', compact_handler alive rc),
      (''thread/fork'', fork_handler alive rc),
      (''engine/list_checkpoints'', list_checkpoints_handler alive rc),
      (''engine/restore'', restore_handler alive rc),
      (''thread/list'', list_threads_handler alive rc),
      (''engine/resume_thread'', resume_thread_handler alive rc),
      (''thread/get_items'', get_items_handler alive rc),
      (''session/enqueue_steer'', enqueue_steer_handler alive rc),
      (''session/enqueue_follow_up'', enqueue_follow_up_handler alive rc),
      (''session/enqueue_next_turn'', enqueue_next_turn_handler alive rc),
      (''engine/shutdown'', shutdown_handler alive rc),
      (''thread/delete'', delete_thread_handler alive rc),
      (''thread/rename'', rename_thread_handler alive rc),
      (''thread/search'', search_threads_handler alive rc),
      (''tools/list'', tools_list_handler alive rc),
      (''models/list'', list_models_handler rc),
      (''engine/set_model'', set_model_handler rc),
      (''session/cancel'', session_cancel_handler alive rc)]"

definition register_engine_handlers ::
    "('tx \<Rightarrow> bool) \<Rightarrow> rpc_codec \<Rightarrow> (('tx, 'p) call_world, ('tx, 'p) served) router \<Rightarrow>
     (('tx, 'p) call_world, ('tx, 'p) served) router" where
  "register_engine_handlers alive rc r = fold (\<lambda>(m, h). router_register m h) (engine_handlers alive rc) r"

section \<open>Calls as steps of the engine\<close>

text \<open>
  What the other tasks do before the actor takes a call: they run the engine on, and to a state in
  which no turn, not even a subagent's, runs under an idle phase.
\<close>

definition call_ok :: "('tx \<Rightarrow> bool) \<Rightarrow> ('tx, 'p) call_world \<Rightarrow> ('tx, 'p) served \<Rightarrow> bool" where
  "call_ok alive w s =
     (let e = aw_between (kw_actor w) (sv_engine s)
      in engine_run alive UNIV (sv_engine s) e \<and> (ei_phase e = engine_phase.Idle \<longrightarrow> (\<forall>tid. \<not> running tid e)))"

lemma resume_busy: "ei_phase e \<noteq> engine_phase.Idle \<Longrightarrow> fst (snd (resume_thread fw tx found now ack tid e)) = e"
  by (simp add: resume_thread_def split: sum.split bool.split)

lemma call_dispatch_steps:
  assumes "dispatch alive w sub e = (r, fx, e')" "\<And>p d. sub \<noteq> submission.SpawnSubagent p d"
    and "ei_phase e = engine_phase.Idle \<longrightarrow> (\<forall>tid. \<not> running tid e)"
  shows "engine_run alive UNIV e e'"
proof (cases "\<exists>tid. sub = submission.ResumeThread tid \<and> ei_phase e \<noteq> engine_phase.Idle")
  case True
  then obtain tid where sub: "sub = submission.ResumeThread tid" and busy: "ei_phase e \<noteq> engine_phase.Idle" by blast
  have "e' = fst (snd (resume_thread (aw_fork w) (aw_new_tx w) (aw_get_thread w) (aw_now w) (aw_ack w) tid e))"
    using assms(1) by (auto simp: sub dispatch_def dispatch_history_def split: prod.splits)
  then show ?thesis by (simp add: resume_busy [OF busy] engine_run.refl)
next
  case False
  with assms(2,3) have "submission_ok sub e" by (cases sub) auto
  with assms(1) show ?thesis by (rule dispatch_steps)
qed

lemma call_engine_steps:
  assumes "call_ok alive w s" "\<And>p d. sub \<noteq> submission.SpawnSubagent p d"
  shows "engine_run alive UNIV (sv_engine s) (sv_engine (snd (call_engine alive w sub s)))"
    and "engine_run alive UNIV (sv_engine s) (sv_engine (snd (tell_engine alive w sub s)))"
proof -
  let ?e = "aw_between (kw_actor w) (sv_engine s)"
  have before: "engine_run alive UNIV (sv_engine s) ?e"
    and idle: "ei_phase ?e = engine_phase.Idle \<longrightarrow> (\<forall>tid. \<not> running tid ?e)"
    using assms(1) by (simp_all add: call_ok_def Let_def)
  have "engine_run alive UNIV (sv_engine s) (fst (snd (snd (actor_run alive [(kw_actor w, env)] (sv_engine s)))))"
    if "en_submission env = sub" for env
  proof (cases "sub = submission.Shutdown")
    case True
    then show ?thesis
      using that engine_run_trans [OF engine_run_one [OF engine_step.shut_down] before] by (simp add: Let_def)
  next
    case False
    obtain r fx e' where d: "dispatch alive (kw_actor w) sub ?e = (r, fx, e')"
      by (cases "dispatch alive (kw_actor w) sub ?e") auto
    have "engine_run alive UNIV ?e e'" by (rule call_dispatch_steps [OF d assms(2) idle])
    then show ?thesis using that False d before by (auto simp: Let_def intro: engine_run_trans)
  qed
  note run = this
  show "engine_run alive UNIV (sv_engine s) (sv_engine (snd (call_engine alive w sub s)))"
    using run [of "with_reply sub"]
    by (auto simp: call_engine_def with_reply_def engine_run.refl split: prod.splits)
  show "engine_run alive UNIV (sv_engine s) (sv_engine (snd (tell_engine alive w sub s)))"
    using run [of "fire_and_forget sub"]
    by (auto simp: tell_engine_def fire_and_forget_def engine_run.refl split: prod.splits)
qed

lemma with_params_snd:
  "P s \<Longrightarrow> (\<And>p. P (snd (body p s))) \<Longrightarrow> P (snd (with_params de params body s))"
  by (simp add: with_params_def split: sum.split)

lemma snd_apfst [simp]: "snd (apfst f x) = snd x"
  by (cases x) simp

lemmas handler_defs =
  start_turn_handler_def cancel_turn_handler_def resume_permission_handler_def compact_handler_def
  fork_handler_def list_checkpoints_handler_def restore_handler_def list_threads_handler_def
  resume_thread_handler_def get_items_handler_def shutdown_handler_def session_cancel_handler_def
  delete_thread_handler_def rename_thread_handler_def search_threads_handler_def tools_list_handler_def
  list_models_handler_def set_model_handler_def injection_handler_def enqueue_steer_handler_def
  enqueue_follow_up_handler_def enqueue_next_turn_handler_def

lemma set_model_steps:
  "set_model catalog m window (provider, e) = (r, provider', e') \<Longrightarrow> engine_run alive UNIV e e'"
  by (auto simp: set_model_def set_max_output_tokens_def set_context_window_def
      intro!: engine_run_one [OF engine_step.internal] intro: engine_run.refl
      split: option.splits sum.splits)

lemma handler_steps:
  assumes "(m, h) \<in> set (engine_handlers alive rc)" "call_ok alive w s"
  shows "engine_run alive UNIV (sv_engine s) (sv_engine (snd (h w params s)))"
proof -
  note step = call_engine_steps [OF assms(2)]
  have "\<forall>(m, h) \<in> set (engine_handlers alive rc).
      engine_run alive UNIV (sv_engine s) (sv_engine (snd (h w params s)))"
    unfolding engine_handlers_def list.set ball_simps prod.case handler_defs
    by (intro conjI; (intro TrueI)?;
        (intro with_params_snd [where P = "\<lambda>s'. engine_run alive UNIV (sv_engine s) (sv_engine s')"])?)
      (auto simp: engine_run.refl intro!: step dest: set_model_steps
        split: start_turn_params.split cancel_turn_params.split resume_permission_params.split compact_params.split
          fork_params.split list_checkpoints_params.split restore_params.split list_threads_params.split
          resume_thread_params.split get_items_params.split injection_params.split session_cancel_params.split
          delete_thread_params.split rename_thread_params.split search_threads_params.split
          set_model_params.split option.split sum.split prod.split)
  with assms(1) show ?thesis by blast
qed

section \<open>The router\<close>

lemma registered:
  "ro_handlers (fold (\<lambda>(m, h). router_register m h) hs r) = ro_handlers r ++ map_of (rev hs)"
  by (induction hs arbitrary: r) (auto simp: router_register_def map_add_def split: option.split)

lemma engine_method_names:
  "map fst (engine_handlers alive rc) =
     [''engine/start_turn'', ''engine/cancel_turn'', ''engine/resume_permission'', ''session/resume_permission'',
      ''engine/compact'', ''thread/fork'', ''engine/list_checkpoints'', ''engine/restore'', ''thread/list'',
      ''engine/resume_thread'', ''thread/get_items'', ''session/enqueue_steer'', ''session/enqueue_follow_up'',
      ''session/enqueue_next_turn'', ''engine/shutdown'', ''thread/delete'', ''thread/rename'', ''thread/search'',
      ''tools/list'', ''models/list'', ''engine/set_model'', ''session/cancel'']"
  by (simp add: engine_handlers_def)

lemma engine_methods_distinct: "distinct (map fst (engine_handlers alive rc))"
  unfolding engine_method_names by simp

lemma engine_router_lookup:
  "ro_handlers (register_engine_handlers alive rc router_new) m = Some (h :: ('a, 'b) rpc_handler) \<longleftrightarrow>
   (m, h) \<in> set (engine_handlers alive rc)"
proof -
  have "distinct (map fst (rev (engine_handlers alive rc :: (string \<times> ('a, 'b) rpc_handler) list)))"
    using engine_methods_distinct [of alive rc] by (simp add: rev_map [symmetric])
  from map_of_eq_Some_iff [OF this] show ?thesis
    by (simp add: register_engine_handlers_def registered router_new_def)
qed

lemma router_dispatch_steps:
  assumes "router_dispatch (register_engine_handlers alive rc router_new) w m params s = (r, s')"
      (is "router_dispatch ?router _ _ _ _ = _")
    and "call_ok alive w s"
  shows "engine_run alive UNIV (sv_engine s) (sv_engine s')"
proof (cases "ro_handlers ?router m")
  case None
  then show ?thesis using assms(1) by (simp add: router_dispatch_def engine_run.refl)
next
  case (Some h)
  then have "(m, h) \<in> set (engine_handlers alive rc)" by (simp add: engine_router_lookup)
  from handler_steps [OF this assms(2), of params] Some assms(1) show ?thesis by (simp add: router_dispatch_def)
qed

text \<open>The condition on the worlds of the calls along a run of a connection.\<close>

fun session_ok ::
    "codec \<Rightarrow> (('tx, 'p) call_world, ('tx, 'p) served) router \<Rightarrow> ('r \<Rightarrow> bool) \<Rightarrow> ('tx \<Rightarrow> bool) \<Rightarrow>
     ('tx, 'p) call_world action list \<Rightarrow> ('r, ('tx, 'p) served) conn \<Rightarrow> bool" where
  "session_ok cd router ralive alive [] c = True"
| "session_ok cd router ralive alive (a # as) c =
     ((case a of Dispatch w ok \<Rightarrow> call_ok alive w (cn_state c) | _ \<Rightarrow> True) \<and>
      (case conn_step cd router ralive a c of None \<Rightarrow> True | Some c' \<Rightarrow> session_ok cd router ralive alive as c'))"

lemma dispatch_message_steps:
  assumes "dispatch_message cd (register_engine_handlers alive rc router_new) ralive w m c = (r, c')"
    and "call_ok alive w (cn_state c)"
  shows "engine_run alive UNIV (sv_engine (cn_state c)) (sv_engine (cn_state c'))"
  using assms router_dispatch_steps [OF _ assms(2)]
  by (auto simp: dispatch_message_def dispatch_request_def route_def Let_def engine_run.refl
      split: message.splits prod.splits if_splits option.splits sum.splits)

lemma write_out_state [simp]: "cn_state (write_out m ok c) = cn_state c"
  by (simp add: write_out_def split: option.split)

lemma conn_step_steps:
  assumes "conn_step cd (register_engine_handlers alive rc router_new) ralive a c = Some c'"
    and "case a of Dispatch w ok \<Rightarrow> call_ok alive w (cn_state c) | _ \<Rightarrow> True"
  shows "engine_run alive UNIV (sv_engine (cn_state c)) (sv_engine (cn_state c'))"
proof (cases a)
  case (Dispatch w ok)
  then obtain m r c1 where "dispatch_message cd (register_engine_handlers alive rc router_new) ralive w m
      (c\<lparr>cn_busy := None\<rparr>) = (r, c1)" "c' = write_out (map_option Response r) ok c1"
    using assms(1) by (auto split: option.splits prod.splits)
  then show ?thesis using dispatch_message_steps [of cd alive rc ralive w m "c\<lparr>cn_busy := None\<rparr>" r c1] assms(2) Dispatch
    by simp
qed (use assms in \<open>auto simp: engine_run.refl split: option.splits list.splits if_splits\<close>)

lemma conn_run_steps:
  "conn_run cd (register_engine_handlers alive rc router_new) ralive as c = Some c' \<Longrightarrow>
   session_ok cd (register_engine_handlers alive rc router_new) ralive alive as c \<Longrightarrow>
   engine_run alive UNIV (sv_engine (cn_state c)) (sv_engine (cn_state c'))"
proof (induction as arbitrary: c)
  case (Cons a as)
  then obtain c1 where one: "conn_step cd (register_engine_handlers alive rc router_new) ralive a c = Some c1"
    by (auto split: option.splits)
  with Cons.prems have "engine_run alive UNIV (sv_engine (cn_state c1)) (sv_engine (cn_state c'))"
    by (intro Cons.IH) auto
  moreover have "engine_run alive UNIV (sv_engine (cn_state c)) (sv_engine (cn_state c1))"
    using conn_step_steps [OF one] Cons.prems(2) by (simp split: action.splits)
  ultimately show ?case by (rule engine_run_trans)
qed (simp add: engine_run.refl)

section \<open>Errors\<close>

definition typed_failure :: "error_object \<Rightarrow> bool" where
  "typed_failure err = (eo_code err = ENGINE_ERROR_CODE \<and>
     (\<exists>k rest. eo_data err = Some (Object ((''kind'', json.String k) # rest))))"

lemma engine_failure_typed:
  "typed_failure (engine_failure msg (kind_only k))" "typed_failure (engine_failure msg (busy_json p))"
  "typed_failure (engine_failure msg (kind_reason k r))"
  "typed_failure (engine_failure msg (Object ((''kind'', json.String k) # rest)))"
  by (simp_all add: typed_failure_def engine_failure_def kind_only_def busy_json_def kind_reason_def)

lemma errors_typed:
  "typed_failure (engine_error_object rc e1)" "typed_failure (compact_error_object e2)"
  "typed_failure (fork_error_object e3)" "typed_failure (restore_error_object e4)"
  "typed_failure (list_checkpoints_error_object e5)" "typed_failure (resume_error_object e6)"
  "typed_failure (delete_error_object e7)" "typed_failure (rename_error_object e8)"
  "typed_failure (get_items_error_object e9)"
  subgoal by (cases e1; simp add: engine_failure_typed)
  subgoal by (cases e2; simp add: engine_failure_typed)
  subgoal by (cases e3; simp add: engine_failure_typed)
  subgoal by (cases e4; simp add: engine_failure_typed)
  subgoal by (cases e5; simp add: engine_failure_typed)
  subgoal by (cases e6; simp add: engine_failure_typed)
  subgoal by (cases e7; simp add: engine_failure_typed)
  subgoal by (cases e8; simp add: engine_failure_typed)
  subgoal by (cases e9; simp add: engine_failure_typed)
  done

text \<open>An answer: a result, a typed failure, or invalid parameters with the state untouched.\<close>

definition answered :: "'s \<Rightarrow> (json, error_object) rust_result \<times> 's \<Rightarrow> bool" where
  "answered s = (\<lambda>(r, s'). case r of
     Inr _ \<Rightarrow> True
   | Inl err \<Rightarrow> typed_failure err \<or> (eo_code err = as_i64 InvalidParams \<and> s' = s))"

lemma answered_params: "(\<And>p. answered s (body p s)) \<Longrightarrow> answered s (with_params de params body s)"
  by (simp add: with_params_def decode_params_def answered_def invalid_params_def split: sum.splits)

lemma answered_params_left:
  "eo_code err = as_i64 InvalidParams \<Longrightarrow> answered s (Inl err, s)"
  by (simp add: answered_def)

lemma answered_respond: "answered s (apfst (\<lambda>r. respond rc f (g r)) x)"
  by (cases x) (simp add: respond_def answered_def errors_typed split: sum.split)

lemma answered_respond': "answered s (respond rc f r, s')"
  by (simp add: respond_def answered_def errors_typed split: sum.split)

lemma answered_domain: "(\<And>d. typed_failure (domain d)) \<Longrightarrow> answered s (apfst (\<lambda>r. respond_domain rc f domain (g r)) x)"
  by (cases x) (simp add: respond_domain_def answered_def errors_typed split: sum.split)

lemma handler_answers:
  assumes "(m, h) \<in> set (engine_handlers alive rc)"
  shows "answered s (h w params s)"
proof -
  have "\<forall>(m, h) \<in> set (engine_handlers alive rc). answered s (h w params s)"
    unfolding engine_handlers_def list.set ball_simps prod.case handler_defs
    by (intro conjI; (intro TrueI)?; (intro answered_params)?)
      (auto simp: errors_typed decode_params_def invalid_params_def answered_params_left
        intro!: answered_respond answered_respond' answered_domain
        split: start_turn_params.split cancel_turn_params.split resume_permission_params.split compact_params.split
          fork_params.split list_checkpoints_params.split restore_params.split list_threads_params.split
          resume_thread_params.split get_items_params.split injection_params.split session_cancel_params.split
          delete_thread_params.split rename_thread_params.split search_threads_params.split
          set_model_params.split option.split sum.split prod.split)
  with assms show ?thesis by blast
qed

text \<open>A refusal: the actor has stopped, or the parameters are invalid; the state stays.\<close>

definition refused :: "rpc_codec \<Rightarrow> 's \<Rightarrow> (json, error_object) rust_result \<times> 's \<Rightarrow> bool" where
  "refused rc s x = (\<exists>err. x = (Inl err, s) \<and>
     (err = engine_error_object rc ActorStopped \<or> eo_code err = as_i64 InvalidParams))"

lemma refused_left: "refused rc s (Inl (invalid_params msg), s)"
  by (simp add: refused_def invalid_params_def)

lemma refused_params: "(\<And>p. refused rc s (body p s)) \<Longrightarrow> refused rc s (with_params de params body s)"
  by (simp add: with_params_def decode_params_def refused_left split: sum.split)

lemma refused_respond: "refused rc s (respond rc f (Inl ActorStopped), s)"
  by (simp add: refused_def respond_def)

lemma refused_domain: "refused rc s (respond_domain rc f d (Inl ActorStopped), s)"
  by (simp add: refused_def respond_domain_def)

section \<open>Properties\<close>


text \<open>
  the engine's methods are exactly the 22 of \<open>register_engine_handlers\<close>, each with its own handler;
  any other method is answered as not found and touches nothing.
\<close>
theorem engine_methods_complete:
  "let R = register_engine_handlers alive rc router_new
   in dom (ro_handlers R) =
     {''engine/start_turn'', ''engine/cancel_turn'', ''engine/resume_permission'', ''session/resume_permission'',
      ''engine/compact'', ''thread/fork'', ''engine/list_checkpoints'', ''engine/restore'', ''thread/list'',
      ''engine/resume_thread'', ''thread/get_items'', ''session/enqueue_steer'', ''session/enqueue_follow_up'',
      ''session/enqueue_next_turn'', ''engine/shutdown'', ''thread/delete'', ''thread/rename'', ''thread/search'',
      ''tools/list'', ''models/list'', ''engine/set_model'', ''session/cancel''} \<and>
      router_dispatch R w m params s =
        (case map_of (engine_handlers alive rc) m of
           None \<Rightarrow> (Inl (error_object_of MethodNotFound), s)
         | Some h \<Rightarrow> h w params s)"
proof -
  define R :: "(('a, 'b) call_world, ('a, 'b) served) router" where "R = register_engine_handlers alive rc router_new"
  define hs :: "(string \<times> ('a, 'b) rpc_handler) list" where "hs = engine_handlers alive rc"
  have lookup: "ro_handlers R m = Some h \<longleftrightarrow> (m, h) \<in> set hs" for m h
    unfolding R_def hs_def by (rule engine_router_lookup)
  have "distinct (map fst hs)" unfolding hs_def by (rule engine_methods_distinct)
  then have "ro_handlers R m = map_of hs m" for m
    using lookup [of m] map_of_eq_Some_iff [of hs m] by (metis option.exhaust)
  then have eq: "ro_handlers R = map_of hs" by (rule ext)
  have "dom (ro_handlers R) = set (map fst hs)" by (simp add: eq dom_map_of_conv_image_fst)
  also have "\<dots> =
     {''engine/start_turn'', ''engine/cancel_turn'', ''engine/resume_permission'', ''session/resume_permission'',
      ''engine/compact'', ''thread/fork'', ''engine/list_checkpoints'', ''engine/restore'', ''thread/list'',
      ''engine/resume_thread'', ''thread/get_items'', ''session/enqueue_steer'', ''session/enqueue_follow_up'',
      ''session/enqueue_next_turn'', ''engine/shutdown'', ''thread/delete'', ''thread/rename'', ''thread/search'',
      ''tools/list'', ''models/list'', ''engine/set_model'', ''session/cancel''}"
    unfolding hs_def engine_method_names by (simp only: list.set)
  finally show ?thesis
    unfolding Let_def R_def [symmetric] hs_def [symmetric] by (simp add: router_dispatch_def eq)
qed


text \<open>
  after a shutdown the engine takes no further submission: every method that needs the actor is
  answered with \<open>actor_stopped\<close>, or with invalid parameters, and changes nothing any more.
\<close>
theorem shutdown_stops_service:
  assumes "(m, h) \<in> set (engine_handlers alive rc)" "m \<notin> {''models/list'', ''engine/set_model''}"
  shows "let s1 = snd (shutdown_handler alive rc w params s)
         in \<not> sv_accepting s1 \<and>
            (\<exists>err. h w' params' s1 = (Inl err, s1) \<and>
               (err = engine_error_object rc ActorStopped \<or> eo_code err = as_i64 InvalidParams))"
proof -
  define s1 where "s1 = snd (shutdown_handler alive rc w params s)"
  have stopped: "\<not> sv_accepting s1"
    by (auto simp: s1_def shutdown_handler_def call_engine_def with_reply_def Let_def)
  then have call: "call_engine alive w' sub s1 = (Inl ActorStopped, s1)" "tell_engine alive w' sub s1 = (Inl ActorStopped, s1)"
    for sub by (simp_all add: call_engine_def tell_engine_def submit_with_reply_def submit_def)
  have "\<forall>(m, h) \<in> set (engine_handlers alive rc). m \<in> {''models/list'', ''engine/set_model''} \<or>
      refused rc s1 (h w' params' s1)"
    unfolding engine_handlers_def list.set ball_simps prod.case handler_defs
    by (intro conjI; (intro TrueI)?; ((rule disjI1, simp; fail) | (rule disjI2)?); (intro refused_params)?)
      (auto simp: call decode_params_def intro!: refused_respond refused_domain refused_left
        split: start_turn_params.split cancel_turn_params.split resume_permission_params.split compact_params.split
          fork_params.split list_checkpoints_params.split restore_params.split list_threads_params.split
          resume_thread_params.split get_items_params.split injection_params.split session_cancel_params.split
          delete_thread_params.split rename_thread_params.split search_threads_params.split option.split sum.split)
  then have "refused rc s1 (h w' params' s1)" using assms by fast
  then have "\<exists>err. h w' params' s1 = (Inl err, s1) \<and>
      (err = engine_error_object rc ActorStopped \<or> eo_code err = as_i64 InvalidParams)"
    by (simp only: refused_def)
  with assms stopped show ?thesis unfolding s1_def [symmetric] Let_def by blast
qed

text \<open>A codec and worlds for the examples: parameters name one thread, other results are empty.\<close>

definition plain_codec :: rpc_codec where
  "plain_codec = \<lparr>de_start_turn = (\<lambda>_. Inr (StartTurnParams (ThreadId ''t'') [] None None)),
     de_cancel_turn = (\<lambda>_. Inr (CancelTurnParams (ThreadId ''t''))), de_resume_permission = (\<lambda>_. Inl []),
     de_compact = (\<lambda>_. Inl []), de_fork = (\<lambda>_. Inl ''missing field''), de_list_checkpoints = (\<lambda>_. Inl []),
     de_restore = (\<lambda>_. Inl []), de_list_threads = (\<lambda>_. Inl []), de_resume_thread = (\<lambda>_. Inl []),
     de_get_items = (\<lambda>_. Inl []), de_injection = (\<lambda>_. Inl []), de_session_cancel = (\<lambda>_. Inl []),
     de_delete_thread = (\<lambda>_. Inl []), de_rename_thread = (\<lambda>_. Inl []), de_search_threads = (\<lambda>_. Inl []),
     de_set_model = (\<lambda>_. Inl []), en_checkpoint = (\<lambda>_. json.Null), en_thread = (\<lambda>_. json.Null),
     en_item = (\<lambda>_. json.Null), en_tool = (\<lambda>_. json.Null), en_model = (\<lambda>_. json.Null),
     debug_duration = (\<lambda>_. []), debug_str = (\<lambda>_. [])\<rparr>"

definition calm_call :: "(unit, unit) call_world" where
  "calm_call = \<lparr>kw_actor = calm_world, kw_late = False, kw_timeout = 30 * 10 ^ 9, kw_catalog = None,
     kw_model_id = (\<lambda>_. [])\<rparr>"

definition serving :: "(unit, unit) served" where
  "serving = \<lparr>sv_engine = sample_engine, sv_accepting = True, sv_provider = ()\<rparr>"

definition start_session :: "(message \<times> (unit, unit) call_world) list" where
  "start_session = [(Request (request_new (rpc_id.Number 1) ''initialize'' None), calm_call),
                    (Request (request_new (rpc_id.Number 2) ''engine/start_turn'' None), calm_call)]"

lemma calm_call_ok: "sv_engine s = sample_engine \<Longrightarrow> call_ok alive calm_call s"
  by (simp add: call_ok_def calm_call_def calm_world_def engine_run.refl running_def new_idle_def with_capacity_def)

lemma start_session_ok:
  "session_ok echo_codec (register_engine_handlers alive plain_codec router_new) ralive alive (converse start_session)
     (connection_new True serving)"
  by (simp add: start_session_def converse_def idle_def connection_new_def calm_call_ok serving_def
      dispatch_message_def dispatch_request_def Let_def request_new_def build_initialize_response_def echo_codec_def
      handle_initialize_def LATEST_def write_out_def split: option.split prod.split)



theorem shutdown_stops_service_witness:
  "\<exists>err. cancel_turn_handler (\<lambda>_. True) plain_codec calm_call None
     (snd (shutdown_handler (\<lambda>_. True) plain_codec calm_call None serving)) =
     (Inl err, snd (shutdown_handler (\<lambda>_. True) plain_codec calm_call None serving))"
proof -
  have "(''engine/cancel_turn'', cancel_turn_handler (\<lambda>_. True) plain_codec) \<in> set (engine_handlers (\<lambda>_ :: unit. True) plain_codec)"
    by (simp add: engine_handlers_def)
  from shutdown_stops_service [OF this, of calm_call None serving calm_call None] show ?thesis
    by (auto simp: Let_def)
qed

end
