(* ===== verification/Hook_Event.thy ===== *)
theory Hook_Event
  imports Phase
begin

text \<open>
  The hook events of \<open>zhive-proto/src/hook.rs\<close>: the base fields every payload carries, the eighteen
  typed payloads, the fallback for an event the program does not know, and the hand-written decoder
  that reads the tag first. The derived decoder of each payload is serde's, a record of parameters.
\<close>

section \<open>Provenance and base\<close>

datatype extension_source = Builtin | User | Project | Local | Mcp

record extension_ref =
  er_id :: string
  er_version :: string
  er_source :: extension_source

definition extension_ref_new :: "string \<Rightarrow> string \<Rightarrow> extension_source \<Rightarrow> extension_ref" where
  "extension_ref_new i version source = \<lparr>er_id = i, er_version = version, er_source = source\<rparr>"

definition extension_ref_text :: "extension_ref \<Rightarrow> string" where
  "extension_ref_text r = er_id r @ ''@'' @ er_version r"

record hook_event_base =
  hb_session_id :: string
  hb_cwd :: string
  hb_registered_by :: extension_ref
  hb_agent_id :: "string option"
  hb_agent_type :: "string option"
  hb_parent_tool_use_id :: "string option"
  hb_permission_mode :: "permission_mode option"
  hb_transcript_path :: "string option"

section \<open>Payloads\<close>

record pre_tool_use_input =
  pt_base :: hook_event_base
  pt_tool_name :: string
  pt_tool_input :: json
  pt_tool_use_id :: string

record post_tool_use_input =
  po_base :: hook_event_base
  po_tool_name :: string
  po_tool_input :: json
  po_tool_response :: json
  po_tool_use_id :: string

datatype tool_error_kind = Timeout | Cancelled | InvalidInput | PermissionDenied | ExecutionError | Other

record post_tool_use_failure_input =
  pf_base :: hook_event_base
  pf_tool_name :: string
  pf_tool_input :: json
  pf_tool_use_id :: string
  pf_error :: string
  pf_error_kind :: tool_error_kind

record user_prompt_submit_input =
  up_base :: hook_event_base
  up_prompt :: string

datatype session_start_source = Startup | Resume | Clear | Compact | Fork

record session_start_input =
  sst_base :: hook_event_base
  sst_source :: session_start_source
  sst_model :: "string option"

datatype session_end_reason =
  Clear | Resume | Logout | PromptInputExit | BypassPermissionsDisabled | Other

record session_end_input =
  se_base :: hook_event_base
  se_reason :: session_end_reason

record subagent_start_input =
  sas_base :: hook_event_base
  sas_inherited_scope :: json

record subagent_stop_input =
  sap_base :: hook_event_base
  sap_agent_transcript_path :: string
  sap_stop_hook_active :: bool

record pre_compact_input =
  pc_base :: hook_event_base
  pc_trigger :: compact_trigger
  pc_entries_count :: u32
  pc_custom_instructions :: "string option"

record post_compact_input =
  pcp_base :: hook_event_base
  pcp_trigger :: compact_trigger
  pcp_entries_compacted :: u32

record pre_branch_summary_input =
  pb_base :: hook_event_base
  pb_source_thread_id :: string
  pb_entries_count :: u32

record post_branch_summary_input =
  pbs_base :: hook_event_base
  pbs_source_thread_id :: string
  pbs_entries_summarized :: u32

record permission_request_input =
  pri_base :: hook_event_base
  pri_tool_name :: string
  pri_tool_input :: json
  pri_tool_use_id :: string
  pri_requested_scope :: json

record stop_input =
  si_base :: hook_event_base
  si_stop_hook_active :: bool

datatype notification_category =
    PermissionPrompt | IdlePrompt | AuthSuccess
  | ElicitationDialog | ElicitationResponse | ElicitationComplete

record notification_input =
  ni_base :: hook_event_base
  ni_category :: notification_category
  ni_message :: string
  ni_title :: "string option"

datatype setup_trigger = Init | Maintenance

record setup_input =
  su_base :: hook_event_base
  su_trigger :: setup_trigger

datatype tool_approval_state = Allow | AllowOnce | Ask | Deny
datatype tool_approval_origin = UserDecision | HookDecision | ScopeChange

record tool_approval_change_input =
  tc_base :: hook_event_base
  tc_tool_name :: string
  tc_previous :: tool_approval_state
  tc_current :: tool_approval_state
  tc_origin :: tool_approval_origin

record phase_transition_input =
  pti_base :: hook_event_base
  pti_from :: engine_phase
  pti_to :: engine_phase

section \<open>Events\<close>

datatype hook_event =
    PreToolUse pre_tool_use_input
  | PostToolUse post_tool_use_input
  | PostToolUseFailure post_tool_use_failure_input
  | UserPromptSubmit user_prompt_submit_input
  | SessionStart session_start_input
  | SessionEnd session_end_input
  | SubagentStart subagent_start_input
  | SubagentStop subagent_stop_input
  | PreCompact pre_compact_input
  | PostCompact post_compact_input
  | PreBranchSummary pre_branch_summary_input
  | PostBranchSummary post_branch_summary_input
  | PermissionRequest permission_request_input
  | Stop stop_input
  | Notification notification_input
  | Setup setup_input
  | ToolApprovalChange tool_approval_change_input
  | PhaseTransition phase_transition_input
  | Unknown string json

definition HOOK_EVENT_NAME_KEY :: string where
  "HOOK_EVENT_NAME_KEY = ''hook_event_name''"

text \<open>The tag a typed event is serialised under; the fallback has no wire form.\<close>

fun hook_wire_tag :: "hook_event \<Rightarrow> string option" where
  "hook_wire_tag (PreToolUse _) = Some ''PreToolUse''"
| "hook_wire_tag (PostToolUse _) = Some ''PostToolUse''"
| "hook_wire_tag (PostToolUseFailure _) = Some ''PostToolUseFailure''"
| "hook_wire_tag (UserPromptSubmit _) = Some ''UserPromptSubmit''"
| "hook_wire_tag (SessionStart _) = Some ''SessionStart''"
| "hook_wire_tag (SessionEnd _) = Some ''SessionEnd''"
| "hook_wire_tag (SubagentStart _) = Some ''SubagentStart''"
| "hook_wire_tag (SubagentStop _) = Some ''SubagentStop''"
| "hook_wire_tag (PreCompact _) = Some ''PreCompact''"
| "hook_wire_tag (PostCompact _) = Some ''PostCompact''"
| "hook_wire_tag (PreBranchSummary _) = Some ''PreBranchSummary''"
| "hook_wire_tag (PostBranchSummary _) = Some ''PostBranchSummary''"
| "hook_wire_tag (PermissionRequest _) = Some ''PermissionRequest''"
| "hook_wire_tag (Stop _) = Some ''Stop''"
| "hook_wire_tag (Notification _) = Some ''Notification''"
| "hook_wire_tag (Setup _) = Some ''Setup''"
| "hook_wire_tag (ToolApprovalChange _) = Some ''ToolApprovalChange''"
| "hook_wire_tag (PhaseTransition _) = Some ''PhaseTransition''"
| "hook_wire_tag (Unknown _ _) = None"

section \<open>Decoding\<close>

record hook_codec =
  hc_pre_tool_use :: "json \<Rightarrow> (pre_tool_use_input, string) rust_result"
  hc_post_tool_use :: "json \<Rightarrow> (post_tool_use_input, string) rust_result"
  hc_post_tool_use_failure :: "json \<Rightarrow> (post_tool_use_failure_input, string) rust_result"
  hc_user_prompt_submit :: "json \<Rightarrow> (user_prompt_submit_input, string) rust_result"
  hc_session_start :: "json \<Rightarrow> (session_start_input, string) rust_result"
  hc_session_end :: "json \<Rightarrow> (session_end_input, string) rust_result"
  hc_subagent_start :: "json \<Rightarrow> (subagent_start_input, string) rust_result"
  hc_subagent_stop :: "json \<Rightarrow> (subagent_stop_input, string) rust_result"
  hc_pre_compact :: "json \<Rightarrow> (pre_compact_input, string) rust_result"
  hc_post_compact :: "json \<Rightarrow> (post_compact_input, string) rust_result"
  hc_pre_branch_summary :: "json \<Rightarrow> (pre_branch_summary_input, string) rust_result"
  hc_post_branch_summary :: "json \<Rightarrow> (post_branch_summary_input, string) rust_result"
  hc_permission_request :: "json \<Rightarrow> (permission_request_input, string) rust_result"
  hc_stop :: "json \<Rightarrow> (stop_input, string) rust_result"
  hc_notification :: "json \<Rightarrow> (notification_input, string) rust_result"
  hc_setup :: "json \<Rightarrow> (setup_input, string) rust_result"
  hc_tool_approval_change :: "json \<Rightarrow> (tool_approval_change_input, string) rust_result"
  hc_phase_transition :: "json \<Rightarrow> (phase_transition_input, string) rust_result"

text \<open>\<open>Value::get\<close> with a string key, then \<open>as_str\<close>; a value that is no object has no entry.\<close>

definition hook_name_of :: "json \<Rightarrow> string" where
  "hook_name_of payload =
     (case payload of
        Object entries \<Rightarrow>
          (case map_of entries HOOK_EVENT_NAME_KEY of Some (json.String s) \<Rightarrow> s | _ \<Rightarrow> [])
      | _ \<Rightarrow> [])"

definition typed :: "('a \<Rightarrow> hook_event) \<Rightarrow> ('a, string) rust_result \<Rightarrow> (hook_event, string) rust_result" where
  "typed variant r = map_sum id variant r"

definition hook_event_decode :: "hook_codec \<Rightarrow> json \<Rightarrow> (hook_event, string) rust_result" where
  "hook_event_decode c payload =
     (let name = hook_name_of payload
      in if name = ''PreToolUse'' then typed PreToolUse (hc_pre_tool_use c payload)
         else if name = ''PostToolUse'' then typed PostToolUse (hc_post_tool_use c payload)
         else if name = ''PostToolUseFailure''
              then typed PostToolUseFailure (hc_post_tool_use_failure c payload)
         else if name = ''UserPromptSubmit'' then typed UserPromptSubmit (hc_user_prompt_submit c payload)
         else if name = ''SessionStart'' then typed SessionStart (hc_session_start c payload)
         else if name = ''SessionEnd'' then typed SessionEnd (hc_session_end c payload)
         else if name = ''SubagentStart'' then typed SubagentStart (hc_subagent_start c payload)
         else if name = ''SubagentStop'' then typed SubagentStop (hc_subagent_stop c payload)
         else if name = ''PreCompact'' then typed PreCompact (hc_pre_compact c payload)
         else if name = ''PostCompact'' then typed PostCompact (hc_post_compact c payload)
         else if name = ''PreBranchSummary'' then typed PreBranchSummary (hc_pre_branch_summary c payload)
         else if name = ''PostBranchSummary''
              then typed PostBranchSummary (hc_post_branch_summary c payload)
         else if name = ''PermissionRequest''
              then typed PermissionRequest (hc_permission_request c payload)
         else if name = ''Stop'' then typed Stop (hc_stop c payload)
         else if name = ''Notification'' then typed Notification (hc_notification c payload)
         else if name = ''Setup'' then typed Setup (hc_setup c payload)
         else if name = ''ToolApprovalChange''
              then typed ToolApprovalChange (hc_tool_approval_change c payload)
         else if name = ''PhaseTransition'' then typed PhaseTransition (hc_phase_transition c payload)
         else Inr (Unknown name payload))"

section \<open>Lemmas\<close>

definition hook_tags :: "string list" where
  "hook_tags =
     [''PreToolUse'', ''PostToolUse'', ''PostToolUseFailure'', ''UserPromptSubmit'', ''SessionStart'',
      ''SessionEnd'', ''SubagentStart'', ''SubagentStop'', ''PreCompact'', ''PostCompact'',
      ''PreBranchSummary'', ''PostBranchSummary'', ''PermissionRequest'', ''Stop'', ''Notification'',
      ''Setup'', ''ToolApprovalChange'', ''PhaseTransition'']"

lemma typed_Inr: "typed v r = Inr ev \<longleftrightarrow> (\<exists>x. r = Inr x \<and> ev = v x)"
  by (cases r) (auto simp: typed_def)

lemma wire_tag_known: "hook_wire_tag ev = Some t \<Longrightarrow> t \<in> set hook_tags"
  by (cases ev) (auto simp: hook_tags_def)

text \<open>The decoder keeps the tag: a typed event has the tag it came with.\<close>

lemma decode_known:
  assumes ev: "hook_event_decode c payload = Inr ev" and known: "hook_name_of payload \<in> set hook_tags"
  shows "hook_wire_tag ev = Some (hook_name_of payload)"
proof -
  have step: "hook_wire_tag ev = Some tag"
    if "typed v r = Inr ev" "\<And>x. hook_wire_tag (v x) = Some tag" for v and r :: "('a, string) rust_result" and tag
    using that by (auto simp: typed_Inr)
  show ?thesis
    using known ev unfolding hook_tags_def
    by (simp only: list.set insert_iff empty_iff simp_thms, elim disjE)
       (simp add: hook_event_decode_def step; fastforce simp: typed_Inr)+
qed

lemma decode_unknown:
  "hook_name_of payload \<notin> set hook_tags \<Longrightarrow>
   hook_event_decode c payload = Inr (Unknown (hook_name_of payload) payload)"
  by (simp add: hook_event_decode_def hook_tags_def)

end
