(* ===== verification/Hooks.thy ===== *)
theory Hooks
  imports Hook_Event Preview Tool_Dispatch "HOL-Library.Multiset"
begin

text \<open>
  The hook host (\<open>zhive-core/src/hooks/mod.rs\<close>), the scopes of registrations (\<open>scope.rs\<close>), hooks
  that are external programs (\<open>subprocess.rs\<close>) and the schema cache (\<open>validator.rs\<close>). What a
  callback or a child process does is a record of parameters: how long it takes and how it ends.
  Time is a natural number of milliseconds; an operation that never finishes is \<open>None\<close>. A run that
  reaches a \<open>select!\<close> is decided by the first arm that is ready, a tie by the arm order where the
  select is biased and by a parameter where it is not.
\<close>

section \<open>Registrations\<close>

record hook_filter =
  hf_tools :: "string list"

fun hook_tool_name :: "hook_event \<Rightarrow> string option" where
  "hook_tool_name (hook_event.PreToolUse p) = Some (pt_tool_name p)"
| "hook_tool_name (hook_event.PostToolUse p) = Some (po_tool_name p)"
| "hook_tool_name (PostToolUseFailure p) = Some (pf_tool_name p)"
| "hook_tool_name (PermissionRequest p) = Some (pri_tool_name p)"
| "hook_tool_name (ToolApprovalChange p) = Some (tc_tool_name p)"
| "hook_tool_name _ = None"

definition filter_matches :: "hook_filter \<Rightarrow> hook_event \<Rightarrow> bool" where
  "filter_matches f event =
     (if hf_tools f = [] then True
      else case hook_tool_name event of
             None \<Rightarrow> False
           | Some n \<Rightarrow> list_ex (\<lambda>t. t = n) (hf_tools f))"

record subprocess_spec =
  sp_program :: string
  sp_args :: "string list"
  sp_env :: "(string \<times> string) list"
  sp_cwd :: "string option"
  sp_shell :: bool

definition subprocess_spec_new :: "string \<Rightarrow> subprocess_spec" where
  "subprocess_spec_new program =
     \<lparr>sp_program = program, sp_args = [], sp_env = [], sp_cwd = None, sp_shell = False\<rparr>"

datatype 'cb hook_executor = InProcess 'cb | Cancellable 'cb | Subprocess subprocess_spec

record 'cb hook_registration =
  hr_id :: u64
  hr_registered_by :: extension_ref
  hr_filter :: hook_filter
  hr_priority :: int
  hr_timeout :: "nat option"
  hr_executor :: "'cb hook_executor"

datatype hook_host_error =
    MissingProvenanceId
  | MissingProvenanceVersion
  | Revalidation string
  | RegistryPoisoned
  | CallbackPanic string

fun hook_host_error_text :: "hook_host_error \<Rightarrow> string" where
  "hook_host_error_text MissingProvenanceId =
     ''hook registration must carry a non-empty ExtensionRef id (red line 10)''"
| "hook_host_error_text MissingProvenanceVersion =
     ''hook registration must carry a non-empty ExtensionRef version (red line 10)''"
| "hook_host_error_text (Revalidation e) = ''schema re-validation failed: '' @ e"
| "hook_host_error_text RegistryPoisoned = ''hook registration list is poisoned''"
| "hook_host_error_text (CallbackPanic reason) = ''hook callback panicked: '' @ reason"

text \<open>The host: the list behind its lock, whether that lock is poisoned, the allocator of ids.\<close>

record 'cb hook_host =
  hh_registrations :: "'cb hook_registration list"
  hh_poisoned :: bool
  hh_next :: u64

text \<open>\<open>Default\<close> of the host takes the default of the allocator's counter.\<close>

definition hook_host_new :: "'cb hook_host" where
  "hook_host_new = \<lparr>hh_registrations = [], hh_poisoned = False, hh_next = 0\<rparr>"

definition allocator_new :: u64 where
  "allocator_new = 1"

definition next_registration_id :: "'cb hook_host \<Rightarrow> u64 \<times> 'cb hook_host" where
  "next_registration_id h = (hh_next h, h\<lparr>hh_next := hh_next h + 1\<rparr>)"

record extension_scope =
  es_id :: u64
  es_attached :: bool

text \<open>
  \<open>partition_point\<close> on a list partitioned by the predicate, which a list sorted by descending
  priority is: the number of leading entries of at least the new one's priority.
\<close>

definition partition_point :: "('a \<Rightarrow> bool) \<Rightarrow> 'a list \<Rightarrow> nat" where
  "partition_point P xs = length (takeWhile P xs)"

definition list_insert_at :: "nat \<Rightarrow> 'a \<Rightarrow> 'a list \<Rightarrow> 'a list" where
  "list_insert_at i x xs = take i xs @ x # drop i xs"

definition insert_registration ::
    "extension_ref \<Rightarrow> hook_filter \<Rightarrow> int \<Rightarrow> nat option \<Rightarrow> 'cb hook_executor \<Rightarrow> 'cb hook_host \<Rightarrow>
     (extension_scope, hook_host_error) rust_result \<times> 'cb hook_host" where
  "insert_registration registered_by filter' priority timeout executor h =
     (if trim (er_id registered_by) = [] then (Inl MissingProvenanceId, h)
      else if trim (er_version registered_by) = [] then (Inl MissingProvenanceVersion, h)
      else
        (let (i, h) = next_registration_id h;
             reg = \<lparr>hr_id = i, hr_registered_by = registered_by, hr_filter = filter',
                    hr_priority = priority, hr_timeout = timeout, hr_executor = executor\<rparr>
         in if hh_poisoned h then (Inl RegistryPoisoned, h)
            else
              (let insert_at = partition_point (\<lambda>r. hr_priority r \<ge> hr_priority reg) (hh_registrations h)
               in (Inr \<lparr>es_id = i, es_attached = True\<rparr>,
                   h\<lparr>hh_registrations := list_insert_at insert_at reg (hh_registrations h)\<rparr>))))"

definition register_with_timeout ::
    "extension_ref \<Rightarrow> hook_filter \<Rightarrow> int \<Rightarrow> nat option \<Rightarrow> 'cb \<Rightarrow> 'cb hook_host \<Rightarrow>
     (extension_scope, hook_host_error) rust_result \<times> 'cb hook_host" where
  "register_with_timeout registered_by filter' priority timeout callback h =
     insert_registration registered_by filter' priority timeout (InProcess callback) h"

definition register_hook ::
    "extension_ref \<Rightarrow> hook_filter \<Rightarrow> int \<Rightarrow> 'cb \<Rightarrow> 'cb hook_host \<Rightarrow>
     (extension_scope, hook_host_error) rust_result \<times> 'cb hook_host" where
  "register_hook registered_by filter' priority callback h =
     register_with_timeout registered_by filter' priority None callback h"

definition register_cancellable_hook ::
    "extension_ref \<Rightarrow> hook_filter \<Rightarrow> int \<Rightarrow> nat option \<Rightarrow> 'cb \<Rightarrow> 'cb hook_host \<Rightarrow>
     (extension_scope, hook_host_error) rust_result \<times> 'cb hook_host" where
  "register_cancellable_hook registered_by filter' priority timeout callback h =
     insert_registration registered_by filter' priority timeout (Cancellable callback) h"

definition register_subprocess_hook ::
    "extension_ref \<Rightarrow> hook_filter \<Rightarrow> int \<Rightarrow> nat option \<Rightarrow> subprocess_spec \<Rightarrow> 'cb hook_host \<Rightarrow>
     (extension_scope, hook_host_error) rust_result \<times> 'cb hook_host" where
  "register_subprocess_hook registered_by filter' priority timeout spec h =
     insert_registration registered_by filter' priority timeout (Subprocess spec) h"

definition unregister_hook :: "u64 \<Rightarrow> 'cb hook_host \<Rightarrow> 'cb hook_host" where
  "unregister_hook i h =
     (if hh_poisoned h then h
      else h\<lparr>hh_registrations := filter (\<lambda>r. hr_id r \<noteq> i) (hh_registrations h)\<rparr>)"

definition leak_scope :: "extension_scope \<Rightarrow> u64" where
  "leak_scope s = es_id (s\<lparr>es_attached := False\<rparr>)"

definition drop_scope :: "extension_scope \<Rightarrow> 'cb hook_host \<Rightarrow> 'cb hook_host" where
  "drop_scope s h = (if es_attached s then unregister_hook (es_id s) h else h)"

section \<open>Callbacks in the process\<close>

datatype call_result = Returned "hook_output option" | Panicked string

record call_run =
  cr_takes :: "nat option"
  cr_result :: call_result

datatype timed_outcome = Completed call_result | TimedOut

datatype in_process_outcome = Output hook_output | NoOpinion | Cancelled

text \<open>\<open>tokio::time::timeout\<close> polls the wrapped future before its deadline.\<close>

definition apply_timeout :: "call_run \<Rightarrow> nat option \<Rightarrow> (nat \<times> timed_outcome) option" where
  "apply_timeout run timeout =
     (case timeout of
        Some budget \<Rightarrow>
          (case cr_takes run of
             Some t \<Rightarrow> (if t \<le> budget then Some (t, Completed (cr_result run)) else Some (budget, TimedOut))
           | None \<Rightarrow> Some (budget, TimedOut))
      | None \<Rightarrow> map_option (\<lambda>t. (t, Completed (cr_result run))) (cr_takes run))"

fun timed_to_outcome :: "timed_outcome \<Rightarrow> in_process_outcome" where
  "timed_to_outcome (Completed (Returned (Some output))) = Output output"
| "timed_to_outcome (Completed (Returned None)) = NoOpinion"
| "timed_to_outcome (Completed (Panicked _)) = NoOpinion"
| "timed_to_outcome TimedOut = NoOpinion"

text \<open>The biased select of both in-process arms; \<open>signal\<close> is the time the token fires, if it does.\<close>

definition race_signal ::
    "nat option \<Rightarrow> nat \<Rightarrow> (nat \<times> timed_outcome) option \<Rightarrow> (nat \<times> in_process_outcome) option" where
  "race_signal signal now work =
     (case (signal, work) of
        (None, None) \<Rightarrow> None
      | (Some k, None) \<Rightarrow> Some (max k now, Cancelled)
      | (None, Some (t, r)) \<Rightarrow> Some (now + t, timed_to_outcome r)
      | (Some k, Some (t, r)) \<Rightarrow>
          (if k \<le> now + t then Some (max k now, Cancelled) else Some (now + t, timed_to_outcome r)))"

text \<open>
  What is outside the program: the callbacks (a cancellable one also sees how far away the signal
  is), the children, the two serde conversions, and the winner of a tie.
\<close>

record hook_command =
  cmd_program :: string
  cmd_args :: "string list"
  cmd_env :: "(string \<times> string) list"
  cmd_dir :: "string option"

record child_exit =
  ce_code :: "int option"
  ce_stdout :: string
  ce_stderr :: string

record child_run =
  ch_spawns :: bool
  ch_stdin :: "nat option"
  ch_stdin_ok :: bool
  ch_exit :: "nat option"
  ch_status :: "child_exit option"
  ch_tie :: nat

record 'cb hook_world =
  hw_call :: "'cb \<Rightarrow> hook_event \<Rightarrow> call_run"
  hw_call_signal :: "'cb \<Rightarrow> hook_event \<Rightarrow> nat option \<Rightarrow> call_run"
  hw_child :: "hook_command \<Rightarrow> string \<Rightarrow> child_run"
  hw_serialize :: "hook_event \<Rightarrow> (string, string) rust_result"
  hw_parse :: "string \<Rightarrow> (hook_output, string) rust_result"

definition run_in_process ::
    "'cb hook_world \<Rightarrow> 'cb \<Rightarrow> hook_event \<Rightarrow> nat option \<Rightarrow> nat option \<Rightarrow> nat \<Rightarrow>
     (nat \<times> in_process_outcome) option" where
  "run_in_process w callback event timeout signal now =
     race_signal signal now (apply_timeout (hw_call w callback event) timeout)"

definition run_cancellable ::
    "'cb hook_world \<Rightarrow> 'cb \<Rightarrow> hook_event \<Rightarrow> nat option \<Rightarrow> nat option \<Rightarrow> nat \<Rightarrow>
     (nat \<times> in_process_outcome) option" where
  "run_cancellable w callback event timeout signal now =
     race_signal signal now
       (apply_timeout (hw_call_signal w callback event (map_option (\<lambda>k. k - now) signal)) timeout)"

section \<open>Hooks that are programs\<close>

definition DEFAULT_SUBPROCESS_TIMEOUT :: nat where
  "DEFAULT_SUBPROCESS_TIMEOUT = 600000"

datatype subprocess_hook_error = Cancelled | Serialize string

fun event_cwd :: "hook_event \<Rightarrow> string" where
  "event_cwd (hook_event.PreToolUse p) = hb_cwd (pt_base p)"
| "event_cwd (hook_event.PostToolUse p) = hb_cwd (po_base p)"
| "event_cwd (PostToolUseFailure p) = hb_cwd (pf_base p)"
| "event_cwd (UserPromptSubmit p) = hb_cwd (up_base p)"
| "event_cwd (PermissionRequest p) = hb_cwd (pri_base p)"
| "event_cwd (ToolApprovalChange p) = hb_cwd (tc_base p)"
| "event_cwd (Stop p) = hb_cwd (si_base p)"
| "event_cwd (hook_event.Notification p) = hb_cwd (ni_base p)"
| "event_cwd (Setup p) = hb_cwd (su_base p)"
| "event_cwd (SubagentStart p) = hb_cwd (sas_base p)"
| "event_cwd (SubagentStop p) = hb_cwd (sap_base p)"
| "event_cwd (PreCompact p) = hb_cwd (pc_base p)"
| "event_cwd (PostCompact p) = hb_cwd (pcp_base p)"
| "event_cwd (PreBranchSummary p) = hb_cwd (pb_base p)"
| "event_cwd (PostBranchSummary p) = hb_cwd (pbs_base p)"
| "event_cwd (SessionStart p) = hb_cwd (sst_base p)"
| "event_cwd (SessionEnd p) = hb_cwd (se_base p)"
| "event_cwd (PhaseTransition p) = hb_cwd (pti_base p)"
| "event_cwd (Unknown _ _) = []"

definition build_command :: "subprocess_spec \<Rightarrow> hook_event \<Rightarrow> hook_command" where
  "build_command spec event =
     (let (program, args) = (if sp_shell spec then (''sh'', [''-c'', sp_program spec])
                             else (sp_program spec, sp_args spec));
          dir = (case sp_cwd spec of
                   Some d \<Rightarrow> Some d
                 | None \<Rightarrow> (if event_cwd event \<noteq> [] then Some (event_cwd event) else None))
      in \<lparr>cmd_program = program, cmd_args = args, cmd_env = sp_env spec, cmd_dir = dir\<rparr>)"

text \<open>\<open>trim_start\<close>, then the first byte.\<close>

definition looks_like_json :: "string \<Rightarrow> bool" where
  "looks_like_json s =
     (let trimmed = concat (dropWhile is_whitespace (chars s))
      in starts_with trimmed ''{'' \<or> starts_with trimmed ''['')"

fun event_can_block :: "hook_event \<Rightarrow> bool" where
  "event_can_block (hook_event.PostToolUse _) = False"
| "event_can_block (PostToolUseFailure _) = False"
| "event_can_block _ = True"

definition hook_output_default :: hook_output where
  "hook_output_default =
     \<lparr>ho_system_message = None, ho_continue_loop = None, ho_async_mode = None,
      ho_async_timeout = None, ho_hook_specific_output = None\<rparr>"

definition block_output :: "hook_event \<Rightarrow> string \<Rightarrow> hook_output" where
  "block_output event reason =
     (case event of
        hook_event.PreToolUse _ \<Rightarrow>
          hook_output_default
            \<lparr>ho_hook_specific_output :=
               Some (hook_specific_output.PreToolUse permission_decision.Deny (Some reason) None)\<rparr>
      | _ \<Rightarrow> hook_output_default\<lparr>ho_continue_loop := Some False, ho_system_message := Some reason\<rparr>)"

definition interpret_exit ::
    "'cb hook_world \<Rightarrow> hook_event \<Rightarrow> int option \<Rightarrow> string \<Rightarrow> string \<Rightarrow> hook_output option" where
  "interpret_exit w event exit_code stdout stderr =
     (case exit_code of
        Some code \<Rightarrow>
          (if code = 0 then
             (if stdout = [] then None
              else if \<not> looks_like_json stdout then None
              else case hw_parse w stdout of Inr output \<Rightarrow> Some output | Inl _ \<Rightarrow> None)
           else if code = 2 then
             (if \<not> event_can_block event then None
              else if stderr = [] then None
              else Some (block_output event stderr))
           else None)
      | None \<Rightarrow> None)"

text \<open>The three arms of the unbiased select, with the time each becomes ready.\<close>

datatype sub_arm = ChildExited | DeadlinePassed | SignalFired

definition sub_arms :: "nat option \<Rightarrow> nat \<Rightarrow> nat option \<Rightarrow> (sub_arm \<times> nat) list" where
  "sub_arms exits timeout signal =
     (case exits of None \<Rightarrow> [] | Some x \<Rightarrow> [(ChildExited, x)]) @
     [(DeadlinePassed, timeout)] @
     (case signal of None \<Rightarrow> [] | Some k \<Rightarrow> [(SignalFired, k)])"

definition first_ready :: "nat \<Rightarrow> (sub_arm \<times> nat) list \<Rightarrow> sub_arm \<times> nat" where
  "first_ready tie arms =
     (let earliest = Min (set (map snd arms));
          ready = filter (\<lambda>a. snd a = earliest) arms
      in ready ! (tie mod length ready))"

definition run_subprocess_hook ::
    "'cb hook_world \<Rightarrow> subprocess_spec \<Rightarrow> hook_event \<Rightarrow> nat \<Rightarrow> nat option \<Rightarrow> nat \<Rightarrow>
     (nat \<times> (hook_output option, subprocess_hook_error) rust_result) option" where
  "run_subprocess_hook w spec event timeout signal now =
     (if (case signal of Some k \<Rightarrow> k \<le> now | None \<Rightarrow> False)
      then Some (now, Inl subprocess_hook_error.Cancelled)
      else
        (case hw_serialize w event of
           Inl err \<Rightarrow> Some (now, Inl (Serialize err))
         | Inr input \<Rightarrow>
             (let child = hw_child w (build_command spec event) input
              in if \<not> ch_spawns child then Some (now, Inr None)
                 else
                   (case ch_stdin child of
                      None \<Rightarrow> None
                    | Some written \<Rightarrow>
                        (let t = now + written
                         in if \<not> ch_stdin_ok child then Some (t, Inr None)
                            else
                              (let (arm, d) = first_ready (ch_tie child)
                                     (sub_arms (ch_exit child) timeout (map_option (\<lambda>k. k - t) signal))
                               in Some (t + d,
                                    (case arm of
                                       ChildExited \<Rightarrow>
                                         (case ch_status child of
                                            Some st \<Rightarrow>
                                              Inr (interpret_exit w event (ce_code st)
                                                     (trim (ce_stdout st)) (trim (ce_stderr st)))
                                          | None \<Rightarrow> Inr None)
                                     | DeadlinePassed \<Rightarrow> Inr None
                                     | SignalFired \<Rightarrow> Inl subprocess_hook_error.Cancelled))))))))"

section \<open>Dispatch\<close>

text \<open>One iteration of the dispatch loop.\<close>

definition run_hook ::
    "'cb hook_world \<Rightarrow> hook_event \<Rightarrow> nat option \<Rightarrow> nat option \<Rightarrow> 'cb hook_executor \<Rightarrow> nat \<Rightarrow>
     (nat \<times> in_process_outcome) option" where
  "run_hook w event signal timeout executor now =
     (case executor of
        InProcess callback \<Rightarrow> run_in_process w callback event timeout signal now
      | Cancellable callback \<Rightarrow> run_cancellable w callback event timeout signal now
      | Subprocess spec \<Rightarrow>
          (let effective = (case timeout of Some t \<Rightarrow> t | None \<Rightarrow> DEFAULT_SUBPROCESS_TIMEOUT)
           in map_option
                (\<lambda>(t, r). (t, case r of
                               Inr (Some output) \<Rightarrow> Output output
                             | Inr None \<Rightarrow> NoOpinion
                             | Inl subprocess_hook_error.Cancelled \<Rightarrow> in_process_outcome.Cancelled
                             | Inl (Serialize _) \<Rightarrow> NoOpinion))
                (run_subprocess_hook w spec event effective signal now)))"

fun run_hooks ::
    "'cb hook_world \<Rightarrow> hook_event \<Rightarrow> nat option \<Rightarrow> (u64 \<times> nat option \<times> 'cb hook_executor) list \<Rightarrow>
     nat \<Rightarrow> hook_output list \<Rightarrow> (nat \<times> hook_output list) option" where
  "run_hooks w event signal [] now outputs = Some (now, outputs)"
| "run_hooks w event signal ((i, timeout, executor) # rest) now outputs =
     (case run_hook w event signal timeout executor now of
        None \<Rightarrow> None
      | Some (t, Output output) \<Rightarrow> run_hooks w event signal rest t (outputs @ [output])
      | Some (t, NoOpinion) \<Rightarrow> run_hooks w event signal rest t outputs
      | Some (t, in_process_outcome.Cancelled) \<Rightarrow> Some (t, outputs))"

definition hook_snapshot ::
    "'cb hook_host \<Rightarrow> hook_event \<Rightarrow> (u64 \<times> nat option \<times> 'cb hook_executor) list" where
  "hook_snapshot h event =
     map (\<lambda>r. (hr_id r, hr_timeout r, hr_executor r))
         (filter (\<lambda>r. filter_matches (hr_filter r) event) (hh_registrations h))"

definition dispatch_with_signal ::
    "'cb hook_world \<Rightarrow> 'cb hook_host \<Rightarrow> hook_event \<Rightarrow> nat option \<Rightarrow> nat \<Rightarrow>
     (nat \<times> (hook_output list, hook_host_error) rust_result) option" where
  "dispatch_with_signal w h event signal now =
     (if hh_poisoned h then Some (now, Inl RegistryPoisoned)
      else map_option (\<lambda>(t, outs). (t, Inr outs))
             (run_hooks w event signal (hook_snapshot h event) now []))"

text \<open>\<open>dispatch\<close> runs with a token nobody can cancel.\<close>

definition dispatch_hooks ::
    "'cb hook_world \<Rightarrow> 'cb hook_host \<Rightarrow> hook_event \<Rightarrow> nat \<Rightarrow>
     (nat \<times> (hook_output list, hook_host_error) rust_result) option" where
  "dispatch_hooks w h event now = dispatch_with_signal w h event None now"

text \<open>The two fields of the span a dispatch runs in.\<close>

fun hook_event_name :: "hook_event \<Rightarrow> string" where
  "hook_event_name (hook_event.PreToolUse _) = ''PreToolUse''"
| "hook_event_name (hook_event.PostToolUse _) = ''PostToolUse''"
| "hook_event_name (PostToolUseFailure _) = ''PostToolUseFailure''"
| "hook_event_name (UserPromptSubmit _) = ''UserPromptSubmit''"
| "hook_event_name (PermissionRequest _) = ''PermissionRequest''"
| "hook_event_name (ToolApprovalChange _) = ''ToolApprovalChange''"
| "hook_event_name (Stop _) = ''Stop''"
| "hook_event_name (hook_event.Notification _) = ''Notification''"
| "hook_event_name (Setup _) = ''Setup''"
| "hook_event_name (SubagentStart _) = ''SubagentStart''"
| "hook_event_name (SubagentStop _) = ''SubagentStop''"
| "hook_event_name (PreCompact _) = ''PreCompact''"
| "hook_event_name (SessionStart _) = ''SessionStart''"
| "hook_event_name (SessionEnd _) = ''SessionEnd''"
| "hook_event_name (PhaseTransition _) = ''PhaseTransition''"
| "hook_event_name _ = ''Unknown''"

fun hook_session_id :: "hook_event \<Rightarrow> string" where
  "hook_session_id (hook_event.PreToolUse p) = hb_session_id (pt_base p)"
| "hook_session_id (hook_event.PostToolUse p) = hb_session_id (po_base p)"
| "hook_session_id (PostToolUseFailure p) = hb_session_id (pf_base p)"
| "hook_session_id (UserPromptSubmit p) = hb_session_id (up_base p)"
| "hook_session_id (PermissionRequest p) = hb_session_id (pri_base p)"
| "hook_session_id (ToolApprovalChange p) = hb_session_id (tc_base p)"
| "hook_session_id (Stop p) = hb_session_id (si_base p)"
| "hook_session_id (hook_event.Notification p) = hb_session_id (ni_base p)"
| "hook_session_id (Setup p) = hb_session_id (su_base p)"
| "hook_session_id (SubagentStart p) = hb_session_id (sas_base p)"
| "hook_session_id (SubagentStop p) = hb_session_id (sap_base p)"
| "hook_session_id (PreCompact p) = hb_session_id (pc_base p)"
| "hook_session_id (SessionStart p) = hb_session_id (sst_base p)"
| "hook_session_id (SessionEnd p) = hb_session_id (se_base p)"
| "hook_session_id (PhaseTransition p) = hb_session_id (pti_base p)"
| "hook_session_id _ = []"

section \<open>Schemas\<close>

datatype validator_error =
    InvalidSchema string string
  | RevalidationFailed string string
  | UnknownTool string
  | RegistryPoisoned

fun validator_error_text :: "validator_error \<Rightarrow> string" where
  "validator_error_text (InvalidSchema tool reason) = ''invalid schema for tool '' @ tool @ '': '' @ reason"
| "validator_error_text (RevalidationFailed tool reason) =
     ''re-validation failed for tool '' @ tool @ '': '' @ reason"
| "validator_error_text (UnknownTool tool) = ''no schema registered for tool '' @ tool"
| "validator_error_text validator_error.RegistryPoisoned = ''schema cache lock is poisoned''"

text \<open>
  The cache maps a tool to its compiled validator. Compiling and running one is the work of the
  schema library: a function from a schema to a validator or a diagnostic, and from a validator and
  an input to the errors it reports.
\<close>

record 'v schema_cache =
  sc_schemas :: "string \<rightharpoonup> 'v"
  sc_poisoned :: bool

definition schema_register ::
    "(json \<Rightarrow> ('v, string) rust_result) \<Rightarrow> string \<Rightarrow> json \<Rightarrow> 'v schema_cache \<Rightarrow>
     (unit, validator_error) rust_result \<times> 'v schema_cache" where
  "schema_register compile tool schema c =
     (case compile schema of
        Inl reason \<Rightarrow> (Inl (InvalidSchema tool reason), c)
      | Inr compiled \<Rightarrow>
          (if sc_poisoned c then (Inl validator_error.RegistryPoisoned, c)
           else (Inr (), c\<lparr>sc_schemas := (sc_schemas c)(tool \<mapsto> compiled)\<rparr>)))"

text \<open>Between the read lock and the write lock other tasks change the cache, by \<open>others\<close>.\<close>

definition schema_register_if_absent ::
    "(json \<Rightarrow> ('v, string) rust_result) \<Rightarrow> ('v schema_cache \<Rightarrow> 'v schema_cache) \<Rightarrow> string \<Rightarrow> json \<Rightarrow>
     'v schema_cache \<Rightarrow> (bool, validator_error) rust_result \<times> 'v schema_cache" where
  "schema_register_if_absent compile others tool schema c =
     (if sc_poisoned c then (Inl validator_error.RegistryPoisoned, c)
      else if tool \<in> dom (sc_schemas c) then (Inr False, c)
      else
        (let c = others c
         in case compile schema of
              Inl reason \<Rightarrow> (Inl (InvalidSchema tool reason), c)
            | Inr compiled \<Rightarrow>
                (if sc_poisoned c then (Inl validator_error.RegistryPoisoned, c)
                 else if tool \<in> dom (sc_schemas c) then (Inr False, c)
                 else (Inr True, c\<lparr>sc_schemas := (sc_schemas c)(tool \<mapsto> compiled)\<rparr>))))"

definition schema_revalidate ::
    "('v \<Rightarrow> json \<Rightarrow> string list) \<Rightarrow> string \<Rightarrow> json \<Rightarrow> 'v schema_cache \<Rightarrow>
     (unit, validator_error) rust_result" where
  "schema_revalidate iter_errors tool input c =
     (if sc_poisoned c then Inl validator_error.RegistryPoisoned
      else case sc_schemas c tool of
             None \<Rightarrow> Inl (UnknownTool tool)
           | Some validator \<Rightarrow>
               (let errors = iter_errors validator input
                in if errors = [] then Inr ()
                   else Inl (RevalidationFailed tool (join ''; '' errors))))"

section \<open>The registry\<close>

text \<open>What happens to a host: registrations, removals, and scopes that are dropped.\<close>

datatype 'cb host_op =
    RegisterOp extension_ref hook_filter int "nat option" "'cb hook_executor"
  | UnregisterOp u64
  | DropOp extension_scope

fun host_step :: "'cb host_op \<Rightarrow> 'cb hook_host \<Rightarrow> 'cb hook_host" where
  "host_step (RegisterOp r f p t x) h = snd (insert_registration r f p t x h)"
| "host_step (UnregisterOp i) h = unregister_hook i h"
| "host_step (DropOp s) h = drop_scope s h"

definition host_run :: "'cb host_op list \<Rightarrow> 'cb hook_host \<Rightarrow> 'cb hook_host" where
  "host_run ops h = fold host_step ops h"

text \<open>
  The abstract registry: the counter and the live registrations in the order they were made.
\<close>

definition provenance_ok :: "extension_ref \<Rightarrow> bool" where
  "provenance_ok r = (trim (er_id r) \<noteq> [] \<and> trim (er_version r) \<noteq> [])"

fun log_step :: "'cb host_op \<Rightarrow> u64 \<times> 'cb hook_registration list \<Rightarrow> u64 \<times> 'cb hook_registration list" where
  "log_step (RegisterOp r f p t x) (n, log) =
     (if provenance_ok r
      then (n + 1, log @ [\<lparr>hr_id = n, hr_registered_by = r, hr_filter = f, hr_priority = p,
                           hr_timeout = t, hr_executor = x\<rparr>])
      else (n, log))"
| "log_step (UnregisterOp i) (n, log) = (n, filter (\<lambda>r. hr_id r \<noteq> i) log)"
| "log_step (DropOp s) (n, log) = (n, if es_attached s then filter (\<lambda>r. hr_id r \<noteq> es_id s) log else log)"

definition by_priority :: "'cb hook_registration list \<Rightarrow> 'cb hook_registration list" where
  "by_priority log = sort_key (\<lambda>r. - hr_priority r) log"

text \<open>Inserting after the last entry of at least the same key is the stable insertion of a sort.\<close>

lemma filter_takeWhile_sorted:
  "sorted (map f xs) \<Longrightarrow> (\<forall>y \<in> set (dropWhile (\<lambda>y. f y \<le> f x) xs). f x < f y)"
  for f :: "'a \<Rightarrow> int"
  by (induction xs) (auto simp: not_le)

lemma insert_after_stable:
  fixes f :: "'a \<Rightarrow> int"
  shows "sort_key f (xs @ [x]) =
     takeWhile (\<lambda>y. f y \<le> f x) (sort_key f xs) @ x # dropWhile (\<lambda>y. f y \<le> f x) (sort_key f xs)"
    (is "_ = ?ys")
proof (rule properties_for_sort_key)
  let ?s = "sort_key f xs"
  have s: "?s = takeWhile (\<lambda>y. f y \<le> f x) ?s @ dropWhile (\<lambda>y. f y \<le> f x) ?s" by simp
  have "mset ?ys = add_mset x (mset (takeWhile (\<lambda>y. f y \<le> f x) ?s @ dropWhile (\<lambda>y. f y \<le> f x) ?s))"
    by (simp only: mset_append mset.simps) simp
  also have "\<dots> = mset (xs @ [x])" by (simp only: s [symmetric]) simp
  finally show "mset ?ys = mset (xs @ [x])" .
  have big: "\<forall>y \<in> set (dropWhile (\<lambda>y. f y \<le> f x) ?s). f x < f y"
    by (rule filter_takeWhile_sorted) simp
  show "filter (\<lambda>z. f k = f z) ?ys = filter (\<lambda>z. f k = f z) (xs @ [x])" for k
  proof -
    have "filter (\<lambda>z. f k = f z) xs = filter (\<lambda>z. f k = f z) ?s"
      using sort_key_stable [of f "f k" xs] by (simp only: eq_commute [of "f k"])
    also have "\<dots> = filter (\<lambda>z. f k = f z) (takeWhile (\<lambda>y. f y \<le> f x) ?s)
                  @ filter (\<lambda>z. f k = f z) (dropWhile (\<lambda>y. f y \<le> f x) ?s)"
      by (metis filter_append s)
    finally have split: "filter (\<lambda>z. f k = f z) xs = \<dots>" .
    show ?thesis
    proof (cases "f k = f x")
      case True
      then have "filter (\<lambda>z. f k = f z) (dropWhile (\<lambda>y. f y \<le> f x) ?s) = []"
        using big by (auto simp: filter_empty_conv)
      then show ?thesis using True split by simp
    qed (simp add: split)
  qed
  have "sorted (map f (takeWhile (\<lambda>y. f y \<le> f x) ?s))" "sorted (map f (dropWhile (\<lambda>y. f y \<le> f x) ?s))"
    by (metis map_append s sorted_append sorted_sort_key)+
  then show "sorted (map f ?ys)"
    using big by (auto simp: sorted_append dest!: set_takeWhileD intro: less_imp_le order.trans)
qed

lemma insert_at_partition:
  "list_insert_at (partition_point P xs) x xs = takeWhile P xs @ x # dropWhile P xs"
  by (simp add: list_insert_at_def partition_point_def takeWhile_eq_take [symmetric] dropWhile_eq_drop [symmetric])

lemma by_priority_append:
  "by_priority (log @ [r]) =
     list_insert_at (partition_point (\<lambda>s. hr_priority s \<ge> hr_priority r) (by_priority log)) r (by_priority log)"
  by (simp add: by_priority_def insert_after_stable insert_at_partition)

lemma by_priority_filter: "by_priority (filter P log) = filter P (by_priority log)"
  by (simp add: by_priority_def filter_sort)

definition registry_rel :: "'cb hook_host \<Rightarrow> u64 \<times> 'cb hook_registration list \<Rightarrow> bool" where
  "registry_rel h a =
     (\<not> hh_poisoned h \<and> hh_next h = fst a \<and> hh_registrations h = by_priority (snd a))"

lemma registry_step:
  assumes "registry_rel h a"
  shows "registry_rel (host_step op h) (log_step op a)"
proof (cases op)
  case (RegisterOp r f p t x)
  then show ?thesis
    using assms
    by (cases a) (auto simp: registry_rel_def insert_registration_def next_registration_id_def Let_def
                         provenance_ok_def by_priority_append)
next
  case (UnregisterOp i)
  then show ?thesis
    using assms by (cases a) (simp add: registry_rel_def unregister_hook_def by_priority_filter)
next
  case (DropOp s)
  then show ?thesis
    using assms by (cases a) (simp add: registry_rel_def drop_scope_def unregister_hook_def by_priority_filter)
qed

lemma registry_run: "registry_rel h a \<Longrightarrow> registry_rel (host_run ops h) (fold log_step ops a)"
  by (induction ops arbitrary: h a) (auto simp: host_run_def registry_step)

lemma registry_new: "registry_rel hook_host_new (0, [])"
  by (simp add: registry_rel_def hook_host_new_def by_priority_def)

section \<open>One hook at a time\<close>

text \<open>With a token nobody cancels a run does not depend on the time it starts.\<close>

lemma run_hook_shift:
  "run_hook w event None timeout x now = map_option (\<lambda>(t, r). (now + t, r)) (run_hook w event None timeout x 0)"
  by (cases x)
     (auto simp: run_hook_def run_in_process_def run_cancellable_def race_signal_def run_subprocess_hook_def
        Let_def case_prod_beta split: option.splits sum.splits)

lemma first_ready_mem:
  assumes "arms \<noteq> []"
  shows "first_ready tie arms \<in> set arms" "snd (first_ready tie arms) = Min (set (map snd arms))"
proof -
  let ?m = "Min (set (map snd arms))"
  let ?ready = "filter (\<lambda>a. snd a = ?m) arms"
  have "?m \<in> set (map snd arms)" by (rule Min_in) (use assms in auto)
  then obtain a where "a \<in> set arms" "snd a = ?m" by auto
  then have "?ready \<noteq> []" by (auto simp only: filter_empty_conv)
  then have "?ready ! (tie mod length ?ready) \<in> set ?ready" by (intro nth_mem) simp
  then show "first_ready tie arms \<in> set arms" "snd (first_ready tie arms) = ?m"
    by (simp_all add: first_ready_def Let_def)
qed

lemma first_ready_le:
  assumes "(a, d) \<in> set arms"
  shows "snd (first_ready tie arms) \<le> d"
proof -
  have "Min (set (map snd arms)) \<le> d" using assms by (auto intro!: Min_le image_eqI [of _ snd "(a, d)"])
  moreover have "arms \<noteq> []" using assms by auto
  ultimately show ?thesis using first_ready_mem(2) [of arms tie] by linarith
qed

lemma run_hook_not_cancelled:
  "run_hook w event None timeout x now \<noteq> Some (t, in_process_outcome.Cancelled)"
proof (cases x)
  case (Subprocess spec)
  have arm: "fst (first_ready tie (sub_arms e d None)) \<noteq> SignalFired" for tie e d
    using first_ready_mem(1) [of "sub_arms e d None" tie]
    by (cases "first_ready tie (sub_arms e d None)") (auto simp: sub_arms_def split: option.splits)
  show ?thesis
    using arm
    by (auto simp: Subprocess run_hook_def run_subprocess_hook_def Let_def case_prod_beta
          split: option.splits sum.splits sub_arm.splits subprocess_hook_error.splits)
next
  case (InProcess cb)
  have "timed_to_outcome r \<noteq> in_process_outcome.Cancelled" for r
    by (cases r rule: timed_to_outcome.cases) auto
  then show ?thesis
    by (auto simp: InProcess run_hook_def run_in_process_def race_signal_def split: option.splits)
next
  case (Cancellable cb)
  have "timed_to_outcome r \<noteq> in_process_outcome.Cancelled" for r
    by (cases r rule: timed_to_outcome.cases) auto
  then show ?thesis
    by (auto simp: Cancellable run_hook_def run_cancellable_def race_signal_def split: option.splits)
qed

text \<open>What a hook contributes to a dispatch nobody cancels: its output, or nothing.\<close>

definition contribution :: "'cb hook_world \<Rightarrow> hook_event \<Rightarrow> nat option \<Rightarrow> 'cb hook_executor \<Rightarrow> hook_output list" where
  "contribution w event timeout x =
     (case run_hook w event None timeout x 0 of Some (_, Output output) \<Rightarrow> [output] | _ \<Rightarrow> [])"

lemma run_hooks_outputs:
  "run_hooks w event None hooks now acc = Some (t, outs) \<Longrightarrow>
   outs = acc @ concat (map (\<lambda>(i, timeout, x). contribution w event timeout x) hooks)"
proof (induction hooks arbitrary: now acc)
  case (Cons hk rest)
  obtain i timeout x where hk: "hk = (i, timeout, x)" by (cases hk)
  obtain u r where run: "run_hook w event None timeout x 0 = Some (u, r)"
    using Cons.prems by (cases "run_hook w event None timeout x 0")
      (auto simp: hk run_hook_shift [of _ _ _ _ now])
  have "r \<noteq> in_process_outcome.Cancelled"
    using run_hook_not_cancelled [of w event timeout x 0 u] run by auto
  then have rest: "run_hooks w event None rest (now + u) (acc @ contribution w event timeout x) = Some (t, outs)"
    using Cons.prems run by (cases r) (auto simp: hk run_hook_shift [of _ _ _ _ now] contribution_def)
  show ?case using Cons.IH [OF rest] by (simp add: hk)
qed simp

section \<open>Bounds\<close>

text \<open>The time a hook can hold up a dispatch, where the code bounds it.\<close>

fun hook_budget :: "'cb hook_world \<Rightarrow> hook_event \<Rightarrow> u64 \<times> nat option \<times> 'cb hook_executor \<Rightarrow> nat option" where
  "hook_budget w event (i, timeout, InProcess cb) = timeout"
| "hook_budget w event (i, timeout, Cancellable cb) = timeout"
| "hook_budget w event (i, timeout, Subprocess spec) =
     (let d = (case timeout of Some t \<Rightarrow> t | None \<Rightarrow> DEFAULT_SUBPROCESS_TIMEOUT)
      in case hw_serialize w event of
           Inl _ \<Rightarrow> Some 0
         | Inr input \<Rightarrow>
             (let child = hw_child w (build_command spec event) input
              in if \<not> ch_spawns child then Some 0
                 else map_option (\<lambda>written. written + d) (ch_stdin child)))"

lemma apply_timeout_bound: "\<exists>t r. apply_timeout run (Some b) = Some (t, r) \<and> t \<le> b"
  by (auto simp: apply_timeout_def split: option.splits)

lemma race_signal_bound:
  assumes "work = Some (t, r)"
  shows "\<exists>u o'. race_signal signal now work = Some (u, o') \<and> now \<le> u \<and> u \<le> now + t"
  by (auto simp: assms race_signal_def split: option.splits)

lemma run_subprocess_bound:
  assumes "hook_budget w event (i, timeout, Subprocess spec) = Some b"
  shows "\<exists>t r. run_hook w event signal timeout (Subprocess spec) now = Some (t, r) \<and> now \<le> t \<and> t \<le> now + b"
proof -
  let ?d = "case timeout of Some t \<Rightarrow> t | None \<Rightarrow> DEFAULT_SUBPROCESS_TIMEOUT"
  have "snd (first_ready tie (sub_arms e ?d k)) \<le> ?d" for tie e k
    by (rule first_ready_le [of DeadlinePassed]) (auto simp: sub_arms_def)
  then show ?thesis
    using assms
    by (auto simp: run_hook_def run_subprocess_hook_def Let_def case_prod_beta add.assoc
          split: option.splits sum.splits if_splits)
qed

lemma run_hook_bound:
  assumes "hook_budget w event (i, timeout, x) = Some b"
  shows "\<exists>t r. run_hook w event signal timeout x now = Some (t, r) \<and> now \<le> t \<and> t \<le> now + b"
proof (cases x)
  case (InProcess cb)
  obtain u r where "apply_timeout (hw_call w cb event) timeout = Some (u, r)" "u \<le> b"
    using assms apply_timeout_bound [of "hw_call w cb event" b] by (auto simp: InProcess)
  with race_signal_bound [OF this(1), of signal now] show ?thesis
    by (fastforce simp: InProcess run_hook_def run_in_process_def)
next
  case (Cancellable cb)
  obtain u r where "apply_timeout (hw_call_signal w cb event (map_option (\<lambda>k. k - now) signal)) timeout = Some (u, r)" "u \<le> b"
    using assms apply_timeout_bound [of "hw_call_signal w cb event (map_option (\<lambda>k. k - now) signal)" b]
    by (auto simp: Cancellable)
  with race_signal_bound [OF this(1), of signal now] show ?thesis
    by (fastforce simp: Cancellable run_hook_def run_cancellable_def)
next
  case (Subprocess spec)
  then show ?thesis using run_subprocess_bound assms by simp
qed

lemma run_hooks_bound:
  assumes "\<forall>hk \<in> set hooks. \<exists>b. hook_budget w event hk = Some b"
  shows "\<exists>t outs. run_hooks w event signal hooks now acc = Some (t, outs) \<and>
           t \<le> now + sum_list (map (\<lambda>hk. the (hook_budget w event hk)) hooks)"
  using assms
proof (induction hooks arbitrary: now acc)
  case (Cons hk rest)
  obtain i timeout x where hk: "hk = (i, timeout, x)" by (cases hk)
  obtain b where b: "hook_budget w event (i, timeout, x) = Some b" using Cons.prems hk by auto
  obtain t r where run: "run_hook w event signal timeout x now = Some (t, r)" "t \<le> now + b"
    using run_hook_bound [OF b] by blast
  have IH: "\<exists>u outs. run_hooks w event signal rest t acc' = Some (u, outs) \<and>
      u \<le> t + sum_list (map (\<lambda>hk. the (hook_budget w event hk)) rest)" for acc'
    using Cons.IH Cons.prems by simp
  show ?case
    using run IH [of acc] IH [of "acc @ [case r of Output out \<Rightarrow> out]"] b
    by (cases r) (force simp: hk)+
qed simp


section \<open>Properties\<close>

text \<open>
  C13: the registry implements its specification: whatever is registered and removed, in whatever order,
  the list the dispatcher walks is the live registrations in the order they were made, sorted stably by
  descending priority, so equal priorities run first come, first served.
\<close>

theorem registry_is_stable_sort:
  fixes ops :: "'cb host_op list"
  defines "log \<equiv> snd (fold log_step ops (0, []))"
  shows "hh_registrations (host_run ops hook_host_new) = sort_key (\<lambda>r. - hr_priority r) log \<and>
         (\<forall>p. filter (\<lambda>r. hr_priority r = p) (hh_registrations (host_run ops hook_host_new)) =
              filter (\<lambda>r. hr_priority r = p) log)"
proof -
  have "registry_rel (host_run ops hook_host_new) (fold log_step ops (0, []))"
    by (rule registry_run [OF registry_new])
  then have eq: "hh_registrations (host_run ops hook_host_new) = sort_key (\<lambda>r. - hr_priority r) log"
    by (simp add: registry_rel_def by_priority_def log_def)
  moreover have "filter (\<lambda>r. hr_priority r = p) (sort_key (\<lambda>r. - hr_priority r) log) =
      filter (\<lambda>r. hr_priority r = p) log" for p
    using sort_key_stable [of "\<lambda>r. - hr_priority r" "- p" log] by simp
  ultimately show ?thesis by simp
qed

text \<open>
  no hook hides another: in a dispatch nobody cancels, a hook that panics, runs out of time, cannot
  start or answers nonsense only loses its own output, and the outputs of all others come out in the order
  of the registry.
\<close>

theorem hooks_are_isolated:
  assumes "dispatch_hooks w h event now = Some (t, Inr outs)"
  shows "outs = concat (map (\<lambda>r. contribution w event (hr_timeout r) (hr_executor r))
                  (filter (\<lambda>r. filter_matches (hr_filter r) event) (hh_registrations h)))"
proof -
  have "run_hooks w event None (hook_snapshot h event) now [] = Some (t, outs)"
    using assms by (auto simp: dispatch_hooks_def dispatch_with_signal_def split: if_splits option.splits)
  from run_hooks_outputs [OF this] show ?thesis by (simp add: hook_snapshot_def comp_def)
qed

definition deny_output :: hook_output where
  "deny_output = hook_output_default
     \<lparr>ho_hook_specific_output := Some (hook_specific_output.PreToolUse permission_decision.Deny None None)\<rparr>"

definition sample_ref :: extension_ref where
  "sample_ref = extension_ref_new ''guard'' ''1.0.0'' Project"

definition sample_pre :: "string \<Rightarrow> hook_event" where
  "sample_pre name = hook_event.PreToolUse
     \<lparr>pt_base = \<lparr>hb_session_id = ''s'', hb_cwd = ''/w'', hb_registered_by = sample_ref, hb_agent_id = None,
        hb_agent_type = None, hb_parent_tool_use_id = None, hb_permission_mode = None,
        hb_transcript_path = None\<rparr>,
      pt_tool_name = name, pt_tool_input = json.Object [], pt_tool_use_id = ''u''\<rparr>"

text \<open>Callback 0 panics, callback 1 never ends, every other one denies.\<close>

definition sample_hooks :: "nat hook_world" where
  "sample_hooks =
     \<lparr>hw_call = (\<lambda>cb ev. if cb = 0 then \<lparr>cr_takes = Some 1, cr_result = Panicked ''boom''\<rparr>
                       else if cb = 1 then \<lparr>cr_takes = None, cr_result = Returned None\<rparr>
                       else \<lparr>cr_takes = Some 2, cr_result = Returned (Some deny_output)\<rparr>),
      hw_call_signal = (\<lambda>cb ev k. \<lparr>cr_takes = Some 0, cr_result = Returned None\<rparr>),
      hw_child = (\<lambda>c i. \<lparr>ch_spawns = True, ch_stdin = None, ch_stdin_ok = True, ch_exit = Some 0,
                       ch_status = None, ch_tie = 0\<rparr>),
      hw_serialize = (\<lambda>ev. Inr ''{}''), hw_parse = (\<lambda>s. Inl ''no'')\<rparr>"

definition sample_host :: "nat hook_host" where
  "sample_host =
     \<lparr>hh_registrations =
        [\<lparr>hr_id = 1, hr_registered_by = sample_ref, hr_filter = \<lparr>hf_tools = []\<rparr>, hr_priority = 9,
          hr_timeout = None, hr_executor = InProcess 0\<rparr>,
         \<lparr>hr_id = 2, hr_registered_by = sample_ref, hr_filter = \<lparr>hf_tools = []\<rparr>, hr_priority = 5,
          hr_timeout = Some 10, hr_executor = InProcess 1\<rparr>,
         \<lparr>hr_id = 0, hr_registered_by = sample_ref, hr_filter = \<lparr>hf_tools = [''bash'']\<rparr>, hr_priority = 1,
          hr_timeout = Some 10, hr_executor = InProcess 2\<rparr>],
      hh_poisoned = False, hh_next = 3\<rparr>"

lemma sample_dispatch: "dispatch_hooks sample_hooks sample_host (sample_pre ''bash'') 0 = Some (13, Inr [deny_output])"
  by (simp add: dispatch_hooks_def dispatch_with_signal_def sample_host_def hook_snapshot_def filter_matches_def
        sample_pre_def run_hook_def run_in_process_def race_signal_def apply_timeout_def sample_hooks_def)

theorem hooks_are_isolated_witness:
  "[deny_output] = concat (map (\<lambda>r. contribution sample_hooks (sample_pre ''bash'') (hr_timeout r) (hr_executor r))
     (filter (\<lambda>r. filter_matches (hr_filter r) (sample_pre ''bash'')) (hh_registrations sample_host)))"
  by (rule hooks_are_isolated [OF sample_dispatch])

text \<open>
  C12: a hook that denies stops the call: when a registered hook whose filter lets the call through answers
  \<open>Deny\<close> within its time, no call of the tool is approved on that dispatch, whatever the other hooks, the
  user or the parent say, unless the scope bypasses permissions.
\<close>

theorem deny_hook_blocks_call:
  assumes dispatched: "dispatch_hooks hw h event now = Some (t, r)"
    and hooks: "rw_hooks w = map_sum hook_host_error_text id r"
    and reg: "g \<in> set (hh_registrations h)" "filter_matches (hr_filter g) event"
    and deny: "contribution hw event (hr_timeout g) (hr_executor g) = [out]" "pre_decision out = [permission_decision.Deny]"
    and mode: "permission_mode scope \<noteq> Some BypassPermissions"
  shows "fst (resolve_tool_permission w child tid turn iid name raw use_id scope e) \<noteq> Some (Approved args stop)"
proof
  assume approved: "fst (resolve_tool_permission w child tid turn iid name raw use_id scope e) = Some (Approved args stop)"
  obtain e' where res: "resolve_tool_permission w child tid turn iid name raw use_id scope e = (Some (Approved args stop), e')"
    using approved by (metis prod.collapse)
  from approved_inputs [OF res] obtain outs ev a where
    scope: "permits scope name" and ev: "rw_event w = Inr ev" and outs: "rw_hooks w = Inr outs"
    and a: "(if hook_inputs outs = [] then Inr raw
             else case rw_revalidate w (last (hook_inputs outs)) of
                    Inl err \<Rightarrow> Inl err | Inr _ \<Rightarrow> Inr (last (hook_inputs outs))) = Inr a"
    by metis
  have r: "r = Inr outs" using hooks outs by (cases r) auto
  have "run_hooks hw event None (hook_snapshot h event) now [] = Some (t, outs)"
    using dispatched by (auto simp: r dispatch_hooks_def dispatch_with_signal_def split: if_splits option.splits)
  from run_hooks_outputs [OF this]
  have "out \<in> set outs" using reg deny(1) by (force simp: hook_snapshot_def)
  then have "permission_decision.Deny \<in> set (hook_decisions outs)"
    unfolding hook_decisions_def set_concat set_map using deny(2) by (metis UN_iff imageI list.set_intros(1))
  then have "reduce (hook_decisions outs) = permission_decision.Deny"
    using reduce_ge [of permission_decision.Deny "hook_decisions outs"]
    by (cases "reduce (hook_decisions outs)") (simp_all add: less_eq_permission_decision_def)
  then have "evaluate scope (hook_decisions outs) = permission_decision.Deny"
    using mode by (simp add: evaluate_def fold_decisions_def)
  then show False
    using resolve_decided [OF scope ev outs a] res by (simp add: Let_def split: if_splits)
qed


theorem deny_hook_blocks_call_witness:
  "fst (resolve_tool_permission ((ask_world [] [])\<lparr>rw_hooks := Inr [deny_output]\<rparr>) False (ThreadId ''t'') (TurnId ''u'')
     (ItemId ''i'') ''bash'' json.Null ''call'' sample_scope deferring_engine)
   \<noteq> Some (Approved json.Null False)"
  by (rule deny_hook_blocks_call [OF sample_dispatch, of _ "hh_registrations sample_host ! 2" deny_output])
     (simp_all add: ask_world_def sample_host_def filter_matches_def sample_pre_def contribution_def run_hook_def
        run_in_process_def race_signal_def apply_timeout_def sample_hooks_def deny_output_def sample_scope_def)

text \<open>
  C14: a dispatch ends: when every matching hook has a budget (its timeout, the default one of a child
  process, and the time its child takes to read its input), the dispatch returns within the sum of the
  budgets, whether or not it is cancelled.
\<close>

theorem dispatch_within_budget:
  assumes "\<forall>hk \<in> set (hook_snapshot h event). \<exists>b. hook_budget w event hk = Some b"
  shows "\<exists>t r. dispatch_with_signal w h event signal now = Some (t, r) \<and>
           t \<le> now + sum_list (map (\<lambda>hk. the (hook_budget w event hk)) (hook_snapshot h event))"
proof -
  obtain t outs where "run_hooks w event signal (hook_snapshot h event) now [] = Some (t, outs)"
    "t \<le> now + sum_list (map (\<lambda>hk. the (hook_budget w event hk)) (hook_snapshot h event))"
    using run_hooks_bound [OF assms] by blast
  then show ?thesis by (auto simp: dispatch_with_signal_def)
qed

theorem dispatch_within_budget_witness:
  "\<exists>t r. dispatch_with_signal sample_hooks (sample_host\<lparr>hh_registrations := tl (hh_registrations sample_host)\<rparr>)
      (sample_pre ''bash'') (Some 4) 0 = Some (t, r) \<and> t \<le> 20"
  using dispatch_within_budget [of "sample_host\<lparr>hh_registrations := tl (hh_registrations sample_host)\<rparr>"
      "sample_pre ''bash''" sample_hooks "Some 4" 0]
  by (simp add: hook_snapshot_def sample_host_def filter_matches_def sample_pre_def)

text \<open>
  the timeout and the cancellation of a hook that is a program do not cover its input: when the child
  stays alive without draining its standard input, a dispatch that reaches it never returns, whatever its
  timeout is and although the turn is cancelled.
\<close>

theorem unread_stdin_blocks_dispatch:
  assumes "hook_snapshot h event = (i, timeout, Subprocess spec) # rest" "\<not> hh_poisoned h"
    and "hw_serialize w event = Inr input" "ch_spawns (hw_child w (build_command spec event) input)"
    and "ch_stdin (hw_child w (build_command spec event) input) = None"
    and "case signal of Some k \<Rightarrow> now < k | None \<Rightarrow> True"
  shows "dispatch_with_signal w h event signal now = None"
  using assms
  by (auto simp: dispatch_with_signal_def run_hook_def run_subprocess_hook_def Let_def split: option.splits)

definition stuck_host :: "nat hook_host" where
  "stuck_host =
     \<lparr>hh_registrations =
        [\<lparr>hr_id = 1, hr_registered_by = sample_ref, hr_filter = \<lparr>hf_tools = []\<rparr>, hr_priority = 0,
          hr_timeout = Some 5, hr_executor = Subprocess (subprocess_spec_new ''sleep'')\<rparr>],
      hh_poisoned = False, hh_next = 2\<rparr>"

theorem unread_stdin_blocks_dispatch_witness:
  "dispatch_with_signal sample_hooks stuck_host (sample_pre ''bash'') (Some 3) 0 = None"
  by (rule unread_stdin_blocks_dispatch [where i = 1 and timeout = "Some 5" and
        spec = "subprocess_spec_new ''sleep''" and rest = "[]" and input = "''{}''"])
     (simp_all add: stuck_host_def hook_snapshot_def filter_matches_def sample_hooks_def)

text \<open>
  a child that exits before it has read its input loses its decision: the write fails and the hook counts as
  one without an opinion, although the child exited with the blocking code and a reason.
\<close>

theorem early_exit_loses_block:
  assumes "hw_serialize w event = Inr input"
    and "hw_child w (build_command spec event) input = child" "ch_spawns child"
    and "ch_stdin child = Some d" "\<not> ch_stdin_ok child"
  shows "run_hook w event None timeout (Subprocess spec) now = Some (now + d, NoOpinion)"
  using assms by (simp add: run_hook_def run_subprocess_hook_def Let_def)

text \<open>
  exit code 2 of a hook program is the block it means to be: before a tool call it becomes a \<open>Deny\<close> of
  the permission fold with the reason from standard error, at every other point that can block it stops
  the loop; after a tool ran, and without a reason, it has no effect.
\<close>

theorem exit_two_blocks:
  "interpret_exit w event (Some 2) stdout stderr =
     (if \<not> event_can_block event \<or> stderr = [] then None else Some (block_output event stderr)) \<and>
   (pre_decision (block_output event reason) = [permission_decision.Deny] \<longleftrightarrow> (\<exists>p. event = hook_event.PreToolUse p)) \<and>
   (hook_stops [block_output event reason] \<longleftrightarrow> \<not> (\<exists>p. event = hook_event.PreToolUse p))"
  by (cases event)
     (simp_all add: interpret_exit_def block_output_def hook_output_default_def hook_stops_def)

text \<open>
  a rewritten input is never let through unchecked: it passes only when a schema is registered for the
  tool and its validator reports no error, and filling in a schema that is absent never replaces one that is
  there, not even one another task registered meanwhile.
\<close>

theorem schema_never_skipped:
  "(schema_revalidate iter_errors tool input c = Inr () \<longleftrightarrow>
      \<not> sc_poisoned c \<and> (\<exists>v. sc_schemas c tool = Some v \<and> iter_errors v input = [])) \<and>
   (sc_schemas (snd (schema_register_if_absent compile others tool schema c)) t =
      (if sc_poisoned c \<or> sc_schemas c tool \<noteq> None then sc_schemas c t
       else if fst (schema_register_if_absent compile others tool schema c) = Inr True \<and> t = tool
            then (case compile schema of Inr v \<Rightarrow> Some v | Inl _ \<Rightarrow> None)
       else sc_schemas (others c) t)) \<and>
   (fst (schema_register_if_absent compile others tool schema c) = Inr True \<longleftrightarrow>
      \<not> sc_poisoned c \<and> sc_schemas c tool = None \<and> \<not> sc_poisoned (others c) \<and>
      sc_schemas (others c) tool = None \<and> is_ok (compile schema))"
  by (auto simp: schema_revalidate_def schema_register_if_absent_def Let_def dom_def
        split: option.splits sum.splits)

text \<open>
  a dropped scope takes exactly its own registration out; a leaked one leaves the registry alone.
\<close>

theorem drop_scope_removes:
  "\<not> hh_poisoned h \<Longrightarrow>
   hh_registrations (drop_scope \<lparr>es_id = i, es_attached = attached\<rparr> h) =
     filter (\<lambda>r. attached \<longrightarrow> hr_id r \<noteq> i) (hh_registrations h)"
  by (simp add: drop_scope_def unregister_hook_def)

text \<open>
  the span of three typed events has no name and no session: the two lookups of the dispatcher have no
  arm for the end of a compaction and for the branch summaries.
\<close>

theorem span_of_post_compact:
  "hook_wire_tag (PostCompact p) = Some ''PostCompact'' \<and> hook_event_name (PostCompact p) = ''Unknown'' \<and>
   hook_session_id (PostCompact p) = []"
  by simp

end
