(* ===== verification/Client.thy ===== *)
theory Client
  imports Server
begin

text \<open>
  The native client (\<open>zhive-client-native\<close>): the table of calls that wait for their response
  (\<open>pending.rs\<close>), the reader and writer tasks over the transport (\<open>transport.rs\<close>), requests of the
  server answered by a handler (\<open>reverse.rs\<close>, \<open>permission_handler.rs\<close>), event streams
  (\<open>events.rs\<close>), the typed methods (\<open>lib.rs\<close>) and the handshake (\<open>connect.rs\<close>). Senders of oneshot
  channels are values of a type variable, as in the reverse requests of the server. The tasks are
  interleaved by a list of actions; one that cannot happen in a state has no successor.
\<close>

section \<open>Errors and events\<close>

datatype client_error =
    Io string
  | Framing string
  | Disconnected string
  | Server error_object
  | ProtocolVersionUnsupported nat nat nat
  | InitializeFailed string
  | NotImplemented string nat
  | Decode string

datatype client_event =
    Notification notification
  | ServerRequest rpc_id string "json option"
  | Lagged nat
  | Disconnected string

section \<open>Calls that wait\<close>

datatype pending_slot = Response response_outcome | Disconnected string

datatype resolve_result = Delivered | AwaiterDropped | NoMatch

type_synonym 'tx pending_requests = "(rpc_id \<times> 'tx) list"

definition pending_register :: "rpc_id \<Rightarrow> 'tx \<Rightarrow> 'tx pending_requests \<Rightarrow> 'tx pending_requests" where
  "pending_register i tx p = AList.update i tx p"

definition pending_resolve ::
    "('tx \<Rightarrow> bool) \<Rightarrow> rpc_id \<Rightarrow> response_outcome \<Rightarrow> 'tx pending_requests \<Rightarrow>
     resolve_result \<times> 'tx pending_requests \<times> ('tx \<times> pending_slot) list" where
  "pending_resolve alive i outcome p =
     (case map_of p i of
        None \<Rightarrow> (resolve_result.NoMatch, p, [])
      | Some tx \<Rightarrow>
          (if alive tx
           then (resolve_result.Delivered, AList.delete i p, [(tx, pending_slot.Response outcome)])
           else (resolve_result.AwaiterDropped, AList.delete i p, [])))"

definition drain_with_disconnected ::
    "('tx \<Rightarrow> bool) \<Rightarrow> string \<Rightarrow> 'tx pending_requests \<Rightarrow> 'tx pending_requests \<times> ('tx \<times> pending_slot) list" where
  "drain_with_disconnected alive reason p =
     ([], map (\<lambda>(i, tx). (tx, pending_slot.Disconnected reason)) (filter (\<lambda>(i, tx). alive tx) p))"

definition pending_len :: "'tx pending_requests \<Rightarrow> nat" where
  "pending_len p = length p"

section \<open>The client\<close>

text \<open>
  A reverse handler: the methods it serves, and its answer to one of them, a panic being \<open>None\<close>.
\<close>

record reverse_handler =
  rh_methods :: "string list"
  rh_handle :: "string \<Rightarrow> json option \<Rightarrow> (json, error_object) rust_result option"

text \<open>The reader task: waiting for a message, sending a reply of its own, about to enter a spawned handler, gone.\<close>

datatype reader_state = Reading | Replying response | Spawned rpc_id nat | ReaderEnded

text \<open>The writer task: in its loop, past its loop with the channel still open, gone.\<close>

datatype writer_state = Writing | Draining | WriterGone

text \<open>
  \<open>cl_calling\<close> are the calls between their registration and the send, \<open>cl_tasks\<close> the handler tasks that
  run, by number, with the request and its answer. What has passed is kept as history: identifiers
  with the senders they were registered for, messages read and written, settled calls, calls that
  failed because the channel was closed.
\<close>

record 'tx client =
  cl_next_id :: u64
  cl_pending :: "'tx pending_requests"
  cl_calling :: "(request \<times> 'tx) list"
  cl_outbound :: "message list"
  cl_events :: "client_event list"
  cl_notifications :: "notification list"
  cl_handler :: "reverse_handler option"
  cl_reverse :: "(rpc_id \<times> nat) list"
  cl_tasks :: "(nat \<times> request \<times> (json, error_object) rust_result option) list"
  cl_spawned :: nat
  cl_shutdown :: bool
  cl_reader :: reader_state
  cl_writer :: writer_state
  cl_issued :: "(rpc_id \<times> 'tx) list"
  cl_read :: "message list"
  cl_written :: "message list"
  cl_settled :: "('tx \<times> pending_slot) list"
  cl_refused :: "'tx list"

definition OUTBOUND_QUEUE_CAP :: nat where
  "OUTBOUND_QUEUE_CAP = 64"

text \<open>\<open>from_split_with_meta\<close>: both tasks run, identifiers start at 1.\<close>

definition client_new :: "'tx client" where
  "client_new =
     \<lparr>cl_next_id = 1, cl_pending = [], cl_calling = [], cl_outbound = [], cl_events = [],
      cl_notifications = [], cl_handler = None, cl_reverse = [], cl_tasks = [], cl_spawned = 0,
      cl_shutdown = False, cl_reader = Reading, cl_writer = Writing, cl_issued = [], cl_read = [],
      cl_written = [], cl_settled = [], cl_refused = []\<rparr>"

definition set_reverse_handler :: "reverse_handler option \<Rightarrow> 'tx client \<Rightarrow> 'tx client" where
  "set_reverse_handler h c = c\<lparr>cl_handler := h\<rparr>"

definition call_id :: "u64 \<Rightarrow> rpc_id" where
  "call_id n = rpc_id.String (''c:'' @ show_nat (unat n))"

text \<open>The first half of \<open>call\<close>, up to the send it awaits.\<close>

definition begin_call :: "string \<Rightarrow> json option \<Rightarrow> 'tx \<Rightarrow> 'tx client \<Rightarrow> 'tx client" where
  "begin_call method params tx c =
     (let i = call_id (cl_next_id c)
      in c\<lparr>cl_next_id := cl_next_id c + 1,
           cl_pending := pending_register i tx (cl_pending c),
           cl_issued := cl_issued c @ [(i, tx)],
           cl_calling := cl_calling c @ [(request_new i method params, tx)]\<rparr>)"

text \<open>A send on the bounded channel: it fails when the receiver is gone and waits while the channel is full.\<close>

definition channel_send :: "message \<Rightarrow> 'tx client \<Rightarrow> (bool \<times> 'tx client) option" where
  "channel_send m c =
     (if cl_writer c = WriterGone then Some (False, c)
      else if length (cl_outbound c) < OUTBOUND_QUEUE_CAP
      then Some (True, c\<lparr>cl_outbound := cl_outbound c @ [m]\<rparr>)
      else None)"

text \<open>The second half of \<open>call\<close>: the send of call number \<open>k\<close> of those that wait for it.\<close>

definition send_call :: "nat \<Rightarrow> 'tx client \<Rightarrow> 'tx client option" where
  "send_call k c =
     (if k < length (cl_calling c)
      then (let (q, tx) = cl_calling c ! k;
                c = c\<lparr>cl_calling := take k (cl_calling c) @ drop (Suc k) (cl_calling c)\<rparr>
            in case channel_send (message.Request q) c of
                 None \<Rightarrow> None
               | Some (True, c) \<Rightarrow> Some c
               | Some (False, c) \<Rightarrow> Some (c\<lparr>cl_refused := cl_refused c @ [tx]\<rparr>))
      else None)"

text \<open>What a call returns once its slot is filled, or its sender is dropped.\<close>

fun call_result :: "pending_slot option \<Rightarrow> (json, client_error) rust_result" where
  "call_result (Some (pending_slot.Response (Result v))) = Inr v"
| "call_result (Some (pending_slot.Response (response_outcome.Error e))) = Inl (client_error.Server e)"
| "call_result (Some (pending_slot.Disconnected reason)) = Inl (client_error.Disconnected reason)"
| "call_result None = Inl (client_error.Disconnected ''reader task exited'')"

definition notify :: "string \<Rightarrow> json option \<Rightarrow> 'tx client \<Rightarrow> ((unit, client_error) rust_result \<times> 'tx client) option" where
  "notify method params c =
     map_option (\<lambda>(ok, c). (if ok then Inr () else Inl (Io ''writer task exited''), c))
       (channel_send (message.Notification (notification_new method params)) c)"

subsection \<open>The reader\<close>

definition METHOD_NOT_FOUND :: int where "METHOD_NOT_FOUND = -32601"
definition INTERNAL_ERROR :: int where "INTERNAL_ERROR = -32603"

text \<open>\<open>debug\<close> prints a string as \<open>{:?}\<close> does.\<close>

definition synthetic_method_not_found :: "(string \<Rightarrow> string) \<Rightarrow> rpc_id \<Rightarrow> string \<Rightarrow> response" where
  "synthetic_method_not_found debug i method =
     response_err i \<lparr>eo_code = METHOD_NOT_FOUND,
       eo_message = ''client has no handler for reverse-RPC method '' @ debug method, eo_data = None\<rparr>"

definition handle_server_request :: "(string \<Rightarrow> string) \<Rightarrow> request \<Rightarrow> 'tx client \<Rightarrow> 'tx client" where
  "handle_server_request debug req c =
     (let c = c\<lparr>cl_events := cl_events c @ [ServerRequest (rq_id req) (rq_method req) (rq_params req)]\<rparr>
      in case cl_handler c of
           Some h \<Rightarrow>
             (if list_ex (\<lambda>m. m = rq_method req) (rh_methods h)
              then c\<lparr>cl_tasks := cl_tasks c @ [(cl_spawned c, req, rh_handle h (rq_method req) (rq_params req))],
                     cl_spawned := Suc (cl_spawned c),
                     cl_reader := Spawned (rq_id req) (cl_spawned c)\<rparr>
              else c\<lparr>cl_reader := Replying (synthetic_method_not_found debug (rq_id req) (rq_method req))\<rparr>)
         | None \<Rightarrow> c\<lparr>cl_reader := Replying (synthetic_method_not_found debug (rq_id req) (rq_method req))\<rparr>)"

fun handler_response :: "rpc_id \<Rightarrow> (json, error_object) rust_result option \<Rightarrow> response" where
  "handler_response i (Some (Inr value)) = response_ok i value"
| "handler_response i (Some (Inl err)) = response_err i err"
| "handler_response i None =
     response_err i \<lparr>eo_code = INTERNAL_ERROR, eo_message = ''reverse handler panicked'', eo_data = None\<rparr>"

text \<open>
  The end of the reader: waiting calls are told, handler tasks aborted, then the disconnect is
  announced. A handler entered later is one the abort did not see.
\<close>

definition reader_teardown :: "('tx \<Rightarrow> bool) \<Rightarrow> string \<Rightarrow> 'tx client \<Rightarrow> 'tx client" where
  "reader_teardown alive reason c =
     (let (p, told) = drain_with_disconnected alive reason (cl_pending c)
      in c\<lparr>cl_pending := p, cl_settled := cl_settled c @ told,
           cl_tasks := filter (\<lambda>(k, _). k \<notin> snd ` set (cl_reverse c)) (cl_tasks c),
           cl_reverse := [],
           cl_events := cl_events c @ [client_event.Disconnected reason],
           cl_reader := ReaderEnded\<rparr>)"

definition resolve_response :: "('tx \<Rightarrow> bool) \<Rightarrow> response \<Rightarrow> 'tx client \<Rightarrow> 'tx client" where
  "resolve_response alive r c =
     (let (_, p, told) = pending_resolve alive (rs_id r) (rs_outcome r) (cl_pending c)
      in c\<lparr>cl_pending := p, cl_settled := cl_settled c @ told\<rparr>)"

text \<open>What reading from the transport yields: a message, its end, or another error.\<close>

datatype inbound = Got message | Eof | Broken string

definition reader_step :: "(string \<Rightarrow> string) \<Rightarrow> ('tx \<Rightarrow> bool) \<Rightarrow> inbound \<Rightarrow> 'tx client \<Rightarrow> 'tx client" where
  "reader_step debug alive next c =
     (case next of
        Got m \<Rightarrow>
          (let c = c\<lparr>cl_read := cl_read c @ [m]\<rparr>
           in case m of
                message.Response r \<Rightarrow> resolve_response alive r c
              | message.Request q \<Rightarrow> handle_server_request debug q c
              | message.Notification n \<Rightarrow>
                  c\<lparr>cl_notifications := cl_notifications c @ [n],
                    cl_events := cl_events c @ [client_event.Notification n]\<rparr>)
      | Eof \<Rightarrow> reader_teardown alive ''unexpected EOF'' c
      | Broken msg \<Rightarrow> reader_teardown alive msg c)"

subsection \<open>Interleaving\<close>

datatype 'tx client_action =
    OpCall string "json option" 'tx
  | OpSend nat
  | OpNotify string "json option"
  | OpSetHandler "reverse_handler option"
  | OpRead inbound
  | OpReply
  | OpEnter
  | OpHandled nat
  | OpWrite bool
  | OpDrop
  | OpShutdown
  | OpStopReader
  | OpStopWriter

definition handler_done :: "nat \<Rightarrow> 'tx client \<Rightarrow> 'tx client option" where
  "handler_done k c =
     (case map_of (cl_tasks c) k of
        None \<Rightarrow> None
      | Some (q, answer) \<Rightarrow>
          (case channel_send (message.Response (handler_response (rq_id q) answer)) c of
             None \<Rightarrow> None
           | Some (_, c) \<Rightarrow>
               Some (c\<lparr>cl_tasks := AList.delete k (cl_tasks c),
                       cl_reverse := AList.delete (rq_id q) (cl_reverse c)\<rparr>)))"

definition writer_stop :: "('tx \<Rightarrow> bool) \<Rightarrow> 'tx client \<Rightarrow> 'tx client" where
  "writer_stop alive c =
     (let (p, told) = drain_with_disconnected alive ''writer task exited'' (cl_pending c)
      in c\<lparr>cl_pending := p, cl_settled := cl_settled c @ told, cl_writer := Draining\<rparr>)"

fun client_step ::
    "(string \<Rightarrow> string) \<Rightarrow> ('tx \<Rightarrow> bool) \<Rightarrow> 'tx client_action \<Rightarrow> 'tx client \<Rightarrow> 'tx client option" where
  "client_step debug alive (OpCall method params tx) c = Some (begin_call method params tx c)"
| "client_step debug alive (OpSend k) c = send_call k c"
| "client_step debug alive (OpNotify method params) c = map_option snd (notify method params c)"
| "client_step debug alive (OpSetHandler h) c = Some (set_reverse_handler h c)"
| "client_step debug alive (OpRead next) c =
     (if cl_reader c = Reading \<and> \<not> cl_shutdown c then Some (reader_step debug alive next c) else None)"
| "client_step debug alive OpReply c =
     (case cl_reader c of
        Replying r \<Rightarrow> map_option (\<lambda>(_, c). c\<lparr>cl_reader := Reading\<rparr>) (channel_send (message.Response r) c)
      | _ \<Rightarrow> None)"
| "client_step debug alive OpEnter c =
     (case cl_reader c of
        Spawned i k \<Rightarrow> Some (c\<lparr>cl_reverse := AList.update i k (cl_reverse c), cl_reader := Reading\<rparr>)
      | _ \<Rightarrow> None)"
| "client_step debug alive (OpHandled k) c = handler_done k c"
| "client_step debug alive (OpWrite ok) c =
     (if cl_writer c = Writing \<and> \<not> cl_shutdown c
      then (case cl_outbound c of
              [] \<Rightarrow> None
            | m # ms \<Rightarrow>
                (if ok then Some (c\<lparr>cl_outbound := ms, cl_written := cl_written c @ [m]\<rparr>)
                 else Some (writer_stop alive (c\<lparr>cl_outbound := ms\<rparr>))))
      else None)"
| "client_step debug alive OpDrop c =
     (if cl_writer c = Draining then Some (c\<lparr>cl_outbound := [], cl_writer := WriterGone\<rparr>) else None)"
| "client_step debug alive OpShutdown c = Some (c\<lparr>cl_shutdown := True\<rparr>)"
| "client_step debug alive OpStopReader c =
     (if cl_reader c = Reading \<and> cl_shutdown c
      then Some (reader_teardown alive ''shutdown cancelled'' c) else None)"
| "client_step debug alive OpStopWriter c =
     (if cl_writer c = Writing \<and> cl_shutdown c then Some (writer_stop alive c) else None)"

fun client_run ::
    "(string \<Rightarrow> string) \<Rightarrow> ('tx \<Rightarrow> bool) \<Rightarrow> 'tx client_action list \<Rightarrow> 'tx client \<Rightarrow> 'tx client option" where
  "client_run debug alive [] c = Some c"
| "client_run debug alive (a # as) c =
     (case client_step debug alive a c of None \<Rightarrow> None | Some c' \<Rightarrow> client_run debug alive as c')"

section \<open>Event streams\<close>

text \<open>A subscriber: its side of the broadcast channel is the list of what receiving yields.\<close>

datatype received = Event client_event | LaggedBy nat | Closed

definition next_event :: "received \<Rightarrow> bool \<Rightarrow> client_event option \<times> bool" where
  "next_event rx disconnected =
     (if disconnected then (None, disconnected)
      else case rx of
             Event ev \<Rightarrow> (Some ev, case ev of client_event.Disconnected _ \<Rightarrow> True | _ \<Rightarrow> disconnected)
           | LaggedBy n \<Rightarrow> (Some (Lagged n), disconnected)
           | Closed \<Rightarrow> (None, disconnected))"

section \<open>JSON access\<close>

text \<open>Indexing with a key, which yields null where there is no entry, \<open>get\<close>, \<open>as_str\<close>, \<open>as_u64\<close>, \<open>as_array\<close>.\<close>

definition json_get :: "json \<Rightarrow> string \<Rightarrow> json option" where
  "json_get v key = (case v of Object entries \<Rightarrow> map_of entries key | _ \<Rightarrow> None)"

definition json_index :: "json \<Rightarrow> string \<Rightarrow> json" where
  "json_index v key = (case json_get v key of Some x \<Rightarrow> x | None \<Rightarrow> json.Null)"

definition json_as_str :: "json \<Rightarrow> string option" where
  "json_as_str v = (case v of json.String s \<Rightarrow> Some s | _ \<Rightarrow> None)"

definition json_as_u64 :: "json \<Rightarrow> nat option" where
  "json_as_u64 v = (case v of json.Number text \<Rightarrow> parse_uint u64_max text | _ \<Rightarrow> None)"

definition json_as_array :: "json \<Rightarrow> json list option" where
  "json_as_array v = (case v of Array xs \<Rightarrow> Some xs | _ \<Rightarrow> None)"

record usage_event =
  ue_thread_id :: string
  ue_turn_id :: string
  ue_input_tokens :: nat
  ue_output_tokens :: nat

definition decode_usage :: "notification \<Rightarrow> usage_event option" where
  "decode_usage notif =
     (if nt_method notif \<noteq> ''events/usage'' then None
      else Option.bind (nt_params notif) (\<lambda>params.
           Option.bind (json_as_str (json_index params ''threadId'')) (\<lambda>thread_id.
           Option.bind (json_as_str (json_index params ''turnId'')) (\<lambda>turn_id.
           Option.bind (json_as_u64 (json_index params ''inputTokens'')) (\<lambda>input.
           Option.bind (json_as_u64 (json_index params ''outputTokens'')) (\<lambda>output.
           Some \<lparr>ue_thread_id = thread_id, ue_turn_id = turn_id, ue_input_tokens = input,
                 ue_output_tokens = output\<rparr>))))))"

section \<open>The handshake\<close>

record client_builder =
  cb_client_info :: "implementation option"
  cb_capabilities :: capabilities
  cb_protocol_version :: protocol_version
  cb_channel_capacity :: nat
  cb_initialize_timeout :: nat

text \<open>\<open>Capabilities::default()\<close> is a parameter of serde's derive in the protocol crate.\<close>

definition client_builder_default :: "capabilities \<Rightarrow> client_builder" where
  "client_builder_default caps =
     \<lparr>cb_client_info = None, cb_capabilities = caps, cb_protocol_version = LATEST,
      cb_channel_capacity = OUTBOUND_QUEUE_CAP, cb_initialize_timeout = 2000\<rparr>"

record handshake_meta =
  hm_negotiated_version :: protocol_version
  hm_server_capabilities :: capabilities
  hm_server_info :: implementation

definition placeholder_handshake_meta :: "capabilities \<Rightarrow> handshake_meta" where
  "placeholder_handshake_meta caps =
     \<lparr>hm_negotiated_version = V0, hm_server_capabilities = caps,
      hm_server_info = \<lparr>im_name = ''unknown'', im_title = None, im_version = ''unknown''\<rparr>\<rparr>"

definition handshake_params :: "string \<Rightarrow> client_builder \<Rightarrow> json" where
  "handshake_params version b =
     (let (name, v) = (case cb_client_info b of
                         Some i \<Rightarrow> (im_name i, im_version i)
                       | None \<Rightarrow> (''zhive-client-native'', version))
      in Object [(''protocolVersion'', json_nat (unat (cb_protocol_version b))),
                 (''clientInfo'', Object [(''name'', json.String name), (''version'', json.String v)]),
                 (''clientCapabilities'',
                    Object [(''cancellation'', json.Bool (ca_cancellation (cb_capabilities b)))])])"

text \<open>\<open>first\<close> or \<open>last\<close> of the supported range as a \<open>u16\<close>, 0 when it is none.\<close>

definition range_end :: "(json list \<Rightarrow> json) \<Rightarrow> json list option \<Rightarrow> nat" where
  "range_end pick supported =
     (case supported of
        Some (v # vs) \<Rightarrow>
          (case json_as_u64 (pick (v # vs)) of Some n \<Rightarrow> (if n < 2 ^ 16 then n else 0) | None \<Rightarrow> 0)
      | _ \<Rightarrow> 0)"

definition handshake_error :: "nat \<Rightarrow> client_error \<Rightarrow> client_error" where
  "handshake_error requested e =
     (case e of
        client_error.Server obj \<Rightarrow>
          (if eo_code obj = -32001
           then (let supported = Option.bind (eo_data obj) (\<lambda>d. json_as_array (json_index d ''supported''))
                 in client_error.ProtocolVersionUnsupported requested (range_end hd supported) (range_end last supported))
           else e)
      | _ \<Rightarrow> e)"

text \<open>
  The handshake over the answer of the \<open>initialize\<close> call, \<open>None\<close> when the timeout elapsed first, and
  over whether the \<open>initialized\<close> notification could be sent (or its error).
\<close>

definition perform_handshake ::
    "(json \<Rightarrow> (initialize_response, string) rust_result) \<Rightarrow> client_builder \<Rightarrow>
     (json, client_error) rust_result option \<Rightarrow> string option \<Rightarrow> (handshake_meta, client_error) rust_result" where
  "perform_handshake decode b answer notify_error =
     (case answer of
        None \<Rightarrow> Inl (InitializeFailed (''initialize timed out after '' @ show_nat (cb_initialize_timeout b) @ ''ms''))
      | Some (Inl e) \<Rightarrow> Inl (handshake_error (unat (cb_protocol_version b)) e)
      | Some (Inr raw) \<Rightarrow>
          (case decode raw of
             Inl e \<Rightarrow> Inl (InitializeFailed (''could not decode InitializeResponse: '' @ e))
           | Inr resp \<Rightarrow>
               (case notify_error of
                  Some e \<Rightarrow> Inl (InitializeFailed (''could not send initialized notification: '' @ e))
                | None \<Rightarrow> Inr \<lparr>hm_negotiated_version = ip_protocol_version resp,
                                hm_server_capabilities = ip_server_capabilities resp,
                                hm_server_info = ip_server_info resp\<rparr>)))"

definition connect_remote :: "string \<Rightarrow> (handshake_meta, client_error) rust_result" where
  "connect_remote url = Inl (NotImplemented ''remote/websocket'' 3)"

section \<open>Permission requests of the server\<close>

record permission_codec =
  pk_decode :: "json \<Rightarrow> (request_permission_request, string) rust_result"
  pk_encode :: "permission_outcome \<Rightarrow> (json, string) rust_result"

definition METHOD_REQUEST_PERMISSION :: string where
  "METHOD_REQUEST_PERMISSION = ''session/request_permission''"

definition permission_handle ::
    "permission_codec \<Rightarrow> (request_permission_request \<Rightarrow> permission_outcome option) \<Rightarrow> string \<Rightarrow> json option \<Rightarrow>
     (json, error_object) rust_result option" where
  "permission_handle pk on_permission method params =
     (case pk_decode pk (case params of Some v \<Rightarrow> v | None \<Rightarrow> json.Null) of
        Inl e \<Rightarrow> Some (Inl \<lparr>eo_code = -32602, eo_message = ''invalid session/request_permission params'',
                            eo_data = Some (json.String e)\<rparr>)
      | Inr req \<Rightarrow>
          (case on_permission req of
             None \<Rightarrow> None
           | Some outcome \<Rightarrow>
               (case pk_encode pk outcome of
                  Inr v \<Rightarrow> Some (Inr v)
                | Inl e \<Rightarrow> Some (Inl \<lparr>eo_code = -32603, eo_message = ''failed to encode PermissionOutcome'',
                                      eo_data = Some (json.String e)\<rparr>))))"

definition permission_reverse_adapter ::
    "permission_codec \<Rightarrow> (request_permission_request \<Rightarrow> permission_outcome option) \<Rightarrow> reverse_handler" where
  "permission_reverse_adapter pk on_permission =
     \<lparr>rh_methods = [METHOD_REQUEST_PERMISSION], rh_handle = permission_handle pk on_permission\<rparr>"

definition set_permission_handler ::
    "permission_codec \<Rightarrow> (request_permission_request \<Rightarrow> permission_outcome option) \<Rightarrow> 'tx client \<Rightarrow> 'tx client" where
  "set_permission_handler pk on_permission c =
     set_reverse_handler (Some (permission_reverse_adapter pk on_permission)) c"

section \<open>The table of calls\<close>

text \<open>The callers of a run, in the order of their calls.\<close>

fun callers :: "'tx client_action list \<Rightarrow> 'tx list" where
  "callers [] = []"
| "callers (OpCall method params tx # as) = tx # callers as"
| "callers (_ # as) = callers as"

definition ids_wf :: "'tx client \<Rightarrow> bool" where
  "ids_wf c =
     (unat (cl_next_id c) = Suc (length (cl_issued c)) \<and>
      map fst (cl_issued c) = map (\<lambda>n. call_id (of_nat n)) [1..<Suc (length (cl_issued c))])"

definition waiting_wf :: "'tx client \<Rightarrow> bool" where
  "waiting_wf c = (set (cl_pending c) \<subseteq> set (cl_issued c) \<and> distinct (map fst (cl_pending c)))"

definition settled_wf :: "'tx client \<Rightarrow> bool" where
  "settled_wf c =
     (distinct (map fst (cl_settled c)) \<and> fst ` set (cl_settled c) \<subseteq> snd ` set (cl_issued c) \<and>
      fst ` set (cl_settled c) \<inter> snd ` set (cl_pending c) = {})"

definition answers_wf :: "'tx client \<Rightarrow> bool" where
  "answers_wf c =
     (\<forall>tx outcome. (tx, pending_slot.Response outcome) \<in> set (cl_settled c) \<longrightarrow>
        (\<exists>r. message.Response r \<in> set (cl_read c) \<and> rs_outcome r = outcome \<and> (rs_id r, tx) \<in> set (cl_issued c)))"

definition table_wf :: "'tx client \<Rightarrow> bool" where
  "table_wf c = (ids_wf c \<and> waiting_wf c \<and> settled_wf c \<and> answers_wf c)"

lemmas table_parts = table_wf_def waiting_wf_def settled_wf_def answers_wf_def

text \<open>Fewer calls than identifiers, by different callers.\<close>

definition calls_ok :: "'tx client \<Rightarrow> bool" where
  "calls_ok c = (Suc (length (cl_issued c)) < 2 ^ 64 \<and> distinct (map snd (cl_issued c)))"

lemma call_id_inj: "call_id m = call_id n \<longleftrightarrow> m = n"
  by (auto simp: call_id_def show_nat_inj dest: unsigned_word_eqI)

lemma call_id_of_nat:
  assumes "m < 2 ^ 64" "n < 2 ^ 64" "call_id (of_nat m) = call_id (of_nat n)"
  shows "m = n"
proof -
  have "(of_nat m :: u64) = of_nat n" using assms(3) by (simp only: call_id_inj)
  then have "unat (of_nat m :: u64) = unat (of_nat n :: u64)" by simp
  then show ?thesis using assms(1,2) by (simp add: unsigned_of_nat take_bit_nat_eq_self)
qed

lemma update_snoc: "k \<notin> fst ` set al \<Longrightarrow> AList.update k v al = al @ [(k, v)]"
  by (induction al) auto

lemma delete_fresh: "k \<notin> fst ` set al \<Longrightarrow> AList.delete k al = al"
  by (induction al) auto

lemma delete_snoc: "k \<notin> fst ` set al \<Longrightarrow> AList.delete k (al @ [(k, v)]) = al"
  by (induction al) auto

lemma set_delete: "set (AList.delete k al) = {p \<in> set al. fst p \<noteq> k}"
  by (auto simp: AList.delete_eq)

text \<open>What the steps other than a call, a response and a drain leave alone.\<close>

definition same_table :: "'tx client \<Rightarrow> 'tx client \<Rightarrow> bool" where
  "same_table c c' =
     (cl_next_id c' = cl_next_id c \<and> cl_issued c' = cl_issued c \<and> cl_pending c' = cl_pending c \<and>
      cl_settled c' = cl_settled c \<and> set (cl_read c) \<subseteq> set (cl_read c'))"

lemma same_table_wf: "same_table c c' \<Longrightarrow> table_wf c \<Longrightarrow> table_wf c'"
  unfolding same_table_def table_parts ids_wf_def by (metis subsetD)

lemma table_wf_new: "table_wf client_new"
  by (simp add: table_parts ids_wf_def client_new_def)

lemma fresh_id:
  assumes "ids_wf c" "Suc (length (cl_issued c)) < 2 ^ 64"
  shows "call_id (cl_next_id c) \<notin> fst ` set (cl_issued c)"
    "call_id (cl_next_id c) = call_id (of_nat (Suc (length (cl_issued c))))"
proof -
  let ?n = "Suc (length (cl_issued c))"
  have parts: "unat (cl_next_id c) = ?n" "map fst (cl_issued c) = map (\<lambda>n. call_id (of_nat n)) [1..<?n]"
    using assms(1) unfolding ids_wf_def by blast+
  have nxt: "cl_next_id c = of_nat ?n" unfolding parts(1) [symmetric] by simp
  show "call_id (cl_next_id c) = call_id (of_nat ?n)" unfolding nxt ..
  show "call_id (cl_next_id c) \<notin> fst ` set (cl_issued c)"
  proof
    assume "call_id (cl_next_id c) \<in> fst ` set (cl_issued c)"
    then have "call_id (of_nat ?n) \<in> set (map fst (cl_issued c))" by (simp only: nxt set_map)
    then have "call_id (of_nat ?n) \<in> (\<lambda>n. call_id (of_nat n)) ` {1..<?n}" by (simp only: parts(2) set_map set_upt)
    then obtain n where n: "n < ?n" "call_id (of_nat ?n) = call_id (of_nat n)"
      unfolding image_iff Bex_def atLeastLessThan_iff by blast
    have "n < 2 ^ 64" using n(1) assms(2) by (rule order.strict_trans)
    from call_id_of_nat [OF assms(2) this n(2)] n(1) show False by simp
  qed
qed

lemma begin_call_wf:
  assumes wf: "table_wf c" and ok: "calls_ok (begin_call method params tx c)"
  shows "table_wf (begin_call method params tx c)"
proof -
  let ?c = "begin_call method params tx c"
  have ids: "ids_wf c" using wf by (simp add: table_wf_def)
  have len: "Suc (Suc (length (cl_issued c))) < 2 ^ 64" and new: "tx \<notin> snd ` set (cl_issued c)"
    using ok by (auto simp: calls_ok_def begin_call_def Let_def)
  note fresh = fresh_id [OF ids Suc_lessD [OF len]]
  have "unat (cl_next_id c) + 1 < 2 ^ 64" using ids len by (simp add: ids_wf_def)
  then have bump: "unat (cl_next_id c + 1) = Suc (unat (cl_next_id c))" using unat_bump by simp
  have "call_id (cl_next_id c) \<notin> fst ` set (cl_pending c)"
    using fresh(1) wf by (auto simp: table_parts)
  then have eqs: "cl_pending ?c = cl_pending c @ [(call_id (cl_next_id c), tx)]"
    "cl_issued ?c = cl_issued c @ [(call_id (cl_next_id c), tx)]"
    "cl_settled ?c = cl_settled c" "cl_read ?c = cl_read c" "cl_next_id ?c = cl_next_id c + 1"
    by (simp_all add: begin_call_def Let_def pending_register_def update_snoc)
  have "ids_wf ?c"
    using ids bump fresh(2) by (simp add: ids_wf_def eqs del: upt_Suc) (simp add: upt_Suc)
  moreover have "waiting_wf ?c"
    using wf fresh(1) by (auto simp: table_parts eqs)
  moreover have "settled_wf ?c"
    using wf new by (auto simp: table_parts eqs)
  moreover have "answers_wf ?c"
    using wf unfolding table_parts eqs set_append by blast
  ultimately show ?thesis by (simp add: table_wf_def)
qed

text \<open>Taking entries out of the table and settling their senders, each once.\<close>

lemma settle_wf:
  assumes wf: "table_wf c" and ok: "calls_ok c"
    and t: "cl_next_id c' = cl_next_id c" "cl_issued c' = cl_issued c" "set (cl_read c) \<subseteq> set (cl_read c')"
    and s: "cl_settled c' = cl_settled c @ map (\<lambda>(i, tx). (tx, slot i tx)) out"
    and p: "set (cl_pending c') \<union> set out \<subseteq> set (cl_pending c)" "set (cl_pending c') \<inter> set out = {}"
      "distinct (map fst (cl_pending c'))" "distinct out"
    and a: "\<And>i tx o'. (i, tx) \<in> set out \<Longrightarrow> slot i tx = pending_slot.Response o' \<Longrightarrow>
              \<exists>r. message.Response r \<in> set (cl_read c') \<and> rs_outcome r = o' \<and> rs_id r = i"
  shows "table_wf c'"
proof -
  have sub: "set (cl_pending c) \<subseteq> set (cl_issued c)" using wf by (simp add: table_parts)
  have inj: "inj_on snd (set (cl_pending c))"
    using ok sub unfolding calls_ok_def distinct_map by (meson inj_on_subset)
  have told: "map fst (map (\<lambda>(i, tx). (tx, slot i tx)) out) = map snd out" by (simp add: comp_def case_prod_beta)
  have new: "fst ` set (map (\<lambda>(i, tx). (tx, slot i tx)) out) = snd ` set out" by force
  have dn: "distinct (map snd out)"
    using p(1,4) inj by (auto simp: distinct_map intro: inj_on_subset)
  have "snd ` (set out \<inter> set (cl_pending c')) = snd ` set out \<inter> snd ` set (cl_pending c')"
    by (rule inj_on_image_Int [OF inj]) (use p(1) in simp_all)
  then have apart: "snd ` set out \<inter> snd ` set (cl_pending c') = {}"
    using p(2) by (simp add: inf_commute)
  have old: "fst ` set (cl_settled c) \<inter> snd ` set (cl_pending c) = {}" "distinct (map fst (cl_settled c))"
    "fst ` set (cl_settled c) \<subseteq> snd ` set (cl_issued c)"
    using wf by (simp_all add: table_parts)
  have "ids_wf c'" using wf t by (simp add: table_wf_def ids_wf_def)
  moreover have "waiting_wf c'" unfolding waiting_wf_def t using p(1,3) sub by (meson Un_subset_iff order.trans)
  moreover have "settled_wf c'"
  proof -
    have "fst ` set (cl_settled c) \<inter> snd ` set out = {}" using old(1) p(1) by blast
    then have "distinct (map fst (cl_settled c'))"
      unfolding s map_append told distinct_append set_map using old(2) dn by simp
    moreover have "fst ` set (cl_settled c') = fst ` set (cl_settled c) \<union> snd ` set out"
      unfolding s set_append image_Un new ..
    moreover have "snd ` set out \<subseteq> snd ` set (cl_issued c)" using p(1) sub by blast
    moreover have "snd ` set (cl_pending c') \<subseteq> snd ` set (cl_pending c)" using p(1) by blast
    ultimately show ?thesis unfolding settled_wf_def t
      by (intro conjI) (simp, use old(3) in simp, use old(1) apart in \<open>simp only: Int_Un_distrib2\<close>, blast)
  qed
  moreover have "answers_wf c'"
    unfolding answers_wf_def
  proof (intro allI impI)
    fix tx o' assume "(tx, pending_slot.Response o') \<in> set (cl_settled c')"
    then consider "(tx, pending_slot.Response o') \<in> set (cl_settled c)"
      | i where "(i, tx) \<in> set out" "slot i tx = pending_slot.Response o'"
      unfolding s by auto
    then show "\<exists>r. message.Response r \<in> set (cl_read c') \<and> rs_outcome r = o' \<and> (rs_id r, tx) \<in> set (cl_issued c')"
    proof cases
      case 1
      then obtain r where r: "message.Response r \<in> set (cl_read c)" "rs_outcome r = o'" "(rs_id r, tx) \<in> set (cl_issued c)"
        using wf unfolding table_wf_def answers_wf_def by blast
      then show ?thesis using t(2,3) by (intro exI [of _ r]) auto
    next
      case 2
      obtain r where r: "message.Response r \<in> set (cl_read c')" "rs_outcome r = o'" "rs_id r = i"
        using a [OF 2] by blast
      have "(i, tx) \<in> set (cl_issued c)" using 2(1) p(1) sub by (meson Un_iff subsetD)
      with r show ?thesis unfolding t(2) by (intro exI [of _ r]) simp
    qed
  qed
  ultimately show ?thesis by (simp add: table_wf_def)
qed

definition drained :: "('tx \<Rightarrow> bool) \<Rightarrow> string \<Rightarrow> 'tx client \<Rightarrow> 'tx client" where
  "drained alive reason c =
     c\<lparr>cl_pending := fst (drain_with_disconnected alive reason (cl_pending c)),
       cl_settled := cl_settled c @ snd (drain_with_disconnected alive reason (cl_pending c))\<rparr>"

lemma drained_wf:
  assumes "table_wf c" "calls_ok c"
  shows "table_wf (drained alive reason c)"
  by (rule settle_wf [OF assms, where out = "filter (\<lambda>(i, tx). alive tx) (cl_pending c)"
        and slot = "\<lambda>i tx. pending_slot.Disconnected reason"])
     (use assms(1) in \<open>auto simp: drained_def drain_with_disconnected_def table_parts distinct_map\<close>)

lemma resolve_wf:
  assumes "table_wf c" "calls_ok c" "message.Response r \<in> set (cl_read c)"
  shows "table_wf (resolve_response alive r c)"
proof (cases "map_of (cl_pending c) (rs_id r)")
  case None
  then show ?thesis using assms(1) by (simp add: resolve_response_def pending_resolve_def Let_def)
next
  case (Some tx)
  have d: "distinct (map fst (cl_pending c))" using assms(1) by (simp add: table_parts)
  show ?thesis
    by (rule settle_wf [OF assms(1,2), where out = "if alive tx then [(rs_id r, tx)] else []"
          and slot = "\<lambda>i tx. pending_slot.Response (rs_outcome r)"])
       (use Some assms(3) d map_of_SomeD [OF Some] in
         \<open>auto simp: resolve_response_def pending_resolve_def Let_def set_delete distinct_delete\<close>)
qed

text \<open>Every step keeps the table.\<close>

lemma channel_send_same: "channel_send m c = Some (ok, c') \<Longrightarrow> same_table c c'"
  by (auto simp: channel_send_def same_table_def split: if_splits)

lemma same_table_trans: "same_table a b \<Longrightarrow> same_table b c \<Longrightarrow> same_table a c"
  by (auto simp: same_table_def)

lemma send_call_same: "send_call k c = Some c' \<Longrightarrow> same_table c c'"
  by (auto simp: send_call_def channel_send_def same_table_def Let_def split: if_splits prod.splits)

lemma handler_done_same: "handler_done k c = Some c' \<Longrightarrow> same_table c c'"
  by (auto simp: handler_done_def channel_send_def same_table_def split: option.splits prod.splits if_splits)

lemma server_request_same: "same_table c (handle_server_request debug q c)"
  by (auto simp: handle_server_request_def same_table_def Let_def split: option.splits)

lemma teardown_table: "same_table (drained alive reason c) (reader_teardown alive reason c)"
  by (simp add: drained_def reader_teardown_def same_table_def Let_def case_prod_beta)

lemma writer_stop_table: "same_table (drained alive ''writer task exited'' c) (writer_stop alive c)"
  by (simp add: drained_def writer_stop_def same_table_def Let_def case_prod_beta)

lemma calls_ok_same: "same_table c c' \<Longrightarrow> calls_ok c' \<longleftrightarrow> calls_ok c"
  by (simp add: same_table_def calls_ok_def)

text \<open>A step is a call, or moves no entry, or drains the table, or resolves a response that was read.\<close>

datatype 'tx table_move = Calls string "json option" 'tx | Same | Drains string | Resolves response

fun table_step :: "('tx \<Rightarrow> bool) \<Rightarrow> 'tx table_move \<Rightarrow> 'tx client \<Rightarrow> 'tx client" where
  "table_step alive (Calls method params tx) c = begin_call method params tx c"
| "table_step alive Same c = c"
| "table_step alive (Drains reason) c = drained alive reason c"
| "table_step alive (Resolves r) c = resolve_response alive r c"

fun move_ok :: "'tx table_move \<Rightarrow> 'tx client \<Rightarrow> bool" where
  "move_ok (Resolves r) c = (message.Response r \<in> set (cl_read c))"
| "move_ok _ c = True"

fun move_callers :: "'tx table_move \<Rightarrow> 'tx list" where
  "move_callers (Calls method params tx) = [tx]"
| "move_callers _ = []"

definition moves :: "('tx \<Rightarrow> bool) \<Rightarrow> 'tx list \<Rightarrow> 'tx client \<Rightarrow> 'tx client \<Rightarrow> bool" where
  "moves alive txs c c' =
     (\<exists>m c1. same_table c c1 \<and> move_ok m c1 \<and> move_callers m = txs \<and> same_table (table_step alive m c1) c')"

lemma same_table_refl [simp]: "same_table c c"
  by (simp add: same_table_def)

lemma moves_same: "same_table c c' \<Longrightarrow> moves alive [] c c'"
  unfolding moves_def by (intro exI [of _ Same] exI [of _ c]) simp

lemma moves_drain: "same_table c c1 \<Longrightarrow> same_table (drained alive reason c1) c' \<Longrightarrow> moves alive [] c c'"
  unfolding moves_def by (intro exI [of _ "Drains reason"] exI [of _ c1]) simp

lemma moves_resolve:
  "same_table c c1 \<Longrightarrow> message.Response r \<in> set (cl_read c1) \<Longrightarrow> moves alive [] c (resolve_response alive r c1)"
  unfolding moves_def by (intro exI [of _ "Resolves r"] exI [of _ c1]) simp

lemma moves_call: "moves alive [tx] c (begin_call method params tx c)"
  unfolding moves_def by (intro exI [of _ "Calls method params tx"] exI [of _ c]) simp

lemma reader_step_moves: "moves alive [] c (reader_step debug alive inb c)"
proof (cases inb)
  case (Got m)
  have same: "same_table c (c\<lparr>cl_read := cl_read c @ [m]\<rparr>)" by (simp add: same_table_def subset_insertI)
  show ?thesis
  proof (cases m)
    case (Request q)
    then show ?thesis
      using same_table_trans [OF same server_request_same] by (simp add: Got reader_step_def Let_def moves_same)
  next
    case (Response r)
    then show ?thesis
      using moves_resolve [OF same, of r] by (simp add: Got reader_step_def Let_def)
  next
    case (Notification n)
    then show ?thesis by (simp add: Got reader_step_def Let_def moves_same same_table_def subset_insertI)
  qed
qed (simp_all add: reader_step_def moves_drain [OF same_table_refl teardown_table])

lemma step_moves:
  assumes "client_step debug alive a c = Some c'"
  shows "moves alive (callers [a]) c c'"
proof (cases a)
  case (OpCall meth params tx)
  then show ?thesis using assms moves_call by auto
next
  case (OpSend k)
  then show ?thesis using assms moves_same [OF send_call_same] by simp
next
  case (OpNotify meth params)
  then show ?thesis
    using assms channel_send_same by (auto simp: notify_def intro!: moves_same)
next
  case (OpSetHandler h)
  then show ?thesis using assms by (auto simp: set_reverse_handler_def same_table_def intro!: moves_same)
next
  case (OpRead inb)
  then show ?thesis using assms reader_step_moves by (auto split: if_splits)
next
  case OpReply
  then show ?thesis
    using assms by (auto simp: same_table_def channel_send_def intro!: moves_same split: reader_state.splits if_splits)
next
  case OpEnter
  then show ?thesis using assms by (auto simp: same_table_def intro!: moves_same split: reader_state.splits)
next
  case (OpHandled k)
  then show ?thesis using assms moves_same [OF handler_done_same] by simp
next
  case (OpWrite ok)
  obtain m ms where out: "cl_outbound c = m # ms"
    using assms OpWrite by (cases "cl_outbound c") (auto split: if_splits)
  show ?thesis
  proof (cases ok)
    case True
    then show ?thesis
      using assms out by (auto simp: OpWrite same_table_def intro!: moves_same split: if_splits)
  next
    case False
    have "same_table c (c\<lparr>cl_outbound := ms\<rparr>)" by (simp add: same_table_def)
    from moves_drain [OF this writer_stop_table] show ?thesis
      using assms out False by (auto simp: OpWrite split: if_splits)
  qed
next
  case OpDrop
  then show ?thesis using assms by (auto simp: same_table_def intro!: moves_same split: if_splits)
next
  case OpShutdown
  then show ?thesis using assms by (auto simp: same_table_def intro!: moves_same)
next
  case OpStopReader
  then show ?thesis
    using assms moves_drain [OF same_table_refl teardown_table] by (auto split: if_splits)
next
  case OpStopWriter
  then show ?thesis
    using assms moves_drain [OF same_table_refl writer_stop_table] by (auto split: if_splits)
qed

lemma moves_issued: "moves alive txs c c' \<Longrightarrow> map snd (cl_issued c') = map snd (cl_issued c) @ txs"
proof -
  assume "moves alive txs c c'"
  then obtain m c1 where m: "same_table c c1" "move_callers m = txs" "same_table (table_step alive m c1) c'"
    by (auto simp: moves_def)
  have "map snd (cl_issued (table_step alive m c1)) = map snd (cl_issued c1) @ txs"
    using m(2) by (cases m) (auto simp: begin_call_def drained_def resolve_response_def Let_def case_prod_beta)
  with m show ?thesis by (simp add: same_table_def)
qed

lemma moves_wf:
  assumes "moves alive txs c c'" "table_wf c" "calls_ok c'"
  shows "table_wf c'"
proof -
  obtain m c1 where m: "same_table c c1" "move_ok m c1" "move_callers m = txs" "same_table (table_step alive m c1) c'"
    using assms(1) by (auto simp: moves_def)
  have wf: "table_wf c1" using same_table_wf [OF m(1)] assms(2) .
  have ok: "calls_ok (table_step alive m c1)" using m(4) assms(3) calls_ok_same by blast
  then have "calls_ok c1"
    by (cases m) (auto simp: calls_ok_def begin_call_def drained_def resolve_response_def Let_def case_prod_beta)
  then have "table_wf (table_step alive m c1)"
    using wf ok m(2) by (cases m) (auto intro: begin_call_wf drained_wf resolve_wf)
  then show ?thesis using same_table_wf [OF m(4)] by blast
qed

lemma client_run_issued:
  "client_run debug alive as c = Some c' \<Longrightarrow> map snd (cl_issued c') = map snd (cl_issued c) @ callers as"
proof (induction as arbitrary: c)
  case (Cons a as)
  then obtain c1 where c1: "client_step debug alive a c = Some c1" "client_run debug alive as c1 = Some c'"
    by (auto split: option.splits)
  have "callers (a # as) = callers [a] @ callers as" by (cases a) auto
  then show ?case using Cons.IH [OF c1(2)] moves_issued [OF step_moves [OF c1(1)]] by simp
qed simp

lemma client_run_wf:
  assumes "client_run debug alive as c = Some c'" "table_wf c" "calls_ok c'"
  shows "table_wf c'"
  using assms
proof (induction as arbitrary: c)
  case (Cons a as)
  then obtain c1 where c1: "client_step debug alive a c = Some c1" "client_run debug alive as c1 = Some c'"
    by (auto split: option.splits)
  have grow: "map snd (cl_issued c') = map snd (cl_issued c1) @ callers as"
    by (rule client_run_issued [OF c1(2)])
  have "length (cl_issued c') = length (cl_issued c1) + length (callers as)"
    using arg_cong [OF grow, where f = length] by (simp only: length_append length_map)
  then have "calls_ok c1" using Cons.prems(3) grow by (simp add: calls_ok_def)
  then have "table_wf c1" using moves_wf [OF step_moves [OF c1(1)] Cons.prems(2)] by blast
  then show ?case using Cons.IH [OF c1(2)] Cons.prems(3) by blast
qed simp


section \<open>Who settled a call\<close>

text \<open>Calls are told of a disconnect only by a task that has left its loop.\<close>

definition stopped :: "'tx client \<Rightarrow> bool" where
  "stopped c = (cl_reader c = ReaderEnded \<or> cl_writer c \<noteq> Writing)"

definition told_wf :: "'tx client \<Rightarrow> bool" where
  "told_wf c = ((\<exists>tx reason. (tx, pending_slot.Disconnected reason) \<in> set (cl_settled c)) \<longrightarrow> stopped c)"

lemma reader_step_writer [simp]: "cl_writer (reader_step debug alive inb c) = cl_writer c"
  by (cases inb)
     (auto simp: reader_step_def reader_teardown_def resolve_response_def handle_server_request_def case_prod_beta Let_def
        split: message.splits option.splits)

lemma stopped_step: "client_step debug alive a c = Some c' \<Longrightarrow> stopped c \<Longrightarrow> stopped c'"
  by (cases a)
     (auto simp: stopped_def begin_call_def send_call_def channel_send_def notify_def set_reverse_handler_def
        handler_done_def writer_stop_def reader_teardown_def case_prod_beta Let_def
        split: if_splits option.splits list.splits reader_state.splits)

lemma told_step:
  assumes "client_step debug alive a c = Some c'" "told_wf c"
  shows "told_wf c'"
proof (cases "stopped c'")
  case False
  then have "\<not> stopped c" using stopped_step [OF assms(1)] by blast
  then have old: "(tx, pending_slot.Disconnected reason) \<notin> set (cl_settled c)" for tx reason
    using assms(2) by (auto simp: told_wf_def)
  have "(tx, pending_slot.Disconnected reason) \<notin> set (cl_settled c')" for tx reason
  proof (cases a)
    case (OpRead inb)
    show ?thesis
    proof (cases inb)
      case (Got m)
      then show ?thesis
        using assms(1) old OpRead server_request_same [of "c\<lparr>cl_read := cl_read c @ [m]\<rparr>" debug]
        by (cases m)
           (auto simp: reader_step_def resolve_response_def pending_resolve_def Let_def same_table_def
              split: if_splits option.splits)
    qed (use assms(1) False OpRead in
          \<open>auto simp: reader_step_def reader_teardown_def stopped_def case_prod_beta Let_def split: if_splits\<close>)
  qed (use assms(1) old False in
        \<open>auto simp: begin_call_def send_call_def channel_send_def notify_def set_reverse_handler_def stopped_def
          handler_done_def writer_stop_def reader_teardown_def case_prod_beta Let_def
          split: if_splits option.splits list.splits reader_state.splits\<close>)
  then show ?thesis by (auto simp: told_wf_def)
qed (simp add: told_wf_def)

lemma told_run: "client_run debug alive as c = Some c' \<Longrightarrow> told_wf c \<Longrightarrow> told_wf c'"
  by (induction as arbitrary: c) (auto split: option.splits intro: told_step)

text \<open>The sends settle nothing and keep both tasks where they are.\<close>

definition quiet :: "'tx client \<Rightarrow> 'tx client \<Rightarrow> bool" where
  "quiet c c' = (cl_settled c' = cl_settled c \<and> cl_reader c' = cl_reader c \<and> cl_writer c' = cl_writer c)"

lemma channel_send_quiet: "channel_send m c = Some (ok, c') \<Longrightarrow> quiet c c'"
  by (auto simp: channel_send_def quiet_def split: if_splits)

lemma send_call_quiet: "send_call k c = Some c' \<Longrightarrow> quiet c c'"
  by (auto simp: send_call_def channel_send_def quiet_def Let_def split: if_splits prod.splits)

lemma handler_done_quiet: "handler_done k c = Some c' \<Longrightarrow> quiet c c'"
  by (auto simp: handler_done_def channel_send_def quiet_def split: option.splits prod.splits if_splits)

section \<open>Properties\<close>

text \<open>Where a call stands among those of its run.\<close>

lemma run_from_new:
  assumes "client_run debug alive as client_new = Some c" "Suc (length (callers as)) < 2 ^ 64" "distinct (callers as)"
  shows "map snd (cl_issued c) = callers as" "length (cl_issued c) = length (callers as)" "table_wf c" "told_wf c"
proof -
  show issued: "map snd (cl_issued c) = callers as"
    using client_run_issued [OF assms(1)] by (simp add: client_new_def)
  show len: "length (cl_issued c) = length (callers as)" using arg_cong [OF issued, where f = length] by simp
  show "table_wf c"
    by (rule client_run_wf [OF assms(1) table_wf_new]) (use assms(2,3) issued len in \<open>simp add: calls_ok_def\<close>)
  show "told_wf c"
    by (rule told_run [OF assms(1)]) (simp add: told_wf_def client_new_def)
qed

lemma issued_nth:
  assumes "ids_wf c" "k < length (cl_issued c)"
  shows "fst (cl_issued c ! k) = call_id (of_nat (Suc k))"
proof -
  have "map fst (cl_issued c) ! k = map (\<lambda>n. call_id (of_nat n)) [1..<Suc (length (cl_issued c))] ! k"
    using assms(1) unfolding ids_wf_def by (simp only:)
  then show ?thesis using assms(2) by (simp del: upt_Suc of_nat_Suc)
qed

lemma settled_by:
  assumes "table_wf c" "(tx, pending_slot.Response outcome) \<in> set (cl_settled c)"
  shows "\<exists>k r. k < length (cl_issued c) \<and> snd (cl_issued c ! k) = tx \<and> message.Response r \<in> set (cl_read c) \<and>
               rs_id r = call_id (of_nat (Suc k)) \<and> rs_outcome r = outcome"
proof -
  obtain r where r: "message.Response r \<in> set (cl_read c)" "rs_outcome r = outcome" "(rs_id r, tx) \<in> set (cl_issued c)"
    using assms unfolding table_wf_def answers_wf_def by blast
  obtain k where k: "k < length (cl_issued c)" "cl_issued c ! k = (rs_id r, tx)" using r(3) by (metis in_set_conv_nth)
  have "rs_id r = call_id (of_nat (Suc k))"
    using issued_nth [OF _ k(1)] assms(1) unfolding table_wf_def k(2) by (simp del: of_nat_Suc)
  then show ?thesis using r(1,2) k by (intro exI [of _ k] exI [of _ r]) (simp del: of_nat_Suc)
qed

text \<open>
  C11: whatever the interleaving of callers, reader, writer and handler tasks, a call of the client is
  settled at most once, and never with the answer to another: a result it gets is that of a response which
  carried the identifier of this very call; and it is told of a disconnect only after a task has stopped.
\<close>

theorem client_calls_settle_once:
  assumes "client_run debug alive as client_new = Some c"
    and "Suc (length (callers as)) < 2 ^ 64" "distinct (callers as)"
  shows "distinct (map fst (cl_settled c)) \<and>
         (\<forall>(tx, slot) \<in> set (cl_settled c). tx \<in> set (callers as) \<and>
            (case slot of
               pending_slot.Response outcome \<Rightarrow>
                 \<exists>k r. k < length (callers as) \<and> callers as ! k = tx \<and> message.Response r \<in> set (cl_read c) \<and>
                       rs_id r = call_id (of_nat (Suc k)) \<and> rs_outcome r = outcome
             | pending_slot.Disconnected _ \<Rightarrow> cl_reader c = ReaderEnded \<or> cl_writer c \<noteq> Writing))"
proof -
  note run = run_from_new [OF assms]
  have each: "tx \<in> set (callers as) \<and>
            (case slot of
               pending_slot.Response outcome \<Rightarrow>
                 \<exists>k r. k < length (callers as) \<and> callers as ! k = tx \<and> message.Response r \<in> set (cl_read c) \<and>
                       rs_id r = call_id (of_nat (Suc k)) \<and> rs_outcome r = outcome
             | pending_slot.Disconnected _ \<Rightarrow> cl_reader c = ReaderEnded \<or> cl_writer c \<noteq> Writing)"
    if s: "(tx, slot) \<in> set (cl_settled c)" for tx slot
  proof (rule conjI)
    have "fst (tx, slot) \<in> fst ` set (cl_settled c)" by (rule imageI [OF s])
    then show "tx \<in> set (callers as)"
      using run(3) unfolding table_wf_def settled_wf_def run(1) [symmetric] set_map fst_conv by blast
    show "case slot of
               pending_slot.Response outcome \<Rightarrow>
                 \<exists>k r. k < length (callers as) \<and> callers as ! k = tx \<and> message.Response r \<in> set (cl_read c) \<and>
                       rs_id r = call_id (of_nat (Suc k)) \<and> rs_outcome r = outcome
             | pending_slot.Disconnected _ \<Rightarrow> cl_reader c = ReaderEnded \<or> cl_writer c \<noteq> Writing"
    proof (cases slot)
      case (Response outcome)
      obtain k r where k: "k < length (cl_issued c)" "snd (cl_issued c ! k) = tx" "message.Response r \<in> set (cl_read c)"
        "rs_id r = call_id (of_nat (Suc k))" "rs_outcome r = outcome"
        using settled_by [OF run(3) s [unfolded Response]] by (elim exE conjE)
      have "callers as ! k = tx" unfolding run(1) [symmetric] using k(1,2) by simp
      then show ?thesis unfolding Response pending_slot.case
        using k run(2) by (intro exI [of _ k] exI [of _ r]) (simp del: of_nat_Suc)
    next
      case (Disconnected reason)
      then show ?thesis using run(4) s unfolding told_wf_def stopped_def by auto
    qed
  qed
  show ?thesis
  proof (intro conjI ballI)
    show "distinct (map fst (cl_settled c))" using run(3) by (simp add: table_parts)
    fix p assume p: "p \<in> set (cl_settled c)"
    obtain tx slot where "p = (tx, slot)" by (cases p)
    with p each show "case p of (tx, slot) \<Rightarrow> tx \<in> set (callers as) \<and>
            (case slot of
               pending_slot.Response outcome \<Rightarrow>
                 \<exists>k r. k < length (callers as) \<and> callers as ! k = tx \<and> message.Response r \<in> set (cl_read c) \<and>
                       rs_id r = call_id (of_nat (Suc k)) \<and> rs_outcome r = outcome
             | pending_slot.Disconnected _ \<Rightarrow> cl_reader c = ReaderEnded \<or> cl_writer c \<noteq> Writing)"
      by (simp only: prod.case)
  qed
qed

definition two_calls :: "nat client_action list" where
  "two_calls =
     [OpCall ''thread/list'' None 7, OpCall ''tools/list'' None 8, OpSend 1, OpSend 0, OpWrite True, OpWrite True,
      OpRead (Got (message.Response (response_ok (call_id 2) (json.Bool True)))), OpRead Eof]"

lemma two_calls_settled:
  "map_option cl_settled (client_run (\<lambda>s. s) (\<lambda>_. True) two_calls client_new) =
     Some [(8, pending_slot.Response (Result (json.Bool True))), (7, pending_slot.Disconnected ''unexpected EOF'')]"
  by code_simp

theorem client_calls_settle_once_witness:
  "\<exists>c. client_run (\<lambda>s. s) (\<lambda>_. True) two_calls client_new = Some c \<and>
       map fst (cl_settled c) = [8, 7] \<and> distinct (map fst (cl_settled c))"
proof -
  obtain c where c: "client_run (\<lambda>s. s) (\<lambda>_. True) two_calls client_new = Some c" "map fst (cl_settled c) = [8, 7]"
    using two_calls_settled by (auto simp only: map_option_eq_Some list.map fst_conv)
  with client_calls_settle_once [OF c(1)] show ?thesis by (simp add: two_calls_def)
qed

text \<open>
  a call made after the connection ended can wait for ever: once the reader is gone, nothing settles a
  call any more unless the writer stops, and after the writer has drained the table nothing does at all,
  although sends still succeed as long as the channel is open.
\<close>

theorem call_after_disconnect_hangs:
  assumes "client_run debug alive as c = Some c'" "cl_reader c = ReaderEnded"
    and "cl_writer c \<noteq> Writing \<or> (\<forall>a \<in> set as. a \<noteq> OpStopWriter \<and> a \<noteq> OpWrite False)"
  shows "cl_settled c' = cl_settled c \<and>
         (\<forall>tx \<in> set (callers as). tx \<notin> fst ` set (cl_settled c) \<longrightarrow> tx \<notin> fst ` set (cl_settled c'))"
proof -
  have step: "cl_settled c2 = cl_settled c1 \<and> cl_reader c2 = ReaderEnded \<and>
      (cl_writer c1 \<noteq> Writing \<longrightarrow> cl_writer c2 \<noteq> Writing)"
    if "client_step debug alive a c1 = Some c2" "cl_reader c1 = ReaderEnded"
      "cl_writer c1 \<noteq> Writing \<or> (a \<noteq> OpStopWriter \<and> a \<noteq> OpWrite False)" for a c1 c2
  proof (cases a)
    case (OpSend k)
    then show ?thesis using that send_call_quiet [of k c1 c2] by (simp add: quiet_def)
  next
    case (OpHandled k)
    then show ?thesis using that handler_done_quiet [of k c1 c2] by (simp add: quiet_def)
  next
    case (OpNotify meth params)
    then show ?thesis using that channel_send_quiet by (fastforce simp: notify_def quiet_def)
  qed (use that in \<open>auto simp: begin_call_def set_reverse_handler_def Let_def split: if_splits list.splits\<close>)
  have "cl_settled c' = cl_settled c"
    using assms
  proof (induction as arbitrary: c)
    case (Cons a as)
    then obtain c1 where c1: "client_step debug alive a c = Some c1" "client_run debug alive as c1 = Some c'"
      by (auto split: option.splits)
    have one: "cl_settled c1 = cl_settled c" "cl_reader c1 = ReaderEnded" "cl_writer c \<noteq> Writing \<longrightarrow> cl_writer c1 \<noteq> Writing"
      using step [OF c1(1) Cons.prems(2)] Cons.prems(3) by simp_all
    have "cl_writer c1 \<noteq> Writing \<or> (\<forall>a \<in> set as. a \<noteq> OpStopWriter \<and> a \<noteq> OpWrite False)"
      using Cons.prems(3) one(3) by (meson list.set_intros(2))
    from Cons.IH [OF c1(2) one(2) this] one(1) show ?case by simp
  qed simp
  then show ?thesis by simp
qed

definition late_call :: "nat client_action list" where
  "late_call = [OpCall ''thread/list'' None 7, OpSend 0, OpWrite True]"

lemma late_call_waits:
  "map_option (\<lambda>c. (cl_settled c, map snd (cl_pending c), cl_reader c))
     (client_step (\<lambda>s. s) (\<lambda>_ :: nat. True) (OpRead Eof) client_new) = Some ([], [], ReaderEnded)"
  "map_option (\<lambda>c. map snd (cl_pending c))
     (client_run (\<lambda>s. s) (\<lambda>_. True) (OpRead Eof # late_call) client_new) = Some [7]"
  by code_simp+

theorem call_after_disconnect_hangs_witness:
  "\<exists>c. client_run (\<lambda>s. s) (\<lambda>_. True) (OpRead Eof # late_call) client_new = Some c \<and>
       cl_settled c = [] \<and> map snd (cl_pending c) = [7]"
proof -
  obtain c1 where c1: "client_step (\<lambda>s. s) (\<lambda>_ :: nat. True) (OpRead Eof) client_new = Some c1"
    "(cl_settled c1, map snd (cl_pending c1), cl_reader c1) = ([], [], ReaderEnded)"
    using late_call_waits(1) [THEN iffD1 [OF map_option_eq_Some]] by (elim exE conjE)
  obtain c where c: "client_run (\<lambda>s. s) (\<lambda>_. True) (OpRead Eof # late_call) client_new = Some c" "map snd (cl_pending c) = [7]"
    using late_call_waits(2) [THEN iffD1 [OF map_option_eq_Some]] by (elim exE conjE)
  have run: "client_run (\<lambda>s. s) (\<lambda>_. True) late_call c1 = Some c"
    using c(1) by (simp only: client_run.simps c1(1) option.case)
  have ended: "cl_reader c1 = ReaderEnded" "cl_settled c1 = []" using c1(2) by (simp_all only: prod.inject)
  have "\<forall>a \<in> set late_call. a \<noteq> OpStopWriter \<and> a \<noteq> OpWrite False" by (simp add: late_call_def)
  then have "cl_settled c = cl_settled c1"
    by (rule call_after_disconnect_hangs [OF run ended(1) disjI2, THEN conjunct1])
  then show ?thesis unfolding ended using c by (intro exI [of _ c]) (simp only: simp_thms)
qed


section \<open>Against the server\<close>

text \<open>Calls issued one after the other, each sent and written at once.\<close>

definition issue_all :: "(string \<times> json option \<times> 'tx) list \<Rightarrow> 'tx client_action list" where
  "issue_all calls = concat (map (\<lambda>(m, p, tx). [OpCall m p tx, OpSend 0, OpWrite True]) calls)"

lemma client_run_append:
  "client_run debug alive (xs @ ys) c =
     (case client_run debug alive xs c of None \<Rightarrow> None | Some c' \<Rightarrow> client_run debug alive ys c')"
  by (induction xs arbitrary: c) (auto split: option.split)

text \<open>A client whose channel is empty, with both tasks in their loops.\<close>

definition ready :: "'tx client \<Rightarrow> bool" where
  "ready c = (cl_calling c = [] \<and> cl_outbound c = [] \<and> cl_reader c = Reading \<and> cl_writer c = Writing \<and> \<not> cl_shutdown c)"

definition written_call :: "string \<Rightarrow> json option \<Rightarrow> 'tx \<Rightarrow> 'tx client \<Rightarrow> 'tx client" where
  "written_call m p tx c =
     (let i = call_id (cl_next_id c)
      in c\<lparr>cl_next_id := cl_next_id c + 1, cl_pending := pending_register i tx (cl_pending c),
           cl_issued := cl_issued c @ [(i, tx)],
           cl_written := cl_written c @ [message.Request (request_new i m p)]\<rparr>)"

lemma one_call:
  "ready c \<Longrightarrow> client_run debug alive [OpCall m p tx, OpSend 0, OpWrite True] c = Some (written_call m p tx c)"
  by (simp add: ready_def begin_call_def send_call_def channel_send_def OUTBOUND_QUEUE_CAP_def written_call_def Let_def)

lemma ready_written: "ready c \<Longrightarrow> ready (written_call m p tx c)"
  by (simp add: ready_def written_call_def Let_def)

fun write_calls :: "(string \<times> json option \<times> 'tx) list \<Rightarrow> 'tx client \<Rightarrow> 'tx client" where
  "write_calls [] c = c"
| "write_calls ((m, p, tx) # calls) c = write_calls calls (written_call m p tx c)"

lemma issue_all_run: "ready c \<Longrightarrow> client_run debug alive (issue_all calls) c = Some (write_calls calls c) \<and> ready (write_calls calls c)"
proof (induction calls arbitrary: c)
  case (Cons call calls)
  obtain m p tx where call: "call = (m, p, tx)" by (cases call)
  have "issue_all (call # calls) = [OpCall m p tx, OpSend 0, OpWrite True] @ issue_all calls"
    by (simp add: issue_all_def call)
  then show ?case
    using Cons.IH [OF ready_written [OF Cons.prems]] one_call [OF Cons.prems]
    by (simp only: client_run_append call write_calls.simps option.case)
qed (simp add: issue_all_def)

lemma callers_issue_all: "callers (issue_all calls) = map (\<lambda>(m, p, tx). tx) calls"
proof -
  have "callers (xs @ ys) = callers xs @ callers ys" for xs ys :: "'a client_action list"
    by (induction xs rule: callers.induct) auto
  then show ?thesis by (induction calls) (auto simp: issue_all_def)
qed

text \<open>The requests written carry the identifiers of the waiting calls, in order.\<close>

definition lined_up :: "'tx client \<Rightarrow> bool" where
  "lined_up c = (map rq_id (requests (cl_written c)) = map fst (cl_pending c) \<and> cl_pending c = cl_issued c \<and>
     list_all (\<lambda>m. \<exists>q. m = message.Request q) (cl_written c))"

lemma write_calls_frame:
  "cl_settled (write_calls calls c) = cl_settled c \<and>
   length (cl_written (write_calls calls c)) = length (cl_written c) + length calls"
  by (induction calls c rule: write_calls.induct) (auto simp: written_call_def Let_def)

lemma written_call_lined:
  assumes "lined_up c" "table_wf c" "calls_ok (written_call m p tx c)"
  shows "lined_up (written_call m p tx c) \<and> table_wf (written_call m p tx c)"
proof -
  have same: "same_table (begin_call m p tx c) (written_call m p tx c)"
    by (simp add: same_table_def begin_call_def written_call_def Let_def)
  have "calls_ok (begin_call m p tx c)" using assms(3) calls_ok_same [OF same] by simp
  from begin_call_wf [OF assms(2) this] have wf: "table_wf (written_call m p tx c)"
    using same_table_wf [OF same] by blast
  have "Suc (length (cl_issued c)) < 2 ^ 64"
    using assms(3) by (simp add: calls_ok_def written_call_def Let_def)
  then have "call_id (cl_next_id c) \<notin> fst ` set (cl_issued c)"
    using fresh_id(1) assms(2) unfolding table_wf_def by blast
  then have "lined_up (written_call m p tx c)"
    using assms(1) by (simp add: lined_up_def written_call_def Let_def pending_register_def update_snoc request_new_def)
  with wf show ?thesis by blast
qed

lemma write_calls_lined:
  assumes "lined_up c" "table_wf c" "calls_ok (write_calls calls c)"
  shows "lined_up (write_calls calls c) \<and> table_wf (write_calls calls c)"
  using assms
proof (induction calls c rule: write_calls.induct)
  case (2 m p tx calls c)
  have grow: "map snd (cl_issued (write_calls cs d)) = map snd (cl_issued d) @ map (\<lambda>(m, p, tx). tx) cs" for cs d
    by (induction cs d rule: write_calls.induct) (auto simp: written_call_def Let_def)
  let ?w = "written_call m p tx c"
  have eq: "map snd (cl_issued (write_calls calls ?w)) = map snd (cl_issued ?w) @ map (\<lambda>(m, p, tx). tx) calls"
    by (rule grow)
  have "length (cl_issued (write_calls calls ?w)) = length (cl_issued ?w) + length calls"
    using arg_cong [OF eq, where f = length] by (simp only: length_append length_map)
  then have "calls_ok ?w"
    using "2.prems"(3) eq by (simp add: calls_ok_def)
  from written_call_lined [OF "2.prems"(1,2) this] "2.IH" "2.prems"(3) show ?case by simp
qed simp

text \<open>Reading responses in the order of the waiting calls settles them one by one.\<close>

lemma read_responses:
  assumes "ready c" "distinct (map fst (cl_pending c))"
    and "map rs_id (responses ms) = map fst (cl_pending c)" "\<forall>tx \<in> snd ` set (cl_pending c). alive tx"
    and "list_all (\<lambda>m. \<forall>q. m \<noteq> message.Request q) ms"
  shows "\<exists>c'. client_run debug alive (map (\<lambda>m. OpRead (Got m)) ms) c = Some c' \<and> cl_pending c' = [] \<and>
           cl_settled c' = cl_settled c @
             zip (map snd (cl_pending c)) (map (\<lambda>r. pending_slot.Response (rs_outcome r)) (responses ms))"
  using assms
proof (induction ms arbitrary: c)
  case (Cons m ms)
  let ?c1 = "reader_step debug alive (Got m) c"
  have step: "client_step debug alive (OpRead (Got m)) c = Some ?c1"
    using Cons.prems(1) by (simp add: ready_def)
  show ?case
  proof (cases m)
    case (Response r)
    obtain tx rest where p: "cl_pending c = (rs_id r, tx) # rest"
      using Cons.prems(3) by (cases "cl_pending c") (auto simp: Response)
    have alive: "alive tx" and "rs_id r \<notin> fst ` set rest" using Cons.prems(2,4) p by auto
    then have "AList.delete (rs_id r) rest = rest" by (intro delete_fresh)
    then have c1: "ready ?c1" "cl_pending ?c1 = rest"
      "cl_settled ?c1 = cl_settled c @ [(tx, pending_slot.Response (rs_outcome r))]"
      using Cons.prems(1) p alive
      by (simp_all add: Response reader_step_def resolve_response_def pending_resolve_def Let_def ready_def)
    have "\<exists>c'. client_run debug alive (map (\<lambda>m. OpRead (Got m)) ms) ?c1 = Some c' \<and> cl_pending c' = [] \<and>
        cl_settled c' = cl_settled ?c1 @
          zip (map snd (cl_pending ?c1)) (map (\<lambda>r. pending_slot.Response (rs_outcome r)) (responses ms))"
      by (rule Cons.IH) (use Cons.prems(2-5) p c1 in \<open>auto simp: Response\<close>)
    then show ?thesis using step c1 by (auto simp: p Response)
  next
    case (Notification n)
    have c1: "ready ?c1" "cl_pending ?c1 = cl_pending c" "cl_settled ?c1 = cl_settled c"
      using Cons.prems(1) by (simp_all add: Notification reader_step_def Let_def ready_def)
    have "\<exists>c'. client_run debug alive (map (\<lambda>m. OpRead (Got m)) ms) ?c1 = Some c' \<and> cl_pending c' = [] \<and>
        cl_settled c' = cl_settled ?c1 @
          zip (map snd (cl_pending ?c1)) (map (\<lambda>r. pending_slot.Response (rs_outcome r)) (responses ms))"
      by (rule Cons.IH) (use Cons.prems(2-5) c1 in \<open>auto simp: Notification\<close>)
    then show ?thesis using step c1 by (auto simp: Notification)
  next
    case (Request q)
    then show ?thesis using Cons.prems(5) by simp
  qed
qed simp

text \<open>A connection sends no request of its own.\<close>

definition no_requests :: "('tx, 's) conn \<Rightarrow> bool" where
  "no_requests c = (list_all (\<lambda>m. \<forall>q. m \<noteq> message.Request q) (cn_sent c) \<and>
     list_all (\<lambda>m. \<forall>q. m \<noteq> message.Request q) (cn_queue c))"

lemma no_requests_step: "conn_step cd router alive a c = Some c' \<Longrightarrow> no_requests c \<Longrightarrow> no_requests c'"
proof (cases a)
  case (Dispatch w ok)
  assume step: "conn_step cd router alive a c = Some c'" and c: "no_requests c"
  obtain m where m: "cn_busy c = Some m" using step Dispatch by (auto split: option.splits)
  obtain r c1 where d: "dispatch_message cd router alive w m (c\<lparr>cn_busy := None\<rparr>) = (r, c1)" by fastforce
  have "same_io (c\<lparr>cn_busy := None\<rparr>) c1" using dispatch_message_io [OF d] by simp
  then have "no_requests c1" using c by (simp add: same_io_def no_requests_def)
  moreover have "c' = write_out (map_option message.Response r) ok c1" using step Dispatch m d by simp
  ultimately show ?thesis by (cases r) (auto simp: write_out_def no_requests_def)
next
  case (SendOutbound ok)
  assume "conn_step cd router alive a c = Some c'" "no_requests c"
  with SendOutbound show ?thesis
    by (auto simp: no_requests_def write_out_def split: option.splits list.splits if_splits)
qed (auto simp: no_requests_def split: option.splits if_splits)




section \<open>Handshake and permission\<close>

lemma json_as_u64_nat: "n \<le> u64_max \<Longrightarrow> json_as_u64 (json_nat n) = Some n"
  by (simp add: json_as_u64_def json_nat_def parse_uint_show_nat)

text \<open>
  the handshake carries the version negotiation through: what the server refuses, the client reports as
  the version it asked for with the range the server supports; what the server accepts, the client records.
\<close>

theorem handshake_negotiates:
  assumes req: "ir_protocol_version req = cb_protocol_version b"
  shows "case handle_initialize version req False of
           Reject err \<Rightarrow>
             cb_protocol_version b > LATEST \<and>
             perform_handshake decode b (Some (call_result (Some (pending_slot.Response (response_outcome.Error err))))) n =
               Inl (client_error.ProtocolVersionUnsupported (unat (cb_protocol_version b)) (unat V0) (unat LATEST))
         | Accept resp \<Rightarrow>
             cb_protocol_version b \<le> LATEST \<and> ip_protocol_version resp = cb_protocol_version b \<and>
             (\<forall>raw. decode raw = Inr resp \<longrightarrow>
                perform_handshake decode b (Some (call_result (Some (pending_slot.Response (Result raw))))) None =
                  Inr \<lparr>hm_negotiated_version = cb_protocol_version b, hm_server_capabilities = server_capabilities,
                       hm_server_info = server_identity version\<rparr>)
         | init_result.AlreadyInitialized _ \<Rightarrow> False"
proof (cases "cb_protocol_version b > LATEST")
  case True
  have "range_end pick (Some [json_nat (unat V0), json_nat (unat LATEST)]) = unat (if pick = hd then V0 else LATEST)"
    if "pick = hd \<or> pick = last" for pick
    using that by (auto simp: range_end_def json_as_u64_nat u64_max_eq V0_def LATEST_def)
  note ends = this [of hd] this [of last]
  have "hd \<noteq> (last :: json list \<Rightarrow> json)"
  proof
    assume "hd = (last :: json list \<Rightarrow> json)"
    then have "hd [json.Null, json.Bool True] = last [json.Null, json.Bool True]" by (rule fun_cong)
    then show False by simp
  qed
  with True show ?thesis
    using ends by (simp add: handle_initialize_def req perform_handshake_def handshake_error_def error_object_of_def
        json_index_def json_get_def json_as_array_def Let_def)
next
  case False
  then show ?thesis
    by (auto simp: handle_initialize_def req perform_handshake_def min_def not_less)
qed


text \<open>
  a permission request makes the round trip: what the server's reverse call asks is put to the user through
  the client's handler, and exactly the waiting call on the server gets the user's outcome.
\<close>

theorem permission_round_trip:
  assumes issued: "issue METHOD_REQUEST_PERMISSION (Some v) tx t = (q, t')" and t: "tracker_ok t" "alive tx"
    and user: "pk_decode pk v = Inr req" "on_permission req = Some outcome" "pk_encode pk outcome = Inr reply"
    and c: "ready c" "cl_handler c = Some (permission_reverse_adapter pk on_permission)"
      "cl_spawned c \<notin> fst ` set (cl_tasks c)"
  shows "\<exists>c' r. client_run debug alive'
             [OpRead (Got (message.Request q)), OpEnter, OpHandled (cl_spawned c), OpWrite True] c = Some c' \<and>
           cl_written c' = cl_written c @ [message.Response r] \<and>
           rpc_resolve alive r t' = (Reverse_Rpc.resolve_outcome.Delivered, t'\<lparr>rr_pending := rr_pending t\<rparr>, [(tx, Inr reply)])"
proof -
  let ?i = "reverse_id (rr_next_id t)"
  have q: "rq_id q = ?i" "rq_method q = METHOD_REQUEST_PERMISSION" "rq_params q = Some v"
    and t': "t' = snd (issue METHOD_REQUEST_PERMISSION (Some v) tx t)"
    using issued by (auto simp: issue_def request_new_def Let_def)
  have pend: "rr_pending t' = rr_pending t @ [(?i, tx)]" unfolding t' by (rule issue_fresh [OF t(1)])
  have new: "?i \<notin> fst ` set (rr_pending t)"
    using t(1) by (fastforce simp: tracker_ok_def reverse_id_inj)
  have tasks: "map_of (cl_tasks c) (cl_spawned c) = None" using c(3) by (simp add: map_of_eq_None_iff)
  let ?r = "response_ok ?i reply"
  have "map_of (rr_pending t') ?i = Some tx" using new by (simp add: pend map_of_eq_None_iff [symmetric] map_add_def)
  moreover have "AList.delete ?i (rr_pending t') = rr_pending t"
    unfolding pend by (rule delete_snoc [OF new])
  ultimately have "rpc_resolve alive ?r t' = (Reverse_Rpc.resolve_outcome.Delivered, t'\<lparr>rr_pending := rr_pending t\<rparr>, [(tx, Inr reply)])"
    using t(2) by (simp add: rpc_resolve_def response_ok_def outcome_of_def Let_def)
  moreover have "\<exists>c'. client_run debug alive'
             [OpRead (Got (message.Request q)), OpEnter, OpHandled (cl_spawned c), OpWrite True] c = Some c' \<and>
           cl_written c' = cl_written c @ [message.Response ?r]"
    using c(1,2) user tasks
    by (simp add: ready_def reader_step_def handle_server_request_def q permission_reverse_adapter_def permission_handle_def
        handler_done_def channel_send_def OUTBOUND_QUEUE_CAP_def map_add_def Let_def)
  ultimately show ?thesis by blast
qed

definition yes_codec :: permission_codec where
  "yes_codec = \<lparr>pk_decode = (\<lambda>_. Inr \<lparr>rp_thread_id = ThreadId ''t'', rp_resource_type = ''tool'', rp_name = ''bash'',
                  rp_reason = [], rp_options = [], rp_tool_call_id = None\<rparr>),
                pk_encode = (\<lambda>_. Inr (json.String ''ok''))\<rparr>"

theorem permission_round_trip_witness:
  "\<exists>c' r. client_run (\<lambda>s. s) (\<lambda>_ :: nat. True)
       [OpRead (Got (message.Request (fst (issue METHOD_REQUEST_PERMISSION (Some json.Null) (5 :: nat) tracker_new)))),
        OpEnter, OpHandled 0, OpWrite True]
       (set_permission_handler yes_codec (\<lambda>_. Some permission_outcome.Cancelled) client_new) = Some c' \<and>
     cl_written c' = [message.Response r]"
proof -
  let ?c = "set_permission_handler yes_codec (\<lambda>_. Some permission_outcome.Cancelled) client_new :: nat client"
  obtain q t' where i: "issue METHOD_REQUEST_PERMISSION (Some json.Null) (5 :: nat) tracker_new = (q, t')" by fastforce
  have t: "tracker_ok tracker_new" by (simp add: tracker_ok_def tracker_new_def)
  obtain req where req: "pk_decode yes_codec json.Null = Inr req" by (simp add: yes_codec_def)
  have rep: "pk_encode yes_codec permission_outcome.Cancelled = Inr (json.String ''ok'')" by (simp add: yes_codec_def)
  have c: "ready ?c" "cl_handler ?c = Some (permission_reverse_adapter yes_codec (\<lambda>_. Some permission_outcome.Cancelled))"
    "cl_spawned ?c \<notin> fst ` set (cl_tasks ?c)" "cl_spawned ?c = 0" "cl_written ?c = []"
    by (simp_all add: ready_def set_permission_handler_def set_reverse_handler_def client_new_def)
  from permission_round_trip [OF i t TrueI req refl rep c(1-3), of "\<lambda>s. s" "\<lambda>_. True"]
  show ?thesis unfolding i fst_conv c(4,5) by (elim exE conjE) (intro exI conjI, assumption, simp)
qed

text \<open>
  a handler that panics still answers the server, with an internal error.
\<close>

theorem panicking_handler_answers:
  "rs_id (handler_response i answer) = i \<and>
   (answer = None \<longrightarrow> (\<exists>e. rs_outcome (handler_response i answer) = response_outcome.Error e \<and> eo_code e = INTERNAL_ERROR))"
  by (cases "(i, answer)" rule: handler_response.cases) (auto simp: response_ok_def response_err_def)

text \<open>
  a handler that is done before the reader entered it leaves its entry in the table for good.
\<close>

theorem fast_handler_leaks_entry:
  "map_option (\<lambda>c. (cl_tasks c, cl_reverse c))
     (client_run (\<lambda>s. s) (\<lambda>_ :: nat. True)
       [OpRead (Got (message.Request (request_new (rpc_id.Number 1) METHOD_REQUEST_PERMISSION None))), OpHandled 0, OpEnter]
       (set_permission_handler yes_codec (\<lambda>_. Some permission_outcome.Cancelled) client_new)) =
   Some ([], [(rpc_id.Number 1, 0)])"
  by (simp add: set_permission_handler_def set_reverse_handler_def client_new_def reader_step_def handle_server_request_def
      request_new_def permission_reverse_adapter_def handler_done_def channel_send_def OUTBOUND_QUEUE_CAP_def Let_def)

end
