(* ===== verification/Client_Api.thy ===== *)
theory Client_Api
  imports Client Engine_Rpc
begin

text \<open>
  The typed methods of the native client (\<open>zhive-client-native/src/lib.rs\<close>) and the names of the methods
  (\<open>zhive-proto/src/methods.rs\<close>). A method is a function of the answers its call awaits, as
  \<open>call_result\<close> gives them; encoding the parameters and decoding a result is serde's, a parameter.
\<close>

section \<open>Method names\<close>

definition METHOD_START_TURN :: string where "METHOD_START_TURN = ''engine/start_turn''"
definition METHOD_CANCEL_TURN :: string where "METHOD_CANCEL_TURN = ''engine/cancel_turn''"
definition METHOD_COMPACT :: string where "METHOD_COMPACT = ''engine/compact''"
definition METHOD_RESUME_THREAD :: string where "METHOD_RESUME_THREAD = ''engine/resume_thread''"
definition METHOD_RESTORE :: string where "METHOD_RESTORE = ''engine/restore''"
definition METHOD_LIST_CHECKPOINTS :: string where "METHOD_LIST_CHECKPOINTS = ''engine/list_checkpoints''"
definition METHOD_THREAD_FORK :: string where "METHOD_THREAD_FORK = ''thread/fork''"
definition METHOD_THREAD_LIST :: string where "METHOD_THREAD_LIST = ''thread/list''"
definition METHOD_THREAD_GET_ITEMS :: string where "METHOD_THREAD_GET_ITEMS = ''thread/get_items''"
definition METHOD_THREAD_DELETE :: string where "METHOD_THREAD_DELETE = ''thread/delete''"
definition METHOD_THREAD_RENAME :: string where "METHOD_THREAD_RENAME = ''thread/rename''"
definition METHOD_THREAD_SEARCH :: string where "METHOD_THREAD_SEARCH = ''thread/search''"
definition METHOD_TOOLS_LIST :: string where "METHOD_TOOLS_LIST = ''tools/list''"
definition METHOD_ENQUEUE_STEER :: string where "METHOD_ENQUEUE_STEER = ''session/enqueue_steer''"
definition METHOD_ENQUEUE_FOLLOW_UP :: string where "METHOD_ENQUEUE_FOLLOW_UP = ''session/enqueue_follow_up''"
definition METHOD_ENQUEUE_NEXT_TURN :: string where "METHOD_ENQUEUE_NEXT_TURN = ''session/enqueue_next_turn''"
definition METHOD_SESSION_CANCEL :: string where "METHOD_SESSION_CANCEL = ''session/cancel''"
definition METHOD_RESUME_PERMISSION :: string where "METHOD_RESUME_PERMISSION = ''session/resume_permission''"

section \<open>Typed calls\<close>

type_synonym answers = "string \<Rightarrow> json option \<Rightarrow> (json, client_error) rust_result"
type_synonym 'p encoder = "'p \<Rightarrow> (json, string) rust_result"

text \<open>The shape the methods share: encode, call, decode.\<close>

definition typed_call ::
    "string \<Rightarrow> 'p encoder \<Rightarrow> 'r decoder \<Rightarrow> answers \<Rightarrow> 'p \<Rightarrow> ('r, client_error) rust_result" where
  "typed_call method en de ans params =
     (case en params of
        Inl e \<Rightarrow> Inl (Decode e)
      | Inr v \<Rightarrow>
          (case ans method (Some v) of
             Inl err \<Rightarrow> Inl err
           | Inr resp \<Rightarrow> (case de resp of Inl e \<Rightarrow> Inl (Decode e) | Inr r \<Rightarrow> Inr r)))"

definition start_turn_call ::
    "start_turn_params encoder \<Rightarrow> 'r decoder \<Rightarrow> answers \<Rightarrow> start_turn_params \<Rightarrow> ('r, client_error) rust_result" where
  "start_turn_call en de ans params = typed_call METHOD_START_TURN en de ans params"

definition compact_thread_call ::
    "compact_params encoder \<Rightarrow> 'r decoder \<Rightarrow> answers \<Rightarrow> compact_params \<Rightarrow> ('r, client_error) rust_result" where
  "compact_thread_call en de ans params = typed_call METHOD_COMPACT en de ans params"

definition fork_thread_call ::
    "fork_params encoder \<Rightarrow> 'r decoder \<Rightarrow> answers \<Rightarrow> fork_params \<Rightarrow> ('r, client_error) rust_result" where
  "fork_thread_call en de ans params = typed_call METHOD_THREAD_FORK en de ans params"

definition list_checkpoints_call ::
    "list_checkpoints_params encoder \<Rightarrow> 'r decoder \<Rightarrow> answers \<Rightarrow> list_checkpoints_params \<Rightarrow> ('r, client_error) rust_result" where
  "list_checkpoints_call en de ans params = typed_call METHOD_LIST_CHECKPOINTS en de ans params"

definition restore_call ::
    "restore_params encoder \<Rightarrow> 'r decoder \<Rightarrow> answers \<Rightarrow> restore_params \<Rightarrow> ('r, client_error) rust_result" where
  "restore_call en de ans params = typed_call METHOD_RESTORE en de ans params"

definition list_threads_call ::
    "list_threads_params encoder \<Rightarrow> 'r decoder \<Rightarrow> answers \<Rightarrow> list_threads_params \<Rightarrow> ('r, client_error) rust_result" where
  "list_threads_call en de ans params = typed_call METHOD_THREAD_LIST en de ans params"

definition resume_thread_call ::
    "resume_thread_params encoder \<Rightarrow> 'r decoder \<Rightarrow> answers \<Rightarrow> resume_thread_params \<Rightarrow> ('r, client_error) rust_result" where
  "resume_thread_call en de ans params = typed_call METHOD_RESUME_THREAD en de ans params"

definition get_items_call ::
    "get_items_params encoder \<Rightarrow> 'r decoder \<Rightarrow> answers \<Rightarrow> get_items_params \<Rightarrow> ('r, client_error) rust_result" where
  "get_items_call en de ans params = typed_call METHOD_THREAD_GET_ITEMS en de ans params"

definition enqueue_steer_call ::
    "injection_params encoder \<Rightarrow> 'r decoder \<Rightarrow> answers \<Rightarrow> injection_params \<Rightarrow> ('r, client_error) rust_result" where
  "enqueue_steer_call en de ans params = typed_call METHOD_ENQUEUE_STEER en de ans params"

definition enqueue_follow_up_call ::
    "injection_params encoder \<Rightarrow> 'r decoder \<Rightarrow> answers \<Rightarrow> injection_params \<Rightarrow> ('r, client_error) rust_result" where
  "enqueue_follow_up_call en de ans params = typed_call METHOD_ENQUEUE_FOLLOW_UP en de ans params"

definition enqueue_next_turn_call ::
    "injection_params encoder \<Rightarrow> 'r decoder \<Rightarrow> answers \<Rightarrow> injection_params \<Rightarrow> ('r, client_error) rust_result" where
  "enqueue_next_turn_call en de ans params = typed_call METHOD_ENQUEUE_NEXT_TURN en de ans params"

definition delete_thread_call ::
    "delete_thread_params encoder \<Rightarrow> 'r decoder \<Rightarrow> answers \<Rightarrow> delete_thread_params \<Rightarrow> ('r, client_error) rust_result" where
  "delete_thread_call en de ans params = typed_call METHOD_THREAD_DELETE en de ans params"

definition rename_thread_call ::
    "rename_thread_params encoder \<Rightarrow> 'r decoder \<Rightarrow> answers \<Rightarrow> rename_thread_params \<Rightarrow> ('r, client_error) rust_result" where
  "rename_thread_call en de ans params = typed_call METHOD_THREAD_RENAME en de ans params"

definition search_threads_call ::
    "search_threads_params encoder \<Rightarrow> 'r decoder \<Rightarrow> answers \<Rightarrow> search_threads_params \<Rightarrow> ('r, client_error) rust_result" where
  "search_threads_call en de ans params = typed_call METHOD_THREAD_SEARCH en de ans params"

definition resume_permission_call ::
    "resume_permission_params encoder \<Rightarrow> 'r decoder \<Rightarrow> answers \<Rightarrow> resume_permission_params \<Rightarrow> ('r, client_error) rust_result" where
  "resume_permission_call en de ans params = typed_call METHOD_RESUME_PERMISSION en de ans params"

text \<open>Without parameters.\<close>

definition tools_list_call :: "'r decoder \<Rightarrow> answers \<Rightarrow> ('r, client_error) rust_result" where
  "tools_list_call de ans =
     (case ans METHOD_TOOLS_LIST None of
        Inl err \<Rightarrow> Inl err
      | Inr resp \<Rightarrow> (case de resp of Inl e \<Rightarrow> Inl (Decode e) | Inr r \<Rightarrow> Inr r))"

definition thread_params :: "thread_id \<Rightarrow> json" where
  "thread_params tid = Object [(''threadId'', json.String (thread_id_str tid))]"

definition cancel_turn_call :: "answers \<Rightarrow> thread_id \<Rightarrow> (turn_id option, client_error) rust_result" where
  "cancel_turn_call ans tid =
     (case ans METHOD_CANCEL_TURN (Some (thread_params tid)) of
        Inl err \<Rightarrow> Inl err
      | Inr value \<Rightarrow>
          (case json_get value ''turnId'' of
             None \<Rightarrow> Inl (client_error.Server \<lparr>eo_code = -32000,
                        eo_message = ''cancel_turn response missing 'turnId' field'', eo_data = None\<rparr>)
           | Some v \<Rightarrow>
               (if v = json.Null then Inr None
                else case json_as_str v of
                       None \<Rightarrow> Inl (client_error.Server \<lparr>eo_code = -32000,
                                  eo_message = ''cancel_turn 'turnId' is not a string'', eo_data = None\<rparr>)
                     | Some s \<Rightarrow> Inr (Some (TurnId s)))))"

definition cancel_session :: "thread_id \<Rightarrow> 'tx client \<Rightarrow> ((unit, client_error) rust_result \<times> 'tx client) option" where
  "cancel_session tid c = notify METHOD_SESSION_CANCEL (Some (thread_params tid)) c"

section \<open>Properties\<close>

lemmas method_names =
  METHOD_START_TURN_def METHOD_CANCEL_TURN_def METHOD_COMPACT_def METHOD_RESUME_THREAD_def METHOD_RESTORE_def METHOD_LIST_CHECKPOINTS_def METHOD_THREAD_FORK_def METHOD_THREAD_LIST_def METHOD_THREAD_GET_ITEMS_def METHOD_THREAD_DELETE_def METHOD_THREAD_RENAME_def METHOD_THREAD_SEARCH_def METHOD_TOOLS_LIST_def METHOD_ENQUEUE_STEER_def METHOD_ENQUEUE_FOLLOW_UP_def METHOD_ENQUEUE_NEXT_TURN_def METHOD_SESSION_CANCEL_def METHOD_RESUME_PERMISSION_def

lemma served_methods:
  fixes alive :: "'tx \<Rightarrow> bool" and rc :: rpc_codec
  defines "hs \<equiv> engine_handlers alive rc :: (string \<times> ('tx, 'p) rpc_handler) list"
  shows "ro_handlers (register_engine_handlers alive rc router_new :: (('tx, 'p) call_world, ('tx, 'p) served) router) m \<noteq> None
    \<longleftrightarrow> m \<in> set (map fst hs)"
proof -
  have "ro_handlers (register_engine_handlers alive rc router_new :: (('tx, 'p) call_world, ('tx, 'p) served) router) m \<noteq> None
      \<longleftrightarrow> (\<exists>h. (m, h) \<in> set hs)"
    unfolding hs_def by (simp only: engine_router_lookup [symmetric] not_None_eq)
  then show ?thesis by force
qed

lemma typed_call_cong:
  assumes "\<And>p. ans m p = f m p"
  shows "typed_call m en de ans params = typed_call m en de f params"
  by (simp add: typed_call_def assms cong: sum.case_cong)

text \<open>
  every typed method of the client asks for a method the server registers: two worlds that answer the
  registered methods alike cannot be told apart by any of them.
\<close>

theorem client_methods_served:
  assumes same: "\<And>m p. ro_handlers (register_engine_handlers alive rc router_new :: (('tx, 'p) call_world, ('tx, 'p) served) router) m \<noteq> None \<Longrightarrow> ans m p = f m p"
  shows "start_turn_call e0 d0 ans p0 = start_turn_call e0 d0 f p0 \<and>
    compact_thread_call e1 d1 ans p1 = compact_thread_call e1 d1 f p1 \<and>
    fork_thread_call e2 d2 ans p2 = fork_thread_call e2 d2 f p2 \<and>
    list_checkpoints_call e3 d3 ans p3 = list_checkpoints_call e3 d3 f p3 \<and>
    restore_call e4 d4 ans p4 = restore_call e4 d4 f p4 \<and>
    list_threads_call e5 d5 ans p5 = list_threads_call e5 d5 f p5 \<and>
    resume_thread_call e6 d6 ans p6 = resume_thread_call e6 d6 f p6 \<and>
    get_items_call e7 d7 ans p7 = get_items_call e7 d7 f p7 \<and>
    enqueue_steer_call e8 d8 ans p8 = enqueue_steer_call e8 d8 f p8 \<and>
    enqueue_follow_up_call e9 d9 ans p9 = enqueue_follow_up_call e9 d9 f p9 \<and>
    enqueue_next_turn_call e10 d10 ans p10 = enqueue_next_turn_call e10 d10 f p10 \<and>
    delete_thread_call e11 d11 ans p11 = delete_thread_call e11 d11 f p11 \<and>
    rename_thread_call e12 d12 ans p12 = rename_thread_call e12 d12 f p12 \<and>
    search_threads_call e13 d13 ans p13 = search_threads_call e13 d13 f p13 \<and>
    resume_permission_call e14 d14 ans p14 = resume_permission_call e14 d14 f p14 \<and>
    tools_list_call dt ans = tools_list_call dt f \<and>
    cancel_turn_call ans tid = cancel_turn_call f tid"
proof -
  have served: "ans m p = f m p" if "m \<in> set (map fst (engine_handlers alive rc :: (string \<times> ('tx, 'p) rpc_handler) list))" for m p
    using same served_methods [of alive rc m] that by blast
  have names: "\<And>p. ans m p = f m p" if "m \<in> {METHOD_START_TURN, METHOD_CANCEL_TURN, METHOD_COMPACT, METHOD_RESUME_THREAD,
      METHOD_RESTORE, METHOD_LIST_CHECKPOINTS, METHOD_THREAD_FORK, METHOD_THREAD_LIST, METHOD_THREAD_GET_ITEMS,
      METHOD_THREAD_DELETE, METHOD_THREAD_RENAME, METHOD_THREAD_SEARCH, METHOD_TOOLS_LIST, METHOD_ENQUEUE_STEER,
      METHOD_ENQUEUE_FOLLOW_UP, METHOD_ENQUEUE_NEXT_TURN, METHOD_RESUME_PERMISSION}" for m
    using that by (intro served) (elim insertE; simp add: engine_method_names method_names)
  have typed: "typed_call m en de ans params = typed_call m en de f params"
    if "m \<in> {METHOD_START_TURN, METHOD_COMPACT, METHOD_RESUME_THREAD,
      METHOD_RESTORE, METHOD_LIST_CHECKPOINTS, METHOD_THREAD_FORK, METHOD_THREAD_LIST, METHOD_THREAD_GET_ITEMS,
      METHOD_THREAD_DELETE, METHOD_THREAD_RENAME, METHOD_THREAD_SEARCH, METHOD_ENQUEUE_STEER,
      METHOD_ENQUEUE_FOLLOW_UP, METHOD_ENQUEUE_NEXT_TURN, METHOD_RESUME_PERMISSION}"
    for m and en :: "'x encoder" and de :: "'y decoder" and params
    by (rule typed_call_cong, rule names) (use that in blast)
  show ?thesis
    unfolding start_turn_call_def compact_thread_call_def fork_thread_call_def list_checkpoints_call_def restore_call_def list_threads_call_def resume_thread_call_def get_items_call_def enqueue_steer_call_def enqueue_follow_up_call_def enqueue_next_turn_call_def delete_thread_call_def rename_thread_call_def search_threads_call_def resume_permission_call_def tools_list_call_def cancel_turn_call_def
    by (intro conjI typed) (simp_all add: names)
qed

theorem client_methods_served_witness:
  "tools_list_call (\<lambda>v. Inr v) (\<lambda>m p. if m = ''engine/missing'' then Inl (Io []) else Inr json.Null) = Inr json.Null"
proof -
  have "(if m = ''engine/missing'' then Inl (Io []) else Inr json.Null) = Inr json.Null"
    if "ro_handlers (register_engine_handlers (\<lambda>_ :: unit. True) plain_codec router_new
          :: ((unit, unit) call_world, (unit, unit) served) router) m \<noteq> None" for m
  proof -
    have "m \<in> set (map fst (engine_handlers (\<lambda>_ :: unit. True) plain_codec :: (string \<times> (unit, unit) rpc_handler) list))"
      by (rule served_methods [THEN iffD1, OF that])
    then have "m \<noteq> ''engine/missing''" unfolding engine_method_names by (simp, elim disjE) simp_all
    then show ?thesis by simp
  qed
  note all = client_methods_served [where f = "\<lambda>m p. Inr json.Null", OF this]
  have "tools_list_call (\<lambda>v. Inr v) (\<lambda>m p. if m = ''engine/missing'' then Inl (Io []) else Inr json.Null) =
      tools_list_call (\<lambda>v. Inr v) (\<lambda>m p. Inr json.Null)"
    by (rule all [THEN conjunct2, THEN conjunct2, THEN conjunct2, THEN conjunct2, THEN conjunct2, THEN conjunct2, THEN conjunct2, THEN conjunct2, THEN conjunct2, THEN conjunct2, THEN conjunct2, THEN conjunct2, THEN conjunct2, THEN conjunct2, THEN conjunct2, THEN conjunct1])
  then show ?thesis by (simp add: tools_list_call_def)
qed

text \<open>
  what the server's handler of \<open>cancel_turn\<close> answers is what the client returns, a turn or none.
\<close>

theorem cancel_turn_reads_result:
  "cancel_turn_call (\<lambda>m p. call_result (Some (pending_slot.Response (Result (cancel_turn_result turn))))) tid = Inr turn"
  by (cases turn; cases "the turn") (simp_all add: cancel_turn_call_def cancel_turn_result_def json_get_def json_as_str_def turn_id_str_def)

end
