(* ===== verification/Builtin_Tools.thy ===== *)
theory Builtin_Tools
  imports Client Preview Tool_Dispatch "HOL-Library.List_Lexorder" "HOL-Library.Sublist"
begin

text \<open>
  The built-in tools (\<open>zhive-core/src/tools/builtin.rs\<close> and \<open>builtin/\<close>): reading, writing and editing a
  file, searching, running a command, delegating to an agent. The file system is a map from paths to
  the bytes of files; which of its operations fail is a record of parameters, and an operation that
  changes files returns every state the files pass through. Regular expressions, glob patterns, the
  directory walk and the child process are third-party or the system's, given by what they yield.
\<close>

section \<open>Strings\<close>

definition is_char_boundary :: "string \<Rightarrow> nat \<Rightarrow> bool" where
  "is_char_boundary s i =
     (if i = 0 then True
      else if i \<ge> length s then i = length s
      else \<not> is_continuation (s ! i))"

text \<open>The loop that moves a cut back to a character boundary.\<close>

function boundary_before :: "string \<Rightarrow> nat \<Rightarrow> nat" where
  "boundary_before s i = (if is_char_boundary s i then i else boundary_before s (i - 1))"
  by auto

termination
proof (relation "measure snd")
  fix s i
  assume "\<not> is_char_boundary s i"
  then have "i \<noteq> 0" by (cases "i = 0") (simp_all add: is_char_boundary_def)
  then show "((s, i - 1), (s, i)) \<in> measure snd" by simp
qed simp

declare boundary_before.simps [simp del]

definition MAX_TOOL_OUTPUT_BYTES :: nat where "MAX_TOOL_OUTPUT_BYTES = 64 * 1024"
definition MAX_LINE_BYTES :: nat where "MAX_LINE_BYTES = 2000"
definition DEFAULT_READ_LINE_LIMIT :: nat where "DEFAULT_READ_LINE_LIMIT = 2000"
definition DEFAULT_GREP_MAX_RESULTS :: nat where "DEFAULT_GREP_MAX_RESULTS = 200"
definition DEFAULT_GLOB_MAX_RESULTS :: nat where "DEFAULT_GLOB_MAX_RESULTS = 1000"
definition DEFAULT_BASH_TIMEOUT :: nat where "DEFAULT_BASH_TIMEOUT = 120000"
definition MAX_BASH_TIMEOUT :: nat where "MAX_BASH_TIMEOUT = 600000"
definition MAX_DIFF_CAPTURE_BYTES :: nat where "MAX_DIFF_CAPTURE_BYTES = 200000"

definition truncate_utf8 :: "string \<Rightarrow> nat \<Rightarrow> string \<times> bool" where
  "truncate_utf8 s max_bytes =
     (if length s \<le> max_bytes then (s, False)
      else (take (boundary_before s max_bytes) s, True))"

definition clamp_output :: "string \<Rightarrow> string" where
  "clamp_output text =
     (if length text \<le> MAX_TOOL_OUTPUT_BYTES then text
      else (let cut = boundary_before text MAX_TOOL_OUTPUT_BYTES
            in take cut text @ [CHR 0x0A] @ ''(output truncated: '' @ show_nat (length text - cut) @ '' bytes omitted)''))"

text \<open>\<open>split('\n')\<close>, \<open>lines\<close> and \<open>trim_end\<close>.\<close>

fun split_nl :: "string \<Rightarrow> string list" where
  "split_nl [] = [[]]"
| "split_nl (c # cs) =
     (if c = CHR 0x0A then [] # split_nl cs
      else (case split_nl cs of l # ls \<Rightarrow> (c # l) # ls | [] \<Rightarrow> [[c]]))"

definition strip_cr :: "string \<Rightarrow> string" where
  "strip_cr l = (if l \<noteq> [] \<and> last l = CHR 0x0D then butlast l else l)"

text \<open>Every piece but the last ended in a line feed; a last piece that is empty is no line.\<close>

definition str_lines :: "string \<Rightarrow> string list" where
  "str_lines s =
     (let ps = split_nl s
      in map strip_cr (butlast ps) @ (if last ps = [] then [] else [last ps]))"

definition trim_end :: "string \<Rightarrow> string" where
  "trim_end s = concat (rev (dropWhile is_whitespace (rev (chars s))))"

text \<open>
  \<open>matches(pat).count()\<close>, \<open>replace\<close> and \<open>replacen(.., 1)\<close>: occurrences from the left that do not overlap;
  the empty pattern matches at every character boundary.
\<close>

fun count_from :: "nat \<Rightarrow> string \<Rightarrow> string \<Rightarrow> nat" where
  "count_from skip pat [] = 0"
| "count_from skip pat (c # cs) =
     (if skip > 0 then count_from (skip - 1) pat cs
      else if prefix pat (c # cs) then Suc (count_from (length pat - 1) pat cs)
      else count_from 0 pat cs)"

definition matches_count :: "string \<Rightarrow> string \<Rightarrow> nat" where
  "matches_count s pat = (if pat = [] then Suc (length (chars s)) else count_from 0 pat s)"

fun replace_from :: "nat \<Rightarrow> string \<Rightarrow> string \<Rightarrow> string \<Rightarrow> string" where
  "replace_from skip pat new [] = []"
| "replace_from skip pat new (c # cs) =
     (if skip > 0 then replace_from (skip - 1) pat new cs
      else if prefix pat (c # cs) then new @ replace_from (length pat - 1) pat new cs
      else c # replace_from 0 pat new cs)"

definition str_replace :: "string \<Rightarrow> string \<Rightarrow> string \<Rightarrow> string" where
  "str_replace s pat new =
     (if pat = [] then new @ concat (map (\<lambda>ch. ch @ new) (chars s)) else replace_from 0 pat new s)"

fun replace_first :: "string \<Rightarrow> string \<Rightarrow> string \<Rightarrow> string" where
  "replace_first [] pat new = (if pat = [] then new else [])"
| "replace_first (c # cs) pat new =
     (if prefix pat (c # cs) then new @ drop (length pat) (c # cs)
      else c # replace_first cs pat new)"

section \<open>Files\<close>

type_synonym files = "string \<rightharpoonup> string"

record tool_ctx =
  tx_workspace_root :: "string option"
  tx_current_dir :: "string option"
  tx_parent :: "string \<Rightarrow> string option"
  tx_pid :: nat

text \<open>\<open>Path::is_absolute\<close> and \<open>join\<close> on Unix.\<close>

definition is_absolute :: "string \<Rightarrow> bool" where
  "is_absolute p = starts_with p ''/''"

definition path_join :: "string \<Rightarrow> string \<Rightarrow> string" where
  "path_join a b = (if is_absolute b then b else if a = [] \<or> last a = CHR ''/'' then a @ b else a @ ''/'' @ b)"

definition current_dir_or :: "tool_ctx \<Rightarrow> string \<Rightarrow> string" where
  "current_dir_or cx fallback = (case tx_current_dir cx of Some d \<Rightarrow> d | None \<Rightarrow> fallback)"

definition ctx_resolve :: "tool_ctx \<Rightarrow> string \<Rightarrow> string" where
  "ctx_resolve cx p =
     (if is_absolute p then p
      else case tx_workspace_root cx of
             Some r \<Rightarrow> path_join r p
           | None \<Rightarrow> path_join (current_dir_or cx ''/'') p)"

definition resolve_path :: "tool_ctx \<Rightarrow> string \<Rightarrow> string" where
  "resolve_path cx p = (if is_absolute p then p else path_join (current_dir_or cx ''/'') p)"

text \<open>
  Which operation fails, with the error's text: reading, making directories, writing the staged file
  (with what it then holds, if it was made), renaming, and removing the staged file afterwards.
\<close>

record faults =
  fl_read :: "string option"
  fl_mkdir :: "string option"
  fl_write :: "(string option \<times> string) option"
  fl_rename :: "string option"
  fl_remove :: bool
  fl_not_found :: string

datatype read_error = NotFound string | OtherIo string

fun read_error_text :: "read_error \<Rightarrow> string" where
  "read_error_text (NotFound e) = e"
| "read_error_text (OtherIo e) = e"

definition fs_read :: "faults \<Rightarrow> files \<Rightarrow> string \<Rightarrow> (string, read_error) rust_result" where
  "fs_read fl fs p =
     (case fl_read fl of
        Some e \<Rightarrow> Inl (OtherIo e)
      | None \<Rightarrow> (case fs p of Some b \<Rightarrow> Inr b | None \<Rightarrow> Inl (NotFound (fl_not_found fl))))"

definition tmp_file_name :: "tool_ctx \<Rightarrow> string \<Rightarrow> nat \<Rightarrow> string" where
  "tmp_file_name cx tag seq =
     ''.zhive-'' @ tag @ ''-tmp-'' @ show_nat (tx_pid cx) @ ''-'' @ show_nat seq @ ''.tmp''"

text \<open>
  Stage to a temporary file beside the target, then rename: the result and the states the files pass
  through, newest last.
\<close>

definition atomic_write ::
    "tool_ctx \<Rightarrow> faults \<Rightarrow> string \<Rightarrow> nat \<Rightarrow> string \<Rightarrow> string \<Rightarrow> files \<Rightarrow>
     (unit, tool_error) rust_result \<times> files list" where
  "atomic_write cx fl tag seq dest content fs =
     (case (case tx_parent cx dest of Some _ \<Rightarrow> fl_mkdir fl | None \<Rightarrow> None) of
        Some e \<Rightarrow> (Inl (Execution (''cannot create directories for `'' @ dest @ ''`: '' @ e)), [])
      | None \<Rightarrow>
          (let dir = (case tx_parent cx dest of Some d \<Rightarrow> d | None \<Rightarrow> ''.'');
               tmp = path_join dir (tmp_file_name cx tag seq)
           in case fl_write fl of
                Some (left, e) \<Rightarrow>
                  (Inl (Execution (''cannot write temp file `'' @ tmp @ ''`: '' @ e)),
                   (case left of Some b \<Rightarrow> [fs(tmp \<mapsto> b)] | None \<Rightarrow> []))
              | None \<Rightarrow>
                  (let staged = fs(tmp \<mapsto> content)
                   in case fl_rename fl of
                        Some e \<Rightarrow>
                          (Inl (Execution (''cannot rename `'' @ tmp @ ''` -> `'' @ dest @ ''`: '' @ e)),
                           staged # (if fl_remove fl then [staged(tmp := None)] else []))
                      | None \<Rightarrow> (Inr (), [staged, staged(tmp := None, dest \<mapsto> content)]))))"

definition attach_diff :: "tool_output \<Rightarrow> string \<Rightarrow> string option \<Rightarrow> string \<Rightarrow> tool_output" where
  "attach_diff out path old_text new_text =
     (let old_len = (case old_text of Some t \<Rightarrow> length t | None \<Rightarrow> 0)
      in if old_len > MAX_DIFF_CAPTURE_BYTES \<or> length new_text > MAX_DIFF_CAPTURE_BYTES then out
         else with_diffs [\<lparr>fd_path = path, fd_old_text = old_text, fd_new_text = new_text\<rparr>] out)"

text \<open>\<open>utf8\<close> decides whether bytes are valid UTF-8, as \<open>from_utf8\<close> does.\<close>

definition build_write_diff ::
    "(string \<Rightarrow> bool) \<Rightarrow> faults \<Rightarrow> files \<Rightarrow> string \<Rightarrow> string \<Rightarrow> file_diff option" where
  "build_write_diff utf8 fl fs dest new_content =
     (if length new_content > MAX_DIFF_CAPTURE_BYTES then None
      else case fs_read fl fs dest of
             Inl (NotFound _) \<Rightarrow> Some \<lparr>fd_path = dest, fd_old_text = None, fd_new_text = new_content\<rparr>
           | Inr b \<Rightarrow>
               (if length b \<le> MAX_DIFF_CAPTURE_BYTES \<and> utf8 b
                then Some \<lparr>fd_path = dest, fd_old_text = Some b, fd_new_text = new_content\<rparr> else None)
           | Inl (OtherIo _) \<Rightarrow> None)"

definition str_arg :: "json \<Rightarrow> string \<Rightarrow> (string, tool_error) rust_result" where
  "str_arg args key =
     (case json_as_str (json_index args key) of
        Some s \<Rightarrow> Inr s
      | None \<Rightarrow> Inl (Execution (''`'' @ key @ ''` must be a string'')))"

section \<open>write\<close>

definition write_execute ::
    "(string \<Rightarrow> bool) \<Rightarrow> tool_ctx \<Rightarrow> faults \<Rightarrow> nat \<Rightarrow> json \<Rightarrow> files \<Rightarrow> (tool_output, tool_error) rust_result \<times> files list" where
  "write_execute utf8 cx fl seq args fs =
     (case str_arg args ''path'' of
        Inl e \<Rightarrow> (Inl e, [])
      | Inr path_str \<Rightarrow>
          (case str_arg args ''content'' of
             Inl e \<Rightarrow> (Inl e, [])
           | Inr content \<Rightarrow>
               (let dest = ctx_resolve cx path_str;
                    pending_diff = build_write_diff utf8 fl fs dest content
                in case atomic_write cx fl ''write'' seq dest content fs of
                     (Inl e, tr) \<Rightarrow> (Inl e, tr)
                   | (Inr _, tr) \<Rightarrow>
                       (let out = output_text (''wrote '' @ show_nat (length content) @ '' bytes to `'' @ dest @ ''`'')
                        in (Inr (case pending_diff of Some d \<Rightarrow> with_diffs [d] out | None \<Rightarrow> out), tr)))))"

section \<open>edit\<close>

definition trim_line_endings :: "string \<Rightarrow> string" where
  "trim_line_endings s = join [CHR 0x0A] (map trim_end (str_lines s))"

text \<open>The lines of the content with the byte at which each starts.\<close>

fun line_data :: "nat \<Rightarrow> string list \<Rightarrow> (nat \<times> string) list" where
  "line_data pos [] = []"
| "line_data pos (l # ls) = (pos, l) # line_data (pos + length l + 1) ls"

definition window_matches :: "string list \<Rightarrow> (nat \<times> string) list \<Rightarrow> nat \<Rightarrow> bool" where
  "window_matches old_lines data start =
     (start + length old_lines \<le> length data \<and>
      list_all (\<lambda>k. trim_end (snd (data ! (start + k))) = old_lines ! k) [0..<length old_lines])"

definition window_span :: "nat \<Rightarrow> (nat \<times> string) list \<Rightarrow> nat \<Rightarrow> nat \<times> nat" where
  "window_span n data start =
     (let l = data ! (start + n - 1) in (fst (data ! start), fst l + length (snd l)))"

definition find_unique_trim_match :: "string \<Rightarrow> string \<Rightarrow> (nat \<times> nat, tool_error) rust_result" where
  "find_unique_trim_match content trimmed_old =
     (let old_lines = str_lines trimmed_old
      in if old_lines = [] then Inl (Execution ''`old_string` not found (empty after normalization)'')
         else
           (let data = line_data 0 (split_nl content);
                n = length old_lines;
                hits = map (window_span n data)
                         (filter (window_matches old_lines data) [0..<Suc (length data - n)])
            in case hits of
                 [] \<Rightarrow> Inl (Execution ''`old_string` not found (tried exact match and line-trim fallback)'')
               | [h] \<Rightarrow> Inr h
               | _ \<Rightarrow> Inl (Execution (''`old_string` is not unique after line-trim normalization; '' @
                                     ''add more context lines to make it unique''))))"

text \<open>The new content of a file, with the number of replacements.\<close>

definition edit_content ::
    "string \<Rightarrow> string \<Rightarrow> string \<Rightarrow> bool \<Rightarrow> (string \<times> nat, tool_error) rust_result" where
  "edit_content content old_string new_string replace_all =
     (let count = matches_count content old_string
      in if count > 0 then
           (if replace_all then Inr (str_replace content old_string new_string, count)
            else if count = 1 then Inr (replace_first content old_string new_string, 1)
            else Inl (Execution (''`old_string` is not unique ('' @ show_nat count @ '' occurrences); '' @
                                 ''pass `replace_all: true` or add more context to make it unique'')))
         else
           (case find_unique_trim_match content (trim_line_endings old_string) of
              Inl e \<Rightarrow> Inl e
            | Inr (lo, hi) \<Rightarrow> Inr (take lo content @ new_string @ drop hi content, 1)))"

definition json_as_bool :: "json \<Rightarrow> bool option" where
  "json_as_bool v = (case v of json.Bool b \<Rightarrow> Some b | _ \<Rightarrow> None)"

definition edit_execute ::
    "(string \<Rightarrow> bool) \<Rightarrow> tool_ctx \<Rightarrow> faults \<Rightarrow> nat \<Rightarrow> json \<Rightarrow> files \<Rightarrow> (tool_output, tool_error) rust_result \<times> files list" where
  "edit_execute utf8 cx fl seq args fs =
     (case str_arg args ''path'' of
        Inl e \<Rightarrow> (Inl e, [])
      | Inr path_str \<Rightarrow>
     (case str_arg args ''old_string'' of
        Inl e \<Rightarrow> (Inl e, [])
      | Inr old_string \<Rightarrow>
     (case str_arg args ''new_string'' of
        Inl e \<Rightarrow> (Inl e, [])
      | Inr new_string \<Rightarrow>
          (let replace_all = (case json_as_bool (json_index args ''replace_all'') of Some b \<Rightarrow> b | None \<Rightarrow> False)
           in if old_string = new_string
              then (Inl (Execution ''`old_string` and `new_string` are identical; nothing to do''), [])
              else
                (let dest = ctx_resolve cx path_str
                 in case fs_read fl fs dest of
                      Inl e \<Rightarrow> (Inl (Execution (''cannot read `'' @ dest @ ''`: '' @ read_error_text e)), [])
                    | Inr content \<Rightarrow>
                        (if \<not> utf8 content
                         then (Inl (Execution (''binary file (non-UTF-8 content): `'' @ dest @ ''`'')), [])
                         else
                           (case edit_content content old_string new_string replace_all of
                              Inl e \<Rightarrow> (Inl e, [])
                            | Inr (new_content, replacements) \<Rightarrow>
                                (case atomic_write cx fl ''edit'' seq dest new_content fs of
                                   (Inl e, tr) \<Rightarrow> (Inl e, tr)
                                 | (Inr _, tr) \<Rightarrow>
                                     (Inr (attach_diff
                                        (output_text (''replaced '' @ show_nat replacements @ '' occurrence(s) in `'' @ dest @ ''`''))
                                        dest (Some content) new_content), tr)))))))))"

section \<open>read\<close>

definition pad_left :: "nat \<Rightarrow> string \<Rightarrow> string" where
  "pad_left width s = replicate (width - length s) (CHR '' '') @ s"

definition numbered_line :: "nat \<Rightarrow> nat \<Rightarrow> string \<Rightarrow> string" where
  "numbered_line width lineno line =
     (let (text, was_cut) = truncate_utf8 line MAX_LINE_BYTES
      in pad_left width (show_nat lineno) @ [CHR 0x09] @ text @ (if was_cut then ''<line truncated>'' else []) @ [CHR 0x0A])"

fun numbered_lines :: "nat \<Rightarrow> nat \<Rightarrow> string list \<Rightarrow> string \<Rightarrow> string" where
  "numbered_lines width lineno [] out = out"
| "numbered_lines width lineno (l # ls) out =
     (let out = out @ numbered_line width lineno l
      in if length out > MAX_TOOL_OUTPUT_BYTES then out
         else numbered_lines width (Suc lineno) ls out)"

text \<open>\<open>usize\<close> is 64 bits wide, so the conversions from \<open>u64\<close> keep the value.\<close>

definition read_window :: "json \<Rightarrow> nat \<Rightarrow> nat \<times> nat" where
  "read_window args total_lines =
     (let offset = max (case json_as_u64 (json_index args ''offset'') of Some v \<Rightarrow> v | None \<Rightarrow> 1) 1;
          limit = (case json_as_u64 (json_index args ''limit'') of Some v \<Rightarrow> v | None \<Rightarrow> DEFAULT_READ_LINE_LIMIT);
          start = min (offset - 1) total_lines
      in (start, min (min (start + limit) u64_max) total_lines))"

definition read_text :: "json \<Rightarrow> string \<Rightarrow> string" where
  "read_text args text =
     (let lines = str_lines text;
          total_lines = length lines;
          (start, until) = read_window args total_lines;
          width = (if total_lines = 0 then 1 else length (show_nat until));
          out = numbered_lines width (start + 1) (take (until - start) (drop start lines)) [];
          out = out @ (if until < total_lines
                       then ''(showing lines '' @ show_nat (start + 1) @ ''-'' @ show_nat until @ '' of '' @ show_nat total_lines @
                            ''; use `offset`/`limit` to read more)'' @ [CHR 0x0A]
                       else [])
      in clamp_output out)"

definition read_execute ::
    "(string \<Rightarrow> bool) \<Rightarrow> tool_ctx \<Rightarrow> faults \<Rightarrow> json \<Rightarrow> files \<Rightarrow> (tool_output, tool_error) rust_result" where
  "read_execute utf8 cx fl args fs =
     (case str_arg args ''path'' of
        Inl e \<Rightarrow> Inl e
      | Inr path_str \<Rightarrow>
          (let p = ctx_resolve cx path_str
           in case fs_read fl fs p of
                Inl e \<Rightarrow> Inl (Execution (''cannot read `'' @ p @ ''`: '' @ read_error_text e))
              | Inr raw \<Rightarrow>
                  (if list_ex (\<lambda>c. c = CHR 0x00) raw
                   then Inl (Execution (''binary file (NUL byte detected): `'' @ p @ ''`''))
                   else if \<not> utf8 raw then Inl (Execution (''binary file (non-UTF-8 content): `'' @ p @ ''`''))
                   else Inr (output_text (read_text args raw)))))"

section \<open>grep and glob\<close>

text \<open>
  The walk yields its files, each with whether it is a regular file and its path relative to the base;
  \<open>hit\<close> says whether the glob matches the name or the relative path, \<open>found\<close> the matching lines of a
  file with their numbers, in order.
\<close>

record walk_entry =
  we_path :: string
  we_relative :: "string option"
  we_is_file :: bool

definition glob_path_matches :: "(string \<Rightarrow> bool) \<Rightarrow> (string \<Rightarrow> bool) \<Rightarrow> (string \<Rightarrow> string option) \<Rightarrow> walk_entry \<Rightarrow> bool" where
  "glob_path_matches matches matches_path file_name e =
     (let rel = (case we_relative e of Some r \<Rightarrow> r | None \<Rightarrow> we_path e);
          name_match = (case file_name (we_path e) of Some n \<Rightarrow> matches n | None \<Rightarrow> False)
      in name_match \<or> matches_path rel)"

definition trim_newlines :: "string \<Rightarrow> string" where
  "trim_newlines line = rev (dropWhile (\<lambda>c. c = CHR 0x0A \<or> c = CHR 0x0D) (rev line))"

fun grep_lines :: "nat \<Rightarrow> string \<Rightarrow> (nat \<times> string) list \<Rightarrow> string list \<Rightarrow> string list \<times> bool" where
  "grep_lines max_results rel [] results = (results, False)"
| "grep_lines max_results rel ((lnum, line) # rest) results =
     (let results = results @ [rel @ '':'' @ show_nat lnum @ '':'' @ fst (truncate_utf8 (trim_newlines line) MAX_LINE_BYTES)]
      in if length results \<ge> max_results then (results, True)
         else grep_lines max_results rel rest results)"

fun grep_walk ::
    "(walk_entry \<Rightarrow> bool) \<Rightarrow> (string \<Rightarrow> (nat \<times> string) list) \<Rightarrow> nat \<Rightarrow> walk_entry list \<Rightarrow> string list \<Rightarrow> string list \<times> bool" where
  "grep_walk hit found max_results [] results = (results, False)"
| "grep_walk hit found max_results (e # es) results =
     (if \<not> we_is_file e then grep_walk hit found max_results es results
      else if \<not> hit e then grep_walk hit found max_results es results
      else
        (let rel = (case we_relative e of Some r \<Rightarrow> r | None \<Rightarrow> we_path e);
             (results, truncated) = grep_lines max_results rel (found (we_path e)) results
         in if truncated then (results, True) else grep_walk hit found max_results es results))"

fun glob_collect :: "(walk_entry \<Rightarrow> bool) \<Rightarrow> nat \<Rightarrow> walk_entry list \<Rightarrow> string list \<Rightarrow> string list \<times> bool" where
  "glob_collect hit max_results [] paths = (paths, False)"
| "glob_collect hit max_results (e # es) paths =
     (if \<not> we_is_file e then glob_collect hit max_results es paths
      else if \<not> hit e then glob_collect hit max_results es paths
      else (let paths = paths @ [we_path e]
            in if length paths \<ge> max_results then (paths, True) else glob_collect hit max_results es paths))"

definition glob_walk :: "(walk_entry \<Rightarrow> bool) \<Rightarrow> nat \<Rightarrow> walk_entry list \<Rightarrow> string list \<times> bool" where
  "glob_walk hit max_results es =
     (let (paths, truncated) = glob_collect hit max_results es []
      in (sort_key byte_order paths, truncated))"

definition search_output :: "string list \<times> bool \<Rightarrow> tool_output" where
  "search_output r =
     output_text (clamp_output (join [CHR 0x0A] (fst r) @
       (if snd r then [CHR 0x0A] @ ''(truncated: result limit reached)'' else [])))"

text \<open>Patterns compile or not; the blocking task may panic.\<close>

record search_world =
  sw_glob :: "string \<Rightarrow> (walk_entry \<Rightarrow> bool, string) rust_result"
  sw_regex :: "bool \<Rightarrow> string \<Rightarrow> (string \<Rightarrow> (nat \<times> string) list, string) rust_result"
  sw_walk :: "bool \<Rightarrow> string \<Rightarrow> walk_entry list"
  sw_panic :: "string option"

definition search_base :: "tool_ctx \<Rightarrow> json \<Rightarrow> string" where
  "search_base cx args =
     (case json_as_str (json_index args ''path'') of
        None \<Rightarrow> current_dir_or cx ''.''
      | Some p \<Rightarrow> resolve_path cx p)"

definition max_results_arg :: "json \<Rightarrow> nat \<Rightarrow> nat" where
  "max_results_arg args dflt = (case json_as_u64 (json_index args ''max_results'') of Some v \<Rightarrow> v | None \<Rightarrow> dflt)"

definition grep_execute ::
    "search_world \<Rightarrow> tool_ctx \<Rightarrow> bool \<Rightarrow> json \<Rightarrow> (tool_output, tool_error) rust_result" where
  "grep_execute w cx respect_gitignore args =
     (case str_arg args ''pattern'' of
        Inl e \<Rightarrow> Inl e
      | Inr pattern \<Rightarrow>
          (let ignore_case = (case json_as_bool (json_index args ''ignore_case'') of Some b \<Rightarrow> b | None \<Rightarrow> False);
               max_results = max_results_arg args DEFAULT_GREP_MAX_RESULTS;
               base = search_base cx args
           in case (case json_as_str (json_index args ''glob'') of
                      None \<Rightarrow> Inr (\<lambda>_. True)
                    | Some g \<Rightarrow> (case sw_glob w g of
                                  Inl e \<Rightarrow> Inl (Execution (''invalid glob `'' @ g @ ''`: '' @ e))
                                | Inr hit \<Rightarrow> Inr hit)) of
                Inl e \<Rightarrow> Inl e
              | Inr hit \<Rightarrow>
                  (case sw_regex w ignore_case pattern of
                     Inl e \<Rightarrow> Inl (Execution (''invalid regex `'' @ pattern @ ''`: '' @ e))
                   | Inr found \<Rightarrow>
                       (case sw_panic w of
                          Some e \<Rightarrow> Inl (Execution (''grep task panicked: '' @ e))
                        | None \<Rightarrow>
                            Inr (search_output (grep_walk hit found max_results (sw_walk w respect_gitignore base) []))))))"

definition glob_execute ::
    "search_world \<Rightarrow> tool_ctx \<Rightarrow> bool \<Rightarrow> json \<Rightarrow> (tool_output, tool_error) rust_result" where
  "glob_execute w cx respect_gitignore args =
     (case str_arg args ''pattern'' of
        Inl e \<Rightarrow> Inl e
      | Inr pattern \<Rightarrow>
          (case sw_glob w pattern of
             Inl e \<Rightarrow> Inl (Execution (''invalid glob `'' @ pattern @ ''`: '' @ e))
           | Inr hit \<Rightarrow>
               (case sw_panic w of
                  Some e \<Rightarrow> Inl (Execution (''glob task panicked: '' @ e))
                | None \<Rightarrow>
                    Inr (search_output
                      (glob_walk hit (max_results_arg args DEFAULT_GLOB_MAX_RESULTS)
                         (sw_walk w respect_gitignore (search_base cx args)))))))"

section \<open>bash\<close>

definition bash_timeout :: "json \<Rightarrow> nat" where
  "bash_timeout args =
     (case json_as_u64 (json_index args ''timeout_ms'') of
        None \<Rightarrow> DEFAULT_BASH_TIMEOUT
      | Some ms \<Rightarrow> min ms MAX_BASH_TIMEOUT)"

definition bash_cwd :: "tool_ctx \<Rightarrow> json \<Rightarrow> string option" where
  "bash_cwd cx args =
     (case json_as_str (json_index args ''cwd'') of
        Some s \<Rightarrow> Some (ctx_resolve cx s)
      | None \<Rightarrow> tx_workspace_root cx)"

text \<open>The environment of a command, over what the process has.\<close>

definition apply_minimal_env :: "(string \<rightharpoonup> string) \<Rightarrow> (string \<times> string) list" where
  "apply_minimal_env env =
     [(''PATH'', case env ''PATH'' of Some p \<Rightarrow> p | None \<Rightarrow> ''/usr/local/bin:/usr/bin:/bin'')] @
     (case env ''HOME'' of Some h \<Rightarrow> [(''HOME'', h)] | None \<Rightarrow> []) @
     [(''TERM'', ''dumb'')]"

text \<open>The output of a child, its two streams as lossily decoded text, and the exit code.\<close>

record process_output =
  po_stdout :: string
  po_stderr :: string
  po_code :: "int option"

definition build_tool_output :: "process_output \<Rightarrow> bool \<Rightarrow> tool_output" where
  "build_tool_output output timed_out =
     (let exit_code = (case po_code output of Some c \<Rightarrow> c | None \<Rightarrow> -1);
          combined = clamp_output (po_stdout output @ po_stderr output)
      in output_with_value (''Exit code: '' @ show_int exit_code @ [CHR 0x0A] @ combined)
           (Object [(''exit_code'', json_int exit_code),
                    (''stdout'', json.String (fst (truncate_utf8 (po_stdout output) MAX_TOOL_OUTPUT_BYTES))),
                    (''stderr'', json.String (fst (truncate_utf8 (po_stderr output) MAX_TOOL_OUTPUT_BYTES))),
                    (''timed_out'', json.Bool timed_out)]))"

text \<open>Seconds with no decimals, halves to even, as the formatter rounds.\<close>

definition format_secs :: "nat \<Rightarrow> string" where
  "format_secs ms =
     (let q = ms div 1000; r = ms mod 1000
      in show_nat (if r < 500 then q else if r > 500 then Suc q else if even q then q else Suc q))"

text \<open>What the select of the running command yields.\<close>

datatype bash_race = Waited "(process_output, string) rust_result" | TimedOut | CancelFired

record bash_command =
  bc_script :: string
  bc_cwd :: "string option"
  bc_env :: "(string \<times> string) list"

record bash_world =
  bw_env :: "string \<rightharpoonup> string"
  bw_prepare :: "bash_command \<Rightarrow> bash_command"
  bw_spawn :: "bash_command \<Rightarrow> string option"
  bw_race :: "bash_command \<Rightarrow> nat \<Rightarrow> bash_race"

definition bash_execute :: "bash_world \<Rightarrow> tool_ctx \<Rightarrow> json \<Rightarrow> (tool_output, tool_error) rust_result" where
  "bash_execute w cx args =
     (case str_arg args ''command'' of
        Inl e \<Rightarrow> Inl e
      | Inr command \<Rightarrow>
          (let timeout = bash_timeout args;
               cmd = bw_prepare w \<lparr>bc_script = command, bc_cwd = bash_cwd cx args,
                                   bc_env = apply_minimal_env (bw_env w)\<rparr>
           in case bw_spawn w cmd of
                Some e \<Rightarrow> Inl (Execution (''failed to spawn command: '' @ e))
              | None \<Rightarrow>
                  (case bw_race w cmd timeout of
                     Waited (Inr output) \<Rightarrow> Inr (build_tool_output output False)
                   | Waited (Inl e) \<Rightarrow> Inl (Execution (''command wait failed: '' @ e))
                   | TimedOut \<Rightarrow> Inl (Execution (''timed out after '' @ format_secs timeout @ ''s''))
                   | CancelFired \<Rightarrow> Inl tool_error.Cancelled)))"

definition BASH_TITLE_MAX_CHARS :: nat where "BASH_TITLE_MAX_CHARS = 80"

text \<open>\<open>split_whitespace\<close> on characters: the maximal runs without white space.\<close>

fun words_of :: "string list \<Rightarrow> string list \<Rightarrow> string list list" where
  "words_of [] acc = (if acc = [] then [] else [acc])"
| "words_of (ch # chs) acc =
     (if is_whitespace ch then (if acc = [] then words_of chs [] else acc # words_of chs [])
      else words_of chs (acc @ [ch]))"

definition split_whitespace :: "string \<Rightarrow> string list" where
  "split_whitespace s = map concat (words_of (chars s) [])"

definition summarize_command :: "string \<Rightarrow> string" where
  "summarize_command command =
     (let collapsed = join '' '' (split_whitespace command)
      in ''$ '' @ (if length (chars collapsed) > BASH_TITLE_MAX_CHARS
                  then concat (take (BASH_TITLE_MAX_CHARS - 1) (chars collapsed)) @ bytes [0xE2, 0x80, 0xA6]
                  else collapsed))"

section \<open>agent\<close>

definition nonempty_arg :: "json \<Rightarrow> string \<Rightarrow> string option" where
  "nonempty_arg args key =
     (case json_as_str (json_index args key) of Some s \<Rightarrow> (if s = [] then None else Some s) | None \<Rightarrow> None)"

definition agent_execute ::
    "(string \<Rightarrow> string \<Rightarrow> string \<Rightarrow> (string, string) rust_result) option \<Rightarrow> json \<Rightarrow> (tool_output, tool_error) rust_result" where
  "agent_execute spawner args =
     (case nonempty_arg args ''prompt'' of
        None \<Rightarrow> Inl (Execution ''`prompt` must be a non-empty string'')
      | Some prompt \<Rightarrow>
          (let name = (case nonempty_arg args ''name'' of Some n \<Rightarrow> n | None \<Rightarrow> ''agent'');
               description = (case nonempty_arg args ''description'' of Some d \<Rightarrow> d | None \<Rightarrow> ''Delegated sub-task'')
           in case spawner of
                None \<Rightarrow> Inl (Execution ''subagent spawning unavailable in this context'')
              | Some spawn \<Rightarrow>
                  (case spawn name description prompt of
                     Inr text \<Rightarrow> Inr (output_text text)
                   | Inl e \<Rightarrow> Inl (Execution e))))"

section \<open>Registration\<close>

record builtin_tools_config =
  bt_enable_bash :: bool
  bt_respect_gitignore :: bool

definition builtin_tools_config_default :: builtin_tools_config where
  "builtin_tools_config_default = \<lparr>bt_enable_bash = True, bt_respect_gitignore = True\<rparr>"

definition builtin_names :: "builtin_tools_config \<Rightarrow> string list" where
  "builtin_names config =
     [''read'', ''write'', ''edit'', ''grep'', ''glob'', ''agent''] @ (if bt_enable_bash config then [''bash''] else [])"

section \<open>Cutting at a character boundary\<close>

lemma boundary_before_le: "boundary_before s i \<le> i"
proof (induction s i rule: boundary_before.induct)
  case (1 s i)
  then show ?case by (subst boundary_before.simps) (auto intro: le_trans)
qed

lemma boundary_before_ok: "is_char_boundary s (boundary_before s i)"
proof (induction s i rule: boundary_before.induct)
  case (1 s i)
  then show ?case by (subst boundary_before.simps) auto
qed

lemma boundary_before_bytes:
  "boundary_before s i < k \<Longrightarrow> k \<le> i \<Longrightarrow> \<not> is_char_boundary s k"
proof (induction s i rule: boundary_before.induct)
  case (1 s i)
  show ?case
  proof (cases "is_char_boundary s i")
    case True
    then show ?thesis using "1.prems" by (simp add: boundary_before.simps)
  next
    case False
    then have "boundary_before s i = boundary_before s (i - 1)" by (simp add: boundary_before.simps)
    then show ?thesis using 1 False by (cases "k = i") auto
  qed
qed

lemma truncate_utf8_cases:
  "(length s \<le> n \<and> truncate_utf8 s n = (s, False)) \<or>
   (\<exists>cut \<le> n. truncate_utf8 s n = (take cut s, True) \<and> is_char_boundary s cut)"
  using boundary_before_le [of s n] boundary_before_ok [of s n] by (auto simp: truncate_utf8_def)

lemma truncate_utf8_length: "length (fst (truncate_utf8 s n)) \<le> n"
  using boundary_before_le [of s n] by (auto simp: truncate_utf8_def)

section \<open>Occurrences\<close>

lemma replace_from_skip: "replace_from k pat new s = replace_from 0 pat new (drop k s)"
proof (induction s arbitrary: k)
  case (Cons c cs)
  show ?case by (cases k) (simp_all add: Cons.IH)
qed simp

lemma count_from_skip: "count_from k pat s = count_from 0 pat (drop k s)"
proof (induction s arbitrary: k)
  case (Cons c cs)
  show ?case by (cases k) (simp_all add: Cons.IH)
qed simp

lemma join_Cons: "ps \<noteq> [] \<Longrightarrow> join sep (p # ps) = p @ sep @ join sep ps"
  by (cases ps) simp_all

lemma join_head: "\<exists>rest. join sep (p # ps) = p @ rest"
  by (cases ps) simp_all

lemma pieces_exist:
  assumes "pat \<noteq> []"
  shows "\<exists>parts. parts \<noteq> [] \<and> s = join pat parts \<and> replace_from 0 pat new s = join new parts \<and>
           Suc (count_from 0 pat s) = length parts \<and> (\<forall>p \<in> set parts. \<not> sublist pat p)"
proof (induction s rule: length_induct)
  case (1 s)
  show ?case
  proof (cases s)
    case Nil
    then show ?thesis using assms by (intro exI [of _ "[[]]"]) simp
  next
    case (Cons c cs)
    show ?thesis
    proof (cases "prefix pat s")
      case True
      then obtain r where r: "s = pat @ r" by (auto simp: prefix_def)
      then have "length r < length s" using assms by simp
      with 1 obtain parts where p: "parts \<noteq> []" "r = join pat parts" "replace_from 0 pat new r = join new parts"
          "Suc (count_from 0 pat r) = length parts" "\<forall>p \<in> set parts. \<not> sublist pat p"
        by blast
      have tail: "drop (length pat - 1) cs = r" using r Cons assms by (cases pat) auto
      have "replace_from 0 pat new s = new @ replace_from 0 pat new r"
        using True Cons tail by (simp add: replace_from_skip [of "length pat - Suc 0"])
      moreover have "count_from 0 pat s = Suc (count_from 0 pat r)"
        using True Cons tail by (simp add: count_from_skip [of "length pat - Suc 0"])
      ultimately show ?thesis using p r assms
        by (intro exI [of _ "[] # parts"]) (simp add: join_Cons)
    next
      case False
      have "length cs < length s" using Cons by simp
      with 1 obtain parts where p: "parts \<noteq> []" "cs = join pat parts" "replace_from 0 pat new cs = join new parts"
          "Suc (count_from 0 pat cs) = length parts" "\<forall>p \<in> set parts. \<not> sublist pat p"
        by blast
      obtain q qs where q: "parts = q # qs" using p(1) by (cases parts) auto
      have cons: "join sep ((c # q) # qs) = c # join sep (q # qs)" for sep by (cases qs) simp_all
      have "\<not> prefix pat (c # q)"
      proof
        assume "prefix pat (c # q)"
        moreover obtain rest where "cs = q @ rest" using p(2) q join_head [of pat q qs] by auto
        ultimately have "prefix pat s" using Cons by (metis append_Cons prefix_prefix)
        with False show False by simp
      qed
      with p(5) q have "\<not> sublist pat (c # q)" by (auto simp: sublist_Cons_right)
      moreover have "replace_from 0 pat new s = c # replace_from 0 pat new cs"
        "count_from 0 pat s = count_from 0 pat cs"
        using False Cons by simp_all
      ultimately show ?thesis using p q Cons
        by (intro exI [of _ "(c # q) # qs"]) (auto simp: cons)
    qed
  qed
qed

lemma replace_first_split:
  "count_from 0 pat s > 0 \<Longrightarrow> \<exists>pre post. s = pre @ pat @ post \<and> replace_first s pat new = pre @ new @ post"
proof (induction s)
  case (Cons c cs)
  show ?case
  proof (cases "prefix pat (c # cs)")
    case True
    then obtain r where "c # cs = pat @ r" by (auto simp: prefix_def)
    moreover have "replace_first (c # cs) pat new = new @ drop (length pat) (c # cs)" using True by simp
    ultimately show ?thesis by (metis append_Nil append_eq_conv_conj)
  next
    case False
    then obtain pre post where "cs = pre @ pat @ post" "replace_first cs pat new = pre @ new @ post"
      using Cons by auto
    then show ?thesis using False by (intro exI [of _ "c # pre"] exI [of _ post]) simp
  qed
qed simp

section \<open>Lines and their positions\<close>

definition lines_text :: "string list \<Rightarrow> string" where
  "lines_text ls = concat (map (\<lambda>l. l @ [CHR 0x0A]) ls)"

lemma split_nl_nonempty: "split_nl s \<noteq> []"
  by (induction s) (auto split: list.splits)

lemma join_split_nl: "join [CHR 0x0A] (split_nl s) = s"
proof (induction s)
  case (Cons c cs)
  obtain l ls where l: "split_nl cs = l # ls" using split_nl_nonempty [of cs] by (cases "split_nl cs") auto
  have "join sep ((c # l) # ls) = c # join sep (l # ls)" for sep by (cases ls) simp_all
  with Cons l show ?case by simp
qed simp

lemma split_nl_no_nl: "l \<in> set (split_nl s) \<Longrightarrow> CHR 0x0A \<notin> set l"
proof (induction s arbitrary: l)
  case (Cons c cs)
  obtain k ls where k: "split_nl cs = k # ls" using split_nl_nonempty [of cs] by (cases "split_nl cs") auto
  show ?case using Cons k by (auto split: if_splits)
qed simp

lemma join_lines: "ls \<noteq> [] \<Longrightarrow> join [CHR 0x0A] (ks @ ls) = lines_text ks @ join [CHR 0x0A] ls"
  by (induction ks) (simp_all add: lines_text_def join_Cons)

lemma join_prefix: "xs \<noteq> [] \<Longrightarrow> \<exists>rest. join sep (xs @ ys) = join sep xs @ rest"
proof (induction xs)
  case (Cons x xs)
  then show ?case by (cases xs) (use join_head [of sep x ys] in \<open>auto simp: join_Cons\<close>)
qed simp

lemma line_data_length [simp]: "length (line_data pos ls) = length ls"
  by (induction pos ls rule: line_data.induct) simp_all

lemma line_data_nth:
  "k < length ls \<Longrightarrow> line_data pos ls ! k = (pos + length (lines_text (take k ls)), ls ! k)"
proof (induction ls arbitrary: pos k)
  case (Cons l ls)
  then show ?case by (cases k) (simp_all add: lines_text_def)
qed simp

lemma window_is_a_span:
  assumes "0 < n" "i + n \<le> length ls" "content = join [CHR 0x0A] ls"
    and "window_span n (line_data 0 ls) i = (lo, hi)"
  shows "take lo content = lines_text (take i ls) \<and>
         (\<exists>rest. content = lines_text (take i ls) @ join [CHR 0x0A] (take n (drop i ls)) @ rest \<and> drop hi content = rest)"
proof -
  let ?mid = "take n (drop i ls)"
  have mid: "?mid = take (n - 1) (drop i ls) @ [ls ! (i + n - 1)]"
    using assms(1,2) take_Suc_conv_app_nth [of "n - 1" "drop i ls"] by simp
  have "length (join [CHR 0x0A] ?mid) = length (lines_text (take (n - 1) (drop i ls))) + length (ls ! (i + n - 1))"
    unfolding mid by (simp add: join_lines)
  moreover have "lines_text (take (i + n - 1) ls) = lines_text (take i ls) @ lines_text (take (n - 1) (drop i ls))"
    using assms(1) take_add [of i "n - 1" ls] by (simp add: lines_text_def)
  ultimately have hi: "hi = length (lines_text (take i ls)) + length (join [CHR 0x0A] ?mid)"
    and lo: "lo = length (lines_text (take i ls))"
    using assms by (simp_all add: window_span_def line_data_nth)
  have ne: "drop i ls \<noteq> []" "?mid \<noteq> []" using assms(1,2) by auto
  have whole: "content = lines_text (take i ls) @ join [CHR 0x0A] (drop i ls)"
    using assms(3) join_lines [OF ne(1), of "take i ls"] by simp
  have "\<exists>rest. join [CHR 0x0A] (drop i ls) = join [CHR 0x0A] ?mid @ rest"
    using join_prefix [OF ne(2), of "[CHR 0x0A]" "drop n (drop i ls)"] by (simp only: append_take_drop_id)
  then obtain rest where "content = lines_text (take i ls) @ join [CHR 0x0A] ?mid @ rest" using whole by auto
  with hi lo show ?thesis by simp
qed

section \<open>Writing atomically\<close>

definition staged_path :: "tool_ctx \<Rightarrow> string \<Rightarrow> string \<Rightarrow> nat \<Rightarrow> string" where
  "staged_path cx dest tag seq =
     path_join (case tx_parent cx dest of Some d \<Rightarrow> d | None \<Rightarrow> ''.'') (tmp_file_name cx tag seq)"

text \<open>The states a write passes through, against the contract: the target has its old content or all of the new.\<close>

definition old_or_new :: "files \<Rightarrow> string \<Rightarrow> string \<Rightarrow> string \<Rightarrow> files \<Rightarrow> bool" where
  "old_or_new fs dest tmp content fs' \<longleftrightarrow>
     fs' \<in> {fs(tmp := x) | x. True} \<union> {fs(tmp := None, dest \<mapsto> content)}"

lemma atomic_write_states:
  assumes "atomic_write cx fl tag seq dest content fs = (r, tr)"
  shows "(\<forall>fs' \<in> set tr. old_or_new fs dest (staged_path cx dest tag seq) content fs') \<and>
         (case r of
            Inr _ \<Rightarrow> tr \<noteq> [] \<and> last tr = fs(staged_path cx dest tag seq := None, dest \<mapsto> content)
          | Inl _ \<Rightarrow> \<forall>fs' \<in> set tr. \<exists>x. fs' = fs(staged_path cx dest tag seq := x))"
  using assms
  by (auto simp: atomic_write_def staged_path_def old_or_new_def Let_def
      split: option.splits prod.splits if_splits)

lemma write_run:
  assumes "write_execute utf8 cx fl seq args fs = (r, tr)"
    and "json_as_str (json_index args ''path'') = Some p"
    and "json_as_str (json_index args ''content'') = Some content"
  shows "\<exists>w. atomic_write cx fl ''write'' seq (ctx_resolve cx p) content fs = (w, tr) \<and>
             (\<forall>e. r = Inl e \<longrightarrow> w = Inl e) \<and> (\<forall>out. r = Inr out \<longrightarrow> w = Inr ())"
  using assms by (auto simp: write_execute_def str_arg_def Let_def split: sum.splits prod.splits)

definition example_cx :: tool_ctx where
  "example_cx = \<lparr>tx_workspace_root = Some ''/d'', tx_current_dir = None, tx_parent = (\<lambda>_. Some ''/d''), tx_pid = 7\<rparr>"

definition example_faults :: faults where
  "example_faults = \<lparr>fl_read = None, fl_mkdir = None, fl_write = None, fl_rename = None, fl_remove = True, fl_not_found = ''x''\<rparr>"

text \<open>
  C15: The write tool never leaves a half-written target: in every state the files pass through the
  target holds what it held or all of the new content, and no file but the target and the staged one
  changes. When the tool reports success the target has the new content and the staged file is gone;
  when it reports an error, whichever step failed, the target is untouched.
\<close>
theorem write_is_atomic:
  assumes run: "write_execute utf8 cx fl seq args fs = (r, tr)"
    and path: "json_as_str (json_index args ''path'') = Some p"
    and content: "json_as_str (json_index args ''content'') = Some content"
    and tmp: "staged_path cx (ctx_resolve cx p) ''write'' seq \<noteq> ctx_resolve cx p"
  shows "(\<forall>fs' \<in> set tr. fs' (ctx_resolve cx p) \<in> {fs (ctx_resolve cx p), Some content} \<and>
            (\<forall>q. q \<noteq> ctx_resolve cx p \<and> q \<noteq> staged_path cx (ctx_resolve cx p) ''write'' seq \<longrightarrow> fs' q = fs q)) \<and>
         (case r of
            Inr _ \<Rightarrow> tr \<noteq> [] \<and> last tr (ctx_resolve cx p) = Some content \<and>
                      last tr (staged_path cx (ctx_resolve cx p) ''write'' seq) = None
          | Inl _ \<Rightarrow> \<forall>fs' \<in> set tr. fs' (ctx_resolve cx p) = fs (ctx_resolve cx p))"
proof -
  obtain w where w: "atomic_write cx fl ''write'' seq (ctx_resolve cx p) content fs = (w, tr)"
      "\<And>e. r = Inl e \<Longrightarrow> w = Inl e" "\<And>out. r = Inr out \<Longrightarrow> w = Inr ()"
    using write_run [OF run path content] by auto
  note states = atomic_write_states [OF w(1)]
  have "\<forall>fs' \<in> set tr. fs' (ctx_resolve cx p) \<in> {fs (ctx_resolve cx p), Some content} \<and>
          (\<forall>q. q \<noteq> ctx_resolve cx p \<and> q \<noteq> staged_path cx (ctx_resolve cx p) ''write'' seq \<longrightarrow> fs' q = fs q)"
    using states tmp by (fastforce simp: old_or_new_def)
  moreover have "case r of
            Inr _ \<Rightarrow> tr \<noteq> [] \<and> last tr (ctx_resolve cx p) = Some content \<and>
                      last tr (staged_path cx (ctx_resolve cx p) ''write'' seq) = None
          | Inl _ \<Rightarrow> \<forall>fs' \<in> set tr. fs' (ctx_resolve cx p) = fs (ctx_resolve cx p)"
    using states w(2,3) tmp by (cases r) fastforce+
  ultimately show ?thesis by blast
qed

lemma write_is_atomic_witness:
  "\<exists>out tr. write_execute (\<lambda>_. True) example_cx example_faults 0
     (Object [(''path'', json.String ''f''), (''content'', json.String ''new'')]) [''/d/f'' \<mapsto> ''old''] = (Inr out, tr) \<and>
     last tr ''/d/f'' = Some ''new''"
proof -
  let ?args = "Object [(''path'', json.String ''f''), (''content'', json.String ''new'')]"
  let ?run = "write_execute (\<lambda>_. True) example_cx example_faults 0 ?args [''/d/f'' \<mapsto> ''old'']"
  have args: "json_as_str (json_index ?args ''path'') = Some ''f''" "json_as_str (json_index ?args ''content'') = Some ''new''"
    by code_simp+
  have ok: "\<not> isl (fst ?run)"
    by (simp add: write_execute_def str_arg_def args Let_def example_faults_def example_cx_def atomic_write_def
        split: option.splits)
  obtain out tr where run: "?run = (Inr out, tr)" using ok by (cases ?run; cases "fst ?run") auto
  have dest: "ctx_resolve example_cx ''f'' = ''/d/f''" by code_simp
  have tmp: "staged_path example_cx (ctx_resolve example_cx ''f'') ''write'' 0 \<noteq> ctx_resolve example_cx ''f''"
    by code_simp
  have "last tr (ctx_resolve example_cx ''f'') = Some ''new''"
    using write_is_atomic [OF run args tmp] by (simp only: sum.case)
  with run show ?thesis by (simp only: dest) blast
qed

section \<open>Editing\<close>

lemma edit_content_span:
  assumes "edit_content content old new False = Inr (new_content, n)"
  shows "n = 1 \<and>
    (\<exists>pre span post. content = pre @ span @ post \<and> new_content = pre @ new @ post \<and>
       (span = old \<or>
        (\<exists>ls. span = join [CHR 0x0A] ls \<and> map trim_end ls = str_lines (trim_line_endings old) \<and>
              (\<forall>l \<in> set ls. CHR 0x0A \<notin> set l))))"
proof (cases "matches_count content old > 0")
  case True
  then have one: "matches_count content old = 1" and new: "new_content = replace_first content old new" "n = 1"
    using assms by (auto simp: edit_content_def Let_def split: if_splits)
  have "\<exists>pre post. content = pre @ old @ post \<and> replace_first content old new = pre @ new @ post"
  proof (cases "old = []")
    case True
    then have "chars content = []" using one by (simp add: matches_count_def)
    then have "content = []" using concat_chars [of content] by simp
    then show ?thesis using True by simp
  next
    case False
    then show ?thesis using one replace_first_split [of old content new] by (simp add: matches_count_def)
  qed
  then show ?thesis using new by blast
next
  case False
  then obtain lo hi where f: "find_unique_trim_match content (trim_line_endings old) = Inr (lo, hi)"
      and new: "new_content = take lo content @ new @ drop hi content" "n = 1"
    using assms by (auto simp: edit_content_def Let_def split: sum.splits)
  define old_lines where "old_lines = str_lines (trim_line_endings old)"
  define ls where "ls = split_nl content"
  define n' where "n' = length old_lines"
  have ne: "0 < n'" using f by (auto simp: find_unique_trim_match_def n'_def old_lines_def)
  have "map (window_span n' (line_data 0 ls))
          (filter (window_matches old_lines (line_data 0 ls)) [0..<Suc (length ls - n')]) = [(lo, hi)]"
    using f ne by (auto simp: find_unique_trim_match_def n'_def ls_def old_lines_def Let_def split: list.splits)
  then have "(lo, hi) \<in> set (map (window_span n' (line_data 0 ls))
          (filter (window_matches old_lines (line_data 0 ls)) [0..<Suc (length ls - n')]))"
    by (simp only: list.set insertI1)
  then obtain i where i: "window_matches old_lines (line_data 0 ls) i" "window_span n' (line_data 0 ls) i = (lo, hi)"
    by (auto simp del: upt_Suc)
  have le: "i + n' \<le> length ls" using i(1) by (simp add: window_matches_def n'_def)
  let ?mid = "take n' (drop i ls)"
  have trims: "map trim_end ?mid = old_lines"
  proof (rule nth_equalityI)
    show "length (map trim_end ?mid) = length old_lines" using le by (simp add: n'_def)
    fix k assume "k < length (map trim_end ?mid)"
    then have k: "k < n'" using le by simp
    then have "trim_end (snd (line_data 0 ls ! (i + k))) = old_lines ! k"
      using i(1) by (simp add: window_matches_def n'_def list_all_iff)
    then show "map trim_end ?mid ! k = old_lines ! k" using k le by (simp add: line_data_nth)
  qed
  have "content = join [CHR 0x0A] ls" by (simp add: ls_def join_split_nl)
  from window_is_a_span [OF ne le this i(2)] obtain rest where
    lo: "take lo content = lines_text (take i ls)" and
    whole: "content = lines_text (take i ls) @ join [CHR 0x0A] ?mid @ rest" "drop hi content = rest"
    by (elim conjE exE)
  have "\<forall>l \<in> set ?mid. CHR 0x0A \<notin> set l"
    using split_nl_no_nl [of _ content] set_take_subset [of n' "drop i ls"] set_drop_subset [of i ls]
    by (auto simp: ls_def)
  with trims lo whole new show ?thesis unfolding old_lines_def by metis
qed

lemma edit_content_all:
  assumes "edit_content content old new True = Inr (new_content, n)" "sublist old content" "old \<noteq> []"
  shows "\<exists>parts. content = join old parts \<and> new_content = join new parts \<and>
           length parts = Suc n \<and> (\<forall>p \<in> set parts. \<not> sublist old p)"
proof -
  obtain parts where p: "parts \<noteq> []" "content = join old parts" "replace_from 0 old new content = join new parts"
      "Suc (count_from 0 old content) = length parts" "\<forall>p \<in> set parts. \<not> sublist old p"
    using pieces_exist [OF assms(3), of content new] by blast
  have "count_from 0 old content > 0"
  proof (rule ccontr)
    assume "\<not> count_from 0 old content > 0"
    then obtain q where "parts = [q]" using p(1,4) by (cases parts) auto
    with p(2,5) assms(2) show False by simp
  qed
  then have "new_content = replace_from 0 old new content" "n = count_from 0 old content"
    using assms(1,3) by (auto simp: edit_content_def matches_count_def str_replace_def)
  with p show ?thesis by metis
qed

definition edit_replace_all :: "json \<Rightarrow> bool" where
  "edit_replace_all args = (case json_as_bool (json_index args ''replace_all'') of Some b \<Rightarrow> b | None \<Rightarrow> False)"

lemma edit_run:
  assumes "edit_execute utf8 cx fl seq args fs = (Inr out, tr)"
    and "json_as_str (json_index args ''path'') = Some p"
    and "json_as_str (json_index args ''old_string'') = Some old"
    and "json_as_str (json_index args ''new_string'') = Some new"
  shows "\<exists>content new_content n.
           fs (ctx_resolve cx p) = Some content \<and> utf8 content \<and>
           edit_content content old new (edit_replace_all args) = Inr (new_content, n) \<and>
           atomic_write cx fl ''edit'' seq (ctx_resolve cx p) new_content fs = (Inr (), tr)"
  using assms
  by (auto simp: edit_execute_def str_arg_def fs_read_def edit_replace_all_def Let_def
      split: sum.splits prod.splits option.splits if_splits)



text \<open>
  An edit that reports success with \<open>replace_all\<close> for a non-empty old string that occurs has cut the
  target at its occurrences, from the left and without overlap, and joined the pieces with the new
  string: no piece contains the old string, and every other file is as it was.
\<close>
theorem edit_replaces_all:
  assumes run: "edit_execute utf8 cx fl seq args fs = (Inr out, tr)"
    and "json_as_str (json_index args ''path'') = Some p"
    and "json_as_str (json_index args ''old_string'') = Some old"
    and "json_as_str (json_index args ''new_string'') = Some new"
    and all: "edit_replace_all args"
    and occurs: "fs (ctx_resolve cx p) = Some content" "sublist old content" "old \<noteq> []"
  shows "\<exists>parts. content = join old parts \<and> (\<forall>q \<in> set parts. \<not> sublist old q) \<and> tr \<noteq> [] \<and>
           last tr = fs(staged_path cx (ctx_resolve cx p) ''edit'' seq := None,
                        ctx_resolve cx p \<mapsto> join new parts)"
proof -
  obtain new_content n where r: "edit_content content old new True = Inr (new_content, n)"
      "atomic_write cx fl ''edit'' seq (ctx_resolve cx p) new_content fs = (Inr (), tr)"
    using edit_run [OF assms(1-4)] all occurs(1) by auto
  show ?thesis using edit_content_all [OF r(1) occurs(2,3)] atomic_write_states [OF r(2)] by auto
qed

lemma edit_replaces_all_witness:
  "\<exists>out tr parts. edit_execute (\<lambda>_. True) example_cx example_faults 0
     (Object [(''path'', json.String ''f''), (''old_string'', json.String ''b''), (''new_string'', json.String ''xy''),
              (''replace_all'', json.Bool True)])
     [''/d/f'' \<mapsto> ''abab''] = (Inr out, tr) \<and>
     ''abab'' = join ''b'' parts \<and> last tr ''/d/f'' = Some (join ''xy'' parts)"
proof -
  let ?args = "Object [(''path'', json.String ''f''), (''old_string'', json.String ''b''), (''new_string'', json.String ''xy''),
                       (''replace_all'', json.Bool True)]"
  let ?run = "edit_execute (\<lambda>_. True) example_cx example_faults 0 ?args [''/d/f'' \<mapsto> ''abab'']"
  have args: "json_as_str (json_index ?args ''path'') = Some ''f''"
    "json_as_str (json_index ?args ''old_string'') = Some ''b''"
    "json_as_str (json_index ?args ''new_string'') = Some ''xy''"
    by code_simp+
  have every: "edit_replace_all ?args" by code_simp
  have dest: "ctx_resolve example_cx ''f'' = ''/d/f''" by code_simp
  have new: "edit_content ''abab'' ''b'' ''xy'' True = Inr (''axyaxy'', 2)" by code_simp
  have "\<not> isl (fst ?run)"
    using every by (simp only: edit_replace_all_def)
      (simp add: edit_execute_def str_arg_def args dest new fs_read_def Let_def example_faults_def atomic_write_def
         split: option.splits)
  then obtain out tr where run: "?run = (Inr out, tr)" by (cases ?run; cases "fst ?run") auto
  have fs: "[''/d/f'' \<mapsto> ''abab''] (ctx_resolve example_cx ''f'') = Some ''abab''" unfolding dest by (rule fun_upd_same)
  have occurs: "sublist ''b'' ''abab''" "''b'' \<noteq> []" by (simp_all add: sublist_code)
  from edit_replaces_all [OF run args every fs occurs] obtain parts where
    "''abab'' = join ''b'' parts" "last tr ''/d/f'' = Some (join ''xy'' parts)"
    unfolding dest by (elim exE conjE) (simp only: fun_upd_same)
  with run show ?thesis by blast
qed

text \<open>
  Occurrences are counted without overlap: a string that overlaps itself passes for unique.
\<close>

lemma overlapping_counts_once:
  "edit_content ''aaa'' ''aa'' ''b'' False = Inr (''ba'', 1)"
  by code_simp

section \<open>Searching\<close>

definition cap_list :: "nat \<Rightarrow> 'a list \<Rightarrow> 'a list \<times> bool" where
  "cap_list n xs = (take (max 1 n) xs, length xs \<ge> max 1 n)"

definition grep_line :: "string \<Rightarrow> nat \<times> string \<Rightarrow> string" where
  "grep_line rel hit =
     rel @ '':'' @ show_nat (fst hit) @ '':'' @ fst (truncate_utf8 (trim_newlines (snd hit)) MAX_LINE_BYTES)"

definition entry_rel :: "walk_entry \<Rightarrow> string" where
  "entry_rel e = (case we_relative e of Some r \<Rightarrow> r | None \<Rightarrow> we_path e)"

definition grep_all :: "(walk_entry \<Rightarrow> bool) \<Rightarrow> (string \<Rightarrow> (nat \<times> string) list) \<Rightarrow> walk_entry list \<Rightarrow> string list" where
  "grep_all hit found es =
     concat (map (\<lambda>e. map (grep_line (entry_rel e)) (found (we_path e))) (filter (\<lambda>e. we_is_file e \<and> hit e) es))"

lemma grep_lines_step:
  "grep_lines n rel (h # rest) results =
     (if Suc (length results) \<ge> n then (results @ [grep_line rel h], True)
      else grep_lines n rel rest (results @ [grep_line rel h]))"
  by (cases h) (simp add: grep_line_def Let_def)

lemma grep_lines_capped:
  "length results < max 1 n \<Longrightarrow>
   grep_lines n rel hits results = cap_list n (results @ map (grep_line rel) hits)"
proof (induction hits arbitrary: results)
  case Nil
  then show ?case by (auto simp: cap_list_def max_def split: if_splits)
next
  case (Cons h rest)
  let ?r = "results @ [grep_line rel h]"
  show ?case
  proof (cases "Suc (length results) \<ge> n")
    case True
    then have m: "max 1 n = length ?r" using Cons.prems by (simp add: max_def split: if_splits)
    have "cap_list n (results @ map (grep_line rel) (h # rest)) = (?r, True)"
      unfolding cap_list_def m by simp
    then show ?thesis using True by (simp only: grep_lines_step if_True)
  next
    case False
    then have "length ?r < max 1 n" by simp
    from Cons.IH [OF this] False show ?thesis by (simp add: grep_lines_step)
  qed
qed

lemma cap_list_append:
  "cap_list n xs = (r, True) \<Longrightarrow> cap_list n (xs @ ys) = (r, True)"
  "cap_list n xs = (r, False) \<Longrightarrow> r = xs \<and> length xs < max 1 n"
  by (auto simp: cap_list_def)

lemma grep_walk_capped:
  "length results < max 1 n \<Longrightarrow>
   grep_walk hit found n es results = cap_list n (results @ grep_all hit found es)"
proof (induction es arbitrary: results)
  case (Cons e es)
  show ?case
  proof (cases "we_is_file e \<and> hit e")
    case True
    let ?own = "map (grep_line (entry_rel e)) (found (we_path e))"
    have lines: "grep_lines n (entry_rel e) (found (we_path e)) results = cap_list n (results @ ?own)"
      by (rule grep_lines_capped [OF Cons.prems])
    have all: "grep_all hit found (e # es) = ?own @ grep_all hit found es" using True by (simp add: grep_all_def)
    obtain r b where rb: "cap_list n (results @ ?own) = (r, b)" by fastforce
    have step: "grep_walk hit found n (e # es) results = (if b then (r, True) else grep_walk hit found n es r)"
      using True lines rb by (simp add: entry_rel_def Let_def)
    show ?thesis
    proof (cases b)
      case True
      then show ?thesis using step all rb cap_list_append(1) [of n "results @ ?own" r "grep_all hit found es"] by simp
    next
      case False
      then show ?thesis using step all rb cap_list_append(2) [of n "results @ ?own" r] Cons.IH by simp
    qed
  next
    case False
    then show ?thesis using Cons by (auto simp: grep_all_def)
  qed
qed (auto simp: cap_list_def grep_all_def max_def split: if_splits)

lemma glob_collect_capped:
  "length paths < max 1 n \<Longrightarrow>
   glob_collect hit n es paths = cap_list n (paths @ map we_path (filter (\<lambda>e. we_is_file e \<and> hit e) es))"
proof (induction es arbitrary: paths)
  case (Cons e es)
  let ?p = "paths @ [we_path e]"
  show ?case
  proof (cases "we_is_file e \<and> hit e")
    case True
    show ?thesis
    proof (cases "length ?p \<ge> n")
      case full: True
      then have "max 1 n = length ?p" using Cons.prems by (simp add: max_def split: if_splits)
      then show ?thesis using True full by (simp add: cap_list_def)
    next
      case False
      then show ?thesis using True Cons.IH [of ?p] by simp
    qed
  next
    case False
    then show ?thesis using Cons by auto
  qed
qed (auto simp: cap_list_def max_def split: if_splits)

text \<open>
  C17: A search returns the first results of the full search in the order of the walk, as many as the
  limit allows but at least one: the early stop of the loops changes nothing else, and the limit is
  reported as reached exactly when the full search has at least that many results. What glob returns is
  those paths sorted by their bytes.
\<close>
theorem search_is_capped_prefix:
  "grep_walk hit found n es [] = cap_list n (grep_all hit found es) \<and>
   glob_walk hit n es =
     (let paths = map we_path (filter (\<lambda>e. we_is_file e \<and> hit e) es)
      in (sort_key byte_order (fst (cap_list n paths)), snd (cap_list n paths)))"
  using grep_walk_capped [of "[]" n hit found es] glob_collect_capped [of "[]" n hit es]
  by (simp_all add: glob_walk_def split_beta Let_def)

end
