(* ===== verification/State_Db.thy ===== *)
theory State_Db
  imports Writer "HOL-Library.List_Lexorder" "HOL-Library.Sublist"
begin

text \<open>
  The SQL index of the engine (\<open>zhive-core/src/persistence/state_db.rs\<close>) and the passes over it of
  \<open>persistence/mod.rs\<close> and \<open>writer.rs\<close>. A table is the list of its rows in the order of their rowids; a
  statement is a function on these lists, written after its SQL text, with the keys and the foreign
  keys the migrations declare. Rows with equal sort keys come in table order. Failures of the disk are
  outside: a statement fails where a constraint does. Printing and parsing an item is serde and a
  parameter.
\<close>

section \<open>Rows\<close>

record thread_row =
  tr_id :: string
  tr_session_id :: "string option"
  tr_forked_from :: "string option"
  tr_subagent_parent :: "string option"
  tr_preview :: string
  tr_ephemeral :: int
  tr_model_provider :: string
  tr_created_at :: int
  tr_updated_at :: int
  tr_status :: string
  tr_cwd :: string
  tr_source :: string
  tr_name :: "string option"

record turn_row =
  ur_id :: string
  ur_thread_id :: string
  ur_status :: string
  ur_error_message :: "string option"
  ur_error_details :: "string option"
  ur_started_at :: "int option"
  ur_completed_at :: "int option"
  ur_duration_ms :: "int option"

record item_row =
  ir_id :: string
  ir_turn_id :: string
  ir_seq :: int
  ir_kind :: string
  ir_payload :: string

record snapshot_row =
  sr_thread_id :: string
  sr_turn_id :: string
  sr_tree :: string
  sr_preview :: string
  sr_created_at :: int

record state_db =
  db_threads :: "thread_row list"
  db_turns :: "turn_row list"
  db_items :: "item_row list"
  db_snapshots :: "snapshot_row list"

definition state_db_new :: state_db where
  "state_db_new = \<lparr>db_threads = [], db_turns = [], db_items = [], db_snapshots = []\<rparr>"

datatype db_error = ForeignKeyFailed | Json string

section \<open>Columns\<close>

fun thread_status_to_str :: "thread_status \<Rightarrow> string" where
  "thread_status_to_str NotLoaded = ''notLoaded''"
| "thread_status_to_str (Active _) = ''active''"
| "thread_status_to_str SystemError = ''systemError''"
| "thread_status_to_str _ = ''idle''"

definition thread_status_from_str :: "string \<Rightarrow> thread_status" where
  "thread_status_from_str s =
     (if s = ''notLoaded'' then NotLoaded
      else if s = ''active'' then Active []
      else if s = ''systemError'' then SystemError
      else thread_status.Idle)"

fun thread_source_to_str :: "thread_source \<Rightarrow> string" where
  "thread_source_to_str thread_source.Subagent = ''subagent''"
| "thread_source_to_str MemoryConsolidation = ''memory_consolidation''"
| "thread_source_to_str _ = ''user''"

definition thread_source_from_str :: "string \<Rightarrow> thread_source" where
  "thread_source_from_str s =
     (if s = ''subagent'' then thread_source.Subagent
      else if s = ''memory_consolidation'' then MemoryConsolidation
      else thread_source.User)"

fun turn_status_to_str :: "turn_status \<Rightarrow> string" where
  "turn_status_to_str turn_status.InProgress = ''inProgress''"
| "turn_status_to_str turn_status.Interrupted = ''interrupted''"
| "turn_status_to_str turn_status.Failed = ''failed''"
| "turn_status_to_str _ = ''completed''"

fun item_kind_str :: "item \<Rightarrow> string" where
  "item_kind_str (UserMessage _ _) = ''user_message''"
| "item_kind_str (AgentMessage _ _) = ''agent_message''"
| "item_kind_str (AgentThought _ _) = ''agent_thought''"
| "item_kind_str (Reasoning _ _) = ''reasoning''"
| "item_kind_str (ToolCall _ _ _ _ _ _ _ _ _ _) = ''tool_call''"
| "item_kind_str (CommandExecution _ _ _ _ _ _ _) = ''command_execution''"
| "item_kind_str (FileEdit _ _ _) = ''file_edit''"
| "item_kind_str (item.Diff _ _ _ _) = ''diff''"
| "item_kind_str (item.Terminal _ _) = ''terminal''"
| "item_kind_str (item.Plan _ _) = ''plan''"
| "item_kind_str (AvailableCommands _ _) = ''available_commands''"
| "item_kind_str (ModeChange _ _) = ''mode_change''"
| "item_kind_str (ContextCompaction _) = ''context_compaction''"
| "item_kind_str (SystemNotice _ _ _) = ''system_notice''"

definition normalize_cwd :: "string \<Rightarrow> string" where
  "normalize_cwd cwd =
     (if cwd = ''/'' \<or> cwd = [] then cwd else rev (dropWhile (\<lambda>c. c = CHR ''/'') (rev cwd)))"

section \<open>Statements\<close>

text \<open>\<open>UPDATE .. WHERE\<close>, \<open>INSERT OR REPLACE\<close> (the old row goes, the new one is last), and the row with a key.\<close>

definition update_where :: "('r \<Rightarrow> bool) \<Rightarrow> ('r \<Rightarrow> 'r) \<Rightarrow> 'r list \<Rightarrow> 'r list" where
  "update_where P f rows = map (\<lambda>r. if P r then f r else r) rows"

definition replace_row :: "('r \<Rightarrow> 'k) \<Rightarrow> 'r \<Rightarrow> 'r list \<Rightarrow> 'r list" where
  "replace_row key r rows = filter (\<lambda>x. key x \<noteq> key r) rows @ [r]"

definition row_of :: "('r \<Rightarrow> 'k) \<Rightarrow> 'k \<Rightarrow> 'r list \<Rightarrow> 'r option" where
  "row_of key k rows = find (\<lambda>r. key r = k) rows"

definition has_row :: "('r \<Rightarrow> 'k) \<Rightarrow> 'k \<Rightarrow> 'r list \<Rightarrow> bool" where
  "has_row key k rows = list_ex (\<lambda>r. key r = k) rows"

definition thread_to_row :: "thread \<Rightarrow> thread_row" where
  "thread_to_row t =
     \<lparr>tr_id = thread_id_str (th_id t),
      tr_session_id = map_option (\<lambda>s. case s of AcpSessionId x \<Rightarrow> x) (th_session_id t),
      tr_forked_from = map_option thread_id_str (th_forked_from t),
      tr_subagent_parent = map_option thread_id_str (th_subagent_parent t),
      tr_preview = th_preview t, tr_ephemeral = (if th_ephemeral t then 1 else 0),
      tr_model_provider = th_model_provider t, tr_created_at = th_created_at t,
      tr_updated_at = th_updated_at t, tr_status = thread_status_to_str (th_status t),
      tr_cwd = normalize_cwd (th_cwd t), tr_source = thread_source_to_str (th_source t),
      tr_name = th_name t\<rparr>"

text \<open>The \<open>DO UPDATE\<close> of a conflict: every column but the creation time, the preview only when there is one.\<close>

definition excluded_row :: "thread_row \<Rightarrow> thread_row \<Rightarrow> thread_row" where
  "excluded_row new old =
     new\<lparr>tr_preview := (if tr_preview new \<noteq> [] then tr_preview new else tr_preview old),
         tr_created_at := tr_created_at old\<rparr>"

definition upsert_thread :: "thread \<Rightarrow> state_db \<Rightarrow> state_db" where
  "upsert_thread t db =
     (let row = thread_to_row t
      in if has_row tr_id (tr_id row) (db_threads db)
         then db\<lparr>db_threads := update_where (\<lambda>r. tr_id r = tr_id row) (excluded_row row) (db_threads db)\<rparr>
         else db\<lparr>db_threads := db_threads db @ [row]\<rparr>)"

definition set_thread_model :: "thread_id \<Rightarrow> string \<Rightarrow> string \<Rightarrow> state_db \<Rightarrow> state_db" where
  "set_thread_model tid provider model_id db =
     (let model_provider = (if model_id = [] then provider else provider @ ''/'' @ model_id)
      in db\<lparr>db_threads := update_where (\<lambda>r. tr_id r = thread_id_str tid)
              (\<lambda>r. r\<lparr>tr_model_provider := model_provider\<rparr>) (db_threads db)\<rparr>)"

definition set_thread_name :: "thread_id \<Rightarrow> string \<Rightarrow> state_db \<Rightarrow> state_db" where
  "set_thread_name tid name db =
     (let stored = (if name = [] then None else Some name)
      in db\<lparr>db_threads := update_where (\<lambda>r. tr_id r = thread_id_str tid)
              (\<lambda>r. r\<lparr>tr_name := stored\<rparr>) (db_threads db)\<rparr>)"

definition set_thread_preview_if_empty :: "thread_id \<Rightarrow> string \<Rightarrow> state_db \<Rightarrow> state_db" where
  "set_thread_preview_if_empty tid preview db =
     (if preview = [] then db
      else db\<lparr>db_threads := update_where (\<lambda>r. tr_id r = thread_id_str tid \<and> tr_preview r = [])
                (\<lambda>r. r\<lparr>tr_preview := preview\<rparr>) (db_threads db)\<rparr>)"

definition set_thread_cwd :: "thread_id \<Rightarrow> string \<Rightarrow> state_db \<Rightarrow> state_db" where
  "set_thread_cwd tid cwd db =
     db\<lparr>db_threads := update_where (\<lambda>r. tr_id r = thread_id_str tid)
          (\<lambda>r. r\<lparr>tr_cwd := normalize_cwd cwd\<rparr>) (db_threads db)\<rparr>"

definition record_turn_start ::
    "thread_id \<Rightarrow> turn_id \<Rightarrow> int \<Rightarrow> state_db \<Rightarrow> (unit, db_error) rust_result \<times> state_db" where
  "record_turn_start tid turn started_at db =
     (if has_row ur_id (turn_id_str turn) (db_turns db) then (Inr (), db)
      else if \<not> has_row tr_id (thread_id_str tid) (db_threads db) then (Inl ForeignKeyFailed, db)
      else (Inr (), db\<lparr>db_turns := db_turns db @
              [\<lparr>ur_id = turn_id_str turn, ur_thread_id = thread_id_str tid, ur_status = ''inProgress'',
                ur_error_message = None, ur_error_details = None, ur_started_at = Some started_at,
                ur_completed_at = None, ur_duration_ms = None\<rparr>]\<rparr>))"

definition end_turn_row ::
    "turn_status \<Rightarrow> turn_error option \<Rightarrow> int \<Rightarrow> int option \<Rightarrow> turn_row \<Rightarrow> turn_row" where
  "end_turn_row status error completed_at duration_ms r =
     r\<lparr>ur_status := turn_status_to_str status, ur_error_message := map_option te_message error,
       ur_error_details := Option.bind error te_additional_details,
       ur_completed_at := Some completed_at, ur_duration_ms := duration_ms\<rparr>"

definition record_turn_end ::
    "turn_id \<Rightarrow> turn_status \<Rightarrow> turn_error option \<Rightarrow> int \<Rightarrow> int option \<Rightarrow> state_db \<Rightarrow> state_db" where
  "record_turn_end turn status error completed_at duration_ms db =
     db\<lparr>db_turns := update_where (\<lambda>r. ur_id r = turn_id_str turn)
          (end_turn_row status error completed_at duration_ms) (db_turns db)\<rparr>"

definition append_item ::
    "(item \<Rightarrow> string + string) \<Rightarrow> turn_id \<Rightarrow> int \<Rightarrow> item \<Rightarrow> state_db \<Rightarrow>
     (unit, db_error) rust_result \<times> state_db" where
  "append_item to_str turn seq it db =
     (case to_str it of
        Inl e \<Rightarrow> (Inl (Json e), db)
      | Inr payload \<Rightarrow>
          (if \<not> has_row ur_id (turn_id_str turn) (db_turns db) then (Inl ForeignKeyFailed, db)
           else (Inr (), db\<lparr>db_items := replace_row ir_id
                   \<lparr>ir_id = item_id_str (item_id_of it), ir_turn_id = turn_id_str turn, ir_seq = seq,
                    ir_kind = item_kind_str it, ir_payload = payload\<rparr> (db_items db)\<rparr>)))"

definition snapshot_key :: "snapshot_row \<Rightarrow> string \<times> string" where
  "snapshot_key r = (sr_thread_id r, sr_turn_id r)"

definition db_record_snapshot ::
    "thread_id \<Rightarrow> turn_id \<Rightarrow> string \<Rightarrow> string \<Rightarrow> int \<Rightarrow> state_db \<Rightarrow> state_db" where
  "db_record_snapshot tid turn tree preview created_at db =
     db\<lparr>db_snapshots := replace_row snapshot_key
          \<lparr>sr_thread_id = thread_id_str tid, sr_turn_id = turn_id_str turn, sr_tree = tree,
           sr_preview = preview, sr_created_at = created_at\<rparr> (db_snapshots db)\<rparr>"

text \<open>Deleting a thread takes its turns with it, and deleting a turn its items.\<close>

definition db_delete_thread :: "thread_id \<Rightarrow> state_db \<Rightarrow> bool \<times> state_db" where
  "db_delete_thread tid db =
     (let i = thread_id_str tid;
          gone = (if has_row tr_id i (db_threads db)
                  then map ur_id (filter (\<lambda>u. ur_thread_id u = i) (db_turns db)) else [])
      in (has_row tr_id i (db_threads db),
          db\<lparr>db_snapshots := filter (\<lambda>s. sr_thread_id s \<noteq> i) (db_snapshots db),
             db_threads := filter (\<lambda>r. tr_id r \<noteq> i) (db_threads db),
             db_turns := filter (\<lambda>u. ur_id u \<notin> set gone) (db_turns db),
             db_items := filter (\<lambda>r. ir_turn_id r \<notin> set gone) (db_items db)\<rparr>))"

section \<open>Queries\<close>

definition row_to_thread :: "thread_row \<Rightarrow> thread" where
  "row_to_thread r =
     \<lparr>th_id = ThreadId (tr_id r), th_session_id = map_option AcpSessionId (tr_session_id r),
      th_forked_from = map_option ThreadId (tr_forked_from r),
      th_subagent_parent = map_option ThreadId (tr_subagent_parent r), th_preview = tr_preview r,
      th_ephemeral = (tr_ephemeral r \<noteq> 0), th_model_provider = tr_model_provider r,
      th_created_at = tr_created_at r, th_updated_at = tr_updated_at r,
      th_status = thread_status_from_str (tr_status r), th_cwd = tr_cwd r,
      th_source = thread_source_from_str (tr_source r), th_name = tr_name r, th_turns = []\<rparr>"

definition get_thread :: "thread_id \<Rightarrow> state_db \<Rightarrow> thread option" where
  "get_thread tid db = map_option row_to_thread (row_of tr_id (thread_id_str tid) (db_threads db))"

definition db_list_threads :: "string option \<Rightarrow> state_db \<Rightarrow> thread list" where
  "db_list_threads cwd_filter db =
     (let rows = (case cwd_filter of
                    Some cwd \<Rightarrow> filter (\<lambda>r. tr_cwd r = normalize_cwd cwd) (db_threads db)
                  | None \<Rightarrow> db_threads db)
      in map row_to_thread (sort_key (\<lambda>r. - tr_updated_at r) rows))"

text \<open>\<open>ORDER BY created_at, turn_id\<close>: a stable sort by the second key, then by the first.\<close>

definition db_list_checkpoints :: "thread_id \<Rightarrow> state_db \<Rightarrow> checkpoint list" where
  "db_list_checkpoints tid db =
     map (\<lambda>r. \<lparr>cp_turn_id = TurnId (sr_turn_id r), cp_tree = sr_tree r, cp_preview = sr_preview r,
               cp_created_at = sr_created_at r, cp_files_changed = 0\<rparr>)
       (sort_key sr_created_at (sort_key (\<lambda>r. byte_order (sr_turn_id r))
          (filter (\<lambda>r. sr_thread_id r = thread_id_str tid) (db_snapshots db))))"

definition snapshot_tree_for_turn :: "thread_id \<Rightarrow> turn_id \<Rightarrow> state_db \<Rightarrow> string option" where
  "snapshot_tree_for_turn tid turn db =
     map_option sr_tree (row_of snapshot_key (thread_id_str tid, turn_id_str turn) (db_snapshots db))"

definition turn_rows :: "turn_id \<Rightarrow> state_db \<Rightarrow> item_row list" where
  "turn_rows turn db = sort_key ir_seq (filter (\<lambda>r. ir_turn_id r = turn_id_str turn) (db_items db))"

fun decode_rows :: "(string \<Rightarrow> string + item) \<Rightarrow> item_row list \<Rightarrow> (item list, db_error) rust_result" where
  "decode_rows from_str [] = Inr []"
| "decode_rows from_str (r # rs) =
     (case from_str (ir_payload r) of
        Inl e \<Rightarrow> Inl (Json e)
      | Inr it \<Rightarrow> map_sum id ((#) it) (decode_rows from_str rs))"

definition get_turn_items ::
    "(string \<Rightarrow> string + item) \<Rightarrow> turn_id \<Rightarrow> state_db \<Rightarrow> (item list, db_error) rust_result" where
  "get_turn_items from_str turn db = decode_rows from_str (turn_rows turn db)"

definition load_items_page ::
    "(string \<Rightarrow> string + item) \<Rightarrow> turn_id \<Rightarrow> int \<Rightarrow> int \<Rightarrow> state_db \<Rightarrow> (item list, db_error) rust_result" where
  "load_items_page from_str turn offset limit db =
     decode_rows from_str (take (nat (max limit 0)) (drop (nat (max offset 0)) (turn_rows turn db)))"

section \<open>Search\<close>

definition escape_like :: "string \<Rightarrow> string" where
  "escape_like s =
     concat (map (\<lambda>ch. if ch = ''%'' \<or> ch = ''_'' \<or> ch = [CHR 0x5C] then CHR 0x5C # ch else ch) (chars s))"

text \<open>\<open>lower\<close> of SQL: ASCII letters only.\<close>

definition sql_lower :: "string \<Rightarrow> string" where
  "sql_lower s = map (\<lambda>c. if 65 \<le> (of_char c :: nat) \<and> (of_char c :: nat) \<le> 90
                         then char_of (of_char c + 32 :: nat) else c) s"

text \<open>\<open>LIKE .. ESCAPE '\'\<close> on characters, which compares letters without their ASCII case.\<close>

fun like :: "string list \<Rightarrow> string list \<Rightarrow> bool" where
  "like [] s = (s = [])"
| "like (p # ps) s =
     (if p = [CHR 0x5C]
      then (case (ps, s) of
              (q # qs, c # cs) \<Rightarrow> sql_lower q = sql_lower c \<and> like qs cs
            | _ \<Rightarrow> False)
      else if p = ''%'' then like ps s \<or> (case s of [] \<Rightarrow> False | c # cs \<Rightarrow> like (p # ps) cs)
      else (case s of
              [] \<Rightarrow> False
            | c # cs \<Rightarrow> (p = ''_'' \<or> sql_lower p = sql_lower c) \<and> like ps cs))"

definition sql_like :: "string \<Rightarrow> string \<Rightarrow> bool" where
  "sql_like pattern s = like (chars (sql_lower pattern)) (chars (sql_lower s))"

definition row_matches :: "string \<Rightarrow> thread_row \<Rightarrow> bool" where
  "row_matches pattern r =
     (sql_like pattern (case tr_name r of Some n \<Rightarrow> n | None \<Rightarrow> []) \<or>
      sql_like pattern (tr_preview r) \<or>
      sql_like pattern (tr_cwd r))"

definition db_search_threads :: "string \<Rightarrow> string option \<Rightarrow> state_db \<Rightarrow> thread list" where
  "db_search_threads query cwd_filter db =
     (let pattern = ''%'' @ escape_like query @ ''%'';
          rows = (case cwd_filter of
                    Some cwd \<Rightarrow> filter (\<lambda>r. tr_cwd r = normalize_cwd cwd \<and> row_matches pattern r) (db_threads db)
                  | None \<Rightarrow> filter (row_matches pattern) (db_threads db))
      in map row_to_thread (sort_key (\<lambda>r. - tr_updated_at r) rows))"

section \<open>Runs\<close>

fun apply_call ::
    "(item \<Rightarrow> string + string) \<Rightarrow> sql_call \<Rightarrow> state_db \<Rightarrow> (unit, db_error) rust_result \<times> state_db" where
  "apply_call to_str (UpsertThread t) db = (Inr (), upsert_thread t db)"
| "apply_call to_str (RecordTurnStart tid turn started_at) db = record_turn_start tid turn started_at db"
| "apply_call to_str (AppendItem turn seq it) db = append_item to_str turn seq it db"
| "apply_call to_str (RecordTurnEnd turn status error completed_at duration_ms) db =
     (Inr (), record_turn_end turn status error completed_at duration_ms db)"
| "apply_call to_str (SetThreadModel tid provider model_id) db =
     (Inr (), set_thread_model tid provider model_id db)"
| "apply_call to_str (SetThreadName tid name) db = (Inr (), set_thread_name tid name db)"
| "apply_call to_str (RecordSnapshot tid turn tree preview created_at) db =
     (Inr (), db_record_snapshot tid turn tree preview created_at db)"

text \<open>The writer logs a failing statement and goes on; a rebuild stops at it.\<close>

definition run_logged :: "(item \<Rightarrow> string + string) \<Rightarrow> sql_call list \<Rightarrow> state_db \<Rightarrow> state_db" where
  "run_logged to_str calls db = fold (\<lambda>c d. snd (apply_call to_str c d)) calls db"

fun run_checked ::
    "(item \<Rightarrow> string + string) \<Rightarrow> sql_call list \<Rightarrow> state_db \<Rightarrow> (unit, db_error) rust_result \<times> state_db" where
  "run_checked to_str [] db = (Inr (), db)"
| "run_checked to_str (c # cs) db =
     (case apply_call to_str c db of
        (Inl e, d) \<Rightarrow> (Inl e, d)
      | (Inr _, d) \<Rightarrow> run_checked to_str cs d)"

definition rebuild_index ::
    "(item \<Rightarrow> string + string) \<Rightarrow> int \<Rightarrow> rollout_entry list \<Rightarrow> state_db \<Rightarrow>
     (unit, db_error) rust_result \<times> state_db" where
  "rebuild_index to_str now entries db = run_checked to_str (rebuild_calls now entries) db"

section \<open>Rows by key\<close>

lemma row_of_update [simp]:
  "(\<And>r. key (f r) = key r) \<Longrightarrow>
   row_of key k (update_where P f rows) = map_option (\<lambda>r. if P r then f r else r) (row_of key k rows)"
  by (induction rows) (auto simp: row_of_def update_where_def)

lemma row_of_snoc [simp]:
  "row_of key k (rows @ [r]) =
     (case row_of key k rows of Some x \<Rightarrow> Some x | None \<Rightarrow> if key r = k then Some r else None)"
  by (induction rows) (auto simp: row_of_def)

lemma row_of_replace [simp]:
  "row_of key k (replace_row key r rows) = (if key r = k then Some r else row_of key k rows)"
  by (induction rows) (auto simp: row_of_def replace_row_def)

lemma row_of_filter:
  "(\<And>r. r \<in> set rows \<Longrightarrow> key r = k \<Longrightarrow> P r) \<Longrightarrow> row_of key k (filter P rows) = row_of key k rows"
  by (induction rows) (auto simp: row_of_def)

lemma has_row_iff: "has_row key k rows \<longleftrightarrow> k \<in> key ` set rows"
  by (auto simp: has_row_def list_ex_iff)

lemma has_row_of: "has_row key k rows \<longleftrightarrow> row_of key k rows \<noteq> None"
  by (auto simp: has_row_iff row_of_def find_None_iff)

lemma keys_update [simp]:
  "(\<And>r. key (f r) = key r) \<Longrightarrow> map key (update_where P f rows) = map key rows"
  by (simp add: update_where_def)

lemma keys_replace: "distinct (map key rows) \<Longrightarrow> distinct (map key (replace_row key r rows))"
  by (auto simp: replace_row_def distinct_map inj_on_def)

section \<open>Constraints\<close>

text \<open>Primary keys are unique, a turn has its thread and an item its turn.\<close>

definition db_ok :: "state_db \<Rightarrow> bool" where
  "db_ok db =
     (distinct (map tr_id (db_threads db)) \<and> distinct (map ur_id (db_turns db)) \<and>
      distinct (map ir_id (db_items db)) \<and> distinct (map snapshot_key (db_snapshots db)) \<and>
      ur_thread_id ` set (db_turns db) \<subseteq> tr_id ` set (db_threads db) \<and>
      ir_turn_id ` set (db_items db) \<subseteq> ur_id ` set (db_turns db))"

lemma excluded_id [simp]: "tr_id (excluded_row new old) = tr_id new"
  by (simp add: excluded_row_def)

lemma end_turn_keys [simp]:
  "ur_id (end_turn_row a b c d r) = ur_id r" "ur_thread_id (end_turn_row a b c d r) = ur_thread_id r"
  by (simp_all add: end_turn_row_def)

lemma update_where_key:
  "map key (update_where P f rows) = map key rows" if "\<And>r. P r \<Longrightarrow> key (f r) = key r"
  using that by (simp add: update_where_def)

lemma update_where_image:
  "key ` set (update_where P f rows) = key ` set rows" if "\<And>r. P r \<Longrightarrow> key (f r) = key r"
  using arg_cong [OF update_where_key [of P key f rows], of set] that by simp

lemma upsert_ok: "db_ok db \<Longrightarrow> db_ok (upsert_thread t db)"
  by (auto simp: db_ok_def upsert_thread_def Let_def has_row_iff update_where_key update_where_image)

lemma update_threads_ok:
  "(\<And>r. tr_id (f r) = tr_id r) \<Longrightarrow> db_ok db \<Longrightarrow>
   db_ok (db\<lparr>db_threads := update_where P f (db_threads db)\<rparr>)"
  by (simp add: db_ok_def update_where_key update_where_image)

lemma turn_start_ok: "db_ok db \<Longrightarrow> db_ok (snd (record_turn_start tid turn now db))"
  by (auto simp: db_ok_def record_turn_start_def has_row_iff)

lemma turn_end_ok: "db_ok db \<Longrightarrow> db_ok (record_turn_end turn a b c d db)"
  by (simp add: db_ok_def record_turn_end_def update_where_key update_where_image)

lemma append_item_ok: "db_ok db \<Longrightarrow> db_ok (snd (append_item to_str turn seq it db))"
  by (auto simp: db_ok_def append_item_def has_row_iff replace_row_def distinct_map_filter split: sum.splits)

lemma snapshot_ok: "db_ok db \<Longrightarrow> db_ok (db_record_snapshot tid turn a b c db)"
  by (simp add: db_ok_def db_record_snapshot_def keys_replace)

text \<open>Without the foreign keys' own pointers: which turns and items a deletion takes.\<close>

definition turn_of_thread :: "string \<Rightarrow> state_db \<Rightarrow> string set" where
  "turn_of_thread i db = ur_id ` {u \<in> set (db_turns db). ur_thread_id u = i}"

lemma delete_tables:
  assumes "db_ok db"
  shows "db_delete_thread tid db =
     (has_row tr_id (thread_id_str tid) (db_threads db),
      db\<lparr>db_snapshots := filter (\<lambda>s. sr_thread_id s \<noteq> thread_id_str tid) (db_snapshots db),
         db_threads := filter (\<lambda>r. tr_id r \<noteq> thread_id_str tid) (db_threads db),
         db_turns := filter (\<lambda>u. ur_thread_id u \<noteq> thread_id_str tid) (db_turns db),
         db_items := filter (\<lambda>r. ir_turn_id r \<notin> turn_of_thread (thread_id_str tid) db) (db_items db)\<rparr>)"
proof -
  let ?i = "thread_id_str tid"
  let ?gone = "if has_row tr_id ?i (db_threads db) then map ur_id (filter (\<lambda>u. ur_thread_id u = ?i) (db_turns db)) else []"
  have gone: "set ?gone = turn_of_thread ?i db"
  proof (cases "has_row tr_id ?i (db_threads db)")
    case False
    have "ur_thread_id u \<noteq> ?i" if "u \<in> set (db_turns db)" for u
      using assms that False by (force simp: db_ok_def has_row_iff)
    then show ?thesis using False by (auto simp: turn_of_thread_def)
  qed (auto simp: turn_of_thread_def)
  have "filter (\<lambda>u. ur_id u \<notin> turn_of_thread ?i db) (db_turns db) = filter (\<lambda>u. ur_thread_id u \<noteq> ?i) (db_turns db)"
    using assms by (intro filter_cong) (auto simp: db_ok_def turn_of_thread_def distinct_map inj_on_def)
  then show ?thesis unfolding db_delete_thread_def Let_def gone by simp
qed

lemma delete_ok:
  assumes "db_ok db"
  shows "db_ok (snd (db_delete_thread tid db))"
proof -
  have "\<exists>u \<in> set (db_turns db). ir_turn_id r = ur_id u" if "r \<in> set (db_items db)" for r
    using assms that by (auto simp: db_ok_def)
  then have "ir_turn_id r \<in> ur_id ` {u \<in> set (db_turns db). ur_thread_id u \<noteq> thread_id_str tid}"
    if "r \<in> set (db_items db)" "ir_turn_id r \<notin> turn_of_thread (thread_id_str tid) db" for r
    using that by (force simp: turn_of_thread_def)
  then show ?thesis
    using assms unfolding delete_tables [OF assms] db_ok_def
    by (auto simp: distinct_map_filter)
qed

lemma apply_call_ok: "db_ok db \<Longrightarrow> db_ok (snd (apply_call to_str c db))"
  by (cases c)
     (simp_all add: upsert_ok turn_start_ok append_item_ok turn_end_ok snapshot_ok set_thread_model_def
        set_thread_name_def Let_def update_threads_ok)

lemma run_checked_ok: "db_ok db \<Longrightarrow> db_ok (snd (run_checked to_str cs db))"
proof (induction cs arbitrary: db)
  case (Cons c cs)
  have "db_ok (snd (apply_call to_str c db))" by (rule apply_call_ok [OF Cons.prems])
  then show ?case using Cons.IH by (auto split: prod.splits sum.splits)
qed simp

lemma run_logged_ok: "db_ok db \<Longrightarrow> db_ok (run_logged to_str cs db)"
  unfolding run_logged_def by (induction cs arbitrary: db) (auto simp: apply_call_ok)

section \<open>The index as a whole\<close>

datatype db_op =
    CallOp sql_call
  | DeleteOp thread_id
  | FillPreviewOp thread_id string
  | SetCwdOp thread_id string

fun db_step :: "(item \<Rightarrow> string + string) \<Rightarrow> db_op \<Rightarrow> state_db \<Rightarrow> state_db" where
  "db_step to_str (CallOp c) db = snd (apply_call to_str c db)"
| "db_step to_str (DeleteOp tid) db = snd (db_delete_thread tid db)"
| "db_step to_str (FillPreviewOp tid preview) db = set_thread_preview_if_empty tid preview db"
| "db_step to_str (SetCwdOp tid cwd) db = set_thread_cwd tid cwd db"

lemma db_step_ok: "db_ok db \<Longrightarrow> db_ok (db_step to_str op db)"
  by (cases op)
     (simp_all add: apply_call_ok delete_ok set_thread_preview_if_empty_def set_thread_cwd_def update_threads_ok)

text \<open>
  C36: The index is never inconsistent: whatever statements and deletions run, in whatever order and
  whether or not they succeed, keys stay unique, every turn belongs to a thread of the index and every
  item to a turn of it.
\<close>
theorem index_constraints: "db_ok (fold (db_step to_str) ops state_db_new)"
proof -
  have "db_ok db \<Longrightarrow> db_ok (fold (db_step to_str) ops db)" for db
    by (induction ops arbitrary: db) (simp_all add: db_step_ok)
  then show ?thesis by (simp add: db_ok_def state_db_new_def)
qed

text \<open>
  Deleting a thread removes its row, its turns, the items of those turns and its snapshots, and nothing
  else; it says whether the thread was there.
\<close>
theorem delete_cascades:
  assumes "db_ok db"
  shows "db_delete_thread tid db =
     (get_thread tid db \<noteq> None,
      \<lparr>db_threads = filter (\<lambda>r. tr_id r \<noteq> thread_id_str tid) (db_threads db),
       db_turns = filter (\<lambda>u. ur_thread_id u \<noteq> thread_id_str tid) (db_turns db),
       db_items = filter (\<lambda>r. ir_turn_id r \<notin> turn_of_thread (thread_id_str tid) db) (db_items db),
       db_snapshots = filter (\<lambda>s. sr_thread_id s \<noteq> thread_id_str tid) (db_snapshots db)\<rparr>)"
  unfolding delete_tables [OF assms] by (simp add: get_thread_def has_row_of)

section \<open>A thread and its row\<close>

text \<open>What of a thread the index keeps: not its turns, nor its activity flags.\<close>

definition stored_thread :: "thread \<Rightarrow> thread" where
  "stored_thread t =
     t\<lparr>th_status := (case th_status t of Active _ \<Rightarrow> Active [] | s \<Rightarrow> s), th_cwd := normalize_cwd (th_cwd t),
       th_turns := []\<rparr>"

lemma status_round_trip:
  "thread_status_from_str (thread_status_to_str s) = (case s of Active _ \<Rightarrow> Active [] | s \<Rightarrow> s)"
  by (cases s) (simp_all add: thread_status_from_str_def)

lemma source_round_trip: "thread_source_from_str (thread_source_to_str s) = s"
  by (cases s) (simp_all add: thread_source_from_str_def)

lemma thread_id_column [simp]: "map_option ThreadId (map_option thread_id_str x) = x"
proof (cases x)
  case (Some i)
  then show ?thesis by (cases i) simp
qed simp

lemma session_column [simp]:
  "map_option AcpSessionId (map_option (\<lambda>s. case s of AcpSessionId x \<Rightarrow> x) x) = x"
  by (cases x) (auto split: acp_session_id.splits)

lemma row_round_trip: "row_to_thread (thread_to_row t) = stored_thread t"
proof -
  have "ThreadId (thread_id_str (th_id t)) = th_id t" by (cases "th_id t") simp
  then show ?thesis
    unfolding row_to_thread_def thread_to_row_def stored_thread_def
    by (simp add: status_round_trip source_round_trip del: option.map_comp)
qed

lemma row_fields [simp]:
  "th_created_at (row_to_thread r) = tr_created_at r" "th_preview (row_to_thread r) = tr_preview r"
  by (simp_all add: row_to_thread_def)

lemma row_to_thread_update:
  "row_to_thread (r\<lparr>tr_preview := p, tr_created_at := c\<rparr>) = (row_to_thread r)\<lparr>th_preview := p, th_created_at := c\<rparr>"
  by (simp add: row_to_thread_def)

definition merged_thread :: "thread_row option \<Rightarrow> thread_row \<Rightarrow> thread_row" where
  "merged_thread old new = (case old of Some r \<Rightarrow> excluded_row new r | None \<Rightarrow> new)"

lemma upsert_lookup:
  "row_of tr_id k (db_threads (upsert_thread t db)) =
     (if k = thread_id_str (th_id t)
      then Some (merged_thread (row_of tr_id k (db_threads db)) (thread_to_row t))
      else row_of tr_id k (db_threads db))"
proof -
  have id: "tr_id (thread_to_row t) = thread_id_str (th_id t)" by (simp add: thread_to_row_def)
  have key: "tr_id x = k" if "row_of tr_id k (db_threads db) = Some x" for x
    using that by (auto simp: row_of_def find_Some_iff)
  have upd: "row_of tr_id j (update_where (\<lambda>r. tr_id r = i) f rows) =
        map_option (\<lambda>r. if tr_id r = i then f r else r) (row_of tr_id j rows)"
    if "\<And>r. tr_id (f r) = i" for f rows i j
    using that by (induction rows) (auto simp: row_of_def update_where_def)
  have upd': "row_of tr_id j (update_where (\<lambda>r. tr_id r = thread_id_str (th_id t)) (excluded_row (thread_to_row t)) rows) =
        map_option (\<lambda>r. if tr_id r = thread_id_str (th_id t) then excluded_row (thread_to_row t) r else r) (row_of tr_id j rows)"
    for rows j
    by (rule upd) (simp add: id)
  show ?thesis
    using key
    by (cases "row_of tr_id k (db_threads db)")
       (auto simp: upsert_thread_def Let_def has_row_of id upd' merged_thread_def)
qed

text \<open>
  What is written about a thread is what is read back: after an upsert the index gives the thread
  without its turns and with a normalised directory, except that a thread it knew keeps the time of its
  creation, and its preview when the new one is empty. Every other thread reads as before.
\<close>
theorem upserted_thread_reads_back:
  "get_thread tid (upsert_thread t db) =
     (if tid = th_id t
      then Some (case get_thread tid db of
                   None \<Rightarrow> stored_thread t
                 | Some old \<Rightarrow>
                     (stored_thread t)
                       \<lparr>th_preview := (if th_preview t = [] then th_preview old else th_preview t),
                        th_created_at := th_created_at old\<rparr>)
      else get_thread tid db)"
proof -
  have str: "thread_id_str a = thread_id_str b \<longleftrightarrow> a = b" for a b by (cases a; cases b) simp
  have prev: "tr_preview (thread_to_row t) = th_preview t" by (simp add: thread_to_row_def)
  show ?thesis
    by (cases "row_of tr_id (thread_id_str tid) (db_threads db)")
       (auto simp: get_thread_def upsert_lookup merged_thread_def str prev excluded_row_def
          row_to_thread_update row_round_trip)
qed

text \<open>A directory is found however its end is written.\<close>

lemma normalize_trailing: "cwd \<noteq> [] \<Longrightarrow> cwd \<noteq> ''/'' \<Longrightarrow> normalize_cwd (cwd @ ''/'') = normalize_cwd cwd"
  by (auto simp: normalize_cwd_def)

section \<open>Search\<close>

definition lower_byte :: "char \<Rightarrow> char" where
  "lower_byte c = (if 65 \<le> (of_char c :: nat) \<and> (of_char c :: nat) \<le> 90 then char_of (of_char c + 32 :: nat) else c)"

lemma sql_lower_map: "sql_lower s = map lower_byte s"
  by (simp add: sql_lower_def lower_byte_def)

lemma of_char_lower:
  "(of_char (lower_byte c) :: nat) =
     (if 65 \<le> (of_char c :: nat) \<and> (of_char c :: nat) \<le> 90 then of_char c + 32 else of_char c)"
  by (simp add: lower_byte_def)

lemma lower_byte_idem [simp]: "lower_byte (lower_byte c) = lower_byte c"
  by (simp add: lower_byte_def)

lemma lower_continuation [simp]: "is_continuation (lower_byte c) = is_continuation c"
  by (auto simp: is_continuation_def of_char_lower)

lemma lower_keeps:
  "of_char d < (65::nat) \<or> (90::nat) < of_char d \<and> of_char d < (97::nat) \<Longrightarrow> lower_byte c = d \<longleftrightarrow> c = d"
proof -
  assume d: "of_char d < (65::nat) \<or> (90::nat) < of_char d \<and> of_char d < (97::nat)"
  have eq: "a = b \<longleftrightarrow> (of_char a :: nat) = of_char b" for a b :: char by (simp only: of_char_eq_iff)
  show ?thesis unfolding eq [of "lower_byte c"] eq [of c] of_char_lower using d by auto
qed

lemma sql_lower_idem [simp]: "sql_lower (sql_lower s) = sql_lower s"
  by (simp add: sql_lower_map)

lemma chars_lower: "chars (sql_lower s) = map sql_lower (chars s)"
proof (induction s)
  case (Cons c cs)
  have "hd (map lower_byte ch) = lower_byte (hd ch)" if "ch \<in> set (chars cs)" for ch
    using that chars_nonempty [of cs] by (metis hd_map)
  then show ?case using Cons by (auto simp: sql_lower_map split: list.splits)
qed (simp add: sql_lower_def)

definition is_special :: "string \<Rightarrow> bool" where
  "is_special ch \<longleftrightarrow> ch = ''%'' \<or> ch = ''_'' \<or> ch = [CHR 0x5C]"

definition like_token :: "string \<Rightarrow> string list" where
  "like_token ch = (if is_special ch then [[CHR 0x5C], ch] else [ch])"

lemma special_lower: "is_special (sql_lower ch) = is_special ch"
proof -
  have "lower_byte c = CHR ''%'' \<longleftrightarrow> c = CHR ''%''" "lower_byte c = CHR ''_'' \<longleftrightarrow> c = CHR ''_''"
    "lower_byte c = CHR 0x5C \<longleftrightarrow> c = CHR 0x5C" for c
    by (simp_all add: lower_keeps)
  then show ?thesis by (auto simp: is_special_def sql_lower_map map_eq_Cons_conv)
qed

lemma lower_token: "map sql_lower (like_token ch) = like_token (sql_lower ch)"
proof -
  have "sql_lower [CHR 0x5C] = [CHR 0x5C]" by (simp add: sql_lower_def)
  then show ?thesis by (simp add: like_token_def special_lower)
qed

lemma like_rest: "like [''%''] s"
  by (induction s) (simp_all add: )

lemma like_prefix:
  assumes "\<forall>ch \<in> set qs. sql_lower ch = ch" "\<forall>ch \<in> set s. sql_lower ch = ch"
  shows "like (concat (map like_token qs) @ [''%'']) s \<longleftrightarrow> prefix qs s"
  using assms
proof (induction qs arbitrary: s)
  case Nil
  then show ?case using like_rest by simp
next
  case (Cons q qs)
  show ?case
  proof (cases s)
    case Nil
    then show ?thesis by (simp add: like_token_def is_special_def)
  next
    case (Cons c cs)
    then have "like (concat (map like_token (q # qs)) @ [''%'']) s \<longleftrightarrow>
                 q = c \<and> like (concat (map like_token qs) @ [''%'']) cs"
      using Cons.prems by (cases "is_special q") (simp_all add: like_token_def is_special_def)
    then show ?thesis using Cons Cons.IH [of cs] Cons.prems by simp
  qed
qed

lemma like_anywhere:
  assumes "\<forall>ch \<in> set qs. sql_lower ch = ch" "\<forall>ch \<in> set s. sql_lower ch = ch"
  shows "like (''%'' # concat (map like_token qs) @ [''%'']) s \<longleftrightarrow> sublist qs s"
  using assms(2)
proof (induction s)
  case Nil
  then show ?case using like_prefix [OF assms(1), of "[]"] by simp
next
  case (Cons c cs)
  then show ?case using like_prefix [OF assms(1), of "c # cs"] by (simp add: sublist_Cons_right)
qed

definition contains_text :: "string \<Rightarrow> string \<Rightarrow> bool" where
  "contains_text q s = sublist (chars (sql_lower q)) (chars (sql_lower s))"

lemma escape_tokens:
  "concat (map (\<lambda>ch. if ch = ''%'' \<or> ch = ''_'' \<or> ch = [CHR 0x5C] then CHR 0x5C # ch else ch) chs) =
   concat (concat (map like_token chs))"
  by (induction chs) (auto simp: like_token_def is_special_def)

lemma escaped_chars:
  assumes "utf8_shaped q"
  shows "chars (''%'' @ escape_like q @ ''%'') = ''%'' # concat (map like_token (chars q)) @ [''%'']"
proof -
  have "escape_like q = concat (concat (map like_token (chars q)))"
    unfolding escape_like_def by (rule escape_tokens)
  then have "''%'' @ escape_like q @ ''%'' = concat (''%'' # concat (map like_token (chars q)) @ [''%''])"
    by simp
  moreover have "char_shaped ch" if "ch \<in> set (''%'' # concat (map like_token (chars q)) @ [''%''])" for ch
    using that chars_shaped [OF assms] by (auto simp: like_token_def is_continuation_def split: if_splits)
  ultimately show ?thesis using chars_concat by metis
qed

lemma sql_like_contains:
  assumes "utf8_shaped q"
  shows "sql_like (''%'' @ escape_like q @ ''%'') s \<longleftrightarrow> contains_text q s"
proof -
  have low: "\<forall>ch \<in> set (chars (sql_lower x)). sql_lower ch = ch" for x
    unfolding chars_lower by auto
  have "chars (sql_lower (''%'' @ escape_like q @ ''%'')) =
        ''%'' # concat (map like_token (chars (sql_lower q))) @ [''%'']"
    unfolding chars_lower escaped_chars [OF assms]
    by (simp add: map_concat lower_token o_def sql_lower_def [of "''%''"])
  then show ?thesis unfolding sql_like_def contains_text_def by (simp only: like_anywhere [OF low low])
qed

text \<open>
  A search finds exactly the threads whose name, preview or directory contains the query, without
  regard to the case of ASCII letters: the percent signs, underscores and backslashes of a query stand
  for themselves. With a directory only the threads in it are found, and the last updated come first.
\<close>
theorem search_is_substring:
  assumes "utf8_shaped query"
  shows "db_search_threads query cwd_filter db =
     map row_to_thread (sort_key (\<lambda>r. - tr_updated_at r)
       (filter (\<lambda>r. (case cwd_filter of Some cwd \<Rightarrow> tr_cwd r = normalize_cwd cwd | None \<Rightarrow> True) \<and>
                    (contains_text query (case tr_name r of Some n \<Rightarrow> n | None \<Rightarrow> []) \<or>
                     contains_text query (tr_preview r) \<or> contains_text query (tr_cwd r)))
          (db_threads db)))"
  unfolding db_search_threads_def row_matches_def Let_def sql_like_contains [OF assms]
  by (cases cwd_filter) simp_all

section \<open>The items of a turn\<close>

definition item_to_row :: "turn_id \<Rightarrow> int \<Rightarrow> item \<Rightarrow> string \<Rightarrow> item_row" where
  "item_to_row turn seq it payload =
     \<lparr>ir_id = item_id_str (item_id_of it), ir_turn_id = turn_id_str turn, ir_seq = seq,
      ir_kind = item_kind_str it, ir_payload = payload\<rparr>"

fun item_rows :: "(item \<Rightarrow> string + string) \<Rightarrow> turn_id \<Rightarrow> int \<Rightarrow> item list \<Rightarrow> item_row list" where
  "item_rows to_str turn seq [] = []"
| "item_rows to_str turn seq (it # its) =
     item_to_row turn seq it (case to_str it of Inr p \<Rightarrow> p | Inl _ \<Rightarrow> []) # item_rows to_str turn (seq + 1) its"

definition item_key :: "item \<Rightarrow> string" where
  "item_key it = item_id_str (item_id_of it)"

definition written_by :: "(item \<Rightarrow> string + string) \<Rightarrow> item list \<Rightarrow> bool" where
  "written_by to_str its = (distinct (map item_key its) \<and> list_all (\<lambda>it. \<not> isl (to_str it)) its)"

lemma append_item_row:
  assumes "\<not> isl (to_str it)" "has_row ur_id (turn_id_str turn) (db_turns db)"
  shows "append_item to_str turn seq it db =
    (Inr (), db\<lparr>db_items := filter (\<lambda>r. ir_id r \<noteq> item_key it) (db_items db) @
                   [item_to_row turn seq it (case to_str it of Inr p \<Rightarrow> p | Inl _ \<Rightarrow> [])]\<rparr>)"
  using assms by (cases "to_str it") (simp_all add: append_item_def replace_row_def item_to_row_def item_key_def)

lemma run_append_items:
  assumes "has_row ur_id (turn_id_str turn) (db_turns db)" "written_by to_str its"
  shows "run_checked to_str (append_items turn seq its) db =
    (Inr (), db\<lparr>db_items := filter (\<lambda>r. ir_id r \<notin> item_key ` set its) (db_items db) @ item_rows to_str turn seq its\<rparr>)"
  using assms
proof (induction its arbitrary: seq db)
  case Nil
  then show ?case by simp
next
  case (Cons it its)
  let ?row = "item_to_row turn seq it (case to_str it of Inr p \<Rightarrow> p | Inl _ \<Rightarrow> [])"
  let ?db = "db\<lparr>db_items := filter (\<lambda>r. ir_id r \<noteq> item_key it) (db_items db) @ [?row]\<rparr>"
  have it: "\<not> isl (to_str it)" "written_by to_str its" "item_key it \<notin> item_key ` set its"
    using Cons.prems(2) by (auto simp: written_by_def)
  have "append_item to_str turn seq it db = (Inr (), ?db)" using it(1) Cons.prems(1)
    by (intro append_item_row [where db = db and turn = turn and it = it and to_str = to_str and seq = seq])
  moreover have "run_checked to_str (append_items turn (seq + 1) its) ?db =
    (Inr (), ?db\<lparr>db_items := filter (\<lambda>r. ir_id r \<notin> item_key ` set its) (db_items ?db) @
                    item_rows to_str turn (seq + 1) its\<rparr>)"
    using Cons.IH [of ?db "seq + 1"] Cons.prems(1) it(2) by simp
  moreover have "ir_id ?row = item_key it" by (simp add: item_to_row_def item_key_def)
  ultimately show ?case using it(3) by (auto intro: filter_cong)
qed

lemma item_rows_turn: "r \<in> set (item_rows to_str turn seq its) \<Longrightarrow> ir_turn_id r = turn_id_str turn \<and> seq \<le> ir_seq r"
  by (induction its arbitrary: seq) (force simp: item_to_row_def)+

lemma item_rows_ids: "ir_id ` set (item_rows to_str turn seq its) = item_key ` set its"
  by (induction its arbitrary: seq) (auto simp: item_to_row_def item_key_def)

lemma item_rows_sorted: "sorted (map ir_seq (item_rows to_str turn seq its))"
proof (induction its arbitrary: seq)
  case (Cons it its)
  then show ?case using item_rows_turn [of _ to_str turn "seq + 1" its] by (fastforce simp: item_to_row_def)
qed simp

lemma item_rows_decode:
  "\<forall>it \<in> set its. \<exists>p. to_str it = Inr p \<and> from_str p = Inr it \<Longrightarrow>
   decode_rows from_str (item_rows to_str turn seq its) = Inr its"
proof (induction its arbitrary: seq)
  case (Cons it its)
  then obtain p where "to_str it = Inr p" "from_str p = Inr it" by auto
  with Cons show ?case by (simp add: item_to_row_def)
qed simp

lemma item_rows_page:
  "\<exists>seq'. take n (drop m (item_rows to_str turn seq its)) = item_rows to_str turn seq' (take n (drop m its))"
proof -
  have "\<exists>seq'. drop m (item_rows to_str turn seq its) = item_rows to_str turn seq' (drop m its)" for seq
  proof (induction its arbitrary: seq m)
    case (Cons it its)
    show ?case
    proof (cases m)
      case 0
      show ?thesis unfolding 0 drop_0 by (rule exI [of _ seq]) (rule refl)
    next
      case (Suc k)
      then show ?thesis using Cons.IH [of k "seq + 1"] by simp
    qed
  qed simp
  then obtain s where s: "drop m (item_rows to_str turn seq its) = item_rows to_str turn s (drop m its)" by blast
  have "take n (item_rows to_str turn seq its) = item_rows to_str turn seq (take n its)" for seq its
  proof (induction its arbitrary: seq n)
    case (Cons it its)
    then show ?case by (cases n) simp_all
  qed simp
  then show ?thesis unfolding s by blast
qed

lemma turn_rows_after:
  assumes "has_row ur_id (turn_id_str turn) (db_turns db)" "written_by to_str its"
    and "\<forall>r \<in> set (turn_rows turn db). ir_id r \<in> item_key ` set its"
  shows "turn_rows turn (snd (run_checked to_str (append_items turn seq its) db)) = item_rows to_str turn seq its"
proof -
  have "filter (\<lambda>r. ir_turn_id r = turn_id_str turn)
          (filter (\<lambda>r. ir_id r \<notin> item_key ` set its) (db_items db)) = []"
    using assms(3) by (auto simp: turn_rows_def filter_empty_conv)
  moreover have "filter (\<lambda>r. ir_turn_id r = turn_id_str turn) (item_rows to_str turn seq its) = item_rows to_str turn seq its"
    using item_rows_turn by (auto simp: filter_id_conv)
  ultimately show ?thesis
    unfolding run_append_items [OF assms(1,2)]
    by (simp add: turn_rows_def sort_key_id_if_sorted item_rows_sorted)
qed

lemma turn_rows_other:
  assumes "has_row ur_id (turn_id_str turn) (db_turns db)" "written_by to_str its"
    and "turn_id_str other \<noteq> turn_id_str turn"
  shows "turn_rows other (snd (run_checked to_str (append_items turn seq its) db)) =
         filter (\<lambda>r. ir_id r \<notin> item_key ` set its) (turn_rows other db)"
proof -
  have "filter (\<lambda>r. ir_turn_id r = turn_id_str other) (item_rows to_str turn seq its) = []"
    using item_rows_turn assms(3) by (fastforce simp: filter_empty_conv)
  then show ?thesis
    unfolding run_append_items [OF assms(1,2)]
    by (simp add: turn_rows_def filter_sort [symmetric] conj_commute)
qed

text \<open>
  The items of a turn are read back as they were written, in order, and a page of them is the
  corresponding piece: negative bounds count as zero, and what lies past the end is empty.
\<close>
theorem turn_items_read_back:
  assumes turn: "has_row ur_id (turn_id_str turn) (db_turns db)" "turn_rows turn db = []"
    and ids: "distinct (map item_key its)"
    and serde: "\<forall>it \<in> set its. \<exists>p. to_str it = Inr p \<and> from_str p = Inr it"
  shows "\<exists>db'. run_checked to_str (append_items turn 0 its) db = (Inr (), db') \<and>
           get_turn_items from_str turn db' = Inr its \<and>
           load_items_page from_str turn offset limit db' =
             Inr (take (nat (max limit 0)) (drop (nat (max offset 0)) its))"
proof -
  have w: "written_by to_str its" using ids serde by (force simp: written_by_def list_all_iff)
  let ?db = "snd (run_checked to_str (append_items turn 0 its) db)"
  have rows: "turn_rows turn ?db = item_rows to_str turn 0 its"
    using turn_rows_after [OF turn(1) w] turn(2) by simp
  obtain s where page: "take (nat (max limit 0)) (drop (nat (max offset 0)) (item_rows to_str turn 0 its)) =
      item_rows to_str turn s (take (nat (max limit 0)) (drop (nat (max offset 0)) its))"
    using item_rows_page by blast
  have "decode_rows from_str (item_rows to_str turn s (take (nat (max limit 0)) (drop (nat (max offset 0)) its))) =
        Inr (take (nat (max limit 0)) (drop (nat (max offset 0)) its))"
    using serde by (intro item_rows_decode) (meson in_set_dropD in_set_takeD)
  then show ?thesis
    using run_append_items [OF turn(1) w, of 0] rows page item_rows_decode [OF serde]
    by (simp add: get_turn_items_def load_items_page_def)
qed

text \<open>
  C37: A copy takes the originals away: the items of a turn that are written again under another turn with
  their identifiers, as a fork writes the items it copies, leave the turn they came from, whose items
  then read as none. The primary key of an item is its identifier alone.
\<close>
theorem copied_items_leave_their_turn:
  assumes turns: "has_row ur_id (turn_id_str turn) (db_turns db)" "has_row ur_id (turn_id_str copy) (db_turns db)"
      "turn_id_str copy \<noteq> turn_id_str turn" "turn_rows turn db = []" "turn_rows copy db = []"
    and ids: "distinct (map item_key its)"
    and serde: "\<forall>it \<in> set its. \<exists>p. to_str it = Inr p \<and> from_str p = Inr it"
  shows "\<exists>db'. run_checked to_str (append_items turn 0 its @ append_items copy 0 its) db = (Inr (), db') \<and>
           get_turn_items from_str turn db' = Inr [] \<and> get_turn_items from_str copy db' = Inr its"
proof -
  have w: "written_by to_str its" using ids serde by (force simp: written_by_def list_all_iff)
  have append: "run_checked to_str (xs @ ys) d =
      (case run_checked to_str xs d of (Inr _, d') \<Rightarrow> run_checked to_str ys d' | (Inl e, d') \<Rightarrow> (Inl e, d'))"
    for xs ys d
    by (induction xs arbitrary: d) (auto split: prod.splits sum.splits)
  obtain d1 where run1: "run_checked to_str (append_items turn 0 its) db = (Inr (), d1)"
    and turns1: "db_turns d1 = db_turns db"
    using run_append_items [OF turns(1) w] by fastforce
  have copy1: "has_row ur_id (turn_id_str copy) (db_turns d1)" using turns(2) turns1 by simp
  obtain d2 where run2: "run_checked to_str (append_items copy 0 its) d1 = (Inr (), d2)"
    using run_append_items [OF copy1 w] by fastforce
  have one: "turn_rows turn d1 = item_rows to_str turn 0 its" "turn_rows copy d1 = []"
    using turn_rows_after [OF turns(1) w, of 0] turn_rows_other [OF turns(1) w turns(3), of 0] turns(4,5) run1
    by simp_all
  have "turn_rows turn d2 = filter (\<lambda>r. ir_id r \<notin> item_key ` set its) (item_rows to_str turn 0 its)"
    using turn_rows_other [OF copy1 w turns(3) [symmetric], of 0] one run2 by simp
  also have "\<dots> = []" using item_rows_ids [of to_str turn 0 its] by (auto simp: filter_empty_conv)
  finally have "turn_rows turn d2 = []" .
  moreover have "turn_rows copy d2 = item_rows to_str copy 0 its"
    using turn_rows_after [OF copy1 w, of 0] one run2 by simp
  ultimately show ?thesis
    using append [of "append_items turn 0 its" "append_items copy 0 its" db] run1 run2 item_rows_decode [OF serde]
    by (simp add: get_turn_items_def)
qed

section \<open>Rebuilding twice\<close>

fun item_write :: "(item \<Rightarrow> string + string) \<Rightarrow> sql_call \<Rightarrow> (string \<times> item_row) option" where
  "item_write to_str (AppendItem turn seq it) =
     (case to_str it of Inr p \<Rightarrow> Some (item_key it, item_to_row turn seq it p) | Inl _ \<Rightarrow> None)"
| "item_write to_str _ = None"

fun snapshot_write :: "sql_call \<Rightarrow> ((string \<times> string) \<times> snapshot_row) option" where
  "snapshot_write (RecordSnapshot tid turn tree preview created_at) =
     Some ((thread_id_str tid, turn_id_str turn),
           \<lparr>sr_thread_id = thread_id_str tid, sr_turn_id = turn_id_str turn, sr_tree = tree,
            sr_preview = preview, sr_created_at = created_at\<rparr>)"
| "snapshot_write _ = None"

definition last_write :: "(sql_call \<Rightarrow> ('k \<times> 'r) option) \<Rightarrow> sql_call list \<Rightarrow> 'k \<rightharpoonup> 'r" where
  "last_write f cs = map_of (rev (List.map_filter f cs))"

lemma last_write_simps [simp]:
  "last_write f [] = Map.empty"
  "last_write f (c # cs) = (case f c of None \<Rightarrow> Map.empty | Some (k, r) \<Rightarrow> [k \<mapsto> r]) ++ last_write f cs"
  by (auto simp: last_write_def map_filter_simps map_add_def fun_eq_iff split: option.splits)

lemma run_checked_Cons:
  "run_checked to_str (c # cs) db = (Inr (), db') \<longleftrightarrow>
   (\<exists>d. apply_call to_str c db = (Inr (), d) \<and> run_checked to_str cs d = (Inr (), db'))"
  by (auto split: prod.splits sum.splits)

lemma run_items:
  "run_checked to_str cs db = (Inr (), db') \<Longrightarrow>
   (\<lambda>k. row_of ir_id k (db_items db')) = (\<lambda>k. row_of ir_id k (db_items db)) ++ last_write (item_write to_str) cs"
proof (induction cs arbitrary: db)
  case (Cons c cs)
  then obtain d where d: "apply_call to_str c db = (Inr (), d)" "run_checked to_str cs d = (Inr (), db')"
    by (auto simp only: run_checked_Cons)
  have "(\<lambda>k. row_of ir_id k (db_items d)) =
        (\<lambda>k. row_of ir_id k (db_items db)) ++ (case item_write to_str c of None \<Rightarrow> Map.empty | Some (k, r) \<Rightarrow> [k \<mapsto> r])"
    using d(1)
    by (cases c)
       (auto simp: upsert_thread_def record_turn_start_def append_item_def record_turn_end_def set_thread_model_def
          set_thread_name_def db_record_snapshot_def item_to_row_def item_key_def fun_eq_iff Let_def
          split: sum.splits if_splits)
  with Cons.IH [OF d(2)] show ?case by simp
qed simp

lemma run_snapshots:
  "run_checked to_str cs db = (Inr (), db') \<Longrightarrow>
   (\<lambda>k. row_of snapshot_key k (db_snapshots db')) =
   (\<lambda>k. row_of snapshot_key k (db_snapshots db)) ++ last_write snapshot_write cs"
proof (induction cs arbitrary: db)
  case (Cons c cs)
  then obtain d where d: "apply_call to_str c db = (Inr (), d)" "run_checked to_str cs d = (Inr (), db')"
    by (auto simp only: run_checked_Cons)
  have "(\<lambda>k. row_of snapshot_key k (db_snapshots d)) =
        (\<lambda>k. row_of snapshot_key k (db_snapshots db)) ++
        (case snapshot_write c of None \<Rightarrow> Map.empty | Some (k, r) \<Rightarrow> [k \<mapsto> r])"
    using d(1)
    by (cases c)
       (auto simp: upsert_thread_def record_turn_start_def append_item_def record_turn_end_def set_thread_model_def
          set_thread_name_def db_record_snapshot_def snapshot_key_def fun_eq_iff Let_def
          split: sum.splits if_splits)
  with Cons.IH [OF d(2)] show ?case by simp
qed simp

text \<open>What a rebuild sends before it closes the turns.\<close>

fun body_call :: "sql_call \<Rightarrow> bool" where
  "body_call (UpsertThread t) = (th_preview t = [])"
| "body_call (RecordTurnStart _ _ _) = True"
| "body_call (AppendItem _ _ _) = True"
| "body_call (RecordSnapshot _ _ _ _ _) = True"
| "body_call _ = False"

fun thread_write :: "sql_call \<Rightarrow> (string \<times> thread_row) option" where
  "thread_write (UpsertThread t) = Some (thread_id_str (th_id t), thread_to_row t)"
| "thread_write _ = None"

fun turn_start :: "sql_call \<Rightarrow> (string \<times> turn_row) option" where
  "turn_start (RecordTurnStart tid turn started_at) =
     Some (turn_id_str turn,
           \<lparr>ur_id = turn_id_str turn, ur_thread_id = thread_id_str tid, ur_status = ''inProgress'',
            ur_error_message = None, ur_error_details = None, ur_started_at = Some started_at,
            ur_completed_at = None, ur_duration_ms = None\<rparr>)"
| "turn_start _ = None"

definition upserted :: "sql_call list \<Rightarrow> string list" where
  "upserted cs = map fst (List.map_filter thread_write cs)"

lemma upserted_simps [simp]:
  "upserted [] = []"
  "upserted (c # cs) = (case thread_write c of None \<Rightarrow> upserted cs | Some (k, r) \<Rightarrow> k # upserted cs)"
  "upserted (cs @ ds) = upserted cs @ upserted ds"
  by (auto simp: upserted_def map_filter_simps map_filter_def split: option.splits)

lemma append_items_body [simp]:
  "list_all body_call (append_items turn n its)" "upserted (append_items turn n its) = []"
  by (induction its arbitrary: n) simp_all

lemma rebuild_entry_body:
  assumes "rebuild_entry now entry (counts, seen) = (calls, counts', seen')"
  shows "list_all body_call calls \<and> distinct (upserted calls) \<and> set (upserted calls) \<inter> seen = {} \<and>
         seen' = seen \<union> set (upserted calls)"
  using assms by (cases entry) (auto simp: Let_def split: if_splits)

lemma rebuild_loop_split:
  "\<exists>body ends. rebuild_loop now entries (counts, seen) =
       body @ map (\<lambda>t. RecordTurnEnd t turn_status.Completed None now None) ends \<and>
     list_all body_call body \<and> distinct (upserted body) \<and> set (upserted body) \<inter> seen = {}"
proof (induction entries arbitrary: counts seen)
  case Nil
  have "map (\<lambda>(t, n). RecordTurnEnd t turn_status.Completed None now None) counts =
        map (\<lambda>t. RecordTurnEnd t turn_status.Completed None now None) (map fst counts)"
    by (simp add: o_def split_beta)
  then show ?case by (intro exI [of _ "[]"] exI [of _ "map fst counts"]) simp
next
  case (Cons entry rest)
  obtain calls counts' seen' where e: "rebuild_entry now entry (counts, seen) = (calls, counts', seen')"
    by (cases "rebuild_entry now entry (counts, seen)") auto
  obtain body ends where b: "rebuild_loop now rest (counts', seen') =
       body @ map (\<lambda>t. RecordTurnEnd t turn_status.Completed None now None) ends"
     "list_all body_call body" "distinct (upserted body)" "set (upserted body) \<inter> seen' = {}"
    using Cons.IH by blast
  note h = rebuild_entry_body [OF e]
  show ?case
    by (intro exI [of _ "calls @ body"] exI [of _ ends]) (use b h in \<open>auto simp: e\<close>)
qed

lemma run_threads:
  "run_checked to_str cs db = (Inr (), db') \<Longrightarrow> list_all body_call cs \<Longrightarrow> distinct (upserted cs) \<Longrightarrow>
   row_of tr_id k (db_threads db') =
     (case last_write thread_write cs k of
        None \<Rightarrow> row_of tr_id k (db_threads db)
      | Some new \<Rightarrow> Some (merged_thread (row_of tr_id k (db_threads db)) new))"
proof (induction cs arbitrary: db)
  case (Cons c cs)
  then obtain d where d: "apply_call to_str c db = (Inr (), d)" "run_checked to_str cs d = (Inr (), db')"
    by (auto simp only: run_checked_Cons)
  have rest: "list_all body_call cs" "distinct (upserted cs)"
    using Cons.prems by (auto split: option.splits)
  have dom: "last_write thread_write cs j = None" if "j \<notin> set (upserted cs)" for j
    using that by (auto simp: last_write_def upserted_def map_of_eq_None_iff)
  show ?case
  proof (cases "\<exists>t. c = UpsertThread t")
    case True
    then obtain t where t: "c = UpsertThread t" by blast
    then have "thread_id_str (th_id t) \<notin> set (upserted cs)" using Cons.prems by simp
    then show ?thesis
      using Cons.IH [OF d(2) rest] d(1) t dom by (auto simp: upsert_lookup split: option.splits)
  next
    case False
    then have "db_threads d = db_threads db"
      using d(1) Cons.prems(2)
      by (cases c) (auto simp: record_turn_start_def append_item_def db_record_snapshot_def
          split: if_splits sum.splits)
    moreover have "thread_write c = None" using False by (cases c) auto
    ultimately show ?thesis using Cons.IH [OF d(2) rest] by (simp split: option.split)
  qed
qed simp

lemma run_starts:
  "run_checked to_str cs db = (Inr (), db') \<Longrightarrow> list_all body_call cs \<Longrightarrow>
   row_of ur_id k (db_turns db') =
     (case row_of ur_id k (db_turns db) of
        Some r \<Rightarrow> Some r
      | None \<Rightarrow> map_of (List.map_filter turn_start cs) k)"
proof (induction cs arbitrary: db)
  case (Cons c cs)
  then obtain d where d: "apply_call to_str c db = (Inr (), d)" "run_checked to_str cs d = (Inr (), db')"
    by (auto simp only: run_checked_Cons)
  have rest: "list_all body_call cs" using Cons.prems by simp
  show ?case
  proof (cases "\<exists>tid turn now. c = RecordTurnStart tid turn now")
    case True
    then show ?thesis
      using Cons.IH [OF d(2) rest] d(1)
      by (auto simp: record_turn_start_def has_row_of map_filter_simps split: if_splits option.splits)
  next
    case False
    then have "db_turns d = db_turns db"
      using d(1) Cons.prems(2)
      by (cases c) (auto simp: append_item_def db_record_snapshot_def upsert_thread_def Let_def
          split: if_splits sum.splits)
    moreover have "turn_start c = None" using False by (cases c) auto
    ultimately show ?thesis using Cons.IH [OF d(2) rest] by (simp add: map_filter_simps split: option.split)
  qed
qed (simp add: map_filter_simps split: option.split)

definition close_turns :: "int \<Rightarrow> turn_id list \<Rightarrow> sql_call list" where
  "close_turns now ends = map (\<lambda>t. RecordTurnEnd t turn_status.Completed None now None) ends"

lemma run_ends:
  "\<exists>db'. run_checked to_str (close_turns now ends) db = (Inr (), db') \<and>
     db_threads db' = db_threads db \<and>
     (\<forall>k. row_of ur_id k (db_turns db') =
        map_option (\<lambda>r. if k \<in> turn_id_str ` set ends then end_turn_row turn_status.Completed None now None r else r)
          (row_of ur_id k (db_turns db)))"
proof (induction ends arbitrary: db)
  case Nil
  then show ?case by (simp add: close_turns_def option.map_ident)
next
  case (Cons t ends)
  let ?d = "record_turn_end t turn_status.Completed None now None db"
  have idem: "end_turn_row a None b None (end_turn_row a None b None r) = end_turn_row a None b None r" for a b r
    by (simp add: end_turn_row_def)
  have key: "ur_id x = k" if "row_of ur_id k (db_turns db) = Some x" for x k
    using that by (auto simp: row_of_def find_Some_iff)
  obtain db' where db': "run_checked to_str (close_turns now ends) ?d = (Inr (), db')"
    "db_threads db' = db_threads ?d"
    "\<And>k. row_of ur_id k (db_turns db') =
        map_option (\<lambda>r. if k \<in> turn_id_str ` set ends then end_turn_row turn_status.Completed None now None r else r)
          (row_of ur_id k (db_turns ?d))"
    using Cons.IH [of ?d] by blast
  have "run_checked to_str (close_turns now (t # ends)) db = (Inr (), db')"
    using db'(1) by (simp add: close_turns_def)
  moreover have "db_threads db' = db_threads db" using db'(2) by (simp add: record_turn_end_def)
  moreover have "row_of ur_id k (db_turns db') =
        map_option (\<lambda>r. if k \<in> turn_id_str ` set (t # ends) then end_turn_row turn_status.Completed None now None r else r)
          (row_of ur_id k (db_turns db))" for k
    unfolding db'(3) using key by (cases "row_of ur_id k (db_turns db)") (auto simp: record_turn_end_def idem)
  ultimately show ?case by blast
qed

text \<open>What a statement needs is still there once a rebuild has run: it deletes no thread and no turn.\<close>

definition covers :: "state_db \<Rightarrow> state_db \<Rightarrow> bool" where
  "covers db d = (tr_id ` set (db_threads db) \<subseteq> tr_id ` set (db_threads d) \<and>
                 ur_id ` set (db_turns db) \<subseteq> ur_id ` set (db_turns d))"

lemma upsert_keys: "tr_id ` set (db_threads (upsert_thread t db)) = insert (thread_id_str (th_id t)) (tr_id ` set (db_threads db))"
  by (auto simp: upsert_thread_def Let_def has_row_iff update_where_image thread_to_row_def excluded_row_def)

lemma other_thread_keys:
  "tr_id ` set (db_threads (set_thread_model tid a b db)) = tr_id ` set (db_threads db)"
  "tr_id ` set (db_threads (set_thread_name tid a db)) = tr_id ` set (db_threads db)"
  by (simp_all add: set_thread_model_def set_thread_name_def Let_def update_where_image)

lemma same_tables [simp]:
  "db_turns (upsert_thread t db) = db_turns db"
  "db_turns (set_thread_model tid a b db) = db_turns db"
  "db_turns (set_thread_name tid a db) = db_turns db"
  "db_threads (record_turn_end turn s e c d db) = db_threads db"
  "db_threads (db_record_snapshot tid turn a b c db) = db_threads db"
  "db_turns (db_record_snapshot tid turn a b c db) = db_turns db"
  "db_threads (snd (append_item to_str turn seq it db)) = db_threads db"
  "db_turns (snd (append_item to_str turn seq it db)) = db_turns db"
  "db_threads (snd (record_turn_start tid turn now db)) = db_threads db"
  by (simp_all add: upsert_thread_def set_thread_model_def set_thread_name_def record_turn_end_def
      db_record_snapshot_def append_item_def record_turn_start_def Let_def split: sum.split)

lemma turn_keys:
  "ur_id ` set (db_turns (record_turn_end turn s e c d db)) = ur_id ` set (db_turns db)"
  "fst (record_turn_start tid turn now db) = Inr () \<Longrightarrow>
   ur_id ` set (db_turns (snd (record_turn_start tid turn now db))) = insert (turn_id_str turn) (ur_id ` set (db_turns db))"
  "fst (record_turn_start tid turn now db) \<noteq> Inr () \<Longrightarrow> db_turns (snd (record_turn_start tid turn now db)) = db_turns db"
  by (auto simp: record_turn_end_def update_where_image record_turn_start_def has_row_iff split: if_splits)

lemma covers_call: "covers db (snd (apply_call to_str c db))"
proof (cases c)
  case (RecordTurnStart tid turn now)
  then show ?thesis
    using turn_keys(2) [of tid turn now db] turn_keys(3) [of tid turn now db]
    by (cases "fst (record_turn_start tid turn now db) = Inr ()") (auto simp: covers_def)
qed (auto simp: covers_def upsert_keys other_thread_keys turn_keys(1))

lemma covers_trans: "covers a b \<Longrightarrow> covers b c \<Longrightarrow> covers a c"
  unfolding covers_def using subset_trans by metis

lemma covers_run: "covers db (snd (run_checked to_str cs db))"
proof (induction cs arbitrary: db)
  case (Cons c cs)
  obtain r d where d: "apply_call to_str c db = (r, d)" by (cases "apply_call to_str c db")
  have "covers db d" using covers_call [of db to_str c] d by simp
  then show ?case using Cons.IH [of d] d by (cases r) (auto intro: covers_trans)
qed (simp add: covers_def)

lemma call_again:
  assumes ok: "fst (apply_call to_str c db) = Inr ()" and cov: "covers db d"
  shows "fst (apply_call to_str c d) = Inr () \<and> covers (snd (apply_call to_str c db)) (snd (apply_call to_str c d))"
proof (cases c)
  case (RecordTurnStart tid turn now)
  then have "fst (record_turn_start tid turn now db) = Inr ()" using ok by simp
  moreover from this have again: "fst (record_turn_start tid turn now d) = Inr ()"
    using cov by (auto simp: record_turn_start_def has_row_iff covers_def split: if_splits)
  ultimately show ?thesis
    using cov RecordTurnStart turn_keys(2) [of tid turn now]
    by (simp add: covers_def subset_insertI2)
next
  case (AppendItem turn seq it)
  then have "fst (append_item to_str turn seq it d) = Inr ()"
    using ok cov by (auto simp: append_item_def has_row_iff covers_def split: sum.splits if_splits)
  then show ?thesis using cov AppendItem by (simp add: covers_def)
next
  case (UpsertThread t)
  then show ?thesis using cov by (auto simp: covers_def upsert_keys)
qed (use cov in \<open>simp_all add: covers_def other_thread_keys turn_keys(1)\<close>)

lemma run_again:
  "fst (run_checked to_str cs db) = Inr () \<Longrightarrow> covers db d \<Longrightarrow> fst (run_checked to_str cs d) = Inr ()"
proof (induction cs arbitrary: db d)
  case (Cons c cs)
  obtain r e where e: "apply_call to_str c db = (r, e)" by (cases "apply_call to_str c db")
  obtain r' d1 where d1: "apply_call to_str c d = (r', d1)" by (cases "apply_call to_str c d")
  have "r = Inr ()" using Cons.prems(1) e by (cases r) auto
  then have "r' = Inr ()" "covers e d1"
    using call_again [of to_str c db d] e d1 Cons.prems(2) by simp_all
  then show ?case using Cons.IH [of e d1] Cons.prems(1) e d1 \<open>r = Inr ()\<close> by simp
qed simp

text \<open>The same rows under the same keys.\<close>

definition same_index :: "state_db \<Rightarrow> state_db \<Rightarrow> bool" where
  "same_index a b =
     ((\<forall>k. row_of tr_id k (db_threads a) = row_of tr_id k (db_threads b)) \<and>
      (\<forall>k. row_of ur_id k (db_turns a) = row_of ur_id k (db_turns b)) \<and>
      (\<forall>k. row_of ir_id k (db_items a) = row_of ir_id k (db_items b)) \<and>
      (\<forall>k. row_of snapshot_key k (db_snapshots a) = row_of snapshot_key k (db_snapshots b)))"

lemma merged_twice:
  "tr_preview new = [] \<Longrightarrow> merged_thread (Some (merged_thread old new)) new = merged_thread old new"
  by (cases old) (simp_all add: merged_thread_def excluded_row_def)

lemma written_previews:
  "list_all body_call cs \<Longrightarrow> last_write thread_write cs k = Some new \<Longrightarrow> tr_preview new = []"
proof -
  assume body: "list_all body_call cs" and new: "last_write thread_write cs k = Some new"
  have "(k, new) \<in> set (List.map_filter thread_write cs)"
    using map_of_SomeD [OF new [unfolded last_write_def]] by simp
  then obtain c where "c \<in> set cs" "thread_write c = Some (k, new)"
    by (auto simp: List.map_filter_def)
  with body show "tr_preview new = []"
    by (cases c) (auto simp: list_all_iff thread_to_row_def)
qed

lemma run_checked_append:
  "run_checked to_str (xs @ ys) db = (Inr (), db') \<longleftrightarrow>
   (\<exists>d. run_checked to_str xs db = (Inr (), d) \<and> run_checked to_str ys d = (Inr (), db'))"
proof (induction xs arbitrary: db)
  case (Cons x xs)
  show ?case unfolding append_Cons run_checked_Cons Cons.IH by blast
qed simp

lemma rebuild_calls_split:
  "\<exists>body ends. rebuild_calls now entries = body @ close_turns now ends \<and>
     list_all body_call body \<and> distinct (upserted body)"
  using rebuild_loop_split [of now entries "[]" "{}"] unfolding rebuild_calls_def close_turns_def by blast

lemma rebuild_threads:
  assumes body: "list_all body_call body" "distinct (upserted body)"
    and runs: "run_checked to_str (body @ close_turns now ends) db = (Inr (), db1)"
      "run_checked to_str (body @ close_turns now ends) db1 = (Inr (), db2)"
  shows "row_of tr_id k (db_threads db2) = row_of tr_id k (db_threads db1)"
proof -
  have step: "row_of tr_id k (db_threads b) =
      (case last_write thread_write body k of
         None \<Rightarrow> row_of tr_id k (db_threads a)
       | Some new \<Rightarrow> Some (merged_thread (row_of tr_id k (db_threads a)) new))"
    if r: "run_checked to_str (body @ close_turns now ends) a = (Inr (), b)" for a b
  proof -
    obtain d where d: "run_checked to_str body a = (Inr (), d)" "run_checked to_str (close_turns now ends) d = (Inr (), b)"
      using r by (auto simp only: run_checked_append)
    have "db_threads b = db_threads d" using run_ends [of to_str now ends d] d(2) by auto
    with run_threads [OF d(1) body] show ?thesis by simp
  qed
  show ?thesis
  proof (cases "last_write thread_write body k")
    case None
    with step [OF runs(2)] show ?thesis by simp
  next
    case (Some new)
    with step [OF runs(1)] step [OF runs(2)] merged_twice [OF written_previews [OF body(1) Some]]
    show ?thesis by simp
  qed
qed

lemma rebuild_turns:
  assumes body: "list_all body_call body"
    and runs: "run_checked to_str (body @ close_turns now ends) db = (Inr (), db1)"
      "run_checked to_str (body @ close_turns now ends) db1 = (Inr (), db2)"
  shows "row_of ur_id k (db_turns db2) = row_of ur_id k (db_turns db1)"
proof -
  let ?f = "\<lambda>r. if k \<in> turn_id_str ` set ends then end_turn_row turn_status.Completed None now None r else r"
  have step: "row_of ur_id k (db_turns b) =
      map_option ?f (case row_of ur_id k (db_turns a) of
                       Some r \<Rightarrow> Some r | None \<Rightarrow> map_of (List.map_filter turn_start body) k)"
    if r: "run_checked to_str (body @ close_turns now ends) a = (Inr (), b)" for a b
  proof -
    obtain d where d: "run_checked to_str body a = (Inr (), d)" "run_checked to_str (close_turns now ends) d = (Inr (), b)"
      using r by (auto simp only: run_checked_append)
    have "row_of ur_id k (db_turns b) = map_option ?f (row_of ur_id k (db_turns d))"
      using run_ends [of to_str now ends d] d(2) by auto
    with run_starts [OF d(1) body] show ?thesis by simp
  qed
  have "?f (?f r) = ?f r" for r by (simp add: end_turn_row_def)
  then show ?thesis
    using step [OF runs(1)] step [OF runs(2)]
    by (cases "row_of ur_id k (db_turns db)"; cases "map_of (List.map_filter turn_start body) k") auto
qed

text \<open>
  C35: Rebuilding the index of a log is idempotent: once a rebuild has succeeded, rebuilding the same log at
  the same time succeeds again and leaves every row of every table as it is.
\<close>
theorem rebuild_is_idempotent:
  assumes "rebuild_index to_str now entries db = (Inr (), db1)"
  shows "\<exists>db2. rebuild_index to_str now entries db1 = (Inr (), db2) \<and> same_index db2 db1"
proof -
  obtain body ends where split: "rebuild_calls now entries = body @ close_turns now ends"
    "list_all body_call body" "distinct (upserted body)"
    using rebuild_calls_split by blast
  let ?cs = "rebuild_calls now entries"
  have run1: "run_checked to_str ?cs db = (Inr (), db1)" using assms by (simp add: rebuild_index_def)
  have "covers db db1" using covers_run [of db to_str ?cs] run1 by simp
  then obtain db2 where run2: "run_checked to_str ?cs db1 = (Inr (), db2)"
    using run_again [of to_str ?cs db db1] run1 by (cases "run_checked to_str ?cs db1") auto
  have twice: "(f ++ m) ++ m = f ++ m" for f m :: "'a \<Rightarrow> 'b option" by (simp add: map_add_def fun_eq_iff split: option.split)
  have "(\<lambda>k. row_of ir_id k (db_items db2)) = (\<lambda>k. row_of ir_id k (db_items db1))"
    unfolding run_items [OF run2] unfolding run_items [OF run1] by (rule twice)
  moreover have "(\<lambda>k. row_of snapshot_key k (db_snapshots db2)) = (\<lambda>k. row_of snapshot_key k (db_snapshots db1))"
    unfolding run_snapshots [OF run2] unfolding run_snapshots [OF run1] by (rule twice)
  ultimately have "same_index db2 db1"
    using rebuild_threads [OF split(2,3) run1 [unfolded split(1)] run2 [unfolded split(1)]]
      rebuild_turns [OF split(2) run1 [unfolded split(1)] run2 [unfolded split(1)]]
    by (auto simp: same_index_def fun_eq_iff)
  then show ?thesis using run2 by (auto simp: rebuild_index_def)
qed

text \<open>A rebuild over a live index forgets: a name set by the user goes, since no entry of the log keeps it.\<close>

lemma rebuild_forgets_name:
  "row_of tr_id sid (db_threads db) = Some r \<Longrightarrow>
   map_option tr_name (row_of tr_id sid (db_threads (snd (rebuild_index to_str now [Session v sid ts cwd p sp src] db)))) =
     Some None"
  by (simp add: rebuild_index_def rebuild_calls_def upsert_lookup merged_thread_def excluded_row_def thread_to_row_def)

section \<open>A small index\<close>

definition small_index :: state_db where
  "small_index =
     \<lparr>db_threads = [\<lparr>tr_id = ''t'', tr_session_id = None, tr_forked_from = None, tr_subagent_parent = None,
                    tr_preview = ''A_b'', tr_ephemeral = 0, tr_model_provider = ''p'', tr_created_at = 1,
                    tr_updated_at = 2, tr_status = ''idle'', tr_cwd = ''/w'', tr_source = ''user'', tr_name = None\<rparr>],
      db_turns = [\<lparr>ur_id = ''u'', ur_thread_id = ''t'', ur_status = ''inProgress'', ur_error_message = None,
                   ur_error_details = None, ur_started_at = Some 1, ur_completed_at = None, ur_duration_ms = None\<rparr>,
                  \<lparr>ur_id = ''v'', ur_thread_id = ''t'', ur_status = ''inProgress'', ur_error_message = None,
                   ur_error_details = None, ur_started_at = Some 1, ur_completed_at = None, ur_duration_ms = None\<rparr>],
      db_items = [], db_snapshots = []\<rparr>"

definition note_item :: item where
  "note_item = AgentMessage (ItemId ''i'') ''hi''"

lemma delete_cascades_witness: "db_turns (snd (db_delete_thread (ThreadId ''t'') small_index)) = []"
proof -
  have "db_ok small_index" by (simp add: db_ok_def small_index_def)
  from delete_cascades [OF this, of "ThreadId ''t''"] show ?thesis by (simp add: small_index_def)
qed

lemma search_is_substring_witness: "map th_preview (db_search_threads ''a_'' None small_index) = [''A_b'']"
proof -
  have "utf8_shaped ''a_''" by code_simp
  moreover have "contains_text ''a_'' ''A_b''" by code_simp
  ultimately show ?thesis
    using search_is_substring [of "''a_''" None small_index] by (simp add: small_index_def row_to_thread_def)
qed

lemma turn_items_read_back_witness:
  "\<exists>db'. run_checked (\<lambda>_. Inr []) (append_items (TurnId ''u'') 0 [note_item]) small_index = (Inr (), db') \<and>
     get_turn_items (\<lambda>_. Inr note_item) (TurnId ''u'') db' = Inr [note_item]"
proof -
  have "has_row ur_id (turn_id_str (TurnId ''u'')) (db_turns small_index)" "turn_rows (TurnId ''u'') small_index = []"
    by (simp_all add: small_index_def has_row_def turn_rows_def)
  from turn_items_read_back [OF this, of "[note_item]" "\<lambda>_. Inr []" "\<lambda>_. Inr note_item" 0 1] show ?thesis by auto
qed

lemma copied_items_leave_their_turn_witness:
  "\<exists>db'. run_checked (\<lambda>_. Inr []) (append_items (TurnId ''u'') 0 [note_item] @ append_items (TurnId ''v'') 0 [note_item])
           small_index = (Inr (), db') \<and> get_turn_items (\<lambda>_. Inr note_item) (TurnId ''u'') db' = Inr []"
proof -
  have "has_row ur_id (turn_id_str (TurnId ''u'')) (db_turns small_index)"
    "has_row ur_id (turn_id_str (TurnId ''v'')) (db_turns small_index)"
    "turn_id_str (TurnId ''v'') \<noteq> turn_id_str (TurnId ''u'')"
    "turn_rows (TurnId ''u'') small_index = []" "turn_rows (TurnId ''v'') small_index = []"
    by (simp_all add: small_index_def has_row_def turn_rows_def)
  from copied_items_leave_their_turn [OF this, of "[note_item]" "\<lambda>_. Inr []" "\<lambda>_. Inr note_item"] show ?thesis by auto
qed

lemma rebuild_is_idempotent_witness:
  "\<exists>db1 db2. rebuild_index (\<lambda>_. Inr []) 5 [Session SESSION_VERSION ''s'' 1 ''/w'' None None None, Item ''s'' ''x'' 1 note_item] state_db_new = (Inr (), db1) \<and>
     rebuild_index (\<lambda>_. Inr []) 5 [Session SESSION_VERSION ''s'' 1 ''/w'' None None None, Item ''s'' ''x'' 1 note_item] db1 = (Inr (), db2) \<and>
     same_index db2 db1"
proof -
  let ?es = "[Session SESSION_VERSION ''s'' 1 ''/w'' None None None, Item ''s'' ''x'' 1 note_item]"
  have "fst (rebuild_index (\<lambda>_. Inr []) 5 ?es state_db_new) = Inr ()" by code_simp
  then obtain db1 where "rebuild_index (\<lambda>_. Inr []) 5 ?es state_db_new = (Inr (), db1)"
    by (cases "rebuild_index (\<lambda>_. Inr []) 5 ?es state_db_new") auto
  with rebuild_is_idempotent [OF this] show ?thesis by blast
qed

end
