(* ===== verification/Session_Index.thy ===== *)
theory Session_Index
  imports State_Db Preview "HOL-Library.AList"
begin

text \<open>
  The passes over the whole index: filling previews and directories from the logs at start-up
  (\<open>persistence/mod.rs\<close>), rebuilding the index from a directory of logs (\<open>persistence/writer.rs\<close>), and the
  side file of session names (\<open>persistence/session_index.rs\<close>).
\<close>

section \<open>Filling metadata\<close>

record backfill_stats =
  bs_scanned :: nat
  bs_previews_filled :: nat
  bs_cwds_filled :: nat

datatype index_error = Storage storage_error | Db db_error

text \<open>The loop over the entries of a log: the directory of the first header, and the items.\<close>

fun log_metadata :: "rollout_entry list \<Rightarrow> string option \<times> item list \<Rightarrow> string option \<times> item list" where
  "log_metadata [] st = st"
| "log_metadata (entry # rest) (header_cwd, items) =
     log_metadata rest
       (case entry of
          Session _ _ _ cwd _ _ _ \<Rightarrow> (if header_cwd = None then (Some cwd, items) else (header_cwd, items))
        | Item _ _ _ it \<Rightarrow> (header_cwd, items @ [it])
        | _ \<Rightarrow> (header_cwd, items))"

fun backfill_loop ::
    "(string \<Rightarrow> string + rollout_entry) \<Rightarrow> (string \<Rightarrow> string option) \<Rightarrow> thread list \<Rightarrow> backfill_stats \<Rightarrow> state_db \<Rightarrow>
     (backfill_stats, storage_error) rust_result \<times> state_db" where
  "backfill_loop from_str files [] stats db = (Inr stats, db)"
| "backfill_loop from_str files (thread # rest) stats db =
     (if th_preview thread \<noteq> [] then backfill_loop from_str files rest stats db
      else
        (let stats = stats\<lparr>bs_scanned := Suc (bs_scanned stats)\<rparr>
         in case read_all from_str (files (rollout_file_name (thread_id_str (th_id thread)))) of
              Inl NotFound \<Rightarrow> backfill_loop from_str files rest stats db
            | Inl other \<Rightarrow> (Inl other, db)
            | Inr entries \<Rightarrow>
                (let (header_cwd, items) = log_metadata entries (None, []);
                     derived = derive_preview_from_items items;
                     (stats, db) =
                       (if derived \<noteq> []
                        then (stats\<lparr>bs_previews_filled := Suc (bs_previews_filled stats)\<rparr>,
                              set_thread_preview_if_empty (th_id thread) derived db)
                        else (stats, db));
                     (stats, db) =
                       (case header_cwd of
                          Some cwd \<Rightarrow> (stats\<lparr>bs_cwds_filled := Suc (bs_cwds_filled stats)\<rparr>,
                                       set_thread_cwd (th_id thread) cwd db)
                        | None \<Rightarrow> (stats, db))
                 in backfill_loop from_str files rest stats db)))"

definition backfill_thread_metadata ::
    "(string \<Rightarrow> string + rollout_entry) \<Rightarrow> (string \<Rightarrow> string option) \<Rightarrow> state_db \<Rightarrow>
     (backfill_stats, storage_error) rust_result \<times> state_db" where
  "backfill_thread_metadata from_str files db =
     backfill_loop from_str files (db_list_threads None db)
       \<lparr>bs_scanned = 0, bs_previews_filled = 0, bs_cwds_filled = 0\<rparr> db"

section \<open>Rebuilding from a directory\<close>

definition SESSION_INDEX_FILE :: string where
  "SESSION_INDEX_FILE = ''session_index.jsonl''"

record rebuild_stats =
  rb_threads_rebuilt :: nat
  rb_entries_replayed :: nat

text \<open>An extension is what follows the last dot of a name, if that dot is not its first character.\<close>

definition file_extension :: "string \<Rightarrow> string option" where
  "file_extension name =
     (let ext = rev (takeWhile (\<lambda>c. c \<noteq> CHR ''.'') (rev name));
          stem = dropWhile (\<lambda>c. c \<noteq> CHR ''.'') (rev name)
      in if length stem \<le> 1 then None else Some ext)"

fun is_session :: "rollout_entry \<Rightarrow> bool" where
  "is_session (Session _ _ _ _ _ _ _) = True"
| "is_session _ = False"

text \<open>The directory in the order it is read, each name with the bytes of its file when they can be read.\<close>

fun rebuild_files ::
    "(item \<Rightarrow> string + string) \<Rightarrow> (string \<Rightarrow> string + rollout_entry) \<Rightarrow> int \<Rightarrow> (string \<times> string option) list \<Rightarrow>
     rebuild_stats \<Rightarrow> state_db \<Rightarrow> (rebuild_stats, index_error) rust_result \<times> state_db" where
  "rebuild_files to_str from_str now [] stats db = (Inr stats, db)"
| "rebuild_files to_str from_str now ((name, file) # rest) stats db =
     (if file_extension name \<noteq> Some ''jsonl'' then rebuild_files to_str from_str now rest stats db
      else if name = SESSION_INDEX_FILE then rebuild_files to_str from_str now rest stats db
      else
        (case read_all_tolerant from_str file of
           Inl NotFound \<Rightarrow> rebuild_files to_str from_str now rest stats db
         | Inl other \<Rightarrow> (Inl (Storage other), db)
         | Inr entries \<Rightarrow>
             (let stats = stats\<lparr>rb_threads_rebuilt := min u64_max (rb_threads_rebuilt stats + length (filter is_session entries)),
                                rb_entries_replayed := min u64_max (rb_entries_replayed stats + length entries)\<rparr>
              in case rebuild_index to_str now entries db of
                   (Inl e, db) \<Rightarrow> (Inl (Db e), db)
                 | (Inr _, db) \<Rightarrow> rebuild_files to_str from_str now rest stats db)))"

definition rebuild_indexes_from_jsonl ::
    "(item \<Rightarrow> string + string) \<Rightarrow> (string \<Rightarrow> string + rollout_entry) \<Rightarrow> int \<Rightarrow> (string \<times> string option) list option \<Rightarrow>
     state_db \<Rightarrow> (rebuild_stats, index_error) rust_result \<times> state_db" where
  "rebuild_indexes_from_jsonl to_str from_str now dir db =
     (case dir of
        None \<Rightarrow> (Inr \<lparr>rb_threads_rebuilt = 0, rb_entries_replayed = 0\<rparr>, db)
      | Some names \<Rightarrow> rebuild_files to_str from_str now names \<lparr>rb_threads_rebuilt = 0, rb_entries_replayed = 0\<rparr> db)"

section \<open>The names of sessions\<close>

record session_index_entry =
  sx_thread_id :: string
  sx_name :: string
  sx_updated_at :: int

definition index_append :: "(session_index_entry \<Rightarrow> string) \<Rightarrow> session_index_entry \<Rightarrow> string option \<Rightarrow> string option" where
  "index_append to_vec entry file =
     Some ((case file of Some bytes \<Rightarrow> bytes | None \<Rightarrow> []) @ to_vec entry @ [newline])"

fun find_name_loop ::
    "(string \<Rightarrow> string + session_index_entry) \<Rightarrow> string \<Rightarrow> string list \<Rightarrow> string option \<Rightarrow> string option" where
  "find_name_loop from_str tid [] latest = latest"
| "find_name_loop from_str tid (line # rest) latest =
     (if blank line then find_name_loop from_str tid rest latest
      else case from_str line of
             Inl _ \<Rightarrow> find_name_loop from_str tid rest latest
           | Inr entry \<Rightarrow>
               find_name_loop from_str tid rest (if sx_thread_id entry = tid then Some (sx_name entry) else latest))"

definition find_name_by_id ::
    "(string \<Rightarrow> string + session_index_entry) \<Rightarrow> string option \<Rightarrow> string \<Rightarrow> string option" where
  "find_name_by_id from_str file tid =
     (case file of None \<Rightarrow> None | Some bytes \<Rightarrow> find_name_loop from_str tid (split_lines bytes) None)"

text \<open>The hash map is an association list; its values come in an order of its own.\<close>

fun latest_loop ::
    "(string \<Rightarrow> string + session_index_entry) \<Rightarrow> string list \<Rightarrow> (string \<times> session_index_entry) list \<Rightarrow>
     (string \<times> session_index_entry) list" where
  "latest_loop from_str [] latest = latest"
| "latest_loop from_str (line # rest) latest =
     (if blank line then latest_loop from_str rest latest
      else case from_str line of
             Inl _ \<Rightarrow> latest_loop from_str rest latest
           | Inr entry \<Rightarrow> latest_loop from_str rest (AList.update (sx_thread_id entry) entry latest))"

definition list_latest :: "(string \<Rightarrow> string + session_index_entry) \<Rightarrow> string option \<Rightarrow> session_index_entry list" where
  "list_latest from_str file =
     (case file of None \<Rightarrow> [] | Some bytes \<Rightarrow> map snd (latest_loop from_str (split_lines bytes) []))"

section \<open>What a pass leaves\<close>

text \<open>The row of a thread after the pass, from its log.\<close>

definition filled_row :: "(string \<Rightarrow> string + rollout_entry) \<Rightarrow> (string \<Rightarrow> string option) \<Rightarrow> thread_row \<Rightarrow> thread_row" where
  "filled_row from_str files r =
     (if tr_preview r \<noteq> [] then r
      else case read_all from_str (files (rollout_file_name (tr_id r))) of
             Inl _ \<Rightarrow> r
           | Inr entries \<Rightarrow>
               (let (header_cwd, items) = log_metadata entries (None, []);
                    r = r\<lparr>tr_preview := derive_preview_from_items items\<rparr>
                in case header_cwd of Some cwd \<Rightarrow> r\<lparr>tr_cwd := normalize_cwd cwd\<rparr> | None \<Rightarrow> r))"

lemma filled_id [simp]: "tr_id (filled_row from_str files r) = tr_id r"
  by (auto simp: filled_row_def Let_def split: sum.splits prod.splits option.splits)

definition touch_row :: "(string \<Rightarrow> string + rollout_entry) \<Rightarrow> (string \<Rightarrow> string option) \<Rightarrow> thread \<Rightarrow> state_db \<Rightarrow> state_db" where
  "touch_row from_str files thread db =
     db\<lparr>db_threads := map (\<lambda>r. if tr_id r = thread_id_str (th_id thread) then filled_row from_str files r else r) (db_threads db)\<rparr>"

lemma fill_preview:
  assumes "\<forall>r \<in> set (db_threads db). tr_id r = thread_id_str tid \<longrightarrow> tr_preview r = []"
  shows "db_threads (set_thread_preview_if_empty tid p db) =
         map (\<lambda>r. if tr_id r = thread_id_str tid then r\<lparr>tr_preview := p\<rparr> else r) (db_threads db)"
  using assms by (auto simp: set_thread_preview_if_empty_def update_where_def intro!: map_idI [symmetric])

lemma backfill_step:
  assumes run: "backfill_loop from_str files (thread # rest) stats db = (Inr stats', db')"
    and row: "\<forall>r \<in> set (db_threads db). tr_id r = thread_id_str (th_id thread) \<longrightarrow> tr_preview r = th_preview thread"
  shows "\<exists>stats''. backfill_loop from_str files rest stats'' (touch_row from_str files thread db) = (Inr stats', db')"
proof (cases "th_preview thread = []")
  case False
  then have "map (\<lambda>r. if tr_id r = thread_id_str (th_id thread) then filled_row from_str files r else r) (db_threads db) = db_threads db"
    using row by (intro map_idI) (auto simp: filled_row_def)
  then show ?thesis using run False by (auto simp: touch_row_def)
next
  case True
  let ?read = "read_all from_str (files (rollout_file_name (thread_id_str (th_id thread))))"
  show ?thesis
  proof (cases ?read)
    case (Inl e)
    then have "map (\<lambda>r. if tr_id r = thread_id_str (th_id thread) then filled_row from_str files r else r) (db_threads db) = db_threads db"
      by (intro map_idI) (auto simp: filled_row_def)
    then have "touch_row from_str files thread db = db" by (simp add: touch_row_def)
    then show ?thesis using run True Inl by (cases e) auto
  next
    case (Inr entries)
    obtain header_cwd items where m: "log_metadata entries (None, []) = (header_cwd, items)"
      by (cases "log_metadata entries (None, [])")
    let ?d = "derive_preview_from_items items"
    let ?db1 = "if ?d \<noteq> [] then set_thread_preview_if_empty (th_id thread) ?d db else db"
    have db1: "db_threads ?db1 =
        map (\<lambda>r. if tr_id r = thread_id_str (th_id thread) then r\<lparr>tr_preview := ?d\<rparr> else r) (db_threads db)"
    proof (cases "?d = []")
      case True
      with row \<open>th_preview thread = []\<close> show ?thesis by (auto intro!: map_idI [symmetric])
    qed (use row True fill_preview in simp)
    have rest: "db_turns ?db1 = db_turns db" "db_items ?db1 = db_items db" "db_snapshots ?db1 = db_snapshots db"
      by (simp_all add: set_thread_preview_if_empty_def)
    let ?db2 = "case header_cwd of Some cwd \<Rightarrow> set_thread_cwd (th_id thread) cwd ?db1 | None \<Rightarrow> ?db1"
    have "db_threads ?db2 = db_threads (touch_row from_str files thread db)"
      using row True Inr m
      by (cases header_cwd)
         (auto simp: db1 touch_row_def filled_row_def set_thread_cwd_def update_where_def o_def)
    moreover have "db_turns ?db2 = db_turns db" "db_items ?db2 = db_items db" "db_snapshots ?db2 = db_snapshots db"
      using rest by (auto simp: set_thread_cwd_def split: option.split)
    ultimately have "?db2 = touch_row from_str files thread db" by (simp add: touch_row_def state_db.equality)
    then show ?thesis using run True Inr m by (auto simp: Let_def split: option.splits if_splits)
  qed
qed

lemma backfill_rows:
  assumes "backfill_loop from_str files ts stats db = (Inr stats', db')"
    and "distinct (map (\<lambda>t. thread_id_str (th_id t)) ts)"
    and "\<forall>t \<in> set ts. \<forall>r \<in> set (db_threads db). tr_id r = thread_id_str (th_id t) \<longrightarrow> tr_preview r = th_preview t"
  shows "db' = db\<lparr>db_threads := map (\<lambda>r. if tr_id r \<in> (\<lambda>t. thread_id_str (th_id t)) ` set ts
                                       then filled_row from_str files r else r) (db_threads db)\<rparr>"
  using assms
proof (induction ts arbitrary: stats db)
  case Nil
  then show ?case by (simp add: state_db.equality map_idI)
next
  case (Cons t ts)
  let ?db = "touch_row from_str files t db"
  obtain stats'' where run: "backfill_loop from_str files ts stats'' ?db = (Inr stats', db')"
    using backfill_step [OF Cons.prems(1)] Cons.prems(3) by auto
  have "\<forall>u \<in> set ts. \<forall>r \<in> set (db_threads ?db). tr_id r = thread_id_str (th_id u) \<longrightarrow> tr_preview r = th_preview u"
    using Cons.prems(2,3) by (force simp: touch_row_def)
  from Cons.IH [OF run _ this] Cons.prems(2) show ?case
    by (auto simp: touch_row_def o_def image_iff intro!: map_cong)
qed

lemma filled_twice: "filled_row from_str files (filled_row from_str files r) = filled_row from_str files r"
  by (auto simp: filled_row_def Let_def split: sum.splits prod.splits option.splits)

text \<open>
  A backfill that succeeds gives every thread without a preview the preview and the directory its log
  yields, by the derivation the engine uses live, and changes nothing else; a second pass over the same
  logs changes nothing.
\<close>
theorem backfill_is_idempotent:
  assumes ok: "db_ok db" and run: "backfill_thread_metadata from_str files db = (Inr stats, db')"
  shows "db' = db\<lparr>db_threads := map (filled_row from_str files) (db_threads db)\<rparr> \<and>
         (\<forall>stats2 db2. backfill_thread_metadata from_str files db' = (Inr stats2, db2) \<longrightarrow> db2 = db')"
proof -
  have pass: "b = a\<lparr>db_threads := map (filled_row from_str files) (db_threads a)\<rparr>"
    if ok: "distinct (map tr_id (db_threads a))" and r: "backfill_thread_metadata from_str files a = (Inr st, b)" for a b st
  proof -
    let ?ts = "db_list_threads None a"
    have ids: "map (\<lambda>t. thread_id_str (th_id t)) ?ts = map tr_id (sort_key (\<lambda>r. - tr_updated_at r) (db_threads a))"
      by (simp add: db_list_threads_def row_to_thread_def)
    have "distinct (map (\<lambda>t. thread_id_str (th_id t)) ?ts)"
      unfolding ids using ok by (simp add: distinct_map)
    moreover have "tr_preview r = th_preview t"
      if m: "t \<in> set ?ts" "r \<in> set (db_threads a)" "tr_id r = thread_id_str (th_id t)" for t r
    proof -
      obtain r' where r': "r' \<in> set (db_threads a)" "t = row_to_thread r'"
        using m(1) unfolding db_list_threads_def Let_def option.case by auto
      then have "tr_id r = tr_id r'" using m(3) by (simp add: row_to_thread_def)
      then have "r = r'" using ok m(2) r'(1) by (auto simp: distinct_map inj_on_def)
      then show ?thesis using r'(2) by simp
    qed
    moreover have "(\<lambda>t. thread_id_str (th_id t)) ` set ?ts = tr_id ` set (db_threads a)"
      using arg_cong [OF ids, of set] by simp
    ultimately show ?thesis
      using backfill_rows [OF r [unfolded backfill_thread_metadata_def]] by (auto intro!: map_cong)
  qed
  have first: "db' = db\<lparr>db_threads := map (filled_row from_str files) (db_threads db)\<rparr>"
    using pass [OF _ run] ok by (simp add: db_ok_def)
  have "distinct (map tr_id (db_threads db'))" using ok by (simp add: first o_def db_ok_def)
  from pass [OF this] have "db2 = db'" if "backfill_thread_metadata from_str files db' = (Inr stats2, db2)" for stats2 db2
    using that by (auto simp: first filled_twice o_def)
  with first show ?thesis by blast
qed

section \<open>Names are read back\<close>

definition index_serde_ok ::
    "(session_index_entry \<Rightarrow> string) \<Rightarrow> (string \<Rightarrow> string + session_index_entry) \<Rightarrow> session_index_entry list \<Rightarrow> bool" where
  "index_serde_ok to_vec from_str es =
     list_all (\<lambda>e. newline \<notin> set (to_vec e) \<and> strip_cr (to_vec e) = to_vec e \<and>
                   \<not> blank (to_vec e) \<and> from_str (to_vec e) = Inr e) es"

lemma index_file:
  "fold (index_append to_vec) es (Some bytes) = Some (bytes @ concat (map (\<lambda>e. to_vec e @ [newline]) es))"
  by (induction es arbitrary: bytes) (simp_all add: index_append_def)

lemma index_lines:
  "index_serde_ok to_vec from_str es \<Longrightarrow>
   split_lines (concat (map (\<lambda>e. to_vec e @ [newline]) es)) = map to_vec es"
  by (induction es) (auto simp: index_serde_ok_def split_lines_line)

lemma find_name_lines:
  "index_serde_ok to_vec from_str es \<Longrightarrow>
   find_name_loop from_str tid (map to_vec es) latest =
     (case find (\<lambda>e. sx_thread_id e = tid) (rev es) of Some e \<Rightarrow> Some (sx_name e) | None \<Rightarrow> latest)"
proof (induction es arbitrary: latest)
  case (Cons e es)
  have snoc: "find P (xs @ [x]) = (case find P xs of Some y \<Rightarrow> Some y | None \<Rightarrow> if P x then Some x else None)" for P xs and x :: session_index_entry
    by (induction xs) auto
  show ?case using Cons by (auto simp: index_serde_ok_def snoc split: option.split)
qed simp

lemma latest_lines:
  "index_serde_ok to_vec from_str es \<Longrightarrow>
   map_of (latest_loop from_str (map to_vec es) latest) tid =
     (case find (\<lambda>e. sx_thread_id e = tid) (rev es) of Some e \<Rightarrow> Some e | None \<Rightarrow> map_of latest tid)"
proof (induction es arbitrary: latest)
  case (Cons e es)
  have snoc: "find P (xs @ [x]) = (case find P xs of Some y \<Rightarrow> Some y | None \<Rightarrow> if P x then Some x else None)" for P xs and x :: session_index_entry
    by (induction xs) auto
  show ?case using Cons by (auto simp: index_serde_ok_def snoc update_conv' split: option.split)
qed simp

definition keyed :: "(string \<times> session_index_entry) list \<Rightarrow> bool" where
  "keyed latest = (\<forall>(k, e) \<in> set latest. sx_thread_id e = k)"

lemma keyed_update: "keyed latest \<Longrightarrow> keyed (AList.update (sx_thread_id e) e latest)"
  by (induction latest) (auto simp: keyed_def)

lemma latest_keyed: "keyed latest \<Longrightarrow> keyed (latest_loop from_str lines latest)"
  by (induction from_str lines latest rule: latest_loop.induct) (auto simp: keyed_update split: sum.splits)

lemma keyed_find: "keyed latest \<Longrightarrow> find (\<lambda>e. sx_thread_id e = tid) (map snd latest) = map_of latest tid"
  by (induction latest) (auto simp: keyed_def)

text \<open>
  The name of a session is the last one appended for it, and listing the sessions finds the same name:
  both readings of the file agree with the sequence of appends.
\<close>
theorem session_names_read_back:
  assumes "index_serde_ok to_vec from_str es"
  shows "find_name_by_id from_str (fold (index_append to_vec) es None) tid =
           map_option sx_name (find (\<lambda>e. sx_thread_id e = tid) (rev es)) \<and>
         find (\<lambda>e. sx_thread_id e = tid) (list_latest from_str (fold (index_append to_vec) es None)) =
           find (\<lambda>e. sx_thread_id e = tid) (rev es)"
proof (cases es)
  case Nil
  then show ?thesis by (simp add: find_name_by_id_def list_latest_def)
next
  case (Cons e rest)
  have whole: "fold (index_append to_vec) es None = Some (concat (map (\<lambda>e. to_vec e @ [newline]) es))"
    unfolding Cons by (simp add: index_append_def index_file)
  show ?thesis
    unfolding whole
    using index_lines [OF assms] find_name_lines [OF assms, of tid None] latest_lines [OF assms, of "[]" tid]
      keyed_find [OF latest_keyed, of "[]"]
    by (auto simp: find_name_by_id_def list_latest_def keyed_def split: option.split)
qed

definition sample_index :: state_db where
  "sample_index = small_index\<lparr>db_threads := map (\<lambda>r. r\<lparr>tr_preview := []\<rparr>) (db_threads small_index)\<rparr>"

lemma sample_index_ok: "db_ok sample_index"
  by (simp add: db_ok_def sample_index_def small_index_def)

text \<open>The log of the thread: a header and a message, each parsed from its own line.\<close>

definition sample_parse :: "string \<Rightarrow> string + rollout_entry" where
  "sample_parse line =
     (if line = ''h'' then Inr (Session SESSION_VERSION ''t'' 1 ''/w/p'' None None None)
      else if line = ''m'' then Inr (Item ''t'' ''u'' 1 (UserMessage (ItemId ''i'') [item_content.Text ''hi'' None]))
      else Inl ''bad'')"

lemma backfill_is_idempotent_witness:
  "\<exists>stats db'. backfill_thread_metadata sample_parse (\<lambda>_. Some (''h'' @ [newline] @ ''m'' @ [newline])) sample_index = (Inr stats, db') \<and>
     map tr_preview (db_threads db') = [''hi''] \<and> map tr_cwd (db_threads db') = [''/w/p'']"
proof -
  let ?files = "\<lambda>_::string. Some (''h'' @ [newline] @ ''m'' @ [newline])"
  let ?run = "backfill_thread_metadata sample_parse ?files sample_index"
  have "\<not> isl (fst ?run)" by code_simp
  then obtain stats db' where run: "?run = (Inr stats, db')" by (cases ?run; cases "fst ?run") auto
  have "map (\<lambda>r. (tr_preview r, tr_cwd r)) (map (filled_row sample_parse ?files) (db_threads sample_index)) = [(''hi'', ''/w/p'')]"
    by code_simp
  with backfill_is_idempotent [OF sample_index_ok run] run show ?thesis by auto
qed

definition sample_entries :: "session_index_entry list" where
  "sample_entries =
     [\<lparr>sx_thread_id = ''a'', sx_name = ''x'', sx_updated_at = 1\<rparr>, \<lparr>sx_thread_id = ''a'', sx_name = ''y'', sx_updated_at = 2\<rparr>]"

lemma session_names_read_back_witness:
  "find_name_by_id (\<lambda>s. Inr \<lparr>sx_thread_id = ''a'', sx_name = s, sx_updated_at = (if s = ''x'' then 1 else 2)\<rparr>)
     (fold (index_append sx_name) sample_entries None) ''a'' = Some ''y''"
proof -
  let ?parse = "\<lambda>s. Inr \<lparr>sx_thread_id = ''a'', sx_name = s, sx_updated_at = (if s = ''x'' then 1 else 2)\<rparr> :: string + session_index_entry"
  have "index_serde_ok sx_name ?parse sample_entries" by code_simp
  from session_names_read_back [OF this, of "''a''"] show ?thesis by (simp add: sample_entries_def)
qed

end
