(* ===== verification/Tui_Conversation.thy ===== *)
theory Tui_Conversation
  imports Builtin_Tools Event_Forward Restore
begin

text \<open>
  What the terminal client shows of a thread: the decoding of the server's notifications
  (\<open>zhive-tui/src/protocol.rs\<close>) and the conversation folded from them (\<open>zhive-tui/src/conversation.rs\<close>),
  with the text that is revealed step by step. Decoding a payload is serde: one parameter per type.
\<close>

section \<open>Notifications\<close>

datatype engine_notification =
    TurnStarted thread_id turn_id
  | TurnCompleted thread_id turn_id
  | TurnFailed thread_id turn_id turn_error
  | TurnRejected string
  | ItemAppended thread_id turn_id item
  | ItemDelta thread_id turn_id string item_delta_kind
  | PhaseChanged "string option" engine_phase engine_phase
  | SessionAborted session_aborted_notification
  | PermissionRequested string request_permission_request
  | Usage u64 u64
  | SubagentStarted thread_id thread_id "string option" "string option"
  | SubagentCompleted thread_id thread_id bool
  | CompactionStarted thread_id compact_trigger u32
  | CompactionDelta thread_id string
  | CompactionCompleted thread_id u32
  | CompactionFailed thread_id string
  | Unhandled string

record tui_codec =
  tc_turn_started :: "json \<Rightarrow> (thread_id \<times> turn_id) option"
  tc_turn_completed :: "json \<Rightarrow> (thread_id \<times> turn_id) option"
  tc_turn_failed :: "json \<Rightarrow> (thread_id \<times> turn_id \<times> turn_error) option"
  tc_item_appended :: "json \<Rightarrow> (thread_id \<times> turn_id \<times> item_id \<times> item) option"
  tc_item_delta :: "json \<Rightarrow> (thread_id \<times> turn_id \<times> string \<times> item_delta_kind) option"
  tc_phase_changed :: "json \<Rightarrow> (thread_id option \<times> engine_phase \<times> engine_phase) option"
  tc_session_aborted :: "json \<Rightarrow> session_aborted_notification option"
  tc_permission_requested :: "json \<Rightarrow> (string \<times> request_permission_request) option"
  tc_usage :: "json \<Rightarrow> (thread_id \<times> turn_id \<times> u64 \<times> u64) option"
  tc_subagent_started :: "json \<Rightarrow> (thread_id \<times> thread_id \<times> string option \<times> string option) option"
  tc_subagent_completed :: "json \<Rightarrow> (thread_id \<times> thread_id \<times> bool) option"
  tc_compaction_started :: "json \<Rightarrow> (thread_id \<times> compact_trigger \<times> u32) option"
  tc_compaction_delta :: "json \<Rightarrow> (thread_id \<times> string) option"
  tc_compaction_completed :: "json \<Rightarrow> (thread_id \<times> u32) option"
  tc_compaction_failed :: "json \<Rightarrow> (thread_id \<times> string) option"

definition decoded :: "string \<Rightarrow> ('a \<Rightarrow> engine_notification) \<Rightarrow> 'a option \<Rightarrow> engine_notification" where
  "decoded meth f r = (case r of Some p \<Rightarrow> f p | None \<Rightarrow> Unhandled meth)"

definition rejection_text :: "json \<Rightarrow> string" where
  "rejection_text params =
     (case Option.bind (Option.bind (json_get params ''reason'') (\<lambda>r. json_get r ''currentPhase'')) json_as_str of
        None \<Rightarrow> ''engine busy''
      | Some phase \<Rightarrow> ''engine busy (phase: '' @ phase @ '')'')"

definition decode_turn :: "tui_codec \<Rightarrow> string \<Rightarrow> json \<Rightarrow> engine_notification" where
  "decode_turn tc meth params =
     (if meth = ''events/turn_started''
      then decoded meth (\<lambda>(t, u). TurnStarted t u) (tc_turn_started tc params)
      else if meth = ''events/turn_completed''
      then decoded meth (\<lambda>(t, u). TurnCompleted t u) (tc_turn_completed tc params)
      else if meth = ''events/turn_failed''
      then decoded meth (\<lambda>(t, u, e). TurnFailed t u e) (tc_turn_failed tc params)
      else TurnRejected (rejection_text params))"

definition decode_subagent :: "tui_codec \<Rightarrow> string \<Rightarrow> json \<Rightarrow> engine_notification" where
  "decode_subagent tc meth params =
     (if meth = ''events/subagent_started''
      then decoded meth (\<lambda>(p, c, a, d). SubagentStarted p c a d) (tc_subagent_started tc params)
      else if meth = ''events/subagent_completed''
      then decoded meth (\<lambda>(p, c, f). SubagentCompleted p c f) (tc_subagent_completed tc params)
      else Unhandled meth)"

definition decode_compaction :: "tui_codec \<Rightarrow> string \<Rightarrow> json \<Rightarrow> engine_notification" where
  "decode_compaction tc meth params =
     (if meth = ''events/compaction_started''
      then decoded meth (\<lambda>(t, tr, n). CompactionStarted t tr n) (tc_compaction_started tc params)
      else if meth = ''events/compaction_delta''
      then decoded meth (\<lambda>(t, d). CompactionDelta t d) (tc_compaction_delta tc params)
      else if meth = ''events/compaction_completed''
      then decoded meth (\<lambda>(t, n). CompactionCompleted t n) (tc_compaction_completed tc params)
      else if meth = ''events/compaction_failed''
      then decoded meth (\<lambda>(t, r). CompactionFailed t r) (tc_compaction_failed tc params)
      else Unhandled meth)"

definition decode :: "tui_codec \<Rightarrow> string \<Rightarrow> json option \<Rightarrow> engine_notification" where
  "decode tc meth params =
     (let params = (case params of Some v \<Rightarrow> v | None \<Rightarrow> json.Null)
      in if meth \<in> {''events/turn_started'', ''events/turn_completed'', ''events/turn_failed'', ''events/turn_rejected''}
         then decode_turn tc meth params
         else if meth = ''events/item_appended''
         then decoded meth (\<lambda>(t, u, i, it). ItemAppended t u it) (tc_item_appended tc params)
         else if meth = ''events/item_delta''
         then decoded meth (\<lambda>(t, u, d, k). ItemDelta t u d k) (tc_item_delta tc params)
         else if meth = ''events/phase_changed''
         then decoded meth (\<lambda>(t, a, b). PhaseChanged (map_option thread_id_str t) a b) (tc_phase_changed tc params)
         else if meth = ''events/session_aborted''
         then decoded meth SessionAborted (tc_session_aborted tc params)
         else if meth = ''events/permission_requested''
         then decoded meth (\<lambda>(i, r). PermissionRequested i r) (tc_permission_requested tc params)
         else if meth = ''events/usage''
         then decoded meth (\<lambda>(t, u, a, b). Usage a b) (tc_usage tc params)
         else if meth = ''events/subagent_started'' \<or> meth = ''events/subagent_completed''
         then decode_subagent tc meth params
         else if meth \<in> {''events/compaction_started'', ''events/compaction_delta'', ''events/compaction_completed'',
                        ''events/compaction_failed''}
         then decode_compaction tc meth params
         else Unhandled meth)"

section \<open>Turns and subagents\<close>

datatype turn_lifecycle = InProgress | Completed | Failed string | Interrupted

record turn_view =
  tv_id :: turn_id
  tv_status :: turn_lifecycle
  tv_items :: "item list"

definition turn_view_new :: "turn_id \<Rightarrow> turn_view" where
  "turn_view_new i = \<lparr>tv_id = i, tv_status = InProgress, tv_items = []\<rparr>"

text \<open>The first element with a property is changed, or there is none.\<close>

fun upsert_items :: "item \<Rightarrow> item list \<Rightarrow> item list" where
  "upsert_items it [] = [it]"
| "upsert_items it (x # xs) = (if item_id_of x = item_id_of it then it # xs else x # upsert_items it xs)"

definition turn_upsert :: "item \<Rightarrow> turn_view \<Rightarrow> turn_view" where
  "turn_upsert it v = v\<lparr>tv_items := upsert_items it (tv_items v)\<rparr>"

text \<open>\<open>turn_mut\<close> followed by what its caller does with the turn.\<close>

fun with_turn :: "turn_id \<Rightarrow> (turn_view \<Rightarrow> turn_view) \<Rightarrow> turn_view list \<Rightarrow> turn_view list" where
  "with_turn i f [] = [f (turn_view_new i)]"
| "with_turn i f (v # vs) = (if tv_id v = i then f v # vs else v # with_turn i f vs)"

datatype subagent_status = Running | Completed bool | Failed

record subagent_view =
  sv_child_thread_id :: thread_id
  sv_agent_type :: "string option"
  sv_description :: "string option"
  sv_turns :: "turn_view list"
  sv_status :: subagent_status

definition subagent_view_new :: "thread_id \<Rightarrow> string option \<Rightarrow> string option \<Rightarrow> subagent_view" where
  "subagent_view_new child agent_type description =
     \<lparr>sv_child_thread_id = child, sv_agent_type = agent_type, sv_description = description, sv_turns = [],
      sv_status = Running\<rparr>"

definition history_turn_id :: "item \<Rightarrow> turn_id option" where
  "history_turn_id it =
     (case strip_prefix ''item:'' (item_id_str (item_id_of it)) of
        None \<Rightarrow> None
      | Some body \<Rightarrow>
          (case rsplit_once (CHR ''/'') body of
             None \<Rightarrow> None
           | Some (turn, seq) \<Rightarrow> (if turn = [] then None else Some (TurnId turn))))"

text \<open>One item of a loaded history, under the turn its identifier names.\<close>

definition load_item :: "turn_id \<Rightarrow> item \<Rightarrow> turn_view list \<Rightarrow> turn_view list" where
  "load_item dflt it vs =
     with_turn (case history_turn_id it of Some i \<Rightarrow> i | None \<Rightarrow> dflt)
       (\<lambda>v. turn_upsert it (v\<lparr>tv_status := turn_lifecycle.Completed\<rparr>)) vs"

fun is_agent_message :: "item \<Rightarrow> bool" where
  "is_agent_message (AgentMessage _ _) = True"
| "is_agent_message _ = False"

fun is_tool_call :: "item \<Rightarrow> bool" where
  "is_tool_call (ToolCall _ _ _ _ _ _ _ _ _ _) = True"
| "is_tool_call _ = False"

definition subagent_from_history ::
    "thread_id \<Rightarrow> string option \<Rightarrow> string option \<Rightarrow> item list \<Rightarrow> subagent_view" where
  "subagent_from_history child agent_type description items =
     (let turns = fold (load_item (TurnId ''turn:resumed/subagent'')) items [];
          has_final = (if turns = [] then False else list_ex is_agent_message (tv_items (last turns)))
      in (subagent_view_new child agent_type description)
           \<lparr>sv_turns := turns, sv_status := subagent_status.Completed has_final\<rparr>)"

fun apply_thread_event :: "engine_notification \<Rightarrow> subagent_view \<Rightarrow> subagent_view" where
  "apply_thread_event (TurnStarted t u) s =
     s\<lparr>sv_turns := with_turn u (\<lambda>v. v\<lparr>tv_status := turn_lifecycle.InProgress\<rparr>) (sv_turns s)\<rparr>"
| "apply_thread_event (ItemAppended t u it) s = s\<lparr>sv_turns := with_turn u (turn_upsert it) (sv_turns s)\<rparr>"
| "apply_thread_event (TurnCompleted t u) s =
     s\<lparr>sv_turns := with_turn u (\<lambda>v. v\<lparr>tv_status := turn_lifecycle.Completed\<rparr>) (sv_turns s)\<rparr>"
| "apply_thread_event (TurnFailed t u e) s =
     s\<lparr>sv_turns := with_turn u (\<lambda>v. v\<lparr>tv_status := turn_lifecycle.Failed (te_message e)\<rparr>) (sv_turns s),
       sv_status := subagent_status.Failed\<rparr>"
| "apply_thread_event _ s = s"

definition tool_call_count :: "subagent_view \<Rightarrow> nat" where
  "tool_call_count s = length (filter is_tool_call (concat (map tv_items (sv_turns s))))"

fun running_tool :: "item \<Rightarrow> string option" where
  "running_tool (ToolCall _ name _ _ status _ _ _ _ _) =
     (if status = tool_call_status.Pending \<or> status = tool_call_status.InProgress then Some name else None)"
| "running_tool _ = None"

definition current_tool :: "subagent_view \<Rightarrow> string option" where
  "current_tool s =
     fold (\<lambda>it current. case running_tool it of Some n \<Rightarrow> Some n | None \<Rightarrow> current)
       (concat (map tv_items (sv_turns s))) None"

section \<open>Revealing the streamed text\<close>

definition REVEAL_FLOOR :: nat where "REVEAL_FLOOR = 10"

definition revealed_prefix :: "string \<Rightarrow> nat \<Rightarrow> string" where
  "revealed_prefix txt revealed = take (boundary_before txt (min revealed (length txt))) txt"

text \<open>
  The step is three tenths of the backlog, rounded up. The product in \<open>f64\<close> is within a relative error
  of 2 to the minus 53 of the exact one, whose distance to the next smaller integer is at least a tenth when it
  is no integer, so that below 2 to the 49 characters rounding up gives the exact result.
\<close>

definition reveal_step :: "nat \<Rightarrow> nat" where
  "reveal_step backlog = min (max ((3 * backlog + 9) div 10) REVEAL_FLOOR) backlog"

definition advance_cursor :: "string \<Rightarrow> nat \<Rightarrow> nat" where
  "advance_cursor txt revealed =
     (let revealed = boundary_before txt (min revealed (length txt))
      in if revealed \<ge> length txt then revealed
         else
           (let tail = chars (drop revealed txt)
            in revealed + length (concat (take (reveal_step (length tail)) tail))))"

section \<open>The conversation\<close>

record conversation =
  cv_thread_id :: thread_id
  cv_turns :: "turn_view list"
  cv_busy :: bool
  cv_streaming :: string
  cv_revealed :: nat
  cv_streaming_reasoning :: string
  cv_revealed_reasoning :: nat
  cv_last_error :: "string option"
  cv_subagents :: "subagent_view list"

definition conversation_new :: "thread_id \<Rightarrow> conversation" where
  "conversation_new tid =
     \<lparr>cv_thread_id = tid, cv_turns = [], cv_busy = False, cv_streaming = [], cv_revealed = 0,
      cv_streaming_reasoning = [], cv_revealed_reasoning = 0, cv_last_error = None, cv_subagents = []\<rparr>"

definition clear_streaming :: "conversation \<Rightarrow> conversation" where
  "clear_streaming c =
     c\<lparr>cv_streaming := [], cv_revealed := 0, cv_streaming_reasoning := [], cv_revealed_reasoning := 0\<rparr>"

definition revealed_streaming :: "conversation \<Rightarrow> string" where
  "revealed_streaming c = revealed_prefix (cv_streaming c) (cv_revealed c)"

definition revealed_reasoning :: "conversation \<Rightarrow> string" where
  "revealed_reasoning c = revealed_prefix (cv_streaming_reasoning c) (cv_revealed_reasoning c)"

definition advance_reveal :: "conversation \<Rightarrow> conversation" where
  "advance_reveal c =
     c\<lparr>cv_revealed := advance_cursor (cv_streaming c) (cv_revealed c),
       cv_revealed_reasoning := advance_cursor (cv_streaming_reasoning c) (cv_revealed_reasoning c)\<rparr>"

definition reveal_caught_up :: "conversation \<Rightarrow> bool" where
  "reveal_caught_up c =
     (cv_revealed c \<ge> length (cv_streaming c) \<and> cv_revealed_reasoning c \<ge> length (cv_streaming_reasoning c))"

definition is_revealing :: "conversation \<Rightarrow> bool" where
  "is_revealing c = (\<not> reveal_caught_up c)"

definition conversation_empty :: "conversation \<Rightarrow> bool" where
  "conversation_empty c = list_all (\<lambda>t. tv_items t = []) (cv_turns c)"

definition item_count :: "conversation \<Rightarrow> nat" where
  "item_count c = sum_list (map (\<lambda>t. length (tv_items t)) (cv_turns c))"

fun agent_text :: "item \<Rightarrow> string option" where
  "agent_text (AgentMessage _ text) = Some text"
| "agent_text _ = None"

definition last_agent_text :: "conversation \<Rightarrow> string option" where
  "last_agent_text c =
     find_map agent_text (concat (map (\<lambda>t. rev (tv_items t)) (rev (cv_turns c))))"

definition load_history :: "item list \<Rightarrow> conversation \<Rightarrow> conversation" where
  "load_history items c =
     (let c = (clear_streaming (c\<lparr>cv_turns := [], cv_subagents := []\<rparr>))\<lparr>cv_busy := False\<rparr>
      in c\<lparr>cv_turns := fold (load_item (TurnId ''turn:resumed/history'')) items (cv_turns c)\<rparr>)"

definition restore_subagents :: "subagent_view list \<Rightarrow> conversation \<Rightarrow> conversation" where
  "restore_subagents subagents c = c\<lparr>cv_subagents := subagents\<rparr>"

text \<open>\<open>subagent_mut\<close> followed by what its caller does with the view.\<close>

fun with_subagent :: "thread_id \<Rightarrow> (subagent_view \<Rightarrow> subagent_view) \<Rightarrow> subagent_view list \<Rightarrow> subagent_view list" where
  "with_subagent child f [] = []"
| "with_subagent child f (s # ss) =
     (if sv_child_thread_id s = child then f s # ss else s # with_subagent child f ss)"

text \<open>The last turn in progress is interrupted.\<close>

definition interrupt_last :: "turn_view list \<Rightarrow> turn_view list" where
  "interrupt_last vs =
     (let tail = takeWhile (\<lambda>v. tv_status v \<noteq> turn_lifecycle.InProgress) (rev vs);
          rest = dropWhile (\<lambda>v. tv_status v \<noteq> turn_lifecycle.InProgress) (rev vs)
      in case rest of
           [] \<Rightarrow> vs
         | v # before \<Rightarrow> rev before @ v\<lparr>tv_status := turn_lifecycle.Interrupted\<rparr> # rev tail)"

fun apply_main_thread :: "engine_notification \<Rightarrow> conversation \<Rightarrow> conversation" where
  "apply_main_thread (TurnStarted t u) c =
     (clear_streaming (c\<lparr>cv_turns := with_turn u (\<lambda>v. v\<lparr>tv_status := turn_lifecycle.InProgress\<rparr>) (cv_turns c),
                         cv_busy := True\<rparr>))\<lparr>cv_last_error := None\<rparr>"
| "apply_main_thread (ItemAppended t u it) c =
     (clear_streaming c)\<lparr>cv_turns := with_turn u (turn_upsert it) (cv_turns c)\<rparr>"
| "apply_main_thread (ItemDelta t u delta kind) c =
     (case kind of
        item_delta_kind.Reasoning \<Rightarrow> c\<lparr>cv_streaming_reasoning := cv_streaming_reasoning c @ delta, cv_busy := True\<rparr>
      | _ \<Rightarrow> c\<lparr>cv_streaming := cv_streaming c @ delta, cv_busy := True\<rparr>)"
| "apply_main_thread (TurnCompleted t u) c =
     clear_streaming (c\<lparr>cv_turns := with_turn u (\<lambda>v. v\<lparr>tv_status := turn_lifecycle.Completed\<rparr>) (cv_turns c),
                        cv_busy := False\<rparr>)"
| "apply_main_thread (TurnFailed t u e) c =
     (clear_streaming (c\<lparr>cv_turns := with_turn u (\<lambda>v. v\<lparr>tv_status := turn_lifecycle.Failed (te_message e)\<rparr>) (cv_turns c),
                         cv_busy := False\<rparr>))\<lparr>cv_last_error := Some (te_message e)\<rparr>"
| "apply_main_thread (TurnRejected reason) c =
     (clear_streaming (c\<lparr>cv_busy := False\<rparr>))\<lparr>cv_last_error := Some reason\<rparr>"
| "apply_main_thread (SessionAborted n) c =
     clear_streaming (c\<lparr>cv_turns := interrupt_last (cv_turns c), cv_busy := False\<rparr>)"
| "apply_main_thread _ c = c"

fun event_thread :: "engine_notification \<Rightarrow> thread_id option" where
  "event_thread (TurnStarted t u) = Some t"
| "event_thread (TurnCompleted t u) = Some t"
| "event_thread (TurnFailed t u e) = Some t"
| "event_thread (ItemAppended t u it) = Some t"
| "event_thread (ItemDelta t u d k) = Some t"
| "event_thread _ = None"

definition apply_event :: "engine_notification \<Rightarrow> conversation \<Rightarrow> conversation" where
  "apply_event event c =
     (case event of
        SubagentStarted parent child agent_type description \<Rightarrow>
          (if parent = cv_thread_id c \<and> \<not> list_ex (\<lambda>s. sv_child_thread_id s = child) (cv_subagents c)
           then c\<lparr>cv_subagents := cv_subagents c @ [subagent_view_new child agent_type description]\<rparr>
           else c)
      | SubagentCompleted parent child has_final \<Rightarrow>
          c\<lparr>cv_subagents := with_subagent child (\<lambda>s. s\<lparr>sv_status := subagent_status.Completed has_final\<rparr>) (cv_subagents c)\<rparr>
      | _ \<Rightarrow>
          (case event_thread event of
             Some t \<Rightarrow>
               (if t \<noteq> cv_thread_id c
                then c\<lparr>cv_subagents := with_subagent t (apply_thread_event event) (cv_subagents c)\<rparr>
                else apply_main_thread event c)
           | None \<Rightarrow> apply_main_thread event c))"

section \<open>The wire\<close>

text \<open>The name of a phase on the wire.\<close>

fun phase_name :: "engine_phase \<Rightarrow> string" where
  "phase_name Idle = ''idle''"
| "phase_name Turn = ''turn''"
| "phase_name engine_phase.Compaction = ''compaction''"
| "phase_name BranchSummary = ''branch_summary''"
| "phase_name Retry = ''retry''"
| "phase_name engine_phase.Restore = ''restore''"

text \<open>What the client makes of a payload, and what serde is relied on for: decoding what was encoded.\<close>

fun payload_view :: "string \<Rightarrow> event_payload \<Rightarrow> engine_notification" where
  "payload_view m (TurnStartedPayload t u) = TurnStarted t u"
| "payload_view m (TurnRejectedPayload t (turn_rejected_reason.EngineBusy p)) =
     TurnRejected (''engine busy (phase: '' @ phase_name p @ '')'')"
| "payload_view m (TurnCompletedPayload t u) = TurnCompleted t u"
| "payload_view m (TurnFailedPayload t u e) = TurnFailed t u e"
| "payload_view m (ItemAppendedPayload t u i it) = ItemAppended t u it"
| "payload_view m (ItemDeltaPayload t u d k) = ItemDelta t u d k"
| "payload_view m (PhaseChangedPayload t a b) = PhaseChanged (map_option thread_id_str t) a b"
| "payload_view m (SessionAbortedNotification n) = SessionAborted n"
| "payload_view m (PermissionRequestedPayload i r) = PermissionRequested i r"
| "payload_view m (UsagePayload t u a b) = Usage a b"
| "payload_view m (SubagentStartedPayload p c a d) = SubagentStarted p c a d"
| "payload_view m (SubagentCompletedPayload p c f) = SubagentCompleted p c f"
| "payload_view m (CompactionStartedPayload t tr n) = CompactionStarted t tr n"
| "payload_view m (CompactionDeltaPayload t d) = CompactionDelta t d"
| "payload_view m (CompactionCompletedPayload t n) = CompactionCompleted t n"
| "payload_view m (CompactionFailedPayload t r) = CompactionFailed t r"
| "payload_view m _ = Unhandled m"

fun reads_back :: "tui_codec \<Rightarrow> event_payload \<Rightarrow> json \<Rightarrow> bool" where
  "reads_back tc (TurnStartedPayload t u) v = (tc_turn_started tc v = Some (t, u))"
| "reads_back tc (TurnRejectedPayload t (turn_rejected_reason.EngineBusy p)) v =
     (\<exists>r. json_get v ''reason'' = Some r \<and> json_get r ''currentPhase'' = Some (json.String (phase_name p)))"
| "reads_back tc (TurnCompletedPayload t u) v = (tc_turn_completed tc v = Some (t, u))"
| "reads_back tc (TurnFailedPayload t u e) v = (tc_turn_failed tc v = Some (t, u, e))"
| "reads_back tc (ItemAppendedPayload t u i it) v = (tc_item_appended tc v = Some (t, u, i, it))"
| "reads_back tc (ItemDeltaPayload t u d k) v = (tc_item_delta tc v = Some (t, u, d, k))"
| "reads_back tc (PhaseChangedPayload t a b) v = (tc_phase_changed tc v = Some (t, a, b))"
| "reads_back tc (SessionAbortedNotification n) v = (tc_session_aborted tc v = Some n)"
| "reads_back tc (PermissionRequestedPayload i r) v = (tc_permission_requested tc v = Some (i, r))"
| "reads_back tc (UsagePayload t u a b) v = (tc_usage tc v = Some (t, u, a, b))"
| "reads_back tc (SubagentStartedPayload p c a d) v = (tc_subagent_started tc v = Some (p, c, a, d))"
| "reads_back tc (SubagentCompletedPayload p c f) v = (tc_subagent_completed tc v = Some (p, c, f))"
| "reads_back tc (CompactionStartedPayload t tr n) v = (tc_compaction_started tc v = Some (t, tr, n))"
| "reads_back tc (CompactionDeltaPayload t d) v = (tc_compaction_delta tc v = Some (t, d))"
| "reads_back tc (CompactionCompletedPayload t n) v = (tc_compaction_completed tc v = Some (t, n))"
| "reads_back tc (CompactionFailedPayload t r) v = (tc_compaction_failed tc v = Some (t, r))"
| "reads_back tc _ v = True"

text \<open>What each of the server's methods decodes to.\<close>

lemma decode_by_name:
  "decode tc ''events/turn_started'' (Some v) =
     decoded ''events/turn_started'' (\<lambda>(t, u). TurnStarted t u) (tc_turn_started tc v)"
  "decode tc ''events/turn_completed'' (Some v) =
     decoded ''events/turn_completed'' (\<lambda>(t, u). TurnCompleted t u) (tc_turn_completed tc v)"
  "decode tc ''events/turn_failed'' (Some v) =
     decoded ''events/turn_failed'' (\<lambda>(t, u, e). TurnFailed t u e) (tc_turn_failed tc v)"
  "decode tc ''events/turn_rejected'' (Some v) =
     TurnRejected (rejection_text v)"
  "decode tc ''events/item_appended'' (Some v) =
     decoded ''events/item_appended'' (\<lambda>(t, u, i, it). ItemAppended t u it) (tc_item_appended tc v)"
  "decode tc ''events/item_delta'' (Some v) =
     decoded ''events/item_delta'' (\<lambda>(t, u, d, k). ItemDelta t u d k) (tc_item_delta tc v)"
  "decode tc ''events/phase_changed'' (Some v) =
     decoded ''events/phase_changed'' (\<lambda>(t, a, b). PhaseChanged (map_option thread_id_str t) a b) (tc_phase_changed tc v)"
  "decode tc ''events/session_aborted'' (Some v) =
     decoded ''events/session_aborted'' SessionAborted (tc_session_aborted tc v)"
  "decode tc ''events/permission_requested'' (Some v) =
     decoded ''events/permission_requested'' (\<lambda>(i, r). PermissionRequested i r) (tc_permission_requested tc v)"
  "decode tc ''events/usage'' (Some v) =
     decoded ''events/usage'' (\<lambda>(t, u, a, b). Usage a b) (tc_usage tc v)"
  "decode tc ''events/subagent_started'' (Some v) =
     decoded ''events/subagent_started'' (\<lambda>(p, c, a, d). SubagentStarted p c a d) (tc_subagent_started tc v)"
  "decode tc ''events/subagent_completed'' (Some v) =
     decoded ''events/subagent_completed'' (\<lambda>(p, c, f). SubagentCompleted p c f) (tc_subagent_completed tc v)"
  "decode tc ''events/compaction_started'' (Some v) =
     decoded ''events/compaction_started'' (\<lambda>(t, tr, n). CompactionStarted t tr n) (tc_compaction_started tc v)"
  "decode tc ''events/compaction_delta'' (Some v) =
     decoded ''events/compaction_delta'' (\<lambda>(t, d). CompactionDelta t d) (tc_compaction_delta tc v)"
  "decode tc ''events/compaction_completed'' (Some v) =
     decoded ''events/compaction_completed'' (\<lambda>(t, n). CompactionCompleted t n) (tc_compaction_completed tc v)"
  "decode tc ''events/compaction_failed'' (Some v) =
     decoded ''events/compaction_failed'' (\<lambda>(t, r). CompactionFailed t r) (tc_compaction_failed tc v)"
  "decode tc ''events/turn_suspended'' (Some v) =
     Unhandled ''events/turn_suspended''"
  "decode tc ''events/turn_resumed'' (Some v) =
     Unhandled ''events/turn_resumed''"
  "decode tc ''events/thread_forked'' (Some v) =
     Unhandled ''events/thread_forked''"
  by (simp_all add: decode_def decode_turn_def decode_subagent_def decode_compaction_def)

lemma decode_payload:
  assumes m: "event_payload_of now event = Some (m, p)" and v: "reads_back tc p v"
  shows "decode tc m (Some v) = payload_view m p"
proof (cases event)
  case (TurnRejected t reason)
  then show ?thesis
    using m v by (cases reason) (auto simp: event_payload_of_def decode_by_name rejection_text_def json_as_str_def)
qed (use m v in \<open>auto simp: event_payload_of_def decode_by_name decoded_def\<close>)



section \<open>Live and loaded\<close>

definition view_items :: "turn_id \<Rightarrow> turn_view list \<Rightarrow> item list" where
  "view_items u vs = (case find (\<lambda>v. tv_id v = u) vs of Some v \<Rightarrow> tv_items v | None \<Rightarrow> [])"

lemma view_items_with_turn:
  assumes "\<And>v. tv_id (f v) = tv_id v" "\<And>v. tv_items (f v) = g (tv_items v)"
  shows "view_items u (with_turn i f vs) = (if u = i then g (view_items u vs) else view_items u vs)"
  using assms by (induction vs) (auto simp: view_items_def turn_view_new_def)

lemma view_items_status [simp]:
  "view_items u (with_turn i (\<lambda>v. v\<lparr>tv_status := s\<rparr>) vs) = view_items u vs"
  using view_items_with_turn [of "\<lambda>v. v\<lparr>tv_status := s\<rparr>" id u i vs] by simp

lemma view_items_upsert [simp]:
  "view_items u (with_turn i (turn_upsert it) vs) =
     (if u = i then upsert_items it (view_items u vs) else view_items u vs)"
  by (rule view_items_with_turn) (simp_all add: turn_upsert_def)

lemma view_items_load [simp]:
  "view_items u (load_item dflt it vs) =
     (if u = (case history_turn_id it of Some i \<Rightarrow> i | None \<Rightarrow> dflt)
      then upsert_items it (view_items u vs) else view_items u vs)"
  unfolding load_item_def by (rule view_items_with_turn) (simp_all add: turn_upsert_def)

lemma view_items_interrupt [simp]: "view_items u (interrupt_last vs) = view_items u vs"
proof -
  let ?P = "\<lambda>v. tv_status v \<noteq> turn_lifecycle.InProgress"
  have vs: "vs = rev (dropWhile ?P (rev vs)) @ rev (takeWhile ?P (rev vs))"
    by (metis rev_append rev_rev_ident takeWhile_dropWhile_id)
  have app: "view_items u (xs @ v\<lparr>tv_status := s\<rparr> # ys) = view_items u (xs @ v # ys)" for xs v s ys
    by (induction xs) (auto simp: view_items_def)
  show ?thesis
  proof (cases "dropWhile ?P (rev vs)")
    case (Cons v before)
    then have "vs = rev before @ v # rev (takeWhile ?P (rev vs))" using vs by simp
    then show ?thesis using app Cons by (simp add: interrupt_last_def Let_def)
  next
    case Nil
    have "interrupt_last vs = vs" unfolding interrupt_last_def Let_def Nil by simp
    then show ?thesis by simp
  qed
qed

fun appended_item :: "thread_id \<Rightarrow> engine_notification \<Rightarrow> (turn_id \<times> item) option" where
  "appended_item tid (ItemAppended t u it) = (if t = tid then Some (u, it) else None)"
| "appended_item tid _ = None"

definition appended_items :: "thread_id \<Rightarrow> engine_notification list \<Rightarrow> (turn_id \<times> item) list" where
  "appended_items tid evs = List.map_filter (appended_item tid) evs"

lemma apply_event_thread [simp]: "cv_thread_id (apply_event ev c) = cv_thread_id c"
  by (cases ev) (auto simp: apply_event_def clear_streaming_def split: item_delta_kind.splits)

lemma apply_event_items:
  "view_items u (cv_turns (apply_event ev c)) =
     (case appended_item (cv_thread_id c) ev of
        Some (i, it) \<Rightarrow> (if u = i then upsert_items it (view_items u (cv_turns c)) else view_items u (cv_turns c))
      | None \<Rightarrow> view_items u (cv_turns c))"
  by (cases ev) (auto simp: apply_event_def clear_streaming_def split: item_delta_kind.splits)

lemma live_items:
  "view_items u (cv_turns (fold apply_event evs c)) =
     fold upsert_items (map snd (filter (\<lambda>(i, it). i = u) (appended_items (cv_thread_id c) evs))) (view_items u (cv_turns c))"
  by (induction evs arbitrary: c)
     (auto simp: appended_items_def map_filter_simps apply_event_items split: option.splits)

lemma loaded_items:
  "\<forall>(i, it) \<in> set pairs. history_turn_id it = Some i \<Longrightarrow>
   view_items u (fold (load_item dflt) (map snd pairs) vs) =
     fold upsert_items (map snd (filter (\<lambda>(i, it). i = u) pairs)) (view_items u vs)"
  by (induction pairs arbitrary: vs) auto

text \<open>
  C38: A thread looks the same live and resumed: whatever events a client receives, of whatever threads and in
  whatever order, each turn of its conversation shows the items it would show after loading, as a history,
  the items appended to the thread, provided their identifiers name their turns as the engine's do.
\<close>
theorem live_view_matches_history:
  assumes "\<forall>(u, it) \<in> set (appended_items tid evs). history_turn_id it = Some u"
  shows "view_items u (cv_turns (fold apply_event evs (conversation_new tid))) =
         view_items u (cv_turns (load_history (map snd (appended_items tid evs)) c))"
  using live_items [of u evs "conversation_new tid"] loaded_items [OF assms, of u]
  by (simp add: conversation_new_def load_history_def clear_streaming_def view_items_def)

theorem live_view_matches_history_witness:
  "let it = AgentMessage (ItemId ''item:u1/0'') ''hi''; t = ThreadId ''t'';
       evs = [TurnStarted t (TurnId ''u1''), ItemDelta t (TurnId ''u1'') ''h'' item_delta_kind.Text,
              ItemAppended (ThreadId ''other'') (TurnId ''x'') (AgentMessage (ItemId ''y'') ''no''),
              ItemAppended t (TurnId ''u1'') it, TurnCompleted t (TurnId ''u1'')]
   in view_items (TurnId ''u1'') (cv_turns (fold apply_event evs (conversation_new t))) =
      view_items (TurnId ''u1'') (cv_turns (load_history [it] (conversation_new t)))"
  using live_view_matches_history
    [of "ThreadId ''t''"
        "[TurnStarted (ThreadId ''t'') (TurnId ''u1''), ItemDelta (ThreadId ''t'') (TurnId ''u1'') ''h'' item_delta_kind.Text,
          ItemAppended (ThreadId ''other'') (TurnId ''x'') (AgentMessage (ItemId ''y'') ''no''),
          ItemAppended (ThreadId ''t'') (TurnId ''u1'') (AgentMessage (ItemId ''item:u1/0'') ''hi''),
          TurnCompleted (ThreadId ''t'') (TurnId ''u1'')]" "TurnId ''u1''" "conversation_new (ThreadId ''t'')"]
  by (simp add: Let_def appended_items_def map_filter_simps history_turn_id_def strip_prefix_def
        rsplit_once_def)

text \<open>
  A rejection or an abort is taken for this conversation's whatever thread it is about: the running turn
  shows as interrupted and the client as idle while the engine goes on.
\<close>

lemma foreign_abort_interrupts:
  "cv_busy (apply_event (SessionAborted n) c) = False \<and>
   cv_turns (apply_event (SessionAborted n) c) = interrupt_last (cv_turns c) \<and>
   cv_busy (apply_event (TurnRejected reason) c) = False"
  by (simp add: apply_event_def clear_streaming_def)

section \<open>Revealing\<close>

lemma boundary_fixed: "is_char_boundary s i \<Longrightarrow> boundary_before s i = i"
  by (simp add: boundary_before.simps)

lemma boundary_drop:
  assumes "utf8_shaped s" "is_char_boundary s r" "r \<le> length s"
  shows "utf8_shaped (drop r s)"
proof (cases "r = 0 \<or> r \<ge> length s")
  case False
  then show ?thesis using assms by (simp add: utf8_shaped_def is_char_boundary_def hd_drop_conv_nth)
qed (use assms in \<open>auto simp: utf8_shaped_def\<close>)

lemma step_boundary:
  assumes s: "utf8_shaped s" "is_char_boundary s r" "r \<le> length s"
  defines "tail \<equiv> chars (drop r s)"
  shows "is_char_boundary s (r + length (concat (take k tail))) \<and>
         chars (drop (r + length (concat (take k tail))) s) = drop k tail \<and>
         r + length (concat (take k tail)) \<le> length s"
proof -
  have shaped: "\<forall>ch \<in> set tail. char_shaped ch"
    unfolding tail_def by (rule chars_shaped [OF boundary_drop [OF s]])
  have whole: "drop r s = concat (take k tail) @ concat (drop k tail)"
    unfolding tail_def by (metis append_take_drop_id concat_append concat_chars)
  have rest: "drop (r + length (concat (take k tail))) s = concat (drop k tail)"
    using whole by (metis add.commute append_eq_conv_conj drop_drop)
  have len: "length s = r + length (concat (take k tail)) + length (concat (drop k tail))"
    using arg_cong [OF whole, of length] s(3) by simp
  have "chars (concat (drop k tail)) = drop k tail"
    by (rule chars_concat) (meson shaped in_set_dropD)
  moreover have "is_char_boundary s (r + length (concat (take k tail)))"
  proof (cases "drop k tail")
    case Nil
    then show ?thesis using len by (simp add: is_char_boundary_def)
  next
    case (Cons ch rest')
    then have "char_shaped ch" using shaped by (metis in_set_dropD list.set_intros(1))
    then obtain b bs where ch: "ch = b # bs" "\<not> is_continuation b" by (cases ch) auto
    have "s ! (r + length (concat (take k tail))) = b"
      using rest len Cons ch hd_drop_conv_nth [of "r + length (concat (take k tail))" s] by simp
    then show ?thesis using ch(2) len Cons ch(1) by (simp add: is_char_boundary_def)
  qed
  ultimately show ?thesis using rest len by simp
qed

lemma advance_step:
  assumes "utf8_shaped s" "is_char_boundary s r" "r \<le> length s"
  shows "advance_cursor s r = r + length (concat (take (reveal_step (length (chars (drop r s)))) (chars (drop r s))))"
  using assms by (simp add: advance_cursor_def boundary_fixed Let_def)



end
