(* ===== verification/Spec2Isabelle.thy ===== *)
theory Spec2Isabelle
  imports Zhive_Prelude Domain Permission Id_Allocator Pending Drain_Buffer Queues Phase Subagent
    Turn_Buffer Preview Cancel Storage_Op Pending_Writes Thread_State Engine_Event Engine Lifecycle
    Subagent_Spawn Provider_Retry Rollout Writer Compaction Fork Resume Restore Engine_Run
    Stream_Fold Tool_Dispatch Subagent_Spawner Turn_Loop Prompt Request_Options Framing
    Actor Rpc_Message Reverse_Rpc Event_Forward Server Rpc_Types Engine_Rpc Hook_Event Hooks
    Client Client_Api Builtin_Tools State_Db Session_Index Tui_Conversation
begin

text \<open>
  zhive is an agent engine in Rust: clients start turns on threads, a turn asks a language model for
  the next step, runs the tools the model calls under a permission scheme, and records everything in
  memory and in a log from which a thread can be resumed, forked or rewound. This library models the
  engine of \<open>src/crates/zhive-core\<close> and the wire types of \<open>src/crates/zhive-proto\<close> it works on.

  \<^bold>\<open>The program and its theories.\<close>

  \<^item> \<open>Zhive_Prelude\<close>: results, machine integers, decimal numbers, byte strings, JSON values, and the
    collections of facts. \<open>Id_Allocator\<close> and \<open>Drain_Buffer\<close> are two contracts (locales) that several
    components fulfil: a counter never issues an identifier twice, and a queue neither loses nor
    reorders what passes through it.

  \<^item> Data. \<open>Domain\<close> (\<open>domain.rs\<close>): items, turns, threads. \<open>Permission\<close> (both \<open>permission.rs\<close>):
    decisions and their folding, modes, scopes and their narrowing, requests and hook outputs.
    \<open>Storage_Op\<close>, \<open>Engine_Event\<close>: what the engine sends to its log and to its clients.

  \<^item> State of a thread. \<open>Queues\<close> (\<open>queues.rs\<close>), \<open>Turn_Buffer\<close> (\<open>state/turn_buffer.rs\<close>),
    \<open>Pending_Writes\<close>, \<open>Thread_State\<close> (\<open>state/thread.rs\<close>), \<open>Preview\<close> (\<open>persistence/preview.rs\<close>).

  \<^item> State of the engine. \<open>Phase\<close> (\<open>engine/phase.rs\<close>), \<open>Pending\<close> (\<open>permission/pending.rs\<close> and the
    reducer), \<open>Cancel\<close> (\<open>cancel.rs\<close>), \<open>Engine\<close> (\<open>engine/inner.rs\<close> and small handlers).

  \<^item> Turns. \<open>Lifecycle\<close> (\<open>engine/lifecycle.rs\<close>): start, finish, cancel. \<open>Provider_Retry\<close>: errors of
    the provider and the retry loop. \<open>Stream_Fold\<close> (\<open>provider/stream_fold.rs\<close>): a stream of parts
    becomes items. \<open>Tool_Dispatch\<close> (\<open>engine/tool_dispatch\<close>): permission of a call, then its
    execution. \<open>Turn_Loop\<close> (\<open>engine/turn.rs\<close>): the agent loop built from all of these.

  \<^item> Subagents. \<open>Subagent\<close> (\<open>subagent.rs\<close>): the scope of a child and its final message.
    \<open>Subagent_Spawn\<close> and \<open>Subagent_Spawner\<close> (\<open>engine/subagent_spawn\<close>): the spawn, the delivery, and
    the parent's side of the child's permission requests.

  \<^item> Persistence. \<open>Rollout\<close> (\<open>persistence/rollout.rs\<close>, \<open>mod.rs\<close>): the log file; \<open>Writer\<close>
    (\<open>persistence/writer.rs\<close>): the task that applies storage operations to log and index. \<open>State_Db\<close>
    (\<open>state_db.rs\<close>): the index as tables, with the effect of each statement; \<open>Session_Index\<close>: the file of
    session names, and the passes that fill the index from the logs.
    \<open>Compaction\<close>, \<open>Fork\<close>, \<open>Resume\<close>, \<open>Restore\<close> (\<open>engine/*.rs\<close>): the operations on whole threads.

  \<^item> Requests to the model. \<open>Prompt\<close> (\<open>engine/prompt.rs\<close>, the registry of \<open>tools.rs\<close>): the transcript as
    messages, long tool results cut, the tools a scope advertises. \<open>Request_Options\<close>
    (\<open>engine/reasoning.rs\<close>, \<open>cache.rs\<close>, the round of \<open>turn.rs\<close>): effort, cache marks, output budget.

  \<^item> \<open>Engine_Run\<close>: the engine as a transition system whose steps are the handlers above. \<open>Actor\<close>
    (\<open>EngineInner::run\<close> and the methods of \<open>engine.rs\<close>): submissions dispatched one at a time, their
    replies, and what the caller makes of them.

  \<^item> Connections. \<open>Framing\<close> (\<open>zhive-proto/src/framing.rs\<close>, \<open>server/transport.rs\<close>): frames over bytes
    that arrive in pieces, read while other branches of the serve loop compete. \<open>Rpc_Message\<close>
    (\<open>zhive-proto/src/lib.rs\<close>), \<open>Reverse_Rpc\<close> (\<open>server/reverse_rpc.rs\<close>), \<open>Event_Forward\<close>
    (\<open>server/events.rs\<close>) and \<open>Server\<close> (\<open>server/router.rs\<close>, \<open>initialize.rs\<close>, \<open>serve_loop.rs\<close>): a connection as a
    step function on which message loop, event forwarder and transport interleave. \<open>Rpc_Types\<close> and
    \<open>Engine_Rpc\<close> (\<open>server/handlers.rs\<close>, \<open>zhive-proto/src/rpc.rs\<close>): the engine's methods, from JSON to the
    actor and back.

  \<^item> Around the engine. \<open>Hook_Event\<close> (\<open>zhive-proto/src/hook.rs\<close>) and \<open>Hooks\<close> (\<open>zhive-core/src/hooks\<close>): the
    events told to hooks and the host that runs them, with time, cancellation and child processes.
    \<open>Builtin_Tools\<close> (\<open>tools/builtin\<close>): the tools over a map of files. \<open>Client\<close> and \<open>Client_Api\<close>
    (\<open>zhive-client-native\<close>): the table of waiting calls with the tasks that serve it, and the typed
    methods. \<open>Tui_Conversation\<close> (\<open>zhive-tui/src/protocol.rs\<close>, \<open>conversation.rs\<close>): what the terminal
    client makes of the notifications.

  \<^bold>\<open>How the model reads the code.\<close> A struct is a record, an enum a datatype, a handler a function
  from the state to its result and the new state; a lock is held within one statement and does not
  show. Errors are \<open>Inl\<close>. Rust strings are their UTF-8 bytes, counters of the state are words of their
  width. A broadcast channel is the list of what was sent, the bounded channel to the writer a list
  with its capacity. What the repository does not contain (serde, the provider SDK, SQLite, the file
  system, git, child processes, external tools, the clock) is a parameter: an argument, or a field of a
  \<open>*_world\<close> record. Where a task awaits, the world also says what other tasks do to the engine
  meanwhile, as a function on the engine state, and what the wait observes.

  \<^bold>\<open>What is shown.\<close> \<open>Engine_Run\<close> gives the invariant of every run (consistent handles, at most one
  top-level turn, the phase in step with it), that the engine becomes available again, and the two
  ways in which it does not. \<open>Turn_Loop\<close> shows that a whole turn, under any interference that is
  itself a run, refines those steps, always releases its thread, answers every call once and in
  order, and ends. \<open>Tool_Dispatch\<close> and \<open>Subagent_Spawner\<close> show when a call may run at all.
  \<open>Actor\<close> shows that any sequence of submissions is a run of that system and that each method gets
  the reply of its own kind. \<open>Stream_Fold\<close> shows that no text and no call is lost or doubled. The persistence theories show
  that what is written is read back: rollouts, resumes, forks, rewinds, and the index rebuilt from the
  log. \<open>Prompt\<close> shows that a request pairs every call with a result and offers exactly the permitted
  tools. \<open>Server\<close> shows, down to the bytes, that each request gets one response in order, that no
  handler runs before the handshake, and that events are forwarded in order; \<open>Engine_Rpc\<close> that a whole
  session of a client is a run of the engine. \<open>Client\<close> closes the loop: every call that is answered gets
  the answer of the server to that very call, and no call is settled twice. \<open>Hooks\<close> shows that the
  registry is a stable sort, that a dispatch ends, and that a hook that denies stops the call;
  \<open>Builtin_Tools\<close> that a failed write or edit leaves its target as it was. \<open>State_Db\<close> shows that the keys
  of the index always hold and that a rebuild is idempotent; \<open>Tui_Conversation\<close> that every event survives
  the wire and that a thread looks the same live and resumed. Theorems that state a defect of the code say so in their text.

  \<^bold>\<open>Bounds and fuel.\<close> No fuel is needed: the retry loop is bounded by its attempts (measure), the
  agent loop by \<open>max_turn_iterations\<close>, which is at most 1000, and every other loop runs over a list.
  A wait that may never end is the value \<open>None\<close> or the exit \<open>Waiting\<close>.

  \<^bold>\<open>Not modelled.\<close> The accept loop of the server, the drawing and the keys of the terminal
  client, the command line, the bridges, MCP, skill and extension discovery, the SQLite engine, the git
  shadow repository and tracing: input and output, or glue around libraries. The answer of the
  provider to a request is arbitrary in \<open>Turn_Loop\<close>. A handle that leaves the store while a task still
  holds it is not followed.
\<close>

end
